(* ===== verification/Prelude.thy ===== *)
theory Prelude
  imports Main "HOL-Library.Char_ord" "HOL-Library.List_Lexorder" "HOL-Library.Product_Lexorder"
    "HOL-Library.Multiset"
begin

text \<open>
  Shared vocabulary of the development: the parts of Go's standard library the server uses on
  strings and integers, and the generic list lemmas the component theories rest on.

  A Go string is a sequence of bytes, which is what \<^typ>\<open>string\<close> is in HOL (a list of 8-bit
  characters), so \<open>len\<close>, slicing, \<open><\<close> (bytewise lexicographic, from Char_ord and
  List_Lexorder) and \<open>strings.HasPrefix\<close> are the list operations.  Go \<open>int\<close> and
  \<open>int64\<close> are 64 bits wide: they are \<^typ>\<open>int\<close> here, and an arithmetic operation that can
  leave the range is wrapped with \<open>wrap64\<close>.  Go maps from strings to slices or booleans,
  whose missing keys read as the zero value, are total functions or sets.
\<close>

section \<open>Collections of rewrite rules\<close>

named_theorems go_str \<open>laws of the Go string operations\<close>
named_theorems yaml_get \<open>what a field read returns after a field write\<close>
named_theorems yaml_kind \<open>kinds and headers kept by the node operations\<close>

section \<open>64-bit integers\<close>

definition int64_min :: int where "int64_min = - (2 ^ 63)"
definition int64_max :: int where "int64_max = 2 ^ 63 - 1"

definition in_int64 :: "int \<Rightarrow> bool" where
  "in_int64 x \<longleftrightarrow> int64_min \<le> x \<and> x \<le> int64_max"

definition wrap64 :: "int \<Rightarrow> int" where
  "wrap64 x = (x + 2 ^ 63) mod 2 ^ 64 - 2 ^ 63"

lemma wrap64_id [simp]: "in_int64 x \<Longrightarrow> wrap64 x = x"
  by (simp add: in_int64_def wrap64_def int64_min_def int64_max_def)

lemma in_int64_wrap64 [simp]: "in_int64 (wrap64 x)"
proof -
  have "0 \<le> (x + 2 ^ 63) mod 2 ^ 64" and "(x + 2 ^ 63) mod 2 ^ 64 < 2 ^ 64" by simp_all
  then show ?thesis
    by (simp add: in_int64_def wrap64_def int64_min_def int64_max_def)
qed

lemma wrap64_add_left: "wrap64 (wrap64 a + b) = wrap64 (a + b)"
proof -
  have "((a + 2 ^ 63) mod 2 ^ 64 + b) mod 2 ^ 64 = ((a + 2 ^ 63) + b) mod (2 ^ 64 :: int)"
    by (simp add: mod_add_left_eq)
  moreover have "wrap64 a + b + 2 ^ 63 = (a + 2 ^ 63) mod 2 ^ 64 + b"
    by (simp add: wrap64_def)
  ultimately show ?thesis
    by (simp add: wrap64_def algebra_simps)
qed

section \<open>Strings\<close>

definition HasPrefix :: "string \<Rightarrow> string \<Rightarrow> bool" where
  "HasPrefix s p \<longleftrightarrow> take (length p) s = p"

definition HasSuffix :: "string \<Rightarrow> string \<Rightarrow> bool" where
  "HasSuffix s p \<longleftrightarrow> HasPrefix (rev s) (rev p)"

fun Contains :: "string \<Rightarrow> string \<Rightarrow> bool" where
  "Contains [] sub = (sub = [])"
| "Contains (c # s) sub = (HasPrefix (c # s) sub \<or> Contains s sub)"

lemma HasPrefix_append [simp]: "HasPrefix (p @ s) p"
  by (simp add: HasPrefix_def)

lemma HasPrefix_iff: "HasPrefix s p \<longleftrightarrow> (\<exists>t. s = p @ t)"
  by (metis HasPrefix_def append_eq_conv_conj append_take_drop_id)

lemma Contains_iff: "Contains s sub \<longleftrightarrow> (\<exists>a b. s = a @ sub @ b)"
proof (induction s)
  case Nil
  then show ?case by simp
next
  case (Cons c s)
  have "(\<exists>a b. c # s = a @ sub @ b) \<longleftrightarrow> (\<exists>b. c # s = sub @ b) \<or> (\<exists>a b. s = a @ sub @ b)"
    by (metis Cons_eq_append_conv append_Cons append_Nil)
  then show ?case using Cons by (simp add: HasPrefix_iff)
qed

text \<open>\<open>strings.IndexByte\<close> and \<open>strings.LastIndex\<close> on one byte: \<open>-1\<close> when absent.\<close>

definition IndexByte :: "string \<Rightarrow> char \<Rightarrow> int" where
  "IndexByte s c = (if c \<in> set s then int (length (takeWhile (\<lambda>x. x \<noteq> c) s)) else -1)"

definition LastIndexByte :: "string \<Rightarrow> char \<Rightarrow> int" where
  "LastIndexByte s c =
     (if c \<in> set s then int (length s) - 1 - int (length (takeWhile (\<lambda>x. x \<noteq> c) (rev s))) else -1)"

text \<open>The slice \<open>s[i:j]\<close>.\<close>

definition slice :: "'a list \<Rightarrow> nat \<Rightarrow> nat \<Rightarrow> 'a list" where
  "slice s i j = take (j - i) (drop i s)"

subsection \<open>\<open>strings.Split\<close> on one byte and \<open>strings.Join\<close>\<close>

fun split_aux :: "char \<Rightarrow> string \<Rightarrow> string \<Rightarrow> string list" where
  "split_aux sep acc [] = [acc]"
| "split_aux sep acc (c # s) =
     (if c = sep then acc # split_aux sep [] s else split_aux sep (acc @ [c]) s)"

definition Split :: "string \<Rightarrow> char \<Rightarrow> string list" where
  "Split s sep = split_aux sep [] s"

fun Join :: "string list \<Rightarrow> string \<Rightarrow> string" where
  "Join [] sep = []"
| "Join [x] sep = x"
| "Join (x # xs) sep = x @ sep @ Join xs sep"

lemma split_aux_nonempty [simp]: "split_aux sep acc s \<noteq> []"
  by (induction s arbitrary: acc) auto

lemma Split_nonempty [simp]: "Split s sep \<noteq> []"
  by (simp add: Split_def)

lemma Join_Cons [simp]: "xs \<noteq> [] \<Longrightarrow> Join (x # xs) sep = x @ sep @ Join xs sep"
  by (cases xs) auto

lemma Join_split_aux: "Join (split_aux sep acc s) [sep] = acc @ s"
  by (induction s arbitrary: acc) auto

lemma Join_Split [simp, go_str]: "Join (Split s sep) [sep] = s"
  by (simp add: Split_def Join_split_aux)

lemma split_aux_no_sep: "sep \<notin> set acc \<Longrightarrow> p \<in> set (split_aux sep acc s) \<Longrightarrow> sep \<notin> set p"
proof (induction s arbitrary: acc)
  case Nil
  then show ?case by simp
next
  case (Cons c s)
  then show ?case
    by (cases "c = sep") (auto dest: Cons.IH [rotated])
qed

lemma Split_no_sep [dest]: "p \<in> set (Split s sep) \<Longrightarrow> sep \<notin> set p"
  by (auto simp: Split_def dest: split_aux_no_sep [rotated])

lemma split_aux_append: "sep \<notin> set p \<Longrightarrow> split_aux sep acc (p @ s) = split_aux sep (acc @ p) s"
  by (induction p arbitrary: acc) auto

lemma Split_Join [go_str]:
  "ps \<noteq> [] \<Longrightarrow> \<forall>p\<in>set ps. sep \<notin> set p \<Longrightarrow> Split (Join ps [sep]) sep = ps"
proof (induction ps rule: list_nonempty_induct)
  case (single p)
  then show ?case using split_aux_append [of sep p "[]" "[]"] by (simp add: Split_def)
next
  case (cons p ps)
  then show ?case
    using split_aux_append [of sep p "[]" "sep # Join ps [sep]"] by (simp add: Split_def)
qed

lemma Split_singleton: "sep \<notin> set s \<Longrightarrow> Split s sep = [s]"
  using Split_Join [of "[s]" sep] by simp

lemma Split_eqI: "ps \<noteq> [] \<Longrightarrow> \<forall>p\<in>set ps. sep \<notin> set p \<Longrightarrow> s = Join ps [sep] \<Longrightarrow> Split s sep = ps"
  by (simp add: Split_Join)

lemma Split_Cons_field: "sep \<notin> set a \<Longrightarrow> Split (a @ sep # s) sep = a # Split s sep"
proof -
  assume a: "sep \<notin> set a"
  show ?thesis
  proof (rule Split_eqI)
    show "a @ sep # s = Join (a # Split s sep) [sep]" by simp
  qed (use a Split_no_sep in auto)
qed

lemma Join_append:
  "xs \<noteq> [] \<Longrightarrow> ys \<noteq> [] \<Longrightarrow> Join (xs @ ys) sep = Join xs sep @ sep @ Join ys sep"
  by (induction xs rule: list_nonempty_induct) auto

lemma Split_snoc_field: "sep \<notin> set t \<Longrightarrow> Split (s @ sep # t) sep = Split s sep @ [t]"
proof -
  assume t: "sep \<notin> set t"
  show ?thesis
  proof (rule Split_eqI)
    show "s @ sep # t = Join (Split s sep @ [t]) [sep]" by (simp add: Join_append)
  qed (use t Split_no_sep in auto)
qed

subsection \<open>Names with a prefix\<close>

lemma cons_append_unique:
  "c \<notin> set a \<Longrightarrow> c \<notin> set b \<Longrightarrow> a @ c # x = b @ c # y \<longleftrightarrow> a = b \<and> x = y"
proof (induction a arbitrary: b)
  case Nil
  then show ?case by (cases b) auto
next
  case (Cons d a)
  then show ?case by (cases b) auto
qed

definition lower_name :: "string \<Rightarrow> bool" where
  "lower_name s \<longleftrightarrow> s \<noteq> [] \<and> list_all (\<lambda>c. CHR ''a'' \<le> c \<and> c \<le> CHR ''z'') s"

lemma lower_name_chars:
  "lower_name s \<Longrightarrow> c \<in> set s \<Longrightarrow> c \<noteq> CHR ''_'' \<and> c \<noteq> CHR '','' \<and> c \<noteq> CHR ''@''"
  by (auto simp: lower_name_def list_all_iff)

lemma lower_name_no_underscore: "lower_name s \<Longrightarrow> CHR ''_'' \<notin> set s"
  and lower_name_no_comma: "lower_name s \<Longrightarrow> CHR '','' \<notin> set s"
  using lower_name_chars by blast+

lemma prefixed_names_eq [simp]:
  "lower_name a \<Longrightarrow> lower_name b \<Longrightarrow> a @ CHR ''_'' # x = b @ CHR ''_'' # y \<longleftrightarrow> a = b \<and> x = y"
  by (simp add: cons_append_unique lower_name_no_underscore)

lemma prefixed_name_not_own [simp]: "lower_name a \<Longrightarrow> a @ x \<noteq> CHR ''_'' # y"
  by (cases a) (auto simp: lower_name_def)

section \<open>Lists\<close>

text \<open>
  Three of the merge passes extend a member list by the entries not yet in it, with a
  \<open>seen\<close> set built from the list first: \<open>add_unseen\<close> is that inner loop and
  \<open>union_members\<close> the loop with its set.
\<close>

fun add_unseen :: "'a set \<Rightarrow> 'a list \<Rightarrow> 'a list \<Rightarrow> 'a list" where
  "add_unseen seen existing [] = existing"
| "add_unseen seen existing (n # ns) =
     (if n \<in> seen then add_unseen seen existing ns
      else add_unseen (insert n seen) (existing @ [n]) ns)"

definition union_members :: "'a list \<Rightarrow> 'a list \<Rightarrow> 'a list" where
  "union_members existing new = add_unseen (set existing) existing new"

lemma set_add_unseen: "seen = set existing \<Longrightarrow> set (add_unseen seen existing ns) = set existing \<union> set ns"
  by (induction seen existing ns rule: add_unseen.induct) auto

lemma distinct_add_unseen:
  "seen = set existing \<Longrightarrow> distinct existing \<Longrightarrow> distinct (add_unseen seen existing ns)"
  by (induction seen existing ns rule: add_unseen.induct) auto

lemma add_unseen_prefix: "\<exists>t. add_unseen seen existing ns = existing @ t \<and> set t \<subseteq> set ns"
proof (induction seen existing ns rule: add_unseen.induct)
  case (1 seen existing)
  then show ?case by simp
next
  case (2 seen existing n ns)
  show ?case
  proof (cases "n \<in> seen")
    case True
    with 2(1) obtain t where "add_unseen seen existing ns = existing @ t" "set t \<subseteq> set ns" by blast
    with True show ?thesis by auto
  next
    case False
    with 2(2) obtain t where "add_unseen (insert n seen) (existing @ [n]) ns = (existing @ [n]) @ t"
      "set t \<subseteq> set ns" by blast
    with False show ?thesis by (auto intro!: exI [of _ "n # t"])
  qed
qed

lemma set_union_members [simp]: "set (union_members xs ys) = set xs \<union> set ys"
  by (simp add: union_members_def set_add_unseen)

lemma distinct_union_members [intro]: "distinct xs \<Longrightarrow> distinct (union_members xs ys)"
  by (simp add: union_members_def distinct_add_unseen)

lemma union_members_prefix: "\<exists>t. union_members xs ys = xs @ t \<and> set t \<subseteq> set ys"
  by (simp add: union_members_def add_unseen_prefix)

lemma add_unseen_absorb: "set ns \<subseteq> seen \<Longrightarrow> add_unseen seen existing ns = existing"
  by (induction seen existing ns rule: add_unseen.induct) auto

lemma union_members_absorb: "set ys \<subseteq> set xs \<Longrightarrow> union_members xs ys = xs"
  by (simp add: union_members_def add_unseen_absorb)

subsection \<open>Sorting\<close>

text \<open>
  What \<open>sort.Slice\<close> promises when the less function compares a key (the order of elements
  with equal keys is not specified), and what \<open>sort.SliceStable\<close> adds.
\<close>

locale slice_sorter =
  fixes sorter :: "'a list \<Rightarrow> 'a list" and key :: "'a \<Rightarrow> 'k::linorder"
  assumes sorter_mset: "mset (sorter xs) = mset xs"
    and sorter_sorted: "sorted (map key (sorter xs))"
begin

lemma sorter_set: "set (sorter xs) = set xs"
  using sorter_mset [of xs] by (metis set_mset_mset)

lemma sorter_length: "length (sorter xs) = length xs"
  using sorter_mset [of xs] by (metis size_mset)

lemma sorter_distinct: "distinct (map f (sorter xs)) \<longleftrightarrow> distinct (map f xs)"
  using sorter_mset [of xs] by (metis mset_map mset_eq_imp_distinct_iff)

lemma sorter_unique:
  assumes "distinct (map key xs)"
  shows "sorter xs = sort_key key xs"
proof -
  have "inj_on key (set xs)" using assms by (simp add: distinct_map)
  then have "sort_key key xs = sorter xs"
    by (intro sort_key_inj_key_eq) (simp_all add: sorter_mset sorter_sorted)
  then show ?thesis by simp
qed

end

locale stable_sorter = slice_sorter +
  assumes sorter_stable: "filter (\<lambda>y. key y = k) (sorter xs) = filter (\<lambda>y. key y = k) xs"
begin

lemma sorter_eq: "sorter xs = sort_key key xs"
proof -
  have "filter (\<lambda>x. key k = key x) (sorter xs) = filter (\<lambda>x. key k = key x) xs" for k
    using sorter_stable [of "key k" xs] by (simp add: eq_commute)
  then show ?thesis
    using properties_for_sort_key [of "sorter xs" xs key] by (simp add: sorter_mset sorter_sorted)
qed

end

interpretation sk: stable_sorter "sort_key key" key for key :: "'a \<Rightarrow> 'k::linorder"
  by unfold_locales (simp_all add: sort_key_stable)

end
