(* ===== verification/Go_Text.thy ===== *)
theory Go_Text
  imports Prelude
begin

text \<open>
  The text routines of Go's standard library the server calls: UTF-8 decoding and encoding
  (\<open>unicode/utf8\<close>), \<open>strings.TrimSpace\<close>, \<open>strings.ToLower\<close>, \<open>strings.EqualFold\<close>
  against an ASCII literal, and the number routines of \<open>strconv\<close>.

  \<open>strings.ToLower\<close> uses Unicode's case table outside ASCII; the table is the parameter
  \<open>ulower\<close> (rune to rune) of the definitions that use it.
\<close>

section \<open>UTF-8\<close>

abbreviation byte :: "char \<Rightarrow> nat" where "byte c \<equiv> of_char c"

definition RuneError :: nat where "RuneError = 0xFFFD"

text \<open>Size and range of the second byte for a leading byte; size 0 marks an invalid one.\<close>

definition lead_info :: "nat \<Rightarrow> nat \<times> nat \<times> nat" where
  "lead_info b =
     (if b < 0x80 then (1, 0, 0)
      else if b < 0xC2 then (0, 0, 0)
      else if b \<le> 0xDF then (2, 0x80, 0xBF)
      else if b = 0xE0 then (3, 0xA0, 0xBF)
      else if b = 0xED then (3, 0x80, 0x9F)
      else if b \<le> 0xEF then (3, 0x80, 0xBF)
      else if b = 0xF0 then (4, 0x90, 0xBF)
      else if b \<le> 0xF3 then (4, 0x80, 0xBF)
      else if b = 0xF4 then (4, 0x80, 0x8F)
      else (0, 0, 0))"

definition is_cont :: "nat \<Rightarrow> bool" where "is_cont b \<longleftrightarrow> 0x80 \<le> b \<and> b \<le> 0xBF"

text \<open>\<open>utf8.DecodeRuneInString\<close>: the rune and its width; an invalid encoding is
  \<open>(RuneError, 1)\<close>, the empty string \<open>(RuneError, 0)\<close>.\<close>

definition DecodeRune :: "string \<Rightarrow> nat \<times> nat" where
  "DecodeRune s = (case s of
      [] \<Rightarrow> (RuneError, 0)
    | c # r \<Rightarrow>
        (let p0 = byte c; (sz, lo, hi) = lead_info p0 in
         if sz = 1 then (p0, 1)
         else if sz = 0 \<or> length s < sz then (RuneError, 1)
         else let b1 = byte (r ! 0) in
           if b1 < lo \<or> hi < b1 then (RuneError, 1)
           else if sz = 2 then ((p0 - 0xC0) * 64 + (b1 - 0x80), 2)
           else let b2 = byte (r ! 1) in
             if \<not> is_cont b2 then (RuneError, 1)
             else if sz = 3 then ((p0 - 0xE0) * 4096 + (b1 - 0x80) * 64 + (b2 - 0x80), 3)
             else let b3 = byte (r ! 2) in
               if \<not> is_cont b3 then (RuneError, 1)
               else ((p0 - 0xF0) * 262144 + (b1 - 0x80) * 4096 + (b2 - 0x80) * 64 + (b3 - 0x80), 4)))"

definition valid_rune :: "nat \<Rightarrow> bool" where
  "valid_rune r \<longleftrightarrow> r < 0xD800 \<or> 0xDFFF < r \<and> r \<le> 0x10FFFF"

definition encode3 :: "nat \<Rightarrow> string" where
  "encode3 r = [char_of (0xE0 + r div 4096), char_of (0x80 + r div 64 mod 64), char_of (0x80 + r mod 64)]"

text \<open>\<open>utf8.EncodeRune\<close>: a surrogate or a value past the last code point encodes as
  \<open>RuneError\<close>.\<close>

definition EncodeRune :: "nat \<Rightarrow> string" where
  "EncodeRune r =
     (if r \<le> 0x7F then [char_of r]
      else if r \<le> 0x7FF then [char_of (0xC0 + r div 64), char_of (0x80 + r mod 64)]
      else if \<not> valid_rune r then encode3 RuneError
      else if r \<le> 0xFFFF then encode3 r
      else [char_of (0xF0 + r div 262144), char_of (0x80 + r div 4096 mod 64),
            char_of (0x80 + r div 64 mod 64), char_of (0x80 + r mod 64)])"

lemma byte_char_of: "n < 256 \<Longrightarrow> byte (char_of n) = n"
  by simp

lemma byte_less [simp]: "byte c < 256"
  by (metis of_char_mod_256 mod_less_divisor zero_less_numeral)

lemma snd_DecodeRune: "s \<noteq> [] \<Longrightarrow> 0 < snd (DecodeRune s)"
  by (cases s) (simp_all add: DecodeRune_def Let_def split: prod.splits)

function runes :: "string \<Rightarrow> nat list" where
  "runes s = (if s = [] then [] else fst (DecodeRune s) # runes (drop (snd (DecodeRune s)) s))"
  by pat_completeness auto
termination
  by (relation "measure length") (auto simp: snd_DecodeRune)

declare runes.simps [simp del]

lemma DecodeRune_2:
  "lead_info (byte c0) = (2, lo, hi) \<Longrightarrow> lo \<le> byte c1 \<Longrightarrow> byte c1 \<le> hi \<Longrightarrow>
     DecodeRune (c0 # c1 # s) = ((byte c0 - 0xC0) * 64 + (byte c1 - 0x80), 2)"
  by (simp add: DecodeRune_def)

lemma DecodeRune_3:
  "lead_info (byte c0) = (3, lo, hi) \<Longrightarrow> lo \<le> byte c1 \<Longrightarrow> byte c1 \<le> hi \<Longrightarrow> is_cont (byte c2) \<Longrightarrow>
     DecodeRune (c0 # c1 # c2 # s) =
       ((byte c0 - 0xE0) * 4096 + (byte c1 - 0x80) * 64 + (byte c2 - 0x80), 3)"
  by (simp add: DecodeRune_def)

lemma DecodeRune_4:
  "lead_info (byte c0) = (4, lo, hi) \<Longrightarrow> lo \<le> byte c1 \<Longrightarrow> byte c1 \<le> hi \<Longrightarrow>
     is_cont (byte c2) \<Longrightarrow> is_cont (byte c3) \<Longrightarrow>
     DecodeRune (c0 # c1 # c2 # c3 # s) =
       ((byte c0 - 0xF0) * 262144 + (byte c1 - 0x80) * 4096 + (byte c2 - 0x80) * 64 + (byte c3 - 0x80), 4)"
  by (simp add: DecodeRune_def Let_def)

lemma split64: "(r::nat) = r div 64 * 64 + r mod 64" "r mod 64 < 64"
  by simp_all

lemma split4096: "(r::nat) = r div 4096 * 4096 + r div 64 mod 64 * 64 + r mod 64"
proof -
  have "r div 4096 = r div 64 div 64" by (simp flip: div_mult2_eq)
  then show ?thesis using split64(1) [of r] split64(1) [of "r div 64"] by linarith
qed

lemma split262144: "(r::nat) = r div 262144 * 262144 + r div 4096 mod 64 * 4096 + r div 64 mod 64 * 64 + r mod 64"
proof -
  have "r div 262144 = r div 4096 div 64" by (simp flip: div_mult2_eq)
  then show ?thesis using split4096 [of r] split64(1) [of "r div 4096"] by linarith
qed

lemma DecodeRune_EncodeRune_2:
  assumes "0x80 \<le> r" and "r \<le> 0x7FF"
  shows "DecodeRune (EncodeRune r @ s) = (r, 2)"
proof -
  define a b where ab: "a = r div 64" "b = r mod 64"
  have r: "r = a * 64 + b" and b: "b < 64" using split64 [of r] by (simp_all add: ab)
  then have a: "a < 32" "2 \<le> a" using assms by linarith+
  have bytes: "byte (char_of (0xC0 + a)) = 0xC0 + a" "byte (char_of (0x80 + b)) = 0x80 + b"
    using a b by (intro byte_char_of; simp)+
  have "lead_info (0xC0 + a) = (2, 0x80, 0xBF)" using a by (simp add: lead_info_def)
  then have "DecodeRune (char_of (0xC0 + a) # char_of (0x80 + b) # s) = (a * 64 + b, 2)"
    using DecodeRune_2 [of "char_of (0xC0 + a)" "0x80" "0xBF" "char_of (0x80 + b)" s] b
    unfolding bytes by simp
  moreover have "EncodeRune r = [char_of (0xC0 + a), char_of (0x80 + b)]"
    using assms by (simp add: EncodeRune_def ab)
  ultimately show ?thesis using r by simp
qed

lemma DecodeRune_EncodeRune_3:
  assumes "0x800 \<le> r" and "r \<le> 0xFFFF" and "valid_rune r"
  shows "DecodeRune (EncodeRune r @ s) = (r, 3)"
proof -
  define a b c where abc: "a = r div 4096" "b = r div 64 mod 64" "c = r mod 64"
  have r: "r = a * 4096 + b * 64 + c" using split4096 [of r] by (simp add: abc)
  have bc: "b < 64" "c < 64" by (simp_all add: abc)
  have a: "a < 16" using r assms(2) by linarith
  have ranges: "a = 0 \<Longrightarrow> 32 \<le> b" "a = 13 \<Longrightarrow> b < 32"
    using assms(1,3) r bc by (auto simp: valid_rune_def)
  have bytes: "byte (char_of (0xE0 + a)) = 0xE0 + a" "byte (char_of (0x80 + b)) = 0x80 + b"
    "byte (char_of (0x80 + c)) = 0x80 + c"
    using a bc by (intro byte_char_of; simp)+
  obtain lo hi where li: "lead_info (0xE0 + a) = (3, lo, hi)" "lo \<le> 0x80 + b" "0x80 + b \<le> hi"
    using a bc ranges by (cases "a = 0"; cases "a = 13") (simp_all add: lead_info_def)
  have "DecodeRune (char_of (0xE0 + a) # char_of (0x80 + b) # char_of (0x80 + c) # s) =
      (a * 4096 + b * 64 + c, 3)"
    using DecodeRune_3 [of "char_of (0xE0 + a)" lo hi "char_of (0x80 + b)" "char_of (0x80 + c)" s] li bc
    unfolding bytes by (simp add: is_cont_def)
  moreover have "EncodeRune r = [char_of (0xE0 + a), char_of (0x80 + b), char_of (0x80 + c)]"
    using assms by (simp add: EncodeRune_def encode3_def abc)
  ultimately show ?thesis using r by simp
qed

lemma DecodeRune_EncodeRune_4:
  assumes "0x10000 \<le> r" and "valid_rune r"
  shows "DecodeRune (EncodeRune r @ s) = (r, 4)"
proof -
  define a b c d where abc: "a = r div 262144" "b = r div 4096 mod 64" "c = r div 64 mod 64" "d = r mod 64"
  have r: "r = a * 262144 + b * 4096 + c * 64 + d" using split262144 [of r] by (simp add: abc)
  have le: "r \<le> 0x10FFFF" using assms by (auto simp: valid_rune_def)
  have bcd: "b < 64" "c < 64" "d < 64" by (simp_all add: abc)
  have a: "a < 5" using le r by linarith
  have ranges: "a = 0 \<Longrightarrow> 16 \<le> b" "a = 4 \<Longrightarrow> b < 16" using assms(1) le r bcd by linarith+
  have bytes: "byte (char_of (0xF0 + a)) = 0xF0 + a" "byte (char_of (0x80 + b)) = 0x80 + b"
    "byte (char_of (0x80 + c)) = 0x80 + c" "byte (char_of (0x80 + d)) = 0x80 + d"
    using a bcd by (intro byte_char_of; simp)+
  obtain lo hi where li: "lead_info (0xF0 + a) = (4, lo, hi)" "lo \<le> 0x80 + b" "0x80 + b \<le> hi"
    using a bcd ranges by (cases "a = 0"; cases "a = 4") (simp_all add: lead_info_def)
  have "DecodeRune (char_of (0xF0 + a) # char_of (0x80 + b) # char_of (0x80 + c) # char_of (0x80 + d) # s) =
      (a * 262144 + b * 4096 + c * 64 + d, 4)"
    using DecodeRune_4 [of "char_of (0xF0 + a)" lo hi "char_of (0x80 + b)" "char_of (0x80 + c)"
        "char_of (0x80 + d)" s] li bcd
    unfolding bytes by (simp add: is_cont_def)
  moreover have "EncodeRune r = [char_of (0xF0 + a), char_of (0x80 + b), char_of (0x80 + c), char_of (0x80 + d)]"
    using assms by (simp add: EncodeRune_def abc)
  ultimately show ?thesis using r by simp
qed

lemma DecodeRune_EncodeRune:
  assumes "valid_rune r"
  shows "DecodeRune (EncodeRune r @ s) = (r, length (EncodeRune r))"
proof -
  consider "r \<le> 0x7F" | "0x80 \<le> r" "r \<le> 0x7FF" | "0x800 \<le> r" "r \<le> 0xFFFF" | "0x10000 \<le> r"
    by linarith
  then show ?thesis
  proof cases
    case 1
    then show ?thesis by (simp add: DecodeRune_def EncodeRune_def lead_info_def)
  next
    case 2
    then show ?thesis using DecodeRune_EncodeRune_2 by (simp add: EncodeRune_def)
  next
    case 3
    then show ?thesis using DecodeRune_EncodeRune_3 assms by (simp add: EncodeRune_def encode3_def)
  next
    case 4
    then show ?thesis using DecodeRune_EncodeRune_4 assms by (simp add: EncodeRune_def)
  qed
qed

lemma runes_encode:
  "\<forall>r\<in>set rs. valid_rune r \<Longrightarrow> runes (concat (map EncodeRune rs)) = rs"
proof (induction rs)
  case Nil
  then show ?case by (simp add: runes.simps)
next
  case (Cons r rs)
  then have "DecodeRune (EncodeRune r @ concat (map EncodeRune rs)) = (r, length (EncodeRune r))"
    by (simp add: DecodeRune_EncodeRune)
  moreover have "EncodeRune r \<noteq> []" by (simp add: EncodeRune_def encode3_def)
  ultimately show ?case using Cons by (simp add: runes.simps [of "EncodeRune r @ _"])
qed

section \<open>\<open>strings.ToLower\<close>, \<open>strings.EqualFold\<close>, \<open>strings.TrimSpace\<close>\<close>

definition lower_rune :: "(nat \<Rightarrow> nat) \<Rightarrow> nat \<Rightarrow> nat" where
  "lower_rune ulower r =
     (if 65 \<le> r \<and> r \<le> 90 then r + 32 else if r < 128 then r else ulower r)"

definition ToLower :: "(nat \<Rightarrow> nat) \<Rightarrow> string \<Rightarrow> string" where
  "ToLower ulower s = concat (map (\<lambda>r. EncodeRune (lower_rune ulower r)) (runes s))"

text \<open>Folding for a comparison with an ASCII literal: outside ASCII only U+017F (long s) and
  U+212A (Kelvin sign) fold to an ASCII letter.\<close>

definition fold_rune :: "nat \<Rightarrow> nat" where
  "fold_rune r =
     (if 65 \<le> r \<and> r \<le> 90 then r + 32 else if r = 0x17F then 115 else if r = 0x212A then 107 else r)"

definition EqualFold :: "string \<Rightarrow> string \<Rightarrow> bool" where
  "EqualFold s t \<longleftrightarrow> map fold_rune (runes s) = map fold_rune (runes t)"

lemma runes_ascii: "list_all (\<lambda>c. byte c < 128) s \<Longrightarrow> runes s = map byte s"
proof (induction s)
  case Nil
  then show ?case by (simp add: runes.simps)
next
  case (Cons c s)
  then show ?case
    by (simp add: runes.simps [of "c # s"] DecodeRune_def lead_info_def)
qed

definition lower_char :: "char \<Rightarrow> char" where
  "lower_char c = (if 65 \<le> byte c \<and> byte c \<le> 90 then char_of (byte c + 32) else c)"

lemma ToLower_ascii:
  assumes "list_all (\<lambda>c. byte c < 128) s"
  shows "ToLower ulower s = map lower_char s"
proof -
  have "map (\<lambda>r. EncodeRune (lower_rune ulower r)) (map byte s) = map (\<lambda>c. [lower_char c]) s"
    using assms by (auto simp: lower_rune_def EncodeRune_def lower_char_def list_all_iff)
  moreover have "concat (map (\<lambda>c. [f c]) s) = map f s" for f :: "char \<Rightarrow> char"
    by (induction s) auto
  ultimately show ?thesis
    unfolding ToLower_def runes_ascii [OF assms] by (simp only:)
qed

text \<open>The encodings of the runes \<open>unicode.IsSpace\<close> accepts.\<close>

definition space_encodings :: "string list" where
  "space_encodings = map EncodeRune
     ([9, 10, 11, 12, 13, 32, 0x85, 0xA0, 0x1680] @ [0x2000..<0x200B] @
      [0x2028, 0x2029, 0x202F, 0x205F, 0x3000])"

fun strip_one :: "string list \<Rightarrow> string \<Rightarrow> string option" where
  "strip_one [] s = None"
| "strip_one (w # ws) s = (if w \<noteq> [] \<and> HasPrefix s w then Some (drop (length w) s) else strip_one ws s)"

lemma strip_one_less: "strip_one ws s = Some s' \<Longrightarrow> length s' < length s"
  by (induction ws s rule: strip_one.induct) (auto simp: HasPrefix_iff split: if_splits)

function trim_left :: "string list \<Rightarrow> string \<Rightarrow> string" where
  "trim_left ws s = (case strip_one ws s of None \<Rightarrow> s | Some s' \<Rightarrow> trim_left ws s')"
  by pat_completeness auto
termination
  by (relation "measure (length \<circ> snd)") (auto simp: strip_one_less)

declare trim_left.simps [simp del]

definition TrimSpace :: "string \<Rightarrow> string" where
  "TrimSpace s = rev (trim_left (map rev space_encodings) (rev (trim_left space_encodings s)))"

section \<open>Numbers\<close>

definition is_digit :: "char \<Rightarrow> bool" where
  "is_digit c \<longleftrightarrow> 48 \<le> byte c \<and> byte c \<le> 57"

fun digits_value :: "nat \<Rightarrow> string \<Rightarrow> nat" where
  "digits_value acc [] = acc"
| "digits_value acc (c # s) = digits_value (10 * acc + (byte c - 48)) s"

definition ParseUint :: "string \<Rightarrow> nat option" where
  "ParseUint s = (if s \<noteq> [] \<and> list_all is_digit s then Some (digits_value 0 s) else None)"

text \<open>\<open>strconv.ParseInt(s, 10, 64)\<close> and \<open>strconv.Atoi\<close>: \<open>None\<close> is a syntax or a
  range error.\<close>

definition ParseInt :: "string \<Rightarrow> int option" where
  "ParseInt s = (case s of
      [] \<Rightarrow> None
    | c # r \<Rightarrow>
        (let neg = (c = CHR ''-'');
             body = (if c = CHR ''-'' \<or> c = CHR ''+'' then r else s)
         in case ParseUint body of
              None \<Rightarrow> None
            | Some un \<Rightarrow>
                if \<not> neg \<and> 2 ^ 63 \<le> un then None
                else if neg \<and> 2 ^ 63 < un then None
                else Some (if neg then - int un else int un)))"

abbreviation Atoi :: "string \<Rightarrow> int option" where "Atoi \<equiv> ParseInt"

fun utoa :: "nat \<Rightarrow> string" where
  "utoa n = (if n < 10 then [char_of (48 + n)] else utoa (n div 10) @ [char_of (48 + n mod 10)])"

declare utoa.simps [simp del]

definition Itoa :: "int \<Rightarrow> string" where
  "Itoa i = (if i < 0 then ''-'' @ utoa (nat (- i)) else utoa (nat i))"

definition FormatBool :: "bool \<Rightarrow> string" where
  "FormatBool b = (if b then ''true'' else ''false'')"

definition ParseBool :: "string \<Rightarrow> bool option" where
  "ParseBool s =
     (if s \<in> {''1'', ''t'', ''T'', ''TRUE'', ''true'', ''True''} then Some True
      else if s \<in> {''0'', ''f'', ''F'', ''FALSE'', ''false'', ''False''} then Some False
      else None)"

lemma digits_value_append: "digits_value acc (s @ t) = digits_value (digits_value acc s) t"
  by (induction acc s rule: digits_value.induct) auto

lemma utoa_digits: "utoa n \<noteq> [] \<and> list_all is_digit (utoa n) \<and> digits_value 0 (utoa n) = n"
proof (induction n rule: utoa.induct)
  case (1 n)
  show ?case
  proof (cases "n < 10")
    case True
    then show ?thesis by (subst (1 2 3) utoa.simps) (simp add: is_digit_def)
  next
    case False
    have m: "n mod 10 < 10" by simp
    then have d: "byte (char_of (48 + n mod 10)) = 48 + n mod 10" by (intro byte_char_of) linarith
    then have "is_digit (char_of (48 + n mod 10))" using m unfolding is_digit_def by linarith
    with False 1 d show ?thesis
      by (subst (1 2 3) utoa.simps) (simp add: digits_value_append)
  qed
qed

lemma ParseUint_utoa [simp]: "ParseUint (utoa n) = Some n"
  using utoa_digits [of n] by (simp add: ParseUint_def)

lemma utoa_hd: "\<exists>c r. utoa n = c # r \<and> is_digit c"
  using utoa_digits [of n] by (cases "utoa n") auto

lemma digit_not_sign: "is_digit c \<Longrightarrow> c \<noteq> CHR ''-'' \<and> c \<noteq> CHR ''+''"
  by (auto simp: is_digit_def)

lemma ParseInt_Itoa [simp]:
  assumes "in_int64 i"
  shows "ParseInt (Itoa i) = Some i"
proof (cases "i < 0")
  case True
  then have "nat (- i) \<le> 2 ^ 63" using assms by (simp add: in_int64_def int64_min_def nat_le_iff)
  with True show ?thesis by (simp add: ParseInt_def Itoa_def Let_def)
next
  case False
  obtain c r where u: "utoa (nat i) = c # r" "is_digit c" using utoa_hd by blast
  have "nat i < 2 ^ 63" using assms False by (simp add: in_int64_def int64_max_def nat_less_iff)
  with False u digit_not_sign [OF u(2)] ParseUint_utoa [of "nat i"] show ?thesis
    by (simp add: ParseInt_def Itoa_def Let_def)
qed

lemma ParseInt_range: "ParseInt s = Some i \<Longrightarrow> in_int64 i"
  by (auto simp: ParseInt_def Let_def in_int64_def int64_min_def int64_max_def
      split: list.splits option.splits if_splits)

lemma ParseBool_FormatBool [simp]: "ParseBool (FormatBool b) = Some b"
  by (simp add: ParseBool_def FormatBool_def)

end
