(* ===== verification/Subscriptions.thy ===== *)
theory Subscriptions
  imports Go_Text
begin

text \<open>
  \<open>internal/config/subscriptions.go\<close>: the subscriptions CSV.  The CSV reader of Go's
  library is the list of its \<open>Read\<close> results (an error or a record; the end of the list is
  \<open>io.EOF\<close>), and \<open>url.Parse\<close> is the parameter \<open>urlParse\<close>, which gives the scheme and
  the host.  The message of a validation error is a value of \<open>reason\<close>.
\<close>

section \<open>Definitions\<close>

record SubscriptionRow =
  row_Name :: string
  row_Link :: string
  row_Priority :: int
  row_Enable :: bool
  row_RefreshSeconds :: int
  row_StaleOnErrorSeconds :: int

datatype reason =
    REmpty
  | RDuplicateOf nat
  | RInvalidURL string
  | RNotInteger string
  | RBadEnable string
  | RNotPositive string

datatype config_error =
    ConfigLoadError (err_path: string) (err_cause: string)
  | ReadHeaderError
  | ReadRowError nat
  | ConfigSchemaError (err_missing: "string list") (err_unknown: "string list")
  | ConfigValidationError (err_row: nat) (err_field: string) (err_reason: reason)

type_synonym csv_reads = "(string + string list) list"
type_synonym url_parser = "string \<Rightarrow> (string \<times> string) option"

definition requiredCols :: "string list" where
  "requiredCols = [''name'', ''link'', ''priority'', ''enable'']"

definition optionalCols :: "string list" where
  "optionalCols = [''refresh'', ''stale_on_error_seconds'']"

text \<open>The header loop: unknown columns are collected, a known column's last index wins.\<close>

fun headerCols ::
  "(nat \<Rightarrow> nat) \<Rightarrow> nat \<Rightarrow> string list \<Rightarrow> (string \<rightharpoonup> nat) \<Rightarrow> string list \<Rightarrow> (string \<rightharpoonup> nat) \<times> string list" where
  "headerCols ulower i [] colIdx unknown = (colIdx, unknown)"
| "headerCols ulower i (h # hs) colIdx unknown =
     (let key = ToLower ulower (TrimSpace h) in
      if key \<notin> set (requiredCols @ optionalCols)
      then headerCols ulower (Suc i) hs colIdx (unknown @ [key])
      else headerCols ulower (Suc i) hs (colIdx(key \<mapsto> i)) unknown)"

definition getCol :: "string list \<Rightarrow> (string \<rightharpoonup> nat) \<Rightarrow> string \<Rightarrow> string \<times> bool" where
  "getCol rec colIdx col = (case colIdx col of
      None \<Rightarrow> ([], False)
    | Some idx \<Rightarrow> if length rec \<le> idx then ([], False) else (TrimSpace (rec ! idx), True))"

definition validLink :: "url_parser \<Rightarrow> string \<Rightarrow> bool" where
  "validLink urlParse link = (case urlParse link of
      None \<Rightarrow> False
    | Some (scheme, host) \<Rightarrow> (scheme = ''http'' \<or> scheme = ''https'') \<and> host \<noteq> [])"

text \<open>The two optional columns at the end of \<open>parseRow\<close>.\<close>

definition parseOptional ::
  "string list \<Rightarrow> (string \<rightharpoonup> nat) \<Rightarrow> nat \<Rightarrow> SubscriptionRow \<Rightarrow> config_error + SubscriptionRow" where
  "parseOptional rec colIdx rowNum row0 =
     (case (let (v, ok) = getCol rec colIdx ''refresh'' in
            if ok \<and> v \<noteq> [] then
              (case Atoi v of
                 None \<Rightarrow> Inl (ConfigValidationError rowNum ''refresh'' (RNotInteger v))
               | Some n \<Rightarrow> Inr (row0\<lparr>row_RefreshSeconds := n\<rparr>))
            else Inr row0) of
        Inl e \<Rightarrow> Inl e
      | Inr row \<Rightarrow>
          (let (v, ok) = getCol rec colIdx ''stale_on_error_seconds'' in
           if ok \<and> v \<noteq> [] then
             (case Atoi v of
                None \<Rightarrow> Inl (ConfigValidationError rowNum ''stale_on_error_seconds'' (RNotPositive v))
              | Some n \<Rightarrow>
                  if n \<le> 0 then Inl (ConfigValidationError rowNum ''stale_on_error_seconds'' (RNotPositive v))
                  else Inr (row\<lparr>row_StaleOnErrorSeconds := n\<rparr>))
           else Inr row))"

definition parseRow ::
  "url_parser \<Rightarrow> string list \<Rightarrow> (string \<rightharpoonup> nat) \<Rightarrow> nat \<Rightarrow> config_error + SubscriptionRow" where
  "parseRow urlParse rec colIdx rowNum =
     (let name = fst (getCol rec colIdx ''name'') in
      if name = [] then Inl (ConfigValidationError rowNum ''name'' REmpty)
      else let link = fst (getCol rec colIdx ''link'') in
      if \<not> validLink urlParse link then Inl (ConfigValidationError rowNum ''link'' (RInvalidURL link))
      else let priorityStr = fst (getCol rec colIdx ''priority'') in
      case Atoi priorityStr of
        None \<Rightarrow> Inl (ConfigValidationError rowNum ''priority'' (RNotInteger priorityStr))
      | Some p \<Rightarrow>
          let enableStr = fst (getCol rec colIdx ''enable'') in
          if \<not> EqualFold enableStr ''Enable'' \<and> \<not> EqualFold enableStr ''Disable''
          then Inl (ConfigValidationError rowNum ''enable'' (RBadEnable enableStr))
          else parseOptional rec colIdx rowNum
            \<lparr>row_Name = name, row_Link = link, row_Priority = p,
             row_Enable = EqualFold enableStr ''Enable'',
             row_RefreshSeconds = 0, row_StaleOnErrorSeconds = 0\<rparr>)"

text \<open>The row loop: a name of the wrong format skips the row, every other problem stops.\<close>

fun parseRows ::
  "url_parser \<Rightarrow> (string \<rightharpoonup> nat) \<Rightarrow> nat \<Rightarrow> (string \<rightharpoonup> nat) \<Rightarrow> SubscriptionRow list \<Rightarrow> csv_reads
     \<Rightarrow> config_error + SubscriptionRow list" where
  "parseRows urlParse colIdx rowNum seen rows [] = Inr rows"
| "parseRows urlParse colIdx rowNum seen rows (Inl e # reads) = Inl (ReadRowError (rowNum + 1))"
| "parseRows urlParse colIdx rowNum seen rows (Inr rec # reads) =
     (let rowNum = rowNum + 1; nameVal = fst (getCol rec colIdx ''name'') in
      if nameVal = [] \<or> \<not> lower_name nameVal then parseRows urlParse colIdx rowNum seen rows reads
      else case parseRow urlParse rec colIdx rowNum of
        Inl e \<Rightarrow> Inl e
      | Inr row \<Rightarrow>
          (case seen (row_Name row) of
             Some prev \<Rightarrow> Inl (ConfigValidationError rowNum ''name'' (RDuplicateOf prev))
           | None \<Rightarrow> parseRows urlParse colIdx rowNum (seen(row_Name row \<mapsto> rowNum)) (rows @ [row]) reads))"

definition parseSubscriptions ::
  "(nat \<Rightarrow> nat) \<Rightarrow> url_parser \<Rightarrow> csv_reads \<Rightarrow> config_error + SubscriptionRow list" where
  "parseSubscriptions ulower urlParse reads = (case reads of
      [] \<Rightarrow> Inl ReadHeaderError
    | Inl e # _ \<Rightarrow> Inl ReadHeaderError
    | Inr header # rest \<Rightarrow>
        (let (colIdx, unknown) = headerCols ulower 0 header Map.empty [];
             missing = filter (\<lambda>req. colIdx req = None) requiredCols
         in if missing \<noteq> [] \<or> unknown \<noteq> [] then Inl (ConfigSchemaError missing unknown)
            else parseRows urlParse colIdx 0 Map.empty [] rest))"

text \<open>\<open>file\<close> is the outcome of \<open>os.Open\<close>: its error, or the records the CSV reader then returns.\<close>

definition LoadSubscriptions ::
  "(nat \<Rightarrow> nat) \<Rightarrow> url_parser \<Rightarrow> string \<Rightarrow> string + csv_reads \<Rightarrow> config_error + SubscriptionRow list" where
  "LoadSubscriptions ulower urlParse path file = (case file of
      Inl err \<Rightarrow> Inl (ConfigLoadError path err)
    | Inr f \<Rightarrow> parseSubscriptions ulower urlParse f)"

section \<open>Loaded rows\<close>

text \<open>What the rest of the server may assume of a loaded row.\<close>

definition row_ok :: "url_parser \<Rightarrow> SubscriptionRow \<Rightarrow> bool" where
  "row_ok urlParse r \<longleftrightarrow> lower_name (row_Name r) \<and> validLink urlParse (row_Link r) \<and>
     in_int64 (row_Priority r) \<and> in_int64 (row_RefreshSeconds r) \<and> 0 \<le> row_StaleOnErrorSeconds r"

lemma parseOptional_Inr:
  assumes "parseOptional rec colIdx n row0 = Inr row" and "in_int64 (row_RefreshSeconds row0)"
    and "0 \<le> row_StaleOnErrorSeconds row0"
  shows "row_Name row = row_Name row0 \<and> row_Link row = row_Link row0 \<and> row_Priority row = row_Priority row0
     \<and> row_Enable row = row_Enable row0 \<and> in_int64 (row_RefreshSeconds row) \<and> 0 \<le> row_StaleOnErrorSeconds row"
  using assms
  by (auto simp: parseOptional_def Let_def split: sum.splits prod.splits if_splits option.splits
      dest: ParseInt_range)

lemma parseRow_Inr:
  assumes "parseRow urlParse rec colIdx n = Inr row" and "lower_name (fst (getCol rec colIdx ''name''))"
  shows "row_ok urlParse row \<and> row_Name row = fst (getCol rec colIdx ''name'')"
proof -
  let ?link = "fst (getCol rec colIdx ''link'')"
  let ?en = "fst (getCol rec colIdx ''enable'')"
  from assms(1) obtain p where p: "Atoi (fst (getCol rec colIdx ''priority'')) = Some p"
    and link: "validLink urlParse ?link"
    and opt: "parseOptional rec colIdx n
      \<lparr>row_Name = fst (getCol rec colIdx ''name''), row_Link = ?link, row_Priority = p,
       row_Enable = EqualFold ?en ''Enable'', row_RefreshSeconds = 0, row_StaleOnErrorSeconds = 0\<rparr> = Inr row"
    by (auto simp: parseRow_def Let_def split: if_splits option.splits)
  have "in_int64 0" by (simp add: in_int64_def int64_min_def int64_max_def)
  with parseOptional_Inr [OF opt] ParseInt_range [OF p] link assms(2) show ?thesis
    by (simp add: row_ok_def)
qed

lemma parseRows_ok:
  assumes "parseRows urlParse colIdx n seen rows reads = Inr rows'"
    and "dom seen = row_Name ` set rows" and "distinct (map row_Name rows)"
    and "\<forall>r\<in>set rows. row_ok urlParse r"
  shows "distinct (map row_Name rows') \<and> (\<forall>r\<in>set rows'. row_ok urlParse r)"
  using assms
proof (induction urlParse colIdx n seen rows reads rule: parseRows.induct)
  case (1 urlParse colIdx rowNum seen rows)
  then show ?case by simp
next
  case (2 urlParse colIdx rowNum seen rows e reads)
  then show ?case by simp
next
  case (3 urlParse colIdx rowNum seen rows rec reads)
  let ?name = "fst (getCol rec colIdx ''name'')"
  show ?case
  proof (cases "?name = [] \<or> \<not> lower_name ?name")
    case True
    with 3 show ?thesis by (simp add: Let_def)
  next
    case False
    with "3.prems"(1) obtain row where row: "parseRow urlParse rec colIdx (rowNum + 1) = Inr row"
      and fresh: "seen (row_Name row) = None"
      and rest: "parseRows urlParse colIdx (rowNum + 1) (seen(row_Name row \<mapsto> rowNum + 1)) (rows @ [row]) reads = Inr rows'"
      by (auto simp: Let_def split: sum.splits option.splits)
    from parseRow_Inr [OF row] False have ok: "row_ok urlParse row" by simp
    have "row_Name row \<notin> row_Name ` set rows" using fresh "3.prems"(2) by auto
    moreover have "dom (seen(row_Name row \<mapsto> rowNum + 1)) = row_Name ` set (rows @ [row])"
      using "3.prems"(2) by simp
    ultimately show ?thesis
      using False ok "3.prems"(3,4) by (intro "3.IH"(2) [OF refl refl _ row fresh rest]) auto
  qed
qed

text \<open>C25: the CSV loader establishes what the merge relies on.  Every row of a successful load
  has a name of the form \<open>[a-z]+\<close>, an http or https link with a host, a 64-bit priority and a
  stale window that is not negative, and no two rows have the same name.\<close>

theorem parseSubscriptions_wf:
  assumes "parseSubscriptions ulower urlParse reads = Inr rows"
  shows "distinct (map row_Name rows) \<and> (\<forall>r\<in>set rows. row_ok urlParse r)"
proof -
  from assms obtain colIdx rest where
    "parseRows urlParse colIdx 0 Map.empty [] rest = Inr rows"
    by (auto simp: parseSubscriptions_def Let_def split: list.splits sum.splits prod.splits if_splits)
  then show ?thesis by (rule parseRows_ok) simp_all
qed

definition header_keys :: "(nat \<Rightarrow> nat) \<Rightarrow> string list \<Rightarrow> string list" where
  "header_keys ulower header = map (\<lambda>h. ToLower ulower (TrimSpace h)) header"

lemma headerCols_keys:
  assumes "headerCols ulower i header c u = (colIdx, unk)"
  shows "unk = u @ filter (\<lambda>k. k \<notin> set (requiredCols @ optionalCols)) (header_keys ulower header) \<and>
     (\<forall>k. colIdx k = None \<longleftrightarrow> c k = None \<and> (k \<in> set (requiredCols @ optionalCols) \<longrightarrow> k \<notin> set (header_keys ulower header)))"
  using assms
  by (induction ulower i header c u rule: headerCols.induct)
    (auto simp: Let_def header_keys_def split: if_splits)

lemma parseOptional_no_schema: "parseOptional rec colIdx n row \<noteq> Inl (ConfigSchemaError a b)"
  by (auto simp: Let_def parseOptional_def split: sum.split option.split prod.split)

lemma parseRow_no_schema: "parseRow urlParse rec colIdx n \<noteq> Inl (ConfigSchemaError a b)"
  by (auto simp: Let_def parseRow_def parseOptional_no_schema split: option.split)

lemma parseRows_no_schema: "parseRows urlParse colIdx n seen rows reads \<noteq> Inl (ConfigSchemaError a b)"
proof (induction urlParse colIdx n seen rows reads rule: parseRows.induct)
  case (3 urlParse colIdx rowNum seen rows rec reads)
  with parseRow_no_schema [of urlParse rec colIdx "rowNum + 1" a b] show ?case
    by (auto simp: Let_def fun_upd_def split: sum.split option.split)
qed simp_all

text \<open>The header is accepted exactly when it is complete and clean.  A load fails with a
  schema error if and only if a required column is missing or a column is unknown (after trimming
  and lower-casing), and the error lists exactly the missing and the unknown columns.\<close>

theorem parseSubscriptions_schema:
  "parseSubscriptions ulower urlParse (Inr header # rest) = Inl (ConfigSchemaError miss unk) \<longleftrightarrow>
     miss = filter (\<lambda>c. c \<notin> set (header_keys ulower header)) requiredCols \<and>
     unk = filter (\<lambda>k. k \<notin> set (requiredCols @ optionalCols)) (header_keys ulower header) \<and>
     \<not> (miss = [] \<and> unk = [])"
proof -
  obtain colIdx unk' where h: "headerCols ulower 0 header Map.empty [] = (colIdx, unk')" by fastforce
  from headerCols_keys [OF h] have
    "unk' = filter (\<lambda>k. k \<notin> set (requiredCols @ optionalCols)) (header_keys ulower header)"
    and "filter (\<lambda>c. colIdx c = None) requiredCols = filter (\<lambda>c. c \<notin> set (header_keys ulower header)) requiredCols"
    by (auto intro!: filter_cong)
  then show ?thesis
    using h parseRows_no_schema by (auto simp: parseSubscriptions_def Let_def)
qed

end
