(* ===== verification/Custom_Rules.thy ===== *)
theory Custom_Rules
  imports Go_Text
begin

text \<open>
  \<open>internal/customrules\<close>: the operator's rule files.  A directory listing is \<open>None\<close>
  when \<open>os.ReadDir\<close> fails and otherwise the entries in its order; an entry carries what
  reading and YAML-decoding its file gives.  \<open>sort.Slice\<close> leaves the order of equal keys
  open, so it is the parameter \<open>sortSlice\<close>, with the contract \<^const>\<open>slice_sorter\<close>.
\<close>

section \<open>Definitions\<close>

record CustomRuleSet =
  crs_Name :: string
  crs_Priority :: int
  crs_Rules :: "string list"

record customRuleSetFile =
  f_Name :: "string option"
  f_Priority :: "int option"
  f_Rules :: "string list option"

datatype fileRead = ReadFailed | ParseFailed | Parsed customRuleSetFile

record dirEntry =
  de_IsDir :: bool
  de_Name :: string
  de_File :: fileRead

definition TrimSuffix :: "string \<Rightarrow> string \<Rightarrow> string" where
  "TrimSuffix s suf = (if HasSuffix s suf then take (length s - length suf) s else s)"

definition crs_key :: "CustomRuleSet \<Rightarrow> int \<times> string" where
  "crs_key c = (crs_Priority c, crs_Name c)"

text \<open>One iteration of the loop; \<open>None\<close> where the code continues with the next entry.\<close>

definition loadEntry :: "dirEntry \<Rightarrow> CustomRuleSet option" where
  "loadEntry e =
     (if de_IsDir e \<or> \<not> HasSuffix (de_Name e) ''.yaml'' \<and> \<not> HasSuffix (de_Name e) ''.yml'' then None
      else case de_File e of
        ReadFailed \<Rightarrow> None
      | ParseFailed \<Rightarrow> None
      | Parsed f \<Rightarrow>
          let name = (case f_Name f of
                 Some n \<Rightarrow> if n \<noteq> [] then n
                    else TrimSuffix (TrimSuffix (de_Name e) ''.yaml'') ''.yml''
               | None \<Rightarrow> TrimSuffix (TrimSuffix (de_Name e) ''.yaml'') ''.yml'');
              rules = (case f_Rules f of None \<Rightarrow> [] | Some rs \<Rightarrow> rs)
          in case f_Priority f of
               None \<Rightarrow> Some \<lparr>crs_Name = name, crs_Priority = 1000, crs_Rules = rules\<rparr>
             | Some p \<Rightarrow>
                 if p < 0 then None
                 else Some \<lparr>crs_Name = name, crs_Priority = p, crs_Rules = rules\<rparr>)"

definition LoadCustomRules ::
  "(CustomRuleSet list \<Rightarrow> CustomRuleSet list) \<Rightarrow> dirEntry list option \<Rightarrow> CustomRuleSet list" where
  "LoadCustomRules sortSlice dir = (case dir of
      None \<Rightarrow> []
    | Some entries \<Rightarrow> sortSlice (List.map_filter loadEntry entries))"

section \<open>Properties\<close>

lemma loadEntry_priority: "loadEntry e = Some c \<Longrightarrow> 0 \<le> crs_Priority c"
  by (auto simp: loadEntry_def Let_def split: if_splits fileRead.splits option.splits)

text \<open>Loading the custom-rules folder gives the readable, well-formed files in ascending
  (priority, name) order with non-negative priorities; a bad file drops only itself.  When no two
  files share priority and name the result does not depend on how \<open>sort.Slice\<close> orders equal
  keys.\<close>

theorem LoadCustomRules_sorted:
  assumes "slice_sorter sortSlice crs_key"
    and "out = LoadCustomRules sortSlice (Some entries)"
  shows "mset out = mset (List.map_filter loadEntry entries) \<and>
     sorted (map crs_key out) \<and> list_all (\<lambda>c. 0 \<le> crs_Priority c) out \<and>
     (distinct (map crs_key (List.map_filter loadEntry entries)) \<longrightarrow>
        out = sort_key crs_key (List.map_filter loadEntry entries))"
proof -
  have out: "out = sortSlice (List.map_filter loadEntry entries)"
    using assms(2) by (simp add: LoadCustomRules_def)
  have "set out \<subseteq> {c. \<exists>e. loadEntry e = Some c}"
    unfolding out slice_sorter.sorter_set [OF assms(1)] by (auto simp: List.map_filter_def)
  then have "list_all (\<lambda>c. 0 \<le> crs_Priority c) out"
    by (auto simp: list_all_iff dest: loadEntry_priority)
  then show ?thesis
    unfolding out
    using slice_sorter.sorter_mset [OF assms(1)] slice_sorter.sorter_sorted [OF assms(1)]
      slice_sorter.sorter_unique [OF assms(1)] by blast
qed

end
