(* ===== verification/Merge_Rules.thy ===== *)
theory Merge_Rules
  imports Subscriptions Custom_Rules
begin

text \<open>
  \<open>internal/merge/rules.go\<close>: the upstream rule lists (each without its last rule) and the
  custom rule sets, in one stream ordered by (priority, name), followed by the server's own
  \<open>MATCH\<close> rule; three parallel slices carry each rule's priority and contributor.
\<close>

section \<open>Definitions\<close>

record MergeResult =
  mr_Rules :: "string list"
  mr_Priorities :: "int list"
  mr_Contributors :: "string list"

record contributor =
  c_Name :: string
  c_Priority :: int
  c_Rules :: "string list"

definition c_key :: "contributor \<Rightarrow> int \<times> string" where
  "c_key c = (c_Priority c, c_Name c)"

definition upstreamContributor :: "(string \<Rightarrow> string list) \<Rightarrow> SubscriptionRow \<Rightarrow> contributor option" where
  "upstreamContributor upstreamPerSource row =
     (let rules = upstreamPerSource (row_Name row) in
      if length rules = 0 then None
      else let rules = take (length rules - 1) rules in
      if length rules = 0 then None
      else Some \<lparr>c_Name = row_Name row, c_Priority = row_Priority row, c_Rules = rules\<rparr>)"

definition customContributor :: "CustomRuleSet \<Rightarrow> contributor option" where
  "customContributor cs =
     (if length (crs_Rules cs) = 0 then None
      else Some \<lparr>c_Name = crs_Name cs, c_Priority = crs_Priority cs, c_Rules = crs_Rules cs\<rparr>)"

definition contributorsOf ::
  "(string \<Rightarrow> string list) \<Rightarrow> SubscriptionRow list \<Rightarrow> CustomRuleSet list \<Rightarrow> contributor list" where
  "contributorsOf upstreamPerSource upstreamSources customs =
     List.map_filter (upstreamContributor upstreamPerSource) upstreamSources @
     List.map_filter customContributor customs"

text \<open>The emission loop appends to the three slices in step.\<close>

definition emitContributor :: "contributor \<Rightarrow> MergeResult \<Rightarrow> MergeResult" where
  "emitContributor c out = fold (\<lambda>r out.
     out\<lparr>mr_Rules := mr_Rules out @ [r], mr_Priorities := mr_Priorities out @ [c_Priority c],
         mr_Contributors := mr_Contributors out @ [c_Name c]\<rparr>) (c_Rules c) out"

definition MergeUnifiedRules ::
  "(string \<Rightarrow> string list) \<Rightarrow> SubscriptionRow list \<Rightarrow> CustomRuleSet list \<Rightarrow> string \<Rightarrow> MergeResult" where
  "MergeUnifiedRules upstreamPerSource upstreamSources customs fallbackRuleTarget =
     (let contributors = sort_key c_key (contributorsOf upstreamPerSource upstreamSources customs);
          out = fold emitContributor contributors \<lparr>mr_Rules = [], mr_Priorities = [], mr_Contributors = []\<rparr>
      in \<lparr>mr_Rules = mr_Rules out @ [''MATCH,'' @ fallbackRuleTarget],
          mr_Priorities = mr_Priorities out @ [0],
          mr_Contributors = mr_Contributors out @ [[]]\<rparr>)"

section \<open>Closed form\<close>

text \<open>Each rule with the key of its contributor, in order.\<close>

definition rule_stream :: "contributor list \<Rightarrow> (string \<times> int \<times> string) list" where
  "rule_stream cs = concat (map (\<lambda>c. map (\<lambda>r. (r, c_key c)) (c_Rules c)) cs)"

lemma emitContributor_eq:
  "emitContributor c out =
     \<lparr>mr_Rules = mr_Rules out @ c_Rules c,
      mr_Priorities = mr_Priorities out @ map (\<lambda>_. c_Priority c) (c_Rules c),
      mr_Contributors = mr_Contributors out @ map (\<lambda>_. c_Name c) (c_Rules c)\<rparr>"
proof -
  have "fold (\<lambda>r out. out\<lparr>mr_Rules := mr_Rules out @ [r], mr_Priorities := mr_Priorities out @ [c_Priority c],
         mr_Contributors := mr_Contributors out @ [c_Name c]\<rparr>) rs out =
     \<lparr>mr_Rules = mr_Rules out @ rs, mr_Priorities = mr_Priorities out @ map (\<lambda>_. c_Priority c) rs,
      mr_Contributors = mr_Contributors out @ map (\<lambda>_. c_Name c) rs\<rparr>" for rs
    by (induction rs arbitrary: out) auto
  then show ?thesis by (simp add: emitContributor_def)
qed

lemma fold_emitContributor:
  "fold emitContributor cs out =
     \<lparr>mr_Rules = mr_Rules out @ map fst (rule_stream cs),
      mr_Priorities = mr_Priorities out @ map (fst \<circ> snd) (rule_stream cs),
      mr_Contributors = mr_Contributors out @ map (snd \<circ> snd) (rule_stream cs)\<rparr>"
  by (induction cs arbitrary: out)
    (auto simp: emitContributor_eq rule_stream_def c_key_def o_def)

lemma MergeUnifiedRules_stream:
  "MergeUnifiedRules ups rows customs fb =
     (let st = rule_stream (sort_key c_key (contributorsOf ups rows customs)) in
      \<lparr>mr_Rules = map fst st @ [''MATCH,'' @ fb], mr_Priorities = map (fst \<circ> snd) st @ [0],
       mr_Contributors = map (snd \<circ> snd) st @ [[]]\<rparr>)"
  by (simp add: MergeUnifiedRules_def fold_emitContributor Let_def)

lemma sorted_rule_stream: "sorted (map c_key cs) \<Longrightarrow> sorted (map snd (rule_stream cs))"
proof (induction cs)
  case Nil
  then show ?case by (simp add: rule_stream_def)
next
  case (Cons c cs)
  have s: "map snd (rule_stream (c # cs)) = map (\<lambda>_. c_key c) (c_Rules c) @ map snd (rule_stream cs)"
    by (simp add: rule_stream_def o_def)
  have "sorted (map (\<lambda>_. k) xs)" for k :: "int \<times> string" and xs :: "string list"
    by (induction xs) auto
  moreover have "\<forall>k\<in>set (map snd (rule_stream cs)). c_key c \<le> k"
    using Cons.prems by (auto simp: rule_stream_def)
  ultimately show ?case using Cons unfolding s by (auto simp: sorted_append)
qed

lemma mset_rule_stream: "mset (rule_stream cs) = (\<Sum>c\<in>#mset cs. mset (map (\<lambda>r. (r, c_key c)) (c_Rules c)))"
  by (induction cs) (auto simp: rule_stream_def)

text \<open>The contributors' rules written out over the inputs.\<close>

lemma rule_stream_contributorsOf:
  "rule_stream (contributorsOf ups rows customs) =
     concat (map (\<lambda>row. map (\<lambda>r. (r, row_Priority row, row_Name row)) (butlast (ups (row_Name row)))) rows) @
     concat (map (\<lambda>cs. map (\<lambda>r. (r, crs_Priority cs, crs_Name cs)) (crs_Rules cs)) customs)"
proof -
  have "rule_stream (List.map_filter (upstreamContributor ups) rows) =
      concat (map (\<lambda>row. map (\<lambda>r. (r, row_Priority row, row_Name row)) (butlast (ups (row_Name row)))) rows)"
    by (induction rows)
      (auto simp: rule_stream_def upstreamContributor_def c_key_def butlast_conv_take Let_def
        map_filter_simps split: option.splits)
  moreover have "rule_stream (List.map_filter customContributor customs) =
      concat (map (\<lambda>cs. map (\<lambda>r. (r, crs_Priority cs, crs_Name cs)) (crs_Rules cs)) customs)"
    by (induction customs)
      (auto simp: rule_stream_def customContributor_def c_key_def map_filter_simps split: option.splits)
  ultimately show ?thesis by (simp add: rule_stream_def contributorsOf_def)
qed

section \<open>Properties\<close>

text \<open>The three slices stay parallel and end in the server's rule.  Rules, priorities and
  contributors have the same length; the last entry is \<open>MATCH,<fallback>\<close> with priority 0 and
  the empty contributor.\<close>

theorem MergeUnifiedRules_parallel:
  "let m = MergeUnifiedRules ups rows customs fb in
     length (mr_Priorities m) = length (mr_Rules m) \<and>
     length (mr_Contributors m) = length (mr_Rules m) \<and>
     mr_Rules m \<noteq> [] \<and>
     last (mr_Rules m) = ''MATCH,'' @ fb \<and> last (mr_Priorities m) = 0 \<and> last (mr_Contributors m) = []"
  by (simp add: MergeUnifiedRules_stream Let_def)

text \<open>C20: ordering and completeness of the merged stream.  Before the fallback rule the entries
  are exactly the rules of every upstream row, without the last rule of its list, and of every
  custom rule set, each with the priority and the name of its row or set: none is lost or invented.
  They appear in ascending (priority, contributor) order, and within one key the original order is
  kept.  The three slices are the three columns of these entries, each with the server's own
  \<open>MATCH,<fallback>\<close>, priority 0 and no contributor at the end.\<close>

theorem MergeUnifiedRules_order:
  "let m = MergeUnifiedRules ups rows customs fb;
       emitted = butlast (zip (mr_Rules m) (zip (mr_Priorities m) (mr_Contributors m)));
       stream =
         concat (map (\<lambda>row. map (\<lambda>r. (r, row_Priority row, row_Name row)) (butlast (ups (row_Name row)))) rows) @
         concat (map (\<lambda>cs. map (\<lambda>r. (r, crs_Priority cs, crs_Name cs)) (crs_Rules cs)) customs)
   in mr_Rules m = map fst emitted @ [''MATCH,'' @ fb] \<and>
      mr_Priorities m = map (fst \<circ> snd) emitted @ [0] \<and>
      mr_Contributors m = map (snd \<circ> snd) emitted @ [''''] \<and>
      sorted (map snd emitted) \<and>
      mset emitted = mset stream \<and>
      filter (\<lambda>x. snd x = k) emitted = filter (\<lambda>x. snd x = k) stream"
proof -
  define m where "m = MergeUnifiedRules ups rows customs fb"
  define cs where "cs = contributorsOf ups rows customs"
  let ?st = "rule_stream (sort_key c_key cs)"
  have m: "mr_Rules m = map fst ?st @ [''MATCH,'' @ fb]" "mr_Priorities m = map (fst \<circ> snd) ?st @ [0]"
    "mr_Contributors m = map (snd \<circ> snd) ?st @ ['''']"
    by (simp_all add: m_def cs_def MergeUnifiedRules_stream Let_def)
  then have zip: "butlast (zip (mr_Rules m) (zip (mr_Priorities m) (mr_Contributors m))) = ?st"
    by (simp add: zip_map_map zip_same_conv_map o_def)
  have flt: "filter (\<lambda>x. snd x = k) (rule_stream xs) = rule_stream (filter (\<lambda>c. c_key c = k) xs)" for xs
    by (induction xs) (auto simp: rule_stream_def filter_empty_conv)
  have "sorted (map snd ?st)" by (rule sorted_rule_stream) (rule sk.sorter_sorted)
  moreover have "mset ?st = mset (rule_stream cs)" by (simp add: mset_rule_stream)
  moreover have "filter (\<lambda>x. snd x = k) ?st = filter (\<lambda>x. snd x = k) (rule_stream cs)"
    unfolding flt sk.sorter_stable ..
  ultimately show ?thesis
    unfolding Let_def m_def [symmetric] rule_stream_contributorsOf [symmetric] cs_def [symmetric] zip
    using m by simp
qed

end
