(* ===== verification/Yaml_Node.thy ===== *)
theory Yaml_Node
  imports Prelude
begin

text \<open>
  The YAML tree the merge core works on (\<open>yaml.Node\<close> of gopkg.in/yaml.v3) and the
  helpers of \<open>internal/merge/yamlutil.go\<close>.

  A node is a header (every field of \<open>yaml.Node\<close> but \<open>Content\<close>) and its children.
  The tree comes out of the YAML parser, so children are never nil; a pointer that can be nil
  (a missing map entry, the result of a failed search) is an \<open>option\<close>.  \<open>Alias\<close> is a
  reference to the anchored node: nothing under \<open>src/\<close> follows it, it is only copied, so it
  is kept as an opaque identity.  Go mutates a node in place and these functions return the
  changed node; the passes that mutate clone first (\<open>cloneNode\<close>).
\<close>

section \<open>Nodes\<close>

datatype yaml_kind = ZeroNode | DocumentNode | SequenceNode | MappingNode | ScalarNode | AliasNode

record yhdr =
  y_kind :: yaml_kind
  y_style :: nat
  y_tag :: string
  y_value :: string
  y_anchor :: string
  y_alias :: "nat option"
  y_head :: string
  y_line :: string
  y_foot :: string
  y_lineno :: int
  y_column :: int

datatype node = Node (hdr: yhdr) (content: "node list")

abbreviation nkind :: "node \<Rightarrow> yaml_kind" where "nkind n \<equiv> y_kind (hdr n)"
abbreviation nvalue :: "node \<Rightarrow> string" where "nvalue n \<equiv> y_value (hdr n)"

text \<open>A composite literal \<open>&yaml.Node{Kind: k, Value: v, Tag: t}\<close>: other fields are zero.\<close>

definition mkNode :: "yaml_kind \<Rightarrow> string \<Rightarrow> string \<Rightarrow> node" where
  "mkNode k v t = Node \<lparr>y_kind = k, y_style = 0, y_tag = t, y_value = v, y_anchor = [],
     y_alias = None, y_head = [], y_line = [], y_foot = [], y_lineno = 0, y_column = 0\<rparr> []"

lemma mkNode_sel [simp, yaml_kind]:
  "nkind (mkNode k v t) = k" "nvalue (mkNode k v t) = v" "content (mkNode k v t) = []"
  by (simp_all add: mkNode_def)

text \<open>Positions in \<open>Content\<close> go by pairs: \<open>for i := 0; i+1 < len(Content); i += 2\<close>.\<close>

fun pairs_of :: "node list \<Rightarrow> (node \<times> node) list" where
  "pairs_of (k # v # r) = (k, v) # pairs_of r"
| "pairs_of _ = []"

fun unpairs :: "(node \<times> node) list \<Rightarrow> node list" where
  "unpairs [] = []"
| "unpairs ((k, v) # r) = k # v # unpairs r"

lemma pairs_of_unpairs [simp]: "pairs_of (unpairs ps) = ps"
  by (induction ps rule: unpairs.induct) auto

lemma pairs_of_append_unpairs [simp]: "pairs_of (unpairs ps @ r) = ps @ pairs_of r"
  by (induction ps rule: unpairs.induct) auto

section \<open>\<open>yamlutil.go\<close>\<close>

definition docRoot :: "node \<Rightarrow> node" where
  "docRoot n = (case content n of
      c # _ \<Rightarrow> if nkind n = DocumentNode then c else n
    | [] \<Rightarrow> n)"

fun findPair :: "(node \<Rightarrow> bool) \<Rightarrow> string \<Rightarrow> node list \<Rightarrow> node option" where
  "findPair P key (k # v # r) = (if nvalue k = key \<and> P v then Some v else findPair P key r)"
| "findPair P key _ = None"

definition findChildSequence :: "node option \<Rightarrow> string \<Rightarrow> node option" where
  "findChildSequence root key = (case root of
      None \<Rightarrow> None
    | Some n \<Rightarrow> if nkind n \<noteq> MappingNode then None
        else findPair (\<lambda>v. nkind v = SequenceNode) key (content n))"

definition findChildMapping :: "node option \<Rightarrow> string \<Rightarrow> node option" where
  "findChildMapping root key = (case root of
      None \<Rightarrow> None
    | Some n \<Rightarrow> if nkind n \<noteq> MappingNode then None
        else findPair (\<lambda>v. nkind v = MappingNode) key (content n))"

definition getMappingField :: "node \<Rightarrow> string \<Rightarrow> string" where
  "getMappingField n key =
     (if nkind n \<noteq> MappingNode then []
      else case findPair (\<lambda>v. nkind v = ScalarNode) key (content n) of
        None \<Rightarrow> [] | Some v \<Rightarrow> nvalue v)"

definition set_scalar :: "string \<Rightarrow> node \<Rightarrow> node" where
  "set_scalar x v = Node (hdr v\<lparr>y_value := x, y_tag := ''!!str''\<rparr>) (content v)"

fun updPair :: "string \<Rightarrow> (node \<Rightarrow> node) \<Rightarrow> node list \<Rightarrow> node list" where
  "updPair key f (k # v # r) = (if nvalue k = key then k # f v # r else k # v # updPair key f r)"
| "updPair key f r = r"

text \<open>The boolean is the Go result: whether the key was there.\<close>

definition setMappingField :: "node \<Rightarrow> string \<Rightarrow> string \<Rightarrow> node \<times> bool" where
  "setMappingField n key val =
     (if nkind n \<noteq> MappingNode then (n, False)
      else case findPair (\<lambda>_. True) key (content n) of
        None \<Rightarrow> (n, False)
      | Some _ \<Rightarrow> (Node (hdr n) (updPair key (set_scalar val) (content n)), True))"

definition getMappingNode :: "node \<Rightarrow> string \<Rightarrow> node option" where
  "getMappingNode n key =
     (if nkind n \<noteq> MappingNode then None else findPair (\<lambda>_. True) key (content n))"

definition setMappingValue :: "node \<Rightarrow> string \<Rightarrow> node \<Rightarrow> node" where
  "setMappingValue n key val =
     (if nkind n \<noteq> MappingNode then n
      else case findPair (\<lambda>_. True) key (content n) of
        None \<Rightarrow> Node (hdr n) (content n @ [mkNode ScalarNode key ''!!str'', val])
      | Some _ \<Rightarrow> Node (hdr n) (updPair key (\<lambda>_. val) (content n)))"

fun cloneNode :: "node \<Rightarrow> node" where
  "cloneNode (Node h cs) = Node
     \<lparr>y_kind = y_kind h, y_style = y_style h, y_tag = y_tag h, y_value = y_value h,
      y_anchor = y_anchor h, y_alias = y_alias h, y_head = y_head h, y_line = y_line h,
      y_foot = y_foot h, y_lineno = y_lineno h, y_column = y_column h\<rparr>
     (if length cs > 0 then map cloneNode cs else [])"

definition mappingMembers :: "node \<Rightarrow> string \<Rightarrow> string list" where
  "mappingMembers n key = (case getMappingNode n key of
      None \<Rightarrow> []
    | Some seq \<Rightarrow> if nkind seq \<noteq> SequenceNode then []
        else map nvalue (filter (\<lambda>c. nkind c = ScalarNode) (content seq)))"

definition setMappingMembers :: "node \<Rightarrow> string \<Rightarrow> string list \<Rightarrow> node" where
  "setMappingMembers n key members =
     setMappingValue n key
       (Node (hdr (mkNode SequenceNode [] ''!!seq''))
          (map (\<lambda>m. mkNode ScalarNode m ''!!str'') members))"

section \<open>Laws\<close>

lemma cloneNode_id [simp]: "cloneNode n = n"
proof (induction n)
  case (Node h cs)
  then have "map cloneNode cs = cs" by (induction cs) auto
  then show ?case by simp
qed

lemma findPair_updPair_other [simp]:
  "key' \<noteq> key \<Longrightarrow> findPair P key' (updPair key f cs) = findPair P key' cs"
  by (induction key f cs rule: updPair.induct) auto

lemma findPair_updPair_same:
  "findPair (\<lambda>_. True) key cs = Some v \<Longrightarrow> P (f v) \<Longrightarrow> findPair P key (updPair key f cs) = Some (f v)"
  by (induction key f cs rule: updPair.induct) (auto split: if_splits)

lemma findPair_append_pair:
  "even (length cs) \<Longrightarrow> findPair P key (cs @ [k, v]) =
     (case findPair P key cs of Some x \<Rightarrow> Some x | None \<Rightarrow> if nvalue k = key \<and> P v then Some v else None)"
  by (induction P key cs rule: findPair.induct) auto

lemma findPair_True_None:
  "findPair (\<lambda>_. True) key cs = None \<Longrightarrow> findPair P key cs = None"
  by (induction P key cs rule: findPair.induct) (auto split: if_splits)

lemma findPair_first:
  "findPair (\<lambda>_. True) key cs = Some v \<Longrightarrow> P v \<Longrightarrow> findPair P key cs = Some v"
  by (induction P key cs rule: findPair.induct) (auto split: if_splits)

lemma length_updPair [simp]: "length (updPair key f cs) = length cs"
  by (induction key f cs rule: updPair.induct) auto

lemma hdr_setters [simp, yaml_kind]:
  "hdr (setMappingValue n k v) = hdr n"
  "hdr (fst (setMappingField n k x)) = hdr n"
  "hdr (setMappingMembers n k ms) = hdr n"
  by (auto simp: setMappingValue_def setMappingField_def setMappingMembers_def split: option.splits)

text \<open>A mapping node as the parser builds it: keys and values alternate.\<close>

definition is_mapping :: "node \<Rightarrow> bool" where
  "is_mapping n \<longleftrightarrow> nkind n = MappingNode \<and> even (length (content n))"

lemma is_mapping_setters [simp, intro]:
  "is_mapping n \<Longrightarrow> is_mapping (setMappingValue n k v)"
  "is_mapping n \<Longrightarrow> is_mapping (fst (setMappingField n k x))"
  "is_mapping n \<Longrightarrow> is_mapping (setMappingMembers n k ms)"
  by (auto simp: is_mapping_def setMappingValue_def setMappingField_def setMappingMembers_def
      split: option.splits)

text \<open>The field \<open>k\<close> of \<open>n\<close> is read and written at the same place: its first
  occurrence is a scalar.\<close>

definition scalar_field :: "node \<Rightarrow> string \<Rightarrow> bool" where
  "scalar_field n k \<longleftrightarrow> (\<exists>v. getMappingNode n k = Some v \<and> nkind v = ScalarNode)"

lemma getMappingNode_setMappingValue [yaml_get]:
  assumes "is_mapping n"
  shows "getMappingNode (setMappingValue n k v) k' = (if k' = k then Some v else getMappingNode n k')"
proof (cases "findPair (\<lambda>_. True) k (content n)")
  case None
  then show ?thesis using assms
    by (auto simp: getMappingNode_def setMappingValue_def is_mapping_def findPair_append_pair
        split: option.splits)
next
  case (Some w)
  then show ?thesis using assms findPair_updPair_same [OF Some, of "\<lambda>_. True" "\<lambda>_. v"]
    by (auto simp: getMappingNode_def setMappingValue_def is_mapping_def)
qed

lemma getMappingField_setMappingValue_same [yaml_get]:
  assumes "is_mapping n" and "nkind v = ScalarNode"
  shows "getMappingField (setMappingValue n k v) k = nvalue v"
proof (cases "findPair (\<lambda>_. True) k (content n)")
  case None
  with findPair_True_None [OF None, of "\<lambda>v. nkind v = ScalarNode"] assms show ?thesis
    by (auto simp: getMappingField_def setMappingValue_def is_mapping_def findPair_append_pair)
next
  case (Some w)
  with assms findPair_updPair_same [OF Some, of "\<lambda>v. nkind v = ScalarNode" "\<lambda>_. v"] show ?thesis
    by (auto simp: getMappingField_def setMappingValue_def is_mapping_def)
qed

lemma getMappingField_setMappingValue_other [yaml_get]:
  assumes "is_mapping n" and "k' \<noteq> k"
  shows "getMappingField (setMappingValue n k v) k' = getMappingField n k'"
  using assms
  by (auto simp: getMappingField_def setMappingValue_def is_mapping_def findPair_append_pair
      split: option.splits)

lemma getMappingField_setMappingField_same [yaml_get]:
  assumes "scalar_field n k"
  shows "getMappingField (fst (setMappingField n k x)) k = x"
proof -
  from assms obtain v where k: "nkind n = MappingNode"
    and v: "findPair (\<lambda>_. True) k (content n) = Some v" "nkind v = ScalarNode"
    by (auto simp: scalar_field_def getMappingNode_def split: if_splits)
  from findPair_updPair_same [OF v(1), of "\<lambda>v. nkind v = ScalarNode" "set_scalar x"] v k
  show ?thesis by (simp add: getMappingField_def setMappingField_def set_scalar_def)
qed

lemma getMappingField_setMappingField_other [yaml_get]:
  "k' \<noteq> k \<Longrightarrow> getMappingField (fst (setMappingField n k x)) k' = getMappingField n k'"
  by (auto simp: getMappingField_def setMappingField_def split: option.splits)

lemma getMappingNode_setMappingField_other [yaml_get]:
  "k' \<noteq> k \<Longrightarrow> getMappingNode (fst (setMappingField n k x)) k' = getMappingNode n k'"
  by (auto simp: getMappingNode_def setMappingField_def split: option.splits)

lemma mappingMembers_setMappingMembers_same [yaml_get]:
  "is_mapping n \<Longrightarrow> mappingMembers (setMappingMembers n k ms) k = ms"
  by (simp add: mappingMembers_def setMappingMembers_def getMappingNode_setMappingValue o_def)

text \<open>Where the key is already there the shape of the rest does not matter.\<close>

lemma setMappingMembers_present:
  assumes "mappingMembers n k \<noteq> []"
  shows "mappingMembers (setMappingMembers n k ms) k = ms"
    and "k' \<noteq> k \<Longrightarrow> getMappingField (setMappingMembers n k ms) k' = getMappingField n k'"
proof -
  obtain w where w: "nkind n = MappingNode" "findPair (\<lambda>_. True) k (content n) = Some w"
    using assms by (auto simp: mappingMembers_def getMappingNode_def split: if_splits option.splits)
  let ?v = "Node (hdr (mkNode SequenceNode [] ''!!seq'')) (map (\<lambda>m. mkNode ScalarNode m ''!!str'') ms)"
  have eq: "setMappingMembers n k ms = Node (hdr n) (updPair k (\<lambda>_. ?v) (content n))"
    using w by (simp add: setMappingMembers_def setMappingValue_def)
  from w findPair_updPair_same [OF w(2), of "\<lambda>_. True" "\<lambda>_. ?v"]
  show "mappingMembers (setMappingMembers n k ms) k = ms"
    by (simp add: eq mappingMembers_def getMappingNode_def o_def)
  show "k' \<noteq> k \<Longrightarrow> getMappingField (setMappingMembers n k ms) k' = getMappingField n k'"
    by (simp add: eq getMappingField_def)
qed

lemma mappingMembers_setMappingValue_other [yaml_get]:
  "is_mapping n \<Longrightarrow> k' \<noteq> k \<Longrightarrow> mappingMembers (setMappingValue n k v) k' = mappingMembers n k'"
  by (simp add: mappingMembers_def getMappingNode_setMappingValue)

lemma mappingMembers_setMappingField_other [yaml_get]:
  "k' \<noteq> k \<Longrightarrow> mappingMembers (fst (setMappingField n k x)) k' = mappingMembers n k'"
  by (simp add: mappingMembers_def getMappingNode_setMappingField_other)

lemma getMappingField_setMappingMembers_other [yaml_get]:
  "is_mapping n \<Longrightarrow> k' \<noteq> k \<Longrightarrow> getMappingField (setMappingMembers n k ms) k' = getMappingField n k'"
  by (simp add: setMappingMembers_def getMappingField_setMappingValue_other)

lemma getMappingField_scalar:
  assumes "scalar_field n k"
  shows "\<exists>v. getMappingNode n k = Some v \<and> getMappingField n k = nvalue v"
proof -
  from assms obtain v where "nkind n = MappingNode"
    and v: "findPair (\<lambda>_. True) k (content n) = Some v" "nkind v = ScalarNode"
    by (auto simp: scalar_field_def getMappingNode_def split: if_splits)
  with findPair_first [OF v(1), of "\<lambda>v. nkind v = ScalarNode"] show ?thesis
    by (auto simp: getMappingField_def getMappingNode_def)
qed

lemma getMappingField_nonempty_mapping: "getMappingField n k \<noteq> [] \<Longrightarrow> nkind n = MappingNode"
  by (auto simp: getMappingField_def split: if_splits)

lemma scalar_field_setMappingField [simp]:
  assumes "scalar_field n k"
  shows "scalar_field (fst (setMappingField n k' x)) k"
proof (cases "k = k'")
  case True
  from assms obtain v where k: "nkind n = MappingNode"
    and v: "findPair (\<lambda>_. True) k (content n) = Some v" "nkind v = ScalarNode"
    by (auto simp: scalar_field_def getMappingNode_def split: if_splits)
  from findPair_updPair_same [OF v(1), of "\<lambda>_. True" "set_scalar x"] v k True
  show ?thesis by (simp add: scalar_field_def getMappingNode_def setMappingField_def set_scalar_def)
next
  case False
  with assms show ?thesis by (simp add: scalar_field_def getMappingNode_setMappingField_other)
qed

lemma scalar_field_setMappingValue [yaml_get]:
  "is_mapping n \<Longrightarrow> scalar_field (setMappingValue n k v) k' \<longleftrightarrow>
     (if k' = k then nkind v = ScalarNode else scalar_field n k')"
  by (simp add: scalar_field_def getMappingNode_setMappingValue)

lemma scalar_field_setMappingMembers [simp]:
  "is_mapping n \<Longrightarrow> k \<noteq> k' \<Longrightarrow> scalar_field (setMappingMembers n k' ms) k = scalar_field n k"
  by (simp add: scalar_field_def setMappingMembers_def getMappingNode_setMappingValue)

text \<open>Setting the value of one key leaves the entries of all other keys, nested ones included, as
  they are and in their order.\<close>

lemma pairs_of_updPair:
  "filter (\<lambda>p. nvalue (fst p) \<notin> K) (pairs_of (updPair k f cs)) = filter (\<lambda>p. nvalue (fst p) \<notin> K) (pairs_of cs)"
  if "k \<in> K"
  using that by (induction k f cs rule: updPair.induct) auto

lemma pairs_of_append_pair: "even (length cs) \<Longrightarrow> pairs_of (cs @ [k, v]) = pairs_of cs @ [(k, v)]"
  by (induction cs rule: pairs_of.induct) auto

lemma setMappingValue_other_pairs:
  assumes "is_mapping n" and "k \<in> K"
  shows "filter (\<lambda>p. nvalue (fst p) \<notin> K) (pairs_of (content (setMappingValue n k v))) =
     filter (\<lambda>p. nvalue (fst p) \<notin> K) (pairs_of (content n))"
  using assms by (auto simp: setMappingValue_def is_mapping_def pairs_of_updPair pairs_of_append_pair
      split: option.splits)

section \<open>Named entries\<close>

text \<open>
  Proxies and proxy-groups are identified by their \<open>name\<close> field.  The interface below is
  what the renaming passes need of it; it is interpreted on the field operations just above.
\<close>

locale named_entries =
  fixes get_name :: "'n \<Rightarrow> string" and set_name :: "string \<Rightarrow> 'n \<Rightarrow> 'n" and named :: "'n \<Rightarrow> bool"
  assumes get_set_name: "named n \<Longrightarrow> get_name (set_name x n) = x"
    and named_set_name: "named n \<Longrightarrow> named (set_name x n)"
begin

lemma names_renamed:
  "\<forall>n\<in>set ns. named n \<Longrightarrow>
     map get_name (map (\<lambda>n. set_name (f (get_name n)) n) ns) = map f (map get_name ns)"
  by (induction ns) (auto simp: get_set_name)

lemma distinct_renamed:
  assumes "\<forall>n\<in>set ns. named n" and "inj f" and "distinct (map get_name ns)"
  shows "distinct (map get_name (map (\<lambda>n. set_name (f (get_name n)) n) ns))"
  using assms(2,3) inj_on_subset [OF assms(2) subset_UNIV]
  unfolding names_renamed [OF assms(1)] distinct_map by (simp add: comp_inj_on inj_on_imageI)

end

abbreviation node_name :: "node \<Rightarrow> string" where "node_name n \<equiv> getMappingField n ''name''"
abbreviation members_of :: "node \<Rightarrow> string list" where "members_of n \<equiv> mappingMembers n ''proxies''"

text \<open>An entry with a usable name: the first \<open>name\<close> key holds a non-empty scalar.\<close>

definition named_node :: "node \<Rightarrow> bool" where
  "named_node n \<longleftrightarrow> is_mapping n \<and> scalar_field n ''name'' \<and> node_name n \<noteq> []"

interpretation yn: named_entries node_name "\<lambda>x n. fst (setMappingField n ''name'' x)"
    "\<lambda>n. scalar_field n ''name''"
  by unfold_locales (simp_all add: yaml_get)

end
