(* ===== verification/Namespace.thy ===== *)
theory Namespace
  imports Yaml_Node
begin

text \<open>
  \<open>internal/merge/namespace.go\<close>: every proxy, proxy-group, member reference and rule target
  of an upstream source is prefixed \<open><source>_\<close>; the operator's own entries are prefixed
  \<open>_\<close>.  The source-name check is the \<open>^[a-z]+$\<close> rule of the subscriptions CSV
  (\<^const>\<open>lower_name\<close>), which is what makes the prefixes unambiguous.
\<close>

section \<open>Definitions\<close>

definition builtinTargets :: "string set" where
  "builtinTargets = {''DIRECT'', ''REJECT'', ''REJECT-DROP'', ''PASS''}"

definition ruleModifiers :: "string set" where
  "ruleModifiers = {''no-resolve'', ''src'', ''dport''}"

definition rewriteGroupMembers :: "node \<Rightarrow> string \<Rightarrow> node" where
  "rewriteGroupMembers g sourceName =
     (let members = mappingMembers g ''proxies'' in
      if length members = 0 then g
      else setMappingMembers g ''proxies''
        (map (\<lambda>m. if m \<in> builtinTargets then m else sourceName @ ''_'' @ m) members))"

definition rewriteOwnGroupMembers :: "node \<Rightarrow> string set \<Rightarrow> string set \<Rightarrow> node" where
  "rewriteOwnGroupMembers g ownProxyNames ownGroupNames =
     (let members = mappingMembers g ''proxies'' in
      if length members = 0 then g
      else setMappingMembers g ''proxies''
        (map (\<lambda>m. if m \<in> builtinTargets then m
                  else if m \<in> ownProxyNames \<or> m \<in> ownGroupNames then ''_'' @ m
                  else m) members))"

text \<open>The scan \<open>for i := len(parts)-1; i >= 1; i--\<close> that steps over trailing modifiers.\<close>

fun targetScan :: "string list \<Rightarrow> nat \<Rightarrow> nat \<Rightarrow> nat" where
  "targetScan parts 0 targetIdx = targetIdx"
| "targetScan parts (Suc i) targetIdx =
     (if parts ! Suc i \<in> ruleModifiers then targetScan parts i i else targetIdx)"

definition rewriteRuleTarget :: "string \<Rightarrow> string \<Rightarrow> string" where
  "rewriteRuleTarget rule sourceName =
     (let parts = Split rule CHR '','' in
      if length parts < 2 then rule
      else
        let isRuleSet = (parts ! 0 = ''RULE-SET'');
            parts = (if isRuleSet then parts[1 := sourceName @ ''_'' @ parts ! 1] else parts);
            targetIdx = targetScan parts (length parts - 1) (length parts - 1)
        in if isRuleSet \<and> targetIdx \<le> 1 then Join parts '',''
           else let target = parts ! targetIdx in
             if target \<in> builtinTargets then Join parts '',''
             else Join (parts[targetIdx := sourceName @ ''_'' @ target]) '','')"

text \<open>The name rewrite both passes apply to a clone: a missing or empty name is left alone.\<close>

definition prefixName :: "string \<Rightarrow> node \<Rightarrow> node" where
  "prefixName p n =
     (let clone = cloneNode n; origName = getMappingField clone ''name'' in
      if origName \<noteq> [] then fst (setMappingField clone ''name'' (p @ origName)) else clone)"

definition RewriteSource ::
  "string \<Rightarrow> node list \<Rightarrow> node list \<Rightarrow> string list \<Rightarrow> node list \<times> node list \<times> string list" where
  "RewriteSource sourceName proxies groups rules =
     (map (prefixName (sourceName @ ''_'')) proxies,
      map (\<lambda>g. rewriteGroupMembers (prefixName (sourceName @ ''_'') g) sourceName) groups,
      map (\<lambda>r. rewriteRuleTarget r sourceName) rules)"

definition entryNames :: "node list \<Rightarrow> string set" where
  "entryNames ns = {x. x \<in> set (map node_name ns) \<and> x \<noteq> []}"

definition RewriteOwn :: "node list \<Rightarrow> node list \<Rightarrow> node list \<times> node list" where
  "RewriteOwn ownProxies ownGroups =
     (let ownProxyNames = entryNames ownProxies; ownGroupNames = entryNames ownGroups in
      (map (prefixName ''_'') ownProxies,
       map (\<lambda>g. rewriteOwnGroupMembers (prefixName ''_'' g) ownProxyNames ownGroupNames) ownGroups))"

section \<open>Names\<close>

lemma prefixName_unnamed [simp]: "node_name n = [] \<Longrightarrow> prefixName p n = n"
  by (simp add: prefixName_def)

lemma prefixName_named: "node_name n \<noteq> [] \<Longrightarrow> prefixName p n = fst (setMappingField n ''name'' (p @ node_name n))"
  by (simp add: prefixName_def)

lemma node_name_prefixName [simp]:
  "scalar_field n ''name'' \<Longrightarrow> node_name n \<noteq> [] \<Longrightarrow> node_name (prefixName p n) = p @ node_name n"
  by (simp add: prefixName_named yaml_get)

lemma getMappingField_prefixName [simp]:
  "k \<noteq> ''name'' \<Longrightarrow> getMappingField (prefixName p n) k = getMappingField n k"
  by (cases "node_name n = []") (simp_all add: prefixName_named yaml_get)

lemma mappingMembers_prefixName [simp]:
  "k \<noteq> ''name'' \<Longrightarrow> mappingMembers (prefixName p n) k = mappingMembers n k"
  by (cases "node_name n = []") (simp_all add: prefixName_named yaml_get)

lemma named_node_prefixName [simp, intro]: "named_node n \<Longrightarrow> named_node (prefixName p n)"
  by (auto simp: named_node_def prefixName_named yaml_get)

lemma map_node_name_prefixName:
  assumes "\<forall>n\<in>set ns. named_node n"
  shows "map node_name (map (prefixName p) ns) = map ((@) p) (map node_name ns)"
  using assms by (induction ns) (auto simp: named_node_def)

lemma distinct_map_prefixName:
  assumes "\<forall>n\<in>set ns. named_node n" and "distinct (map node_name ns)"
  shows "distinct (map node_name (map (prefixName p) ns))"
proof -
  have eq: "map (prefixName p) ns = map (\<lambda>n. fst (setMappingField n ''name'' (p @ node_name n))) ns"
    using assms(1) by (auto simp: prefixName_named named_node_def)
  have "inj ((@) p)" by (simp add: inj_def)
  then show ?thesis
    unfolding eq using assms by (intro yn.distinct_renamed) (auto simp: named_node_def)
qed

lemma node_name_rewriteGroupMembers [simp]:
  "is_mapping g \<Longrightarrow> node_name (rewriteGroupMembers g s) = node_name g"
  by (simp add: rewriteGroupMembers_def Let_def yaml_get)

lemma node_name_rewriteOwnGroupMembers [simp]:
  "is_mapping g \<Longrightarrow> node_name (rewriteOwnGroupMembers g P G) = node_name g"
  by (simp add: rewriteOwnGroupMembers_def Let_def yaml_get)

lemma members_rewriteGroupMembers [simp]:
  "is_mapping g \<Longrightarrow> members_of (rewriteGroupMembers g s) =
     map (\<lambda>m. if m \<in> builtinTargets then m else s @ ''_'' @ m) (members_of g)"
  by (simp add: rewriteGroupMembers_def Let_def yaml_get)

lemma members_rewriteOwnGroupMembers [simp]:
  "is_mapping g \<Longrightarrow> members_of (rewriteOwnGroupMembers g P G) =
     map (\<lambda>m. if m \<in> builtinTargets then m else if m \<in> P \<or> m \<in> G then ''_'' @ m else m) (members_of g)"
  by (simp add: rewriteOwnGroupMembers_def Let_def yaml_get)

lemma named_node_rewriteGroupMembers [simp, intro]:
  "named_node g \<Longrightarrow> named_node (rewriteGroupMembers g s)"
  by (auto simp: named_node_def rewriteGroupMembers_def Let_def yaml_get)

lemma named_node_rewriteOwnGroupMembers [simp, intro]:
  "named_node g \<Longrightarrow> named_node (rewriteOwnGroupMembers g P G)"
  by (auto simp: named_node_def rewriteOwnGroupMembers_def Let_def yaml_get)

section \<open>Rule targets\<close>

lemma targetScan_stop: "parts ! i \<notin> ruleModifiers \<Longrightarrow> targetScan parts i i = i"
  by (cases i) auto

lemma targetScan_mods:
  assumes "t \<notin> ruleModifiers" and "set mods \<subseteq> ruleModifiers"
  shows "targetScan (pre @ t # mods) (length pre + length mods) (length pre + length mods) = length pre"
  using assms(2)
proof (induction mods rule: rev_induct)
  case Nil
  then show ?case using assms(1) targetScan_stop [of "pre @ [t]" "length pre"] by simp
next
  case (snoc m mods)
  have cong: "targetScan (xs @ [m]) i j = targetScan xs i j" if "i < length xs" for xs i j
    using that by (induction i arbitrary: j) (auto simp: nth_append)
  show ?case
    using snoc cong [of "length pre + length mods" "pre @ t # mods"]
    by (simp add: nth_append)
qed

lemma targetScan_le: "j \<le> i \<Longrightarrow> targetScan parts j i \<le> i"
  by (induction parts j i rule: targetScan.induct) (auto intro: order_trans)

text \<open>What happens to a target: built-ins stay, everything else moves into the source's namespace.\<close>

definition nsTarget :: "string \<Rightarrow> string \<Rightarrow> string" where
  "nsTarget s t = (if t \<in> builtinTargets then t else s @ ''_'' @ t)"

lemma rewriteRuleTarget_eq:
  assumes "Split rule CHR '','' = parts" and "2 \<le> length parts"
    and "parts' = (if parts ! 0 = ''RULE-SET'' then parts[1 := s @ ''_'' @ parts ! 1] else parts)"
    and "targetScan parts' (length parts - 1) (length parts - 1) = i"
    and "parts ! 0 = ''RULE-SET'' \<Longrightarrow> 2 \<le> i"
  shows "rewriteRuleTarget rule s = Join (parts'[i := nsTarget s (parts' ! i)]) '',''"
proof -
  have len: "length parts' = length parts" using assms(3) by simp
  show ?thesis
  proof (cases "parts ! 0 = ''RULE-SET''")
    case True
    with assms(5) have i: "\<not> i \<le> 1" by simp
    have "parts'[i := parts' ! i] = parts'" by simp
    with i True assms(1-4) len show ?thesis
      by (simp add: rewriteRuleTarget_def Let_def nsTarget_def del: list_update_id)
  next
    case False
    with assms(1-4) len show ?thesis
      by (simp add: rewriteRuleTarget_def Let_def nsTarget_def)
  qed
qed

lemma rewriteRuleTarget_plain:
  assumes "\<forall>p\<in>set (pre @ t # mods). CHR '','' \<notin> set p"
    and "pre \<noteq> []" and "hd pre \<noteq> ''RULE-SET''"
    and "t \<notin> ruleModifiers" and "set mods \<subseteq> ruleModifiers"
  shows "rewriteRuleTarget (Join (pre @ t # mods) '','') s = Join (pre @ nsTarget s t # mods) '',''"
proof -
  have hd: "(pre @ t # mods) ! 0 \<noteq> ''RULE-SET''" using assms(2,3) by (cases pre) auto
  have "rewriteRuleTarget (Join (pre @ t # mods) '','') s =
      Join ((pre @ t # mods)[length pre := nsTarget s ((pre @ t # mods) ! length pre)]) '',''"
    using assms hd targetScan_mods [OF assms(4,5), of pre]
    by (intro rewriteRuleTarget_eq [where parts = "pre @ t # mods"])
      (auto intro!: Split_Join simp: Suc_le_eq)
  then show ?thesis by simp
qed

lemma rewriteRuleTarget_ruleset:
  assumes "\<forall>q\<in>set (p # mid @ t # mods). CHR '','' \<notin> set q"
    and "t \<notin> ruleModifiers" and "set mods \<subseteq> ruleModifiers"
  shows "rewriteRuleTarget (Join (''RULE-SET'' # p # mid @ t # mods) '','') s =
     Join (''RULE-SET'' # (s @ ''_'' @ p) # mid @ nsTarget s t # mods) '',''"
proof -
  let ?pre = "''RULE-SET'' # (s @ ''_'' @ p) # mid"
  have split: "Split (Join (''RULE-SET'' # p # mid @ t # mods) '','') CHR '','' = ''RULE-SET'' # p # mid @ t # mods"
    using assms(1) by (intro Split_Join) auto
  have "rewriteRuleTarget (Join (''RULE-SET'' # p # mid @ t # mods) '','') s =
      Join ((?pre @ t # mods)[length ?pre := nsTarget s ((?pre @ t # mods) ! length ?pre)]) '',''"
    using targetScan_mods [OF assms(2,3), of ?pre]
    by (intro rewriteRuleTarget_eq [OF split]) simp_all
  then show ?thesis by simp
qed

section \<open>Properties\<close>

text \<open>The fields before the target: a \<open>RULE-SET\<close> rule also has its provider prefixed.\<close>

fun nsFields :: "string \<Rightarrow> string list \<Rightarrow> string list" where
  "nsFields s (k # p # mid) = (if k = ''RULE-SET'' then k # (s @ ''_'' @ p) # mid else k # p # mid)"
| "nsFields s pre = pre"

text \<open>Rewriting a rule \<open>TYPE,...,TARGET,MODIFIER...\<close> for source \<open>s\<close> changes the
  target field (unless it is a built-in), and for a \<open>RULE-SET\<close> rule the provider field, and
  nothing else: the other fields, their number and the trailing modifiers stay as they are.\<close>

theorem rewriteRuleTarget_fields:
  assumes "\<forall>p\<in>set (pre @ t # mods). CHR '','' \<notin> set p"
    and "pre \<noteq> []" and "hd pre = ''RULE-SET'' \<longrightarrow> 2 \<le> length pre"
    and "t \<notin> ruleModifiers" and "set mods \<subseteq> ruleModifiers"
  shows "rewriteRuleTarget (Join (pre @ t # mods) '','') s =
     Join (nsFields s pre @ nsTarget s t # mods) '',''"
proof (cases "hd pre = ''RULE-SET''")
  case True
  with assms(2,3) obtain p mid where pre: "pre = ''RULE-SET'' # p # mid"
    by (metis One_nat_def Suc_1 Suc_le_length_iff list.sel(1) hd_Cons_tl)
  with assms(1) have "\<forall>q\<in>set (p # mid @ t # mods). CHR '','' \<notin> set q" by auto
  from rewriteRuleTarget_ruleset [OF this assms(4,5), of s] show ?thesis by (simp add: pre)
next
  case False
  then have "nsFields s pre = pre" by (cases "(s, pre)" rule: nsFields.cases) auto
  with rewriteRuleTarget_plain [OF assms(1,2) False assms(4,5), of s] show ?thesis by simp
qed

theorem rewriteRuleTarget_fields_witness:
  "rewriteRuleTarget ''RULE-SET,ads,Block,no-resolve'' ''alpha'' = ''RULE-SET,alpha_ads,alpha_Block,no-resolve''"
  using rewriteRuleTarget_fields [of "[''RULE-SET'', ''ads'']" "''Block''" "[''no-resolve'']" "''alpha''"]
  by (simp add: ruleModifiers_def builtinTargets_def nsTarget_def)

text \<open>References stay inside the source. When every member of a source's groups names a
  proxy or group of that source or a built-in, the same holds after the rewrite: prefixing the
  definitions and the references agree.\<close>

theorem RewriteSource_references_closed:
  assumes "RewriteSource s proxies groups rules = (proxies', groups', rules')"
    and "\<forall>n\<in>set (proxies @ groups). named_node n"
    and "\<forall>g\<in>set groups. set (members_of g) \<subseteq> builtinTargets \<union> entryNames (proxies @ groups)"
  shows "\<forall>g\<in>set groups'. set (members_of g) \<subseteq> builtinTargets \<union> entryNames (proxies' @ groups')"
proof
  fix g' assume "g' \<in> set groups'"
  with assms(1) obtain g where g: "g \<in> set groups"
    and g': "g' = rewriteGroupMembers (prefixName (s @ ''_'') g) s"
    by (auto simp: RewriteSource_def)
  from assms(2) g have map: "is_mapping (prefixName (s @ ''_'') g)"
    using named_node_prefixName by (auto simp: named_node_def)
  have names: "s @ ''_'' @ node_name n \<in> entryNames (proxies' @ groups')" if "n \<in> set (proxies @ groups)" for n
  proof -
    from that assms(2) have n: "named_node n" by blast
    then have nm: "node_name (prefixName (s @ ''_'') n) = s @ ''_'' @ node_name n"
      by (simp add: named_node_def)
    have im: "is_mapping (prefixName (s @ ''_'') n)"
      using n named_node_prefixName by (auto simp: named_node_def)
    show ?thesis
    proof (cases "n \<in> set proxies")
      case True
      then have "prefixName (s @ ''_'') n \<in> set proxies'" using assms(1) by (auto simp: RewriteSource_def)
      with nm show ?thesis by (force simp: entryNames_def)
    next
      case False
      with that assms(1) have "rewriteGroupMembers (prefixName (s @ ''_'') n) s \<in> set groups'"
        by (auto simp: RewriteSource_def)
      with nm im show ?thesis by (force simp: entryNames_def)
    qed
  qed
  show "set (members_of g') \<subseteq> builtinTargets \<union> entryNames (proxies' @ groups')"
  proof
    fix m' assume "m' \<in> set (members_of g')"
    then obtain m where m: "m \<in> set (members_of g)"
      and m': "m' = (if m \<in> builtinTargets then m else s @ ''_'' @ m)"
      using map by (auto simp: g')
    with assms(3) g have "m \<in> builtinTargets \<or> m \<in> entryNames (proxies @ groups)" by blast
    then show "m' \<in> builtinTargets \<union> entryNames (proxies' @ groups')"
      using names by (auto simp: m' entryNames_def [of "proxies @ groups"])
  qed
qed

end
