(* ===== verification/Ruleset.thy ===== *)
theory Ruleset
  imports Namespace
begin

text \<open>
  \<open>internal/merge/ruleset.go\<close>: the \<open>rule-providers\<close> of each source are namespaced,
  \<open>RULE-SET\<close> rules without a provider are dropped, and the providers some surviving rule
  refers to are merged into one mapping.  A nil mapping is \<open>None\<close>; Go's sets of strings are
  HOL sets.
\<close>

section \<open>Definitions\<close>

record DroppedRuleSet =
  drs_Provider :: string
  drs_Rule :: string

definition sourceDistinctPath :: "string \<Rightarrow> string \<Rightarrow> string" where
  "sourceDistinctPath orig namespacedKey =
     (let sl = LastIndexByte orig CHR ''/'';
          dir = (if 0 \<le> sl then take (nat sl + 1) orig else []);
          base = (if 0 \<le> sl then drop (nat sl + 1) orig else orig);
          dot = LastIndexByte base CHR ''.'';
          ext = (if 0 \<le> dot then drop (nat dot) base else [])
      in dir @ namespacedKey @ ext)"

definition rewriteProviderKey :: "string \<Rightarrow> node \<Rightarrow> node" where
  "rewriteProviderKey sourceName keyNode =
     (let newKey = cloneNode keyNode in
      Node (hdr newKey\<lparr>y_value := sourceName @ ''_'' @ nvalue keyNode, y_tag := ''!!str''\<rparr>) (content newKey))"

definition rewriteProviderVal :: "string \<Rightarrow> string \<Rightarrow> node \<Rightarrow> node" where
  "rewriteProviderVal sourceName newKey valNode =
     (let newVal = cloneNode valNode;
          orig = getMappingField newVal ''path'';
          newVal = (if orig \<noteq> [] then fst (setMappingField newVal ''path'' (sourceDistinctPath orig newKey))
                    else newVal);
          px = getMappingField newVal ''proxy''
      in if px \<noteq> [] \<and> px \<notin> builtinTargets
         then fst (setMappingField newVal ''proxy'' (sourceName @ ''_'' @ px)) else newVal)"

text \<open>The loop over key/value pairs: the new content and the skipped provider keys.\<close>

fun rewriteProviders :: "string \<Rightarrow> node list \<Rightarrow> node list \<times> string list" where
  "rewriteProviders sourceName (keyNode # valNode # r) =
     (let (out, skipped) = rewriteProviders sourceName r in
      if nkind valNode \<noteq> MappingNode then (out, nvalue keyNode # skipped)
      else let newKey = rewriteProviderKey sourceName keyNode in
        (newKey # rewriteProviderVal sourceName (nvalue newKey) valNode # out, skipped))"
| "rewriteProviders sourceName _ = ([], [])"

definition RewriteSourceRuleProviders :: "string \<Rightarrow> node option \<Rightarrow> node option \<times> string list" where
  "RewriteSourceRuleProviders sourceName rp = (case rp of
      None \<Rightarrow> (None, [])
    | Some n \<Rightarrow>
        if nkind n \<noteq> MappingNode then (None, [])
        else let (out, skipped) = rewriteProviders sourceName (content n) in
          (Some (Node (hdr (mkNode MappingNode [] ''!!map'')\<lparr>y_style := y_style (hdr n)\<rparr>) out), skipped))"

definition ruleProviderKeys :: "node option \<Rightarrow> string set" where
  "ruleProviderKeys rp = (case rp of
      None \<Rightarrow> {}
    | Some n \<Rightarrow> if nkind n \<noteq> MappingNode then {} else set (map (nvalue \<circ> fst) (pairs_of (content n))))"

definition isRuleSetRule :: "string \<Rightarrow> bool" where
  "isRuleSetRule r \<longleftrightarrow> (let parts = Split r CHR '','' in 2 \<le> length parts \<and> parts ! 0 = ''RULE-SET'')"

definition ruleSetProvider :: "string \<Rightarrow> string" where
  "ruleSetProvider r = Split r CHR '','' ! 1"

fun DropUnbackedRuleSetRules :: "string list \<Rightarrow> string set \<Rightarrow> string list \<times> DroppedRuleSet list" where
  "DropUnbackedRuleSetRules [] providerKeys = ([], [])"
| "DropUnbackedRuleSetRules (r # rules) providerKeys =
     (let (kept, dropped) = DropUnbackedRuleSetRules rules providerKeys in
      if isRuleSetRule r \<and> ruleSetProvider r \<notin> providerKeys
      then (kept, \<lparr>drs_Provider = ruleSetProvider r, drs_Rule = r\<rparr> # dropped)
      else (r # kept, dropped))"

definition ReferencedRuleProviders :: "string list \<Rightarrow> string set" where
  "ReferencedRuleProviders rules = set (map ruleSetProvider (filter isRuleSetRule rules))"

definition referencedPairs :: "string set \<Rightarrow> node \<Rightarrow> (node \<times> node) list" where
  "referencedPairs referenced src =
     (if nkind src \<noteq> MappingNode then []
      else filter (\<lambda>(key, val). nvalue key \<in> referenced) (pairs_of (content src)))"

definition MergeRuleProviders :: "node list \<Rightarrow> string set \<Rightarrow> node option" where
  "MergeRuleProviders perSource referenced =
     (let kept = concat (map (\<lambda>src. unpairs (referencedPairs referenced src)) perSource) in
      if length kept = 0 then None
      else Some (Node (hdr (mkNode MappingNode [] ''!!map'')) kept))"

section \<open>Laws\<close>

lemma length_unpairs [simp]: "length (unpairs ps) = 2 * length ps"
  by (induction ps rule: unpairs.induct) auto

lemma unpairs_append [simp]: "unpairs (ps @ qs) = unpairs ps @ unpairs qs"
  by (induction ps rule: unpairs.induct) auto

lemma concat_unpairs: "concat (map (\<lambda>x. unpairs (f x)) xs) = unpairs (concat (map f xs))"
  by (induction xs) auto

lemma DropUnbacked_filter:
  "fst (DropUnbackedRuleSetRules rules keys) = filter (\<lambda>r. isRuleSetRule r \<longrightarrow> ruleSetProvider r \<in> keys) rules"
  "snd (DropUnbackedRuleSetRules rules keys) =
     map (\<lambda>r. \<lparr>drs_Provider = ruleSetProvider r, drs_Rule = r\<rparr>)
       (filter (\<lambda>r. isRuleSetRule r \<and> ruleSetProvider r \<notin> keys) rules)"
  by (induction rules) (auto simp: Let_def split: prod.splits)

lemma keys_rewriteProviders:
  "map (nvalue \<circ> fst) (pairs_of (fst (rewriteProviders s cs))) =
     map (\<lambda>(k, v). s @ ''_'' @ nvalue k) (filter (\<lambda>(k, v). nkind v = MappingNode) (pairs_of cs))"
  by (induction s cs rule: rewriteProviders.induct)
    (auto simp: Let_def rewriteProviderKey_def split: prod.splits)

lemma ruleProviderKeys_rewrite:
  assumes "nkind n = MappingNode"
  shows "ruleProviderKeys (fst (RewriteSourceRuleProviders s (Some n))) =
     {s @ ''_'' @ nvalue k | k v. (k, v) \<in> set (pairs_of (content n)) \<and> nkind v = MappingNode}"
proof -
  have "ruleProviderKeys (fst (RewriteSourceRuleProviders s (Some n))) =
      set (map (nvalue \<circ> fst) (pairs_of (fst (rewriteProviders s (content n)))))"
    using assms by (auto simp: RewriteSourceRuleProviders_def ruleProviderKeys_def split: prod.split)
  then show ?thesis unfolding keys_rewriteProviders by force
qed

text \<open>The keys of the merged block are the referenced keys of the sources.\<close>

lemma unpairs_Nil_iff [simp]: "unpairs ps = [] \<longleftrightarrow> ps = []"
  by (cases ps rule: unpairs.cases) auto

lemma set_referencedPairs:
  "(nvalue \<circ> fst) ` set (referencedPairs referenced n) = ruleProviderKeys (Some n) \<inter> referenced"
  by (force simp: referencedPairs_def ruleProviderKeys_def)

lemma MergeRuleProviders_pairs:
  "MergeRuleProviders perSource referenced =
     (let ps = concat (map (referencedPairs referenced) perSource) in
      if ps = [] then None else Some (Node (hdr (mkNode MappingNode [] ''!!map'')) (unpairs ps)))"
  by (simp only: MergeRuleProviders_def Let_def concat_unpairs length_0_conv unpairs_Nil_iff)

lemma keys_MergeRuleProviders:
  "ruleProviderKeys (MergeRuleProviders perSource referenced) =
     (\<Union>n\<in>set perSource. ruleProviderKeys (Some n)) \<inter> referenced"
proof -
  let ?ps = "concat (map (referencedPairs referenced) perSource)"
  have "ruleProviderKeys (MergeRuleProviders perSource referenced) = (nvalue \<circ> fst) ` set ?ps"
    by (cases "?ps = []") (auto simp: MergeRuleProviders_pairs Let_def ruleProviderKeys_def)
  also have "\<dots> = (\<Union>n\<in>set perSource. (nvalue \<circ> fst) ` set (referencedPairs referenced n))" by auto
  finally show ?thesis unfolding set_referencedPairs by auto
qed

section \<open>Properties\<close>

text \<open>Every \<open>RULE-SET\<close> rule that survives the drop has its provider, and nothing else is
  lost: a rule is dropped exactly when it is a \<open>RULE-SET\<close> rule whose provider is undefined,
  the kept rules are in their order, and each dropped rule is reported with its provider.\<close>

theorem DropUnbackedRuleSetRules_spec:
  "DropUnbackedRuleSetRules rules keys = (kept, dropped) \<Longrightarrow>
     kept = filter (\<lambda>r. \<not> (isRuleSetRule r \<and> ruleSetProvider r \<notin> keys)) rules \<and>
     ReferencedRuleProviders kept \<subseteq> keys \<and>
     map drs_Rule dropped = filter (\<lambda>r. isRuleSetRule r \<and> ruleSetProvider r \<notin> keys) rules \<and>
     length kept + length dropped = length rules"
proof -
  assume d: "DropUnbackedRuleSetRules rules keys = (kept, dropped)"
  have k: "kept = filter (\<lambda>r. \<not> (isRuleSetRule r \<and> ruleSetProvider r \<notin> keys)) rules"
    using d DropUnbacked_filter(1) [of rules keys] by (auto intro: filter_cong)
  have dr: "map drs_Rule dropped = filter (\<lambda>r. isRuleSetRule r \<and> ruleSetProvider r \<notin> keys) rules"
    using d DropUnbacked_filter(2) [of rules keys] by (simp add: o_def)
  have "length kept + length (map drs_Rule dropped) = length rules"
    unfolding k dr using sum_length_filter_compl [of "\<lambda>r. isRuleSetRule r \<and> ruleSetProvider r \<notin> keys" rules]
    by simp
  then have "length kept + length dropped = length rules" by simp
  moreover have "ReferencedRuleProviders kept \<subseteq> keys" by (auto simp: k ReferencedRuleProviders_def)
  ultimately show ?thesis using k dr by blast
qed

text \<open>The merged block is exactly what the rules need.  Its keys are the providers that some
  source defines and some rule refers to; the block is absent exactly when there are none.\<close>

theorem MergeRuleProviders_keys:
  "ruleProviderKeys (MergeRuleProviders perSource (ReferencedRuleProviders rules)) =
       (\<Union>n\<in>set perSource. ruleProviderKeys (Some n)) \<inter> ReferencedRuleProviders rules \<and>
     (MergeRuleProviders perSource (ReferencedRuleProviders rules) = None \<longleftrightarrow>
       (\<Union>n\<in>set perSource. ruleProviderKeys (Some n)) \<inter> ReferencedRuleProviders rules = {})"
proof -
  let ?R = "ReferencedRuleProviders rules"
  let ?ps = "concat (map (referencedPairs ?R) perSource)"
  have "MergeRuleProviders perSource ?R = None \<longleftrightarrow> ?ps = []"
    by (simp add: MergeRuleProviders_pairs Let_def)
  also have "\<dots> \<longleftrightarrow> (\<Union>n\<in>set perSource. (nvalue \<circ> fst) ` set (referencedPairs ?R n)) = {}" by auto
  finally show ?thesis unfolding set_referencedPairs using keys_MergeRuleProviders by auto
qed

end
