(* ===== verification/Prune.thy ===== *)
theory Prune
  imports Namespace
begin

text \<open>
  \<open>internal/merge/prune.go\<close>: removal of empty proxy-groups and the clean-up of the member
  and rule references to them.  A target field is located by its byte range in the rule line, as
  in the source; the laws relate the ranges to the comma-separated fields.
\<close>

section \<open>Definitions\<close>

record RuleRetarget =
  rt_RuleIndex :: nat
  rt_OldTarget :: string
  rt_NewTarget :: string

record PruneResult =
  pr_RemovedGroups :: "string list"
  pr_Retargets :: "RuleRetarget list"

definition knownRuleOptions :: "string set" where
  "knownRuleOptions = {''no-resolve''}"

text \<open>\<open>fieldSpans start i s\<close>: the loop over the bytes of the rule from position \<open>i\<close>, the
  current field having begun at \<open>start\<close>.\<close>

fun fieldSpans :: "nat \<Rightarrow> nat \<Rightarrow> string \<Rightarrow> (nat \<times> nat) list" where
  "fieldSpans start i [] = [(start, i)]"
| "fieldSpans start i (c # s) =
     (if c = CHR '','' then (start, i) # fieldSpans (i + 1) (i + 1) s else fieldSpans start (i + 1) s)"

definition ruleTarget :: "string \<Rightarrow> (string \<times> nat \<times> nat) option" where
  "ruleTarget rule =
     (let spans = fieldSpans 0 0 rule; sub = (\<lambda>(s, e). slice rule s e); ret = (\<lambda>(s, e). Some (slice rule s e, s, e)) in
      if length spans < 2 then None
      else if sub (spans ! 0) = ''MATCH'' then ret (spans ! 1)
      else let last = spans ! (length spans - 1) in
        if sub last \<in> knownRuleOptions \<and> 3 \<le> length spans then ret (spans ! (length spans - 2))
        else ret last)"

definition protectedNames :: "node list \<Rightarrow> string \<Rightarrow> string \<Rightarrow> string set" where
  "protectedNames groups proxiesGroupName fallbackRuleTarget =
     {proxiesGroupName} \<union>
     (if \<exists>g\<in>set groups. getMappingField g ''name'' = fallbackRuleTarget then {fallbackRuleTarget} else {})"

definition dropMembers :: "string set \<Rightarrow> node \<Rightarrow> node" where
  "dropMembers removed g =
     (let members = mappingMembers g ''proxies''; kept = filter (\<lambda>m. m \<notin> removed) members in
      if \<exists>m\<in>set members. m \<in> removed then setMappingMembers g ''proxies'' kept else g)"

definition retargetRule :: "string set \<Rightarrow> string \<Rightarrow> string \<Rightarrow> string" where
  "retargetRule removed fallbackRuleTarget rule = (case ruleTarget rule of
      None \<Rightarrow> rule
    | Some (target, s, e) \<Rightarrow>
        if target \<in> removed then take s rule @ fallbackRuleTarget @ drop e rule else rule)"

fun retargetLog :: "string set \<Rightarrow> string \<Rightarrow> nat \<Rightarrow> string list \<Rightarrow> RuleRetarget list" where
  "retargetLog removed fb i [] = []"
| "retargetLog removed fb i (rule # rules) =
     (case ruleTarget rule of
        Some (target, s, e) \<Rightarrow>
          (if target \<in> removed then [\<lparr>rt_RuleIndex = i, rt_OldTarget = target, rt_NewTarget = fb\<rparr>] else [])
      | None \<Rightarrow> []) @ retargetLog removed fb (i + 1) rules"

definition PruneEmptyProxyGroups ::
  "node list \<Rightarrow> string list \<Rightarrow> string \<Rightarrow> string \<Rightarrow> node list \<times> string list \<times> PruneResult" where
  "PruneEmptyProxyGroups groups rules proxiesGroupName0 fallbackRuleTarget =
     (let proxiesGroupName = (if proxiesGroupName0 = [] then ''Proxies'' else proxiesGroupName0);
          prot = protectedNames groups proxiesGroupName fallbackRuleTarget;
          empty = (\<lambda>g. getMappingField g ''name'' \<notin> prot \<and> length (mappingMembers g ''proxies'') = 0);
          removedGroups = map (\<lambda>g. getMappingField g ''name'') (filter empty groups);
          removed = set removedGroups;
          prunedGroups = filter (\<lambda>g. \<not> empty g) groups
      in if removed = {} then (groups, rules, \<lparr>pr_RemovedGroups = removedGroups, pr_Retargets = []\<rparr>)
         else (map (dropMembers removed) prunedGroups,
               map (retargetRule removed fallbackRuleTarget) rules,
               \<lparr>pr_RemovedGroups = removedGroups, pr_Retargets = retargetLog removed fallbackRuleTarget 0 rules\<rparr>))"

section \<open>Fields and byte ranges\<close>

lemma slice_snoc: "start \<le> length pre \<Longrightarrow> slice (pre @ c # s) start (length pre + 1) = slice (pre @ c # s) start (length pre) @ [c]"
  by (simp add: slice_def Suc_diff_le)

lemma slice_self [simp]: "slice R i i = []"
  by (simp add: slice_def)

lemma take_slice: "start \<le> i \<Longrightarrow> take start R @ slice R start i = take i R"
  by (simp add: slice_def) (metis le_add_diff_inverse take_add)

lemma fieldSpans_slices:
  assumes "R = pre @ s" and "start \<le> length pre"
  shows "map (\<lambda>(a, b). slice R a b) (fieldSpans start (length pre) s) = split_aux CHR '','' (slice R start (length pre)) s"
  using assms
proof (induction s arbitrary: pre start)
  case Nil
  then show ?case by simp
next
  case (Cons c s)
  have R: "R = (pre @ [c]) @ s" using Cons.prems by simp
  show ?case
  proof (cases "c = CHR '',''")
    case True
    with Cons.IH [OF R, of "length pre + 1"] show ?thesis by simp
  next
    case False
    have "slice R start (length pre + 1) = slice R start (length pre) @ [c]"
      using Cons.prems slice_snoc [of start pre c s] by simp
    with False Cons.IH [OF R, of start] Cons.prems(2) show ?thesis by simp
  qed
qed

lemma fieldSpans_Split: "map (\<lambda>(a, b). slice rule a b) (fieldSpans 0 0 rule) = Split rule CHR '',''"
  using fieldSpans_slices [of rule "[]" rule 0] by (simp add: Split_def)

lemma length_fieldSpans: "length (fieldSpans 0 0 rule) = length (Split rule CHR '','')"
  by (metis fieldSpans_Split length_map)

lemma nth_fieldSpans:
  "k < length (Split rule CHR '','') \<Longrightarrow> (\<lambda>(a, b). slice rule a b) (fieldSpans 0 0 rule ! k) = Split rule CHR '','' ! k"
  by (metis fieldSpans_Split length_fieldSpans nth_map)

lemma fieldSpans_replace_aux:
  assumes "R = pre @ s" and "start \<le> length pre" and "k < length (fieldSpans start (length pre) s)"
  shows "take (fst (fieldSpans start (length pre) s ! k)) R @ x @ drop (snd (fieldSpans start (length pre) s ! k)) R =
     take start R @ Join ((split_aux CHR '','' (slice R start (length pre)) s)[k := x]) '',''"
  using assms
proof (induction s arbitrary: pre start k)
  case Nil
  then show ?case by simp
next
  case (Cons c s)
  have R: "R = (pre @ [c]) @ s" using Cons.prems by simp
  show ?case
  proof (cases "c = CHR '',''")
    case sep: True
    show ?thesis
    proof (cases k)
      case 0
      with sep Cons.prems show ?thesis using Join_split_aux [of "CHR '',''" "[]" s] by simp
    next
      case (Suc j)
      have j: "j < length (fieldSpans (length pre + 1) (length (pre @ [c])) s)" using Cons.prems(3) Suc sep by simp
      have "take (length pre + 1) R = take (length pre) R @ '',''"
        using Cons.prems(1) sep by simp
      then have "take (length pre + 1) R = take start R @ slice R start (length pre) @ '',''"
        using take_slice [OF Cons.prems(2), of R] by simp
      with Cons.IH [OF R, of "length pre + 1" j] j Suc sep show ?thesis by simp
    qed
  next
    case False
    have "slice R start (length pre + 1) = slice R start (length pre) @ [c]"
      using Cons.prems slice_snoc [of start pre c s] by simp
    with False Cons.IH [OF R, of start k] Cons.prems(2,3) show ?thesis by simp
  qed
qed

lemma fieldSpans_replace:
  assumes "fieldSpans 0 0 rule ! k = (s, e)" and "k < length (Split rule CHR '','')"
  shows "take s rule @ x @ drop e rule = Join ((Split rule CHR '','')[k := x]) '',''"
  using fieldSpans_replace_aux [of rule "[]" rule 0 k x] assms
  by (simp add: Split_def length_fieldSpans)

text \<open>The index of the target among the fields.\<close>

definition targetIndex :: "string list \<Rightarrow> nat" where
  "targetIndex parts =
     (if parts ! 0 = ''MATCH'' then 1
      else if parts ! (length parts - 1) \<in> knownRuleOptions \<and> 3 \<le> length parts then length parts - 2
      else length parts - 1)"

lemma targetIndex_bounds: "2 \<le> length parts \<Longrightarrow> 1 \<le> targetIndex parts \<and> targetIndex parts < length parts"
  by (auto simp: targetIndex_def)

lemma ruleTarget_fields:
  "ruleTarget rule =
     (let parts = Split rule CHR '','' in
      if length parts < 2 then None
      else let i = targetIndex parts; (s, e) = fieldSpans 0 0 rule ! i in Some (parts ! i, s, e))"
proof (cases "length (Split rule CHR '','') < 2")
  case True
  then show ?thesis by (simp add: ruleTarget_def length_fieldSpans)
next
  case False
  have sl: "slice rule (fst (fieldSpans 0 0 rule ! k)) (snd (fieldSpans 0 0 rule ! k)) = Split rule CHR '','' ! k"
    if "k < length (Split rule CHR '','')" for k
    using nth_fieldSpans [OF that] by (simp add: case_prod_unfold)
  show ?thesis
    using False sl [of 0] sl [of 1] sl [of "length (Split rule CHR '','') - 1"]
      sl [of "length (Split rule CHR '','') - 2"]
    by (simp add: ruleTarget_def length_fieldSpans targetIndex_def Let_def case_prod_unfold)
qed

definition ruleTargetName :: "string \<Rightarrow> string option" where
  "ruleTargetName rule = map_option fst (ruleTarget rule)"

lemma ruleTargetName_fields:
  "ruleTargetName rule = (let parts = Split rule CHR '','' in
     if length parts < 2 then None else Some (parts ! targetIndex parts))"
  by (simp add: ruleTargetName_def ruleTarget_fields Let_def case_prod_unfold)

lemma retargetRule_fields:
  "retargetRule removed fb rule =
     (let parts = Split rule CHR '',''; i = targetIndex parts in
      if 2 \<le> length parts \<and> parts ! i \<in> removed then Join (parts[i := fb]) '','' else rule)"
proof (cases "length (Split rule CHR '','') < 2")
  case True
  then show ?thesis by (simp add: retargetRule_def ruleTarget_fields)
next
  case False
  let ?parts = "Split rule CHR '',''"
  obtain s e where se: "fieldSpans 0 0 rule ! targetIndex ?parts = (s, e)" by fastforce
  from False have "targetIndex ?parts < length ?parts" using targetIndex_bounds by simp
  from fieldSpans_replace [OF se this, of fb] False se show ?thesis
    by (simp add: retargetRule_def ruleTarget_fields Let_def)
qed

lemma targetIndex_update:
  assumes "2 \<le> length parts" and "fb \<notin> knownRuleOptions"
  shows "targetIndex (parts[targetIndex parts := fb]) = targetIndex parts"
  using assms by (auto simp: targetIndex_def nth_list_update)

lemma ruleTargetName_retargetRule:
  assumes "CHR '','' \<notin> set fb" and "fb \<notin> knownRuleOptions" and "fb \<notin> removed"
  shows "ruleTargetName (retargetRule removed fb rule) \<noteq> Some t \<or> t \<notin> removed"
proof -
  let ?parts = "Split rule CHR '',''"
  let ?i = "targetIndex ?parts"
  show ?thesis
  proof (cases "2 \<le> length ?parts \<and> ?parts ! ?i \<in> removed")
    case True
    have "Split (Join (?parts[?i := fb]) '','') CHR '','' = ?parts[?i := fb]"
    proof (rule Split_Join)
      show "?parts[?i := fb] \<noteq> []" by simp
      show "\<forall>p\<in>set (?parts[?i := fb]). CHR '','' \<notin> set p"
        using assms(1) set_update_subset_insert [of ?parts ?i fb] by auto
    qed
    with True assms targetIndex_bounds [of ?parts] targetIndex_update [of ?parts fb] show ?thesis
      by (auto simp: retargetRule_fields ruleTargetName_fields Let_def)
  next
    case False
    then show ?thesis
      by (auto simp: retargetRule_fields ruleTargetName_fields Let_def split: if_splits)
  qed
qed

text \<open>The lines of a rule list: \<open>MATCH,TARGET\<close>, \<open>TYPE,PAYLOAD,TARGET\<close> and
  \<open>TYPE,PAYLOAD,TARGET,no-resolve\<close>, where the payload may itself have commas.\<close>

lemma retargetRule_target:
  assumes "Split r CHR '','' = pre @ t # post" and "pre \<noteq> []" and "targetIndex (pre @ t # post) = length pre"
  shows "retargetRule removed fb r = Join (pre @ (if t \<in> removed then fb else t) # post) '',''"
proof -
  have "r = Join (pre @ t # post) '',''" using Join_Split [of r "CHR '',''"] assms(1) by simp
  then show ?thesis using assms by (auto simp: retargetRule_fields Let_def Suc_le_eq)
qed

lemma retargetRule_MATCH:
  "CHR '','' \<notin> set t \<Longrightarrow> retargetRule removed fb (''MATCH,'' @ t) = ''MATCH,'' @ (if t \<in> removed then fb else t)"
  using retargetRule_target [of "''MATCH,'' @ t" "[''MATCH'']" t "[]" removed fb]
    Split_eqI [of "[''MATCH'', t]" "CHR '',''" "''MATCH,'' @ t"] by (simp add: targetIndex_def)

lemma retargetRule_plain:
  assumes "CHR '','' \<notin> set typ" "typ \<noteq> ''MATCH''" "CHR '','' \<notin> set t" "t \<noteq> ''no-resolve''"
  shows "retargetRule removed fb (typ @ '','' @ payload @ '','' @ t) =
     typ @ '','' @ payload @ '','' @ (if t \<in> removed then fb else t)"
proof -
  have s: "Split (typ @ '','' @ payload @ '','' @ t) CHR '','' = (typ # Split payload CHR '','') @ t # []"
    using assms(1,3) by (simp add: Split_Cons_field Split_snoc_field)
  from retargetRule_target [OF s] show ?thesis
    using assms by (simp add: targetIndex_def nth_append knownRuleOptions_def Join_append)
qed

lemma retargetRule_no_resolve:
  assumes "CHR '','' \<notin> set typ" "typ \<noteq> ''MATCH''" "CHR '','' \<notin> set t"
  shows "retargetRule removed fb (typ @ '','' @ payload @ '','' @ t @ '',no-resolve'') =
     typ @ '','' @ payload @ '','' @ (if t \<in> removed then fb else t) @ '',no-resolve''"
proof -
  have "Split (payload @ '','' @ t @ '',no-resolve'') CHR '','' = Split (payload @ '','' @ t) CHR '','' @ [''no-resolve'']"
    using Split_snoc_field [of "CHR '',''" "''no-resolve''" "payload @ '','' @ t"] by simp
  then have s: "Split (typ @ '','' @ payload @ '','' @ t @ '',no-resolve'') CHR '','' = (typ # Split payload CHR '','') @ t # [''no-resolve'']"
    using assms(1,3) by (simp add: Split_Cons_field Split_snoc_field)
  from retargetRule_target [OF s] show ?thesis
    using assms by (simp add: targetIndex_def nth_append knownRuleOptions_def Join_append)
qed

lemma retargetRule_other:
  assumes "\<forall>f\<in>set (Split r CHR '',''). f \<notin> removed"
  shows "retargetRule removed fb r = r"
  using assms targetIndex_bounds [of "Split r CHR '',''"] by (auto simp: retargetRule_fields Let_def dest: nth_mem)

lemma retargetRule_shapes:
  "(\<forall>t. CHR '','' \<notin> set t \<longrightarrow> r = ''MATCH,'' @ t \<longrightarrow>
      retargetRule removed fb r = ''MATCH,'' @ (if t \<in> removed then fb else t)) \<and>
   (\<forall>typ payload t. CHR '','' \<notin> set typ \<longrightarrow> typ \<noteq> ''MATCH'' \<longrightarrow> CHR '','' \<notin> set t \<longrightarrow>
      (t \<noteq> ''no-resolve'' \<longrightarrow> r = typ @ '','' @ payload @ '','' @ t \<longrightarrow>
         retargetRule removed fb r = typ @ '','' @ payload @ '','' @ (if t \<in> removed then fb else t)) \<and>
      (r = typ @ '','' @ payload @ '','' @ t @ '',no-resolve'' \<longrightarrow>
         retargetRule removed fb r = typ @ '','' @ payload @ '','' @ (if t \<in> removed then fb else t) @ '',no-resolve'')) \<and>
   ((\<forall>f\<in>set (Split r CHR '',''). f \<notin> removed) \<longrightarrow> retargetRule removed fb r = r)"
  by (intro conjI allI impI)
    (simp_all only: retargetRule_MATCH retargetRule_plain retargetRule_no_resolve retargetRule_other not_False_eq_True)

section \<open>Members\<close>

lemma members_dropMembers: "members_of (dropMembers removed g) = filter (\<lambda>m. m \<notin> removed) (members_of g)"
proof (cases "\<exists>m\<in>set (members_of g). m \<in> removed")
  case True
  then have "members_of g \<noteq> []" by auto
  with True show ?thesis by (simp add: dropMembers_def setMappingMembers_present)
next
  case False
  then have "filter (\<lambda>m. m \<notin> removed) (members_of g) = members_of g" by (simp add: filter_id_conv)
  with False show ?thesis by (simp add: dropMembers_def)
qed

lemma field_dropMembers [simp]:
  assumes "k \<noteq> ''proxies''"
  shows "getMappingField (dropMembers removed g) k = getMappingField g k"
proof (cases "\<exists>m\<in>set (members_of g). m \<in> removed")
  case True
  then have "members_of g \<noteq> []" by auto
  with True assms show ?thesis by (simp add: dropMembers_def setMappingMembers_present)
next
  case False
  then show ?thesis by (simp add: dropMembers_def)
qed

lemma getMappingNode_dropMembers:
  assumes "k \<noteq> ''proxies''"
  shows "getMappingNode (dropMembers removed g) k = getMappingNode g k"
proof (cases "\<exists>m\<in>set (members_of g). m \<in> removed")
  case True
  then have "members_of g \<noteq> []" by auto
  then obtain w where "nkind g = MappingNode" "findPair (\<lambda>_. True) ''proxies'' (content g) = Some w"
    by (auto simp: mappingMembers_def getMappingNode_def split: if_splits option.splits)
  with True assms show ?thesis
    by (simp add: dropMembers_def setMappingMembers_def setMappingValue_def getMappingNode_def)
next
  case False
  then show ?thesis by (simp add: dropMembers_def)
qed

section \<open>Properties\<close>

text \<open>The groups the pass removes: unprotected groups without members.\<close>

definition emptyGroup :: "node list \<Rightarrow> string \<Rightarrow> string \<Rightarrow> node \<Rightarrow> bool" where
  "emptyGroup groups pg fb g \<longleftrightarrow>
     node_name g \<notin> protectedNames groups (if pg = [] then ''Proxies'' else pg) fb \<and> members_of g = []"

lemma Prune_cases:
  assumes "removed = set (map node_name (filter (emptyGroup groups pg fb) groups))"
  shows "PruneEmptyProxyGroups groups rules pg fb =
     (if removed = {} then (groups, rules, \<lparr>pr_RemovedGroups = [], pr_Retargets = []\<rparr>)
      else (map (dropMembers removed) (filter (\<lambda>g. \<not> emptyGroup groups pg fb g) groups),
            map (retargetRule removed fb) rules,
            \<lparr>pr_RemovedGroups = map node_name (filter (emptyGroup groups pg fb) groups),
             pr_Retargets = retargetLog removed fb 0 rules\<rparr>))"
proof -
  let ?names = "map node_name (filter (emptyGroup groups pg fb) groups)"
  have "PruneEmptyProxyGroups groups rules pg fb =
     (if removed = {} then (groups, rules, \<lparr>pr_RemovedGroups = ?names, pr_Retargets = []\<rparr>)
      else (map (dropMembers removed) (filter (\<lambda>g. \<not> emptyGroup groups pg fb g) groups),
            map (retargetRule removed fb) rules,
            \<lparr>pr_RemovedGroups = ?names, pr_Retargets = retargetLog removed fb 0 rules\<rparr>))"
    unfolding PruneEmptyProxyGroups_def Let_def assms emptyGroup_def length_0_conv by (rule refl)
  moreover have "removed = {} \<Longrightarrow> ?names = []" using assms by (simp only: set_empty)
  ultimately show ?thesis by (cases "removed = {}") (simp_all only: if_True if_False)
qed

lemma dropMembers_empty [simp]: "dropMembers {} g = g"
  by (simp add: dropMembers_def)

lemma retargetRule_empty [simp]: "retargetRule {} fb r = r"
  by (simp add: retargetRule_def split: option.split)

text \<open>Both branches of the pass have the same closed form.\<close>

lemma Prune_closed:
  assumes "PruneEmptyProxyGroups groups rules pg fb = (groups', rules', res)"
  defines "removed \<equiv> set (pr_RemovedGroups res)"
  shows "pr_RemovedGroups res = map node_name (filter (emptyGroup groups pg fb) groups) \<and>
     groups' = map (dropMembers removed) (filter (\<lambda>g. \<not> emptyGroup groups pg fb g) groups) \<and>
     rules' = map (retargetRule removed fb) rules"
proof (cases "filter (emptyGroup groups pg fb) groups = []")
  case True
  then have "\<forall>g\<in>set groups. \<not> emptyGroup groups pg fb g" by (simp add: filter_empty_conv)
  then have "filter (\<lambda>g. \<not> emptyGroup groups pg fb g) groups = groups" by (simp add: filter_id_conv)
  moreover have "map (dropMembers {}) groups = groups" "map (retargetRule {} fb) rules = rules"
    by (simp_all add: map_idI)
  ultimately show ?thesis using assms True by (auto simp: Prune_cases [OF refl])
next
  case False
  let ?removed = "set (map node_name (filter (emptyGroup groups pg fb) groups))"
  have "?removed \<noteq> {}" using False by (simp only: set_empty map_is_Nil_conv not_False_eq_True)
  then have "PruneEmptyProxyGroups groups rules pg fb =
     (map (dropMembers ?removed) (filter (\<lambda>g. \<not> emptyGroup groups pg fb g) groups),
      map (retargetRule ?removed fb) rules,
      \<lparr>pr_RemovedGroups = map node_name (filter (emptyGroup groups pg fb) groups),
       pr_Retargets = retargetLog ?removed fb 0 rules\<rparr>)"
    unfolding Prune_cases [OF refl, of groups rules pg fb] by (simp only: if_False)
  then show ?thesis using assms by auto
qed

lemma fallback_not_removed: "fb \<notin> set (map node_name (filter (emptyGroup groups pg fb) groups))"
  by (auto simp: emptyGroup_def protectedNames_def)

lemma emptyGroup_alt:
  "g \<in> set groups \<Longrightarrow> emptyGroup groups pg fb g \<longleftrightarrow>
     node_name g \<notin> {if pg = '''' then ''Proxies'' else pg, fb} \<and> members_of g = []"
  by (auto simp: emptyGroup_def protectedNames_def)

text \<open>C21: pruning removes exactly the empty groups and every reference to them.  A group stays
  when it has members or is the selector or the fallback target; the groups that stay keep their
  order and every entry but \<open>proxies\<close>, and their member lists lose exactly the removed names.  A
  rule line \<open>MATCH,TARGET\<close>, \<open>TYPE,PAYLOAD,TARGET\<close> or \<open>TYPE,PAYLOAD,TARGET,no-resolve\<close> whose
  target is a removed group gets the fallback, which is never removed, in its place and keeps the
  rest of the line; with another target it is unchanged, and so is every line none of whose fields
  names a removed group.  The number and the order of the rules stay, so that the priority and
  contributor slices remain aligned.  Lines with another option after the target are not covered:
  the code takes that option for the target.\<close>

theorem Prune_no_dangling:
  assumes "PruneEmptyProxyGroups groups rules pg fb = (groups', rules', res)"
  shows "let keep = (\<lambda>g. node_name g \<in> {if pg = '''' then ''Proxies'' else pg, fb} \<or> members_of g \<noteq> []);
         removed = node_name ` {g \<in> set groups. \<not> keep g};
         to = (\<lambda>t. if t \<in> removed then fb else t)
     in fb \<notin> removed \<and>
        list_all2 (\<lambda>g g'. members_of g' = filter (\<lambda>m. m \<notin> removed) (members_of g) \<and>
             (\<forall>k. k \<noteq> ''proxies'' \<longrightarrow> getMappingNode g' k = getMappingNode g k))
          (filter keep groups) groups' \<and>
        list_all2 (\<lambda>r r'.
             (\<forall>t. CHR '','' \<notin> set t \<longrightarrow> r = ''MATCH,'' @ t \<longrightarrow> r' = ''MATCH,'' @ to t) \<and>
             (\<forall>typ payload t. CHR '','' \<notin> set typ \<longrightarrow> typ \<noteq> ''MATCH'' \<longrightarrow> CHR '','' \<notin> set t \<longrightarrow>
                (t \<noteq> ''no-resolve'' \<longrightarrow> r = typ @ '','' @ payload @ '','' @ t \<longrightarrow>
                   r' = typ @ '','' @ payload @ '','' @ to t) \<and>
                (r = typ @ '','' @ payload @ '','' @ t @ '',no-resolve'' \<longrightarrow>
                   r' = typ @ '','' @ payload @ '','' @ to t @ '',no-resolve'')) \<and>
             ((\<forall>f\<in>set (Split r CHR '',''). f \<notin> removed) \<longrightarrow> r' = r))
          rules rules'"
proof -
  define keep where "keep = (\<lambda>g. node_name g \<in> {if pg = '''' then ''Proxies'' else pg, fb} \<or> members_of g \<noteq> [])"
  define removed where "removed = node_name ` {g \<in> set groups. \<not> keep g}"
  note closed = Prune_closed [OF assms]
  have keep: "filter (\<lambda>g. \<not> emptyGroup groups pg fb g) groups = filter keep groups"
    by (rule filter_cong) (simp_all add: emptyGroup_alt keep_def)
  have removed: "set (pr_RemovedGroups res) = removed"
    using closed by (auto simp: removed_def keep_def emptyGroup_alt)
  have gs: "groups' = map (dropMembers removed) (filter keep groups)"
    and rs: "rules' = map (retargetRule removed fb) rules"
    using closed unfolding removed keep by simp_all
  have "fb \<notin> removed" by (auto simp: removed_def keep_def)
  moreover have "list_all2 (\<lambda>g g'. members_of g' = filter (\<lambda>m. m \<notin> removed) (members_of g) \<and>
          (\<forall>k. k \<noteq> ''proxies'' \<longrightarrow> getMappingNode g' k = getMappingNode g k)) (filter keep groups) groups'"
    unfolding gs list_all2_map2
    by (rule list.rel_refl_strong) (simp add: members_dropMembers getMappingNode_dropMembers)
  ultimately show ?thesis
    unfolding rs list_all2_map2 Let_def keep_def [symmetric] removed_def [symmetric]
    by (intro conjI list.rel_refl_strong [OF retargetRule_shapes]) assumption+
qed
text \<open>With no empty group the pass is the identity: groups and rules come back unchanged.\<close>

theorem Prune_identity:
  assumes "\<forall>g\<in>set groups. members_of g \<noteq> []"
  shows "PruneEmptyProxyGroups groups rules pg fb =
     (groups, rules, \<lparr>pr_RemovedGroups = [], pr_Retargets = []\<rparr>)"
proof -
  have "filter (emptyGroup groups pg fb) groups = []"
    using assms by (simp add: filter_empty_conv emptyGroup_def)
  then show ?thesis by (simp add: Prune_cases [OF refl])
qed

text \<open>Retargeting replaces exactly the target field.  A rule whose target group is removed
  keeps all its other fields; every other rule is unchanged.\<close>

theorem retargetRule_exact:
  "retargetRule removed fb rule =
     (let parts = Split rule CHR '',''; i = targetIndex parts in
      if 2 \<le> length parts \<and> parts ! i \<in> removed then Join (parts[i := fb]) '','' else rule)"
  by (rule retargetRule_fields)

end
