(* ===== verification/Merge_Proxies.thy ===== *)
theory Merge_Proxies
  imports Namespace
begin

text \<open>
  \<open>internal/merge/proxies.go\<close>: the union of the own proxies and of every source's
  proxies, in that order, an entry whose name is taken being renamed \<open><name>@<source>\<close>.
  The loop state is a record of the four Go locals; a map read at a missing key gives \<open>""\<close>.
\<close>

section \<open>Definitions\<close>

record ProxyCollision =
  pc_ProxyName :: string
  pc_Sources :: "string list"
  pc_Resolution :: string

record mp_state =
  mp_merged :: "node list"
  mp_used :: "string set"
  mp_firstSource :: "string \<Rightarrow> string"
  mp_collisions :: "ProxyCollision list"

definition mergeOwnProxy :: "node \<Rightarrow> mp_state \<Rightarrow> mp_state" where
  "mergeOwnProxy p st =
     (let clone = cloneNode p; name = getMappingField clone ''name'' in
      if name = [] then st
      else st\<lparr>mp_used := insert name (mp_used st),
              mp_firstSource := (mp_firstSource st)(name := ''own''),
              mp_merged := mp_merged st @ [clone]\<rparr>)"

definition mergeUpstreamProxy :: "string \<Rightarrow> node \<Rightarrow> mp_state \<Rightarrow> mp_state" where
  "mergeUpstreamProxy source p st =
     (let clone = cloneNode p; name = getMappingField clone ''name'' in
      if name = [] then st
      else if name \<in> mp_used st then
        let finalName = name @ ''@'' @ source in
        st\<lparr>mp_merged := mp_merged st @ [fst (setMappingField clone ''name'' finalName)],
           mp_used := insert finalName (mp_used st),
           mp_collisions := mp_collisions st @
             [\<lparr>pc_ProxyName = name, pc_Sources = [mp_firstSource st name, source],
               pc_Resolution = finalName\<rparr>]\<rparr>
      else st\<lparr>mp_merged := mp_merged st @ [clone],
              mp_used := insert name (mp_used st),
              mp_firstSource := (mp_firstSource st)(name := source)\<rparr>)"

definition MergeProxies ::
  "(string \<Rightarrow> node list) \<Rightarrow> string list \<Rightarrow> node list \<Rightarrow> node list \<times> ProxyCollision list" where
  "MergeProxies perSource sortedSources own =
     (let st0 = \<lparr>mp_merged = [], mp_used = {}, mp_firstSource = (\<lambda>_. []), mp_collisions = []\<rparr>;
          st1 = fold mergeOwnProxy own st0;
          st2 = fold (\<lambda>source. fold (mergeUpstreamProxy source) (perSource source)) sortedSources st1
      in (mp_merged st2, mp_collisions st2))"

section \<open>The two loops\<close>

text \<open>The nested loop over the sources is one loop over (source, proxy) pairs.\<close>

definition tagged :: "(string \<Rightarrow> 'a list) \<Rightarrow> string list \<Rightarrow> (string \<times> 'a) list" where
  "tagged perSource sources = concat (map (\<lambda>s. map (Pair s) (perSource s)) sources)"

lemma fold_tagged:
  "fold (\<lambda>s. fold (f s) (perSource s)) sources st = fold (\<lambda>(s, x). f s x) (tagged perSource sources) st"
  by (induction sources arbitrary: st) (auto simp: tagged_def fold_map o_def)

lemma map_snd_tagged: "map snd (tagged perSource sources) = concat (map perSource sources)"
  by (induction sources) (auto simp: tagged_def o_def)

lemma MergeProxies_alt:
  "MergeProxies perSource sources own =
     (let st1 = fold mergeOwnProxy own
            \<lparr>mp_merged = [], mp_used = {}, mp_firstSource = (\<lambda>_. []), mp_collisions = []\<rparr>;
          st2 = fold (\<lambda>(s, p). mergeUpstreamProxy s p) (tagged perSource sources) st1
      in (mp_merged st2, mp_collisions st2))"
  by (simp add: MergeProxies_def fold_tagged)

lemma fold_mergeOwnProxy:
  "mp_merged (fold mergeOwnProxy own st) = mp_merged st @ filter (\<lambda>n. node_name n \<noteq> []) own"
  "mp_used (fold mergeOwnProxy own st) = mp_used st \<union> entryNames own"
  "mp_collisions (fold mergeOwnProxy own st) = mp_collisions st"
  by (induction own arbitrary: st)
    (auto simp: mergeOwnProxy_def Let_def entryNames_def)

text \<open>One upstream entry contributes itself, or itself under a suffixed name.\<close>

definition suffix_of :: "string \<times> node \<Rightarrow> node \<Rightarrow> bool" where
  "suffix_of sp q \<longleftrightarrow> q = snd sp \<or>
     q = fst (setMappingField (snd sp) ''name'' (node_name (snd sp) @ ''@'' @ fst sp))"

lemma fold_mergeUpstreamProxy_shape:
  "\<exists>qs. mp_merged (fold (\<lambda>(s, p). mergeUpstreamProxy s p) sps st) = mp_merged st @ qs \<and>
        list_all2 suffix_of (filter (\<lambda>sp. node_name (snd sp) \<noteq> []) sps) qs"
proof (induction sps arbitrary: st)
  case Nil
  then show ?case by simp
next
  case (Cons sp sps)
  obtain s p where sp: "sp = (s, p)" by (cases sp)
  show ?case
  proof (cases "node_name p = []")
    case True
    then have "mergeUpstreamProxy s p st = st" by (simp add: mergeUpstreamProxy_def)
    with Cons [of st] True show ?thesis by (simp add: sp)
  next
    case False
    then obtain q where q: "mp_merged (mergeUpstreamProxy s p st) = mp_merged st @ [q]"
      and "suffix_of (s, p) q"
      by (cases "node_name p \<in> mp_used st")
        (auto simp: mergeUpstreamProxy_def Let_def suffix_of_def)
    with Cons [of "mergeUpstreamProxy s p st"] False show ?thesis
      by (auto simp: sp)
  qed
qed

lemma fold_mergeUpstreamProxy_fresh:
  assumes "\<forall>sp\<in>set sps. node_name (snd sp) \<noteq> []"
    and "distinct (map (node_name \<circ> snd) sps)"
    and "mp_used st \<inter> set (map (node_name \<circ> snd) sps) = {}"
  shows "mp_merged (fold (\<lambda>(s, p). mergeUpstreamProxy s p) sps st) = mp_merged st @ map snd sps \<and>
         mp_collisions (fold (\<lambda>(s, p). mergeUpstreamProxy s p) sps st) = mp_collisions st"
  using assms
proof (induction sps arbitrary: st)
  case Nil
  then show ?case by simp
next
  case (Cons sp sps)
  obtain s p where sp: "sp = (s, p)" by (cases sp)
  let ?st = "mergeUpstreamProxy s p st"
  have st: "mp_merged ?st = mp_merged st @ [p]" "mp_collisions ?st = mp_collisions st"
    "mp_used ?st = insert (node_name p) (mp_used st)"
    using Cons.prems by (auto simp: mergeUpstreamProxy_def Let_def sp)
  have "mp_used ?st \<inter> set (map (node_name \<circ> snd) sps) = {}"
    using Cons.prems st by (auto simp: sp)
  with Cons.IH [of ?st] Cons.prems st show ?case by (simp add: sp)
qed

lemma MergeProxies_distinct:
  assumes "\<forall>n\<in>set (own @ concat (map perSource sources)). node_name n \<noteq> []"
    and "distinct (map node_name (own @ concat (map perSource sources)))"
  shows "MergeProxies perSource sources own = (own @ concat (map perSource sources), [])"
proof -
  let ?st0 = "\<lparr>mp_merged = [], mp_used = {}, mp_firstSource = (\<lambda>_. []), mp_collisions = []\<rparr>"
  let ?st1 = "fold mergeOwnProxy own ?st0"
  have names: "map (node_name \<circ> snd) (tagged perSource sources) = map node_name (concat (map perSource sources))"
    by (metis map_map map_snd_tagged)
  have own: "filter (\<lambda>n. node_name n \<noteq> []) own = own" using assms(1) by (simp add: filter_id_conv)
  have ne: "\<forall>sp\<in>set (tagged perSource sources). node_name (snd sp) \<noteq> []"
    using assms(1) by (auto simp: tagged_def)
  have used: "mp_used ?st1 \<inter> set (map (node_name \<circ> snd) (tagged perSource sources)) = {}"
    using assms(2) unfolding names by (auto simp: fold_mergeOwnProxy entryNames_def)
  have dist: "distinct (map (node_name \<circ> snd) (tagged perSource sources))"
    using assms(2) unfolding names by simp
  from fold_mergeUpstreamProxy_fresh [OF ne dist used] show ?thesis
    by (simp add: MergeProxies_alt Let_def fold_mergeOwnProxy own map_snd_tagged)
qed

section \<open>Properties\<close>

text \<open>The merge keeps every named proxy, in order: the own proxies first and unchanged,
  then each source's proxies, each either unchanged or renamed to \<open><name>@<source>\<close> and
  otherwise unchanged.  Nothing is dropped but nameless entries and nothing is added.\<close>

theorem MergeProxies_shape:
  "\<exists>qs. fst (MergeProxies perSource sources own) = filter (\<lambda>n. node_name n \<noteq> []) own @ qs \<and>
        list_all2 suffix_of (filter (\<lambda>sp. node_name (snd sp) \<noteq> []) (tagged perSource sources)) qs"
  using fold_mergeUpstreamProxy_shape [of "tagged perSource sources"
      "fold mergeOwnProxy own
         \<lparr>mp_merged = [], mp_used = {}, mp_firstSource = (\<lambda>_. []), mp_collisions = []\<rparr>"]
  by (simp add: MergeProxies_alt Let_def fold_mergeOwnProxy)

lemma distinct_concat_prefixed:
  assumes "\<forall>s\<in>set sources. lower_name s" and "distinct sources"
    and "\<forall>s\<in>set sources. distinct (map node_name (perSource s)) \<and> (\<forall>n\<in>set (perSource s). named_node n)"
  shows "distinct (map node_name (concat (map (\<lambda>s. map (prefixName (s @ ''_'')) (perSource s)) sources)))"
  using assms
proof (induction sources)
  case Nil
  then show ?case by simp
next
  case (Cons s sources)
  have one: "\<exists>x. node_name n = t @ ''_'' @ x"
    if "t \<in> set (s # sources)" and "n \<in> set (map (prefixName (t @ ''_'')) (perSource t))" for t n
    using that Cons.prems(3) by (auto simp: named_node_def)
  have "set (map node_name (map (prefixName (s @ ''_'')) (perSource s))) \<inter>
      set (map node_name (concat (map (\<lambda>s. map (prefixName (s @ ''_'')) (perSource s)) sources))) = {}"
  proof (rule ccontr)
    assume "\<not> ?thesis"
    then obtain n m t where n: "n \<in> set (map (prefixName (s @ ''_'')) (perSource s))"
      and t: "t \<in> set sources" and m: "m \<in> set (map (prefixName (t @ ''_'')) (perSource t))"
      and eq: "node_name n = node_name m" by auto
    obtain x y where "node_name n = s @ ''_'' @ x" "node_name m = t @ ''_'' @ y"
      using one [OF _ n] one [OF _ m] t by auto
    with eq have "s @ CHR ''_'' # x = t @ CHR ''_'' # y" by simp
    with t Cons.prems(1,2) show False by simp
  qed
  with Cons distinct_map_prefixName [of "perSource s" "s @ ''_''"] show ?case
    by (simp del: map_map)
qed

lemma MergeProxies_prefixed:
  assumes "\<forall>s\<in>set sources. lower_name s" and "distinct sources"
    and "\<forall>s\<in>set sources. distinct (map node_name (perSource s)) \<and> (\<forall>n\<in>set (perSource s). named_node n)"
    and "distinct (map node_name own)" and "\<forall>n\<in>set own. named_node n"
    and p': "\<And>s. s \<in> set sources \<Longrightarrow> perSource' s = map (prefixName (s @ ''_'')) (perSource s)"
    and o': "own' = map (prefixName ''_'') own"
  shows "MergeProxies perSource' sources own' = (own' @ concat (map perSource' sources), [])"
    and "distinct (map node_name (own' @ concat (map perSource' sources)))"
    and "\<forall>n\<in>set own'. \<exists>x. node_name n = ''_'' @ x"
    and "\<forall>n\<in>set (concat (map perSource' sources)). \<exists>s\<in>set sources. \<exists>x. node_name n = s @ ''_'' @ x"
proof -
  have ups: "\<exists>s\<in>set sources. \<exists>x. node_name n = s @ ''_'' @ x" if "n \<in> set (concat (map perSource' sources))" for n
  proof -
    from that obtain s where s: "s \<in> set sources" "n \<in> set (perSource' s)" by auto
    then obtain m where "m \<in> set (perSource s)" "n = prefixName (s @ ''_'') m" by (auto simp: p')
    with s assms(3) have "node_name n = s @ ''_'' @ node_name m" by (auto simp: named_node_def)
    with s show ?thesis by blast
  qed
  have owns: "\<exists>x. node_name n = ''_'' @ x" if "n \<in> set own'" for n
    using that assms(5) by (auto simp: o' named_node_def)
  show "\<forall>n\<in>set own'. \<exists>x. node_name n = ''_'' @ x" using owns by blast
  show "\<forall>n\<in>set (concat (map perSource' sources)). \<exists>s\<in>set sources. \<exists>x. node_name n = s @ ''_'' @ x"
    using ups by blast
  have ne: "\<forall>n\<in>set (own' @ concat (map perSource' sources)). node_name n \<noteq> []"
    using ups owns by fastforce
  show dist: "distinct (map node_name (own' @ concat (map perSource' sources)))"
  proof -
    have "distinct (map node_name own')"
      unfolding o' using assms(4,5) by (intro distinct_map_prefixName)
    moreover have "map perSource' sources = map (\<lambda>s. map (prefixName (s @ ''_'')) (perSource s)) sources"
      by (simp add: p')
    then have "distinct (map node_name (concat (map perSource' sources)))"
      using distinct_concat_prefixed [OF assms(1-3)] by metis
    moreover have "set (map node_name own') \<inter> set (map node_name (concat (map perSource' sources))) = {}"
    proof (rule ccontr)
      assume "\<not> ?thesis"
      then obtain n m where n: "n \<in> set own'" and m: "m \<in> set (concat (map perSource' sources))"
        and eq: "node_name n = node_name m" by auto
      from ups [OF m] owns [OF n] eq obtain t x y where t: "t \<in> set sources" "t @ (''_'' @ x) = CHR ''_'' # y" by auto
      then show False using prefixed_name_not_own assms(1) by blast
    qed
    ultimately show ?thesis by (simp del: map_concat)
  qed
  show "MergeProxies perSource' sources own' = (own' @ concat (map perSource' sources), [])"
    by (rule MergeProxies_distinct [OF ne dist])
qed

text \<open>After namespacing there are no collisions.  With distinct source names of the CSV's
  format and names that are distinct within each source and among the own proxies, the merge is
  the plain concatenation, no collision is recorded, and all served names are distinct.\<close>

theorem MergeProxies_namespaced:
  assumes "\<forall>s\<in>set sources. lower_name s" and "distinct sources"
    and "\<forall>s\<in>set sources. distinct (map node_name (perSource s)) \<and> (\<forall>n\<in>set (perSource s). named_node n)"
    and "distinct (map node_name own)" and "\<forall>n\<in>set own. named_node n"
    and "perSource' = (\<lambda>s. fst (RewriteSource s (perSource s) (groups s) (rules s)))"
    and "own' = fst (RewriteOwn own ownGroups)"
  shows "MergeProxies perSource' sources own' = (own' @ concat (map perSource' sources), [])
     \<and> distinct (map node_name (fst (MergeProxies perSource' sources own')))"
proof -
  have p': "perSource' s = map (prefixName (s @ ''_'')) (perSource s)" for s
    using assms(6) by (simp add: RewriteSource_def)
  have o': "own' = map (prefixName ''_'') own"
    using assms(7) by (simp add: RewriteOwn_def Let_def)
  show ?thesis
    using MergeProxies_prefixed(1,2) [OF assms(1-5) p' o'] by simp
qed

end
