(* ===== verification/Proxy_Groups.thy ===== *)
theory Proxy_Groups
  imports Merge_Proxies
begin

text \<open>
  \<open>internal/merge/proxy_groups.go\<close>: groups with the same name collapse into one whose
  members are the ordered union of theirs, and the always-present selector group.  The Go code
  keeps a map from names to pointers into the merged list; the pointer is the index of the
  group in that list.
\<close>

section \<open>Definitions\<close>

record GroupConflictValue =
  gcv_Source :: string
  gcv_Value :: string

record GroupConflict =
  gc_GroupName :: string
  gc_Attribute :: string
  gc_Values :: "GroupConflictValue list"
  gc_Chosen :: string

text \<open>The loop that finds the first group of a name and extends its member list; \<open>None\<close>
  when no group has the name.\<close>

fun augmentGroup :: "string \<Rightarrow> string list \<Rightarrow> node list \<Rightarrow> node list option" where
  "augmentGroup groupName newMembers [] = None"
| "augmentGroup groupName newMembers (g # gs) =
     (if getMappingField g ''name'' = groupName
      then Some (setMappingMembers g ''proxies''
                   (union_members (mappingMembers g ''proxies'') newMembers) # gs)
      else map_option ((#) g) (augmentGroup groupName newMembers gs))"

definition AppendProxiesGroup :: "node list \<Rightarrow> string list \<Rightarrow> string \<Rightarrow> node list" where
  "AppendProxiesGroup groups proxyNames groupName0 =
     (let groupName = (if groupName0 = [] then ''Proxies'' else groupName0) in
      case augmentGroup groupName proxyNames groups of
        Some groups' \<Rightarrow> groups'
      | None \<Rightarrow>
          let g = mkNode MappingNode [] ''!!map'';
              g = setMappingValue g ''name'' (mkNode ScalarNode groupName ''!!str'');
              g = setMappingValue g ''type'' (mkNode ScalarNode ''select'' ''!!str'');
              g = setMappingMembers g ''proxies'' proxyNames
          in groups @ [g])"

definition attributesToCompare :: "string list" where
  "attributesToCompare = [''type'', ''url'', ''interval'', ''tolerance'', ''lazy'']"

record mg_state =
  mg_merged :: "node list"
  mg_byName :: "string \<rightharpoonup> nat"
  mg_chosenSource :: "string \<Rightarrow> string"
  mg_conflicts :: "GroupConflict list"

definition attributeConflicts :: "string \<Rightarrow> string \<Rightarrow> string \<Rightarrow> node \<Rightarrow> node \<Rightarrow> GroupConflict list" where
  "attributeConflicts name chosen source existing clone =
     concat (map (\<lambda>attr.
       let ev = getMappingField existing attr; nv = getMappingField clone attr in
       if ev = [] \<or> nv = [] \<or> ev = nv then []
       else [\<lparr>gc_GroupName = name, gc_Attribute = attr,
              gc_Values = [\<lparr>gcv_Source = chosen, gcv_Value = ev\<rparr>, \<lparr>gcv_Source = source, gcv_Value = nv\<rparr>],
              gc_Chosen = chosen\<rparr>]) attributesToCompare)"

definition addGroup :: "string \<Rightarrow> node \<Rightarrow> mg_state \<Rightarrow> mg_state" where
  "addGroup source g st =
     (let clone = cloneNode g; name = getMappingField clone ''name'' in
      if name = [] then st
      else case mg_byName st name of
        None \<Rightarrow> st\<lparr>mg_merged := mg_merged st @ [clone],
                  mg_byName := (mg_byName st)(name \<mapsto> length (mg_merged st)),
                  mg_chosenSource := (mg_chosenSource st)(name := source)\<rparr>
      | Some i \<Rightarrow>
          let existing = mg_merged st ! i;
              existing' = setMappingMembers existing ''proxies''
                (union_members (mappingMembers existing ''proxies'') (mappingMembers clone ''proxies''))
          in st\<lparr>mg_merged := (mg_merged st)[i := existing'],
                mg_conflicts := mg_conflicts st @
                  attributeConflicts name (mg_chosenSource st name) source existing' clone\<rparr>)"

definition MergeProxyGroups ::
  "(string \<Rightarrow> node list) \<Rightarrow> string list \<Rightarrow> node list \<Rightarrow> node list \<times> GroupConflict list" where
  "MergeProxyGroups perSource sortedSources own =
     (let st0 = \<lparr>mg_merged = [], mg_byName = Map.empty, mg_chosenSource = (\<lambda>_. []), mg_conflicts = []\<rparr>;
          st1 = fold (addGroup ''own'') own st0;
          st2 = fold (\<lambda>source. fold (addGroup source) (perSource source)) sortedSources st1
      in (mg_merged st2, mg_conflicts st2))"

section \<open>The selector group\<close>

lemma augmentGroup_None: "augmentGroup nm ns gs = None \<longleftrightarrow> nm \<notin> set (map node_name gs)"
  by (induction nm ns gs rule: augmentGroup.induct) auto

lemma augmentGroup_Some:
  assumes "augmentGroup nm ns gs = Some gs'"
  shows "\<exists>pre g post. gs = pre @ g # post \<and> nm \<notin> set (map node_name pre) \<and> node_name g = nm \<and>
     gs' = pre @ setMappingMembers g ''proxies'' (union_members (members_of g) ns) # post"
  using assms
proof (induction nm ns gs arbitrary: gs' rule: augmentGroup.induct)
  case (1 nm ns)
  then show ?case by simp
next
  case (2 nm ns g gs)
  show ?case
  proof (cases "node_name g = nm")
    case True
    with 2(2) show ?thesis by (intro exI [of _ "[]"]) auto
  next
    case False
    with 2(2) obtain gs'' where "augmentGroup nm ns gs = Some gs''" "gs' = g # gs''" by auto
    with 2(1) [OF False] False obtain pre h post where "gs = pre @ h # post"
      "nm \<notin> set (map node_name pre)" "node_name h = nm"
      "gs' = g # pre @ setMappingMembers h ''proxies'' (union_members (members_of h) ns) # post"
      by blast
    with False show ?thesis by (intro exI [of _ "g # pre"]) auto
  qed
qed

lemma map_node_name_augmentGroup:
  assumes "augmentGroup nm ns gs = Some gs'" and "\<forall>g\<in>set gs. named_node g"
  shows "map node_name gs' = map node_name gs"
proof -
  from augmentGroup_Some [OF assms(1)] obtain pre g post where
    "gs = pre @ g # post" "gs' = pre @ setMappingMembers g ''proxies'' (union_members (members_of g) ns) # post"
    by blast
  with assms(2) show ?thesis by (simp add: named_node_def yaml_get)
qed

lemma named_node_augmentGroup:
  assumes "augmentGroup nm ns gs = Some gs'" and "\<forall>g\<in>set gs. named_node g" and "g \<in> set gs'"
  shows "named_node g"
proof -
  from augmentGroup_Some [OF assms(1)] obtain pre g post where
    "gs = pre @ g # post" "gs' = pre @ setMappingMembers g ''proxies'' (union_members (members_of g) ns) # post"
    by blast
  with assms(2,3) show ?thesis by (auto simp: named_node_def yaml_get)
qed

lemma is_mapping_mkNode [simp]: "is_mapping (mkNode MappingNode v t)"
  by (simp add: is_mapping_def)

definition selectorNode :: "string \<Rightarrow> string list \<Rightarrow> node" where
  "selectorNode nm ns = setMappingMembers
     (setMappingValue (setMappingValue (mkNode MappingNode [] ''!!map'') ''name'' (mkNode ScalarNode nm ''!!str''))
        ''type'' (mkNode ScalarNode ''select'' ''!!str'')) ''proxies'' ns"

lemma selectorNode_sel [simp]:
  "node_name (selectorNode nm ns) = nm" "members_of (selectorNode nm ns) = ns"
  "getMappingField (selectorNode nm ns) ''type'' = ''select''"
  "is_mapping (selectorNode nm ns)"
  by (simp_all add: selectorNode_def yaml_get)

lemma named_selectorNode [simp]: "nm \<noteq> [] \<Longrightarrow> named_node (selectorNode nm ns)"
  by (simp add: named_node_def) (simp add: selectorNode_def yaml_get)

lemma AppendProxiesGroup_cases:
  assumes "nm \<noteq> []"
  shows "AppendProxiesGroup groups ns nm =
     (case augmentGroup nm ns groups of Some gs \<Rightarrow> gs | None \<Rightarrow> groups @ [selectorNode nm ns])"
  using assms by (simp add: AppendProxiesGroup_def selectorNode_def Let_def split: option.split)

text \<open>The served configuration has a selector group that offers every proxy.  After
  \<open>AppendProxiesGroup\<close> some group carries the selector's name and contains every given
  proxy name; if the group was there before, its previous members are kept, in front and in
  order; every other group is untouched.\<close>

theorem AppendProxiesGroup_selector:
  assumes "nm \<noteq> []" and "\<forall>g\<in>set groups. named_node g"
  shows "\<exists>pre g g' post. AppendProxiesGroup groups ns nm = pre @ g' # post \<and>
     node_name g' = nm \<and> set ns \<subseteq> set (members_of g') \<and>
     (groups = pre @ g # post \<and> node_name g = nm \<and> (\<exists>t. members_of g' = members_of g @ t \<and> set t \<subseteq> set ns)
      \<or> groups = pre \<and> post = [] \<and> nm \<notin> set (map node_name groups) \<and> members_of g' = ns)"
proof (cases "augmentGroup nm ns groups")
  case None
  then have "AppendProxiesGroup groups ns nm = groups @ selectorNode nm ns # []"
    by (simp add: AppendProxiesGroup_cases [OF assms(1)])
  with None show ?thesis
    by (intro exI [of _ groups] exI [of _ "selectorNode nm ns"] exI [of _ "[]"])
      (simp add: augmentGroup_None)
next
  case (Some gs)
  from augmentGroup_Some [OF Some] obtain pre g post where
    gs: "groups = pre @ g # post" "node_name g = nm"
    "gs = pre @ setMappingMembers g ''proxies'' (union_members (members_of g) ns) # post" by blast
  with assms(2) have "is_mapping g" by (simp add: named_node_def)
  with gs Some union_members_prefix [of "members_of g" ns] show ?thesis
    by (intro exI [of _ pre] exI [of _ g]
        exI [of _ "setMappingMembers g ''proxies'' (union_members (members_of g) ns)"] exI [of _ post])
      (simp add: AppendProxiesGroup_cases [OF assms(1)] yaml_get)
qed

section \<open>The merge by name\<close>

text \<open>What an output group \<open>g\<close> is, given the inputs \<open>xs\<close> read so far: its members are
  those of the inputs of its name, its other fields those of the first such input.\<close>

definition group_of :: "(string \<times> node) list \<Rightarrow> node \<Rightarrow> bool" where
  "group_of xs g \<longleftrightarrow> named_node g \<and>
     set (members_of g) = (\<Union>h\<in>{h \<in> set (map snd xs). node_name h = node_name g}. set (members_of h)) \<and>
     (\<exists>h. find (\<lambda>h. node_name h = node_name g) (map snd xs) = Some h \<and>
        (\<forall>k. k \<noteq> ''proxies'' \<longrightarrow> getMappingField g k = getMappingField h k))"

definition mg_inv :: "(string \<times> node) list \<Rightarrow> mg_state \<Rightarrow> bool" where
  "mg_inv xs st \<longleftrightarrow>
     distinct (map node_name (mg_merged st)) \<and>
     set (map node_name (mg_merged st)) = set (map (node_name \<circ> snd) xs) \<and>
     (\<forall>nm i. mg_byName st nm = Some i \<longleftrightarrow> i < length (mg_merged st) \<and> node_name (mg_merged st ! i) = nm) \<and>
     (\<forall>g\<in>set (mg_merged st). group_of xs g)"

lemma find_append: "find P (xs @ ys) = (case find P xs of Some x \<Rightarrow> Some x | None \<Rightarrow> find P ys)"
  by (induction xs) auto

lemma group_of_other:
  "group_of xs g \<Longrightarrow> node_name h \<noteq> node_name g \<Longrightarrow> group_of (xs @ [(s, h)]) g"
  by (auto simp: group_of_def find_append)

lemma group_of_new:
  assumes "named_node g" and "node_name g \<notin> set (map (node_name \<circ> snd) xs)"
  shows "group_of (xs @ [(s, g)]) g"
proof -
  have "find (\<lambda>h. node_name h = node_name g) (map snd xs) = None"
    using assms(2) by (force simp: find_None_iff)
  moreover have "{h \<in> set (map snd (xs @ [(s, g)])). node_name h = node_name g} = {g}"
    using assms(2) by force
  ultimately show ?thesis using assms(1) by (simp add: group_of_def find_append)
qed

lemma group_of_same:
  assumes "group_of xs g" and "node_name h = node_name g"
  shows "group_of (xs @ [(s, h)])
     (setMappingMembers g ''proxies'' (union_members (members_of g) (members_of h)))"
proof -
  from assms(1) have g: "is_mapping g" "scalar_field g ''name''" "node_name g \<noteq> []"
    by (auto simp: group_of_def named_node_def)
  let ?g = "setMappingMembers g ''proxies'' (union_members (members_of g) (members_of h))"
  have nm: "node_name ?g = node_name g" using g by (simp add: yaml_get)
  have "{h' \<in> set (map snd (xs @ [(s, h)])). node_name h' = node_name g} =
      insert h {h' \<in> set (map snd xs). node_name h' = node_name g}"
    using assms(2) by auto
  with assms(1) g show ?thesis
    by (auto simp: group_of_def nm find_append yaml_get named_node_def)
qed

lemma mg_inv_addGroup:
  assumes inv: "mg_inv xs st" and g: "named_node g"
  shows "mg_inv (xs @ [(s, g)]) (addGroup s g st)"
proof (cases "mg_byName st (node_name g)")
  case None
  with inv have fresh: "node_name g \<notin> set (map node_name (mg_merged st))"
    by (metis (no_types, lifting) in_set_conv_nth length_map mg_inv_def nth_map option.distinct(1))
  have st: "addGroup s g st = st\<lparr>mg_merged := mg_merged st @ [g],
      mg_byName := (mg_byName st)(node_name g \<mapsto> length (mg_merged st)),
      mg_chosenSource := (mg_chosenSource st)(node_name g := s)\<rparr>"
    using None g by (simp add: addGroup_def Let_def named_node_def)
  have idx: "node_name (mg_merged st ! i) \<noteq> node_name g" if "i < length (mg_merged st)" for i
    using fresh that by (metis in_set_conv_nth length_map nth_map)
  have "group_of (xs @ [(s, g)]) g0" if "g0 \<in> set (mg_merged st)" for g0
    using that inv fresh by (intro group_of_other) (auto simp: mg_inv_def)
  moreover have "group_of (xs @ [(s, g)]) g"
    using inv fresh g by (intro group_of_new) (auto simp: mg_inv_def)
  ultimately show ?thesis
    using inv fresh idx unfolding mg_inv_def st
    by (auto simp: nth_append less_Suc_eq)
next
  case (Some i)
  with inv have i: "i < length (mg_merged st)" "node_name (mg_merged st ! i) = node_name g"
    by (auto simp: mg_inv_def)
  let ?e = "mg_merged st ! i"
  let ?e' = "setMappingMembers ?e ''proxies'' (union_members (members_of ?e) (members_of g))"
  have e: "group_of xs ?e" using inv i by (auto simp: mg_inv_def)
  then have e': "group_of (xs @ [(s, g)]) ?e'" using i by (intro group_of_same) auto
  have nm: "node_name ?e' = node_name g"
    using e i by (simp add: group_of_def named_node_def yaml_get)
  have merged: "mg_merged (addGroup s g st) = (mg_merged st)[i := ?e']"
    and byN: "mg_byName (addGroup s g st) = mg_byName st"
    using Some g by (simp_all add: addGroup_def Let_def named_node_def)
  have names: "map node_name ((mg_merged st)[i := ?e']) = map node_name (mg_merged st)"
    using i nm by (intro nth_equalityI) (auto simp: nth_list_update)
  have others: "group_of (xs @ [(s, g)]) (mg_merged st ! j)" if "j < length (mg_merged st)" "j \<noteq> i" for j
  proof (rule group_of_other)
    show "group_of xs (mg_merged st ! j)" using inv that by (auto simp: mg_inv_def)
    show "node_name g \<noteq> node_name (mg_merged st ! j)"
      using inv that i unfolding mg_inv_def by (metis (no_types, lifting) option.inject)
  qed
  have "\<forall>h\<in>set ((mg_merged st)[i := ?e']). group_of (xs @ [(s, g)]) h"
  proof
    fix h assume "h \<in> set ((mg_merged st)[i := ?e'])"
    then obtain j where j: "j < length (mg_merged st)" "h = (mg_merged st)[i := ?e'] ! j"
      by (auto simp: in_set_conv_nth)
    then show "group_of (xs @ [(s, g)]) h"
      using e' others by (cases "j = i") auto
  qed
  moreover have "node_name ((mg_merged st)[i := ?e'] ! j) = node_name (mg_merged st ! j)" if "j < length (mg_merged st)" for j
    using that i nm by (cases "j = i") auto
  moreover have "node_name g \<in> set (map node_name (mg_merged st))"
    using i by (metis length_map nth_map nth_mem)
  ultimately show ?thesis
    using inv unfolding mg_inv_def merged byN names by auto
qed

lemma MergeProxyGroups_alt:
  "fst (MergeProxyGroups perSource sources own) =
     mg_merged (fold (\<lambda>(s, g). addGroup s g) (map (Pair ''own'') own @ tagged perSource sources)
       \<lparr>mg_merged = [], mg_byName = Map.empty, mg_chosenSource = (\<lambda>_. []), mg_conflicts = []\<rparr>)"
  by (simp add: MergeProxyGroups_def fold_tagged Let_def fold_map o_def)

lemma mg_inv_fold:
  assumes "\<forall>x\<in>set xs. named_node (snd x)"
  shows "mg_inv xs (fold (\<lambda>(s, g). addGroup s g) xs
       \<lparr>mg_merged = [], mg_byName = Map.empty, mg_chosenSource = (\<lambda>_. []), mg_conflicts = []\<rparr>)"
  using assms
proof (induction xs rule: rev_induct)
  case Nil
  then show ?case by (simp add: mg_inv_def)
next
  case (snoc x xs)
  then show ?case by (cases x) (auto intro: mg_inv_addGroup)
qed

text \<open>C19: merging proxy-groups is a union by name.  All the groups given have a name.  The served group names are distinct and are
  exactly the input names; each served group has as members the members of all the inputs of
  its name, and every other scalar attribute from the first input of that name (own groups first, then
  the sources in their order).\<close>

theorem MergeProxyGroups_union:
  assumes "\<forall>g\<in>set (own @ concat (map perSource sources)). named_node g"
    and "inputs = map (Pair ''own'') own @ tagged perSource sources"
    and "merged = fst (MergeProxyGroups perSource sources own)"
  shows "distinct (map node_name merged) \<and>
     set (map node_name merged) = set (map node_name (own @ concat (map perSource sources))) \<and>
     (\<forall>g\<in>set merged. group_of inputs g)"
proof -
  have "\<forall>x\<in>set inputs. named_node (snd x)" using assms(1,2) by (auto simp: tagged_def)
  from mg_inv_fold [OF this] have "mg_inv inputs (fold (\<lambda>(s, g). addGroup s g) inputs
       \<lparr>mg_merged = [], mg_byName = Map.empty, mg_chosenSource = (\<lambda>_. []), mg_conflicts = []\<rparr>)" .
  moreover have "map (node_name \<circ> snd) inputs = map node_name (own @ concat (map perSource sources))"
    unfolding assms(2) by (simp add: o_def flip: map_snd_tagged)
  ultimately show ?thesis
    unfolding mg_inv_def assms(3) MergeProxyGroups_alt assms(2) [symmetric] by simp
qed

end
