(* ===== verification/Fanout.thy ===== *)
theory Fanout
  imports Proxy_Groups
begin

text \<open>
  \<open>internal/merge/fanout.go\<close>: for every own proxy without a \<open>dialer-proxy\<close> of its own,
  one copy that dials through the global selector and one per region or continent group.
\<close>

section \<open>Definitions\<close>

definition stripUnderscore :: "string \<Rightarrow> string" where
  "stripUnderscore s = (if HasPrefix s ''_'' then drop 1 s else s)"

definition scalarString :: "string \<Rightarrow> node" where
  "scalarString v = mkNode ScalarNode v ''!!str''"

definition isFanoutTarget :: "string \<Rightarrow> bool" where
  "isFanoutTarget name \<longleftrightarrow>
     HasPrefix name ''_region_'' \<or> HasPrefix name ''_continent_'' \<or>
     HasPrefix name ''_lb_region_'' \<or> HasPrefix name ''_lb_continent_''"

definition targetGroupNames :: "node list \<Rightarrow> string list" where
  "targetGroupNames mergedGroups =
     filter isFanoutTarget (map (\<lambda>g. getMappingField g ''name'') mergedGroups)"

text \<open>One copy: a clone with its name and its dialer set.\<close>

definition fanoutCopy :: "node \<Rightarrow> string \<Rightarrow> string \<Rightarrow> node" where
  "fanoutCopy own name dialer =
     setMappingValue (setMappingValue (cloneNode own) ''name'' (scalarString name))
       ''dialer-proxy'' (scalarString dialer)"

fun fanoutLoop :: "string list \<Rightarrow> string \<Rightarrow> node list \<Rightarrow> node list \<times> nat \<Rightarrow> node list \<times> nat" where
  "fanoutLoop targets pg [] acc = acc"
| "fanoutLoop targets pg (own # rest) (fanout, skipped) =
     (if nkind own \<noteq> MappingNode then fanoutLoop targets pg rest (fanout, skipped)
      else
        let ownName = getMappingField own ''name'' in
        if ownName = [] then fanoutLoop targets pg rest (fanout, skipped)
        else if getMappingField own ''dialer-proxy'' \<noteq> [] then fanoutLoop targets pg rest (fanout, skipped + 1)
        else
          let strippedOwn = stripUnderscore ownName;
              auto = fanoutCopy own (''via_AUTO__'' @ strippedOwn) pg;
              copies = map (\<lambda>groupName. fanoutCopy own
                 (''via_'' @ stripUnderscore groupName @ ''__'' @ strippedOwn) groupName) targets
          in fanoutLoop targets pg rest (fanout @ [auto] @ copies, skipped))"

definition AppendFanoutProxies :: "node list \<Rightarrow> node list \<Rightarrow> string \<Rightarrow> node list \<times> nat" where
  "AppendFanoutProxies ownProxies mergedGroups proxiesGroupName0 =
     (let proxiesGroupName = (if proxiesGroupName0 = [] then ''Proxies'' else proxiesGroupName0)
      in fanoutLoop (targetGroupNames mergedGroups) proxiesGroupName ownProxies ([], 0))"

section \<open>Closed form\<close>

definition fansOut :: "node \<Rightarrow> bool" where
  "fansOut n \<longleftrightarrow> node_name n \<noteq> [] \<and> getMappingField n ''dialer-proxy'' = []"

text \<open>The routes of an own proxy: the tag in the copy's name and the dialer group.\<close>

definition fanoutRoutes :: "node list \<Rightarrow> string \<Rightarrow> (string \<times> string) list" where
  "fanoutRoutes groups pg =
     (''AUTO'', if pg = [] then ''Proxies'' else pg) #
     map (\<lambda>g. (stripUnderscore g, g)) (targetGroupNames groups)"

definition viaName :: "string \<Rightarrow> string \<Rightarrow> string" where
  "viaName tag own = ''via_'' @ tag @ ''__'' @ stripUnderscore own"

lemma fanoutLoop_eq:
  "fanoutLoop targets pg owns (acc, k) =
     (acc @ concat (map (\<lambda>own. map (\<lambda>(tag, d). fanoutCopy own (viaName tag (node_name own)) d)
        ((''AUTO'', pg) # map (\<lambda>g. (stripUnderscore g, g)) targets)) (filter fansOut owns)),
      k + length (filter (\<lambda>n. node_name n \<noteq> [] \<and> getMappingField n ''dialer-proxy'' \<noteq> []) owns))"
proof (induction owns arbitrary: acc k)
  case Nil
  then show ?case by simp
next
  case (Cons own owns)
  show ?case
  proof (cases "nkind own = MappingNode")
    case True
    then show ?thesis using Cons by (simp add: Let_def fansOut_def viaName_def)
  next
    case False
    then have "node_name own = []" using getMappingField_nonempty_mapping by blast
    with False show ?thesis using Cons by (simp add: fansOut_def)
  qed
qed

lemma AppendFanoutProxies_eq:
  "AppendFanoutProxies owns groups pg =
     (concat (map (\<lambda>own. map (\<lambda>(tag, d). fanoutCopy own (viaName tag (node_name own)) d)
        (fanoutRoutes groups pg)) (filter fansOut owns)),
      length (filter (\<lambda>n. node_name n \<noteq> [] \<and> getMappingField n ''dialer-proxy'' \<noteq> []) owns))"
  by (simp add: AppendFanoutProxies_def fanoutLoop_eq fanoutRoutes_def Let_def)

lemma fanoutCopy_fields [simp]:
  assumes "is_mapping own"
  shows "node_name (fanoutCopy own x d) = x"
    and "getMappingField (fanoutCopy own x d) ''dialer-proxy'' = d"
    and "k \<noteq> ''name'' \<Longrightarrow> k \<noteq> ''dialer-proxy'' \<Longrightarrow>
       getMappingField (fanoutCopy own x d) k = getMappingField own k"
    and "is_mapping (fanoutCopy own x d)"
  using assms by (simp_all add: fanoutCopy_def scalarString_def yaml_get)

lemma named_fanoutCopy [simp]: "is_mapping own \<Longrightarrow> x \<noteq> [] \<Longrightarrow> named_node (fanoutCopy own x d)"
  by (simp add: named_node_def) (simp add: fanoutCopy_def scalarString_def yaml_get)

lemma viaName_nonempty [simp]: "viaName tag own \<noteq> []"
  by (simp add: viaName_def)

lemma fst_fanoutRoutes_length: "length (fanoutRoutes groups pg) = 1 + length (targetGroupNames groups)"
  by (simp add: fanoutRoutes_def)

lemma map_concat_const_length: "\<forall>x\<in>set xs. length (f x) = n \<Longrightarrow> length (concat (map f xs)) = length xs * n"
  by (induction xs) auto

lemma fanoutCopy_rest:
  assumes "is_mapping own"
  shows "hdr (fanoutCopy own x d) = hdr own"
    and "filter (\<lambda>p. nvalue (fst p) \<notin> {''name'', ''dialer-proxy''}) (pairs_of (content (fanoutCopy own x d))) =
       filter (\<lambda>p. nvalue (fst p) \<notin> {''name'', ''dialer-proxy''}) (pairs_of (content own))"
  using assms by (simp_all add: fanoutCopy_def
      setMappingValue_other_pairs [where K = "{''name'', ''dialer-proxy''}", simplified])

lemma targetGroupNames_alt:
  "targetGroupNames groups = filter (\<lambda>g. \<exists>p\<in>{''_region_'', ''_continent_'', ''_lb_region_'', ''_lb_continent_''}.
      HasPrefix g p) (map node_name groups)"
  by (rule arg_cong [where f = "\<lambda>P. filter P (map node_name groups)", THEN trans [OF targetGroupNames_def]])
    (auto simp: isFanoutTarget_def fun_eq_iff)

lemma stripUnderscore_target: "isFanoutTarget g \<Longrightarrow> stripUnderscore g = tl g"
  by (auto simp: stripUnderscore_def isFanoutTarget_def HasPrefix_iff)

lemma fanoutRoutes_alt:
  "fanoutRoutes groups pg = (''AUTO'', if pg = [] then ''Proxies'' else pg) #
     map (\<lambda>g. (tl g, g)) (filter (\<lambda>g. \<exists>p\<in>{''_region_'', ''_continent_'', ''_lb_region_'', ''_lb_continent_''}.
      HasPrefix g p) (map node_name groups))"
  unfolding targetGroupNames_alt [symmetric]
  by (auto simp: fanoutRoutes_def targetGroupNames_def stripUnderscore_target)

lemma list_all2_concat_map:
  "(\<And>x y. x \<in> set xs \<Longrightarrow> y \<in> set ys \<Longrightarrow> P (x, y) (f x y)) \<Longrightarrow>
     list_all2 P (concat (map (\<lambda>x. map (Pair x) ys) xs)) (concat (map (\<lambda>x. map (f x) ys) xs))"
  by (induction xs) (auto intro!: list_all2_appendI simp: list_all2_map1 list_all2_map2 list.rel_refl_strong)

text \<open>C23: the fan-out enumerates own proxies times routes.  Own proxies are mapping nodes, as the
  loader accepts them.  Each own proxy with a name and without a dialer of its own is copied, in
  order, once for the selector and once for every group of a region or continent in the order of
  the groups; the copy's name spells the route and that own proxy, its \<open>dialer-proxy\<close> is the
  route's group, and all the other entries of the node, nested ones included, are that own proxy's,
  in the same order.  Own proxies with a dialer of their own are counted and get no copy.\<close>

theorem AppendFanoutProxies_routes:
  assumes "\<forall>n\<in>set owns. is_mapping n"
  shows "let (fanout, skipped) = AppendFanoutProxies owns groups pg;
         eligible = filter (\<lambda>n. node_name n \<noteq> '''' \<and> getMappingField n ''dialer-proxy'' = '''') owns;
         targets = filter (\<lambda>g. \<exists>p\<in>{''_region_'', ''_continent_'', ''_lb_region_'', ''_lb_continent_''}. HasPrefix g p)
           (map node_name groups);
         routes = (''AUTO'', if pg = '''' then ''Proxies'' else pg) # map (\<lambda>g. (tl g, g)) targets;
         rest = \<lambda>n. filter (\<lambda>p. nvalue (fst p) \<notin> {''name'', ''dialer-proxy''}) (pairs_of (content n))
     in list_all2 (\<lambda>(own, tag, group) copy.
            node_name copy =
              ''via_'' @ tag @ ''__'' @ (if HasPrefix (node_name own) ''_'' then tl (node_name own) else node_name own) \<and>
            getMappingField copy ''dialer-proxy'' = group \<and>
            hdr copy = hdr own \<and> rest copy = rest own)
          (concat (map (\<lambda>own. map (Pair own) routes) eligible)) fanout \<and>
        skipped = length (filter (\<lambda>n. node_name n \<noteq> '''' \<and> getMappingField n ''dialer-proxy'' \<noteq> '''') owns)"
proof -
  have el: "(\<lambda>n. node_name n \<noteq> '''' \<and> getMappingField n ''dialer-proxy'' = '''') = fansOut"
    by (simp add: fun_eq_iff fansOut_def)
  show ?thesis
    unfolding el AppendFanoutProxies_eq Let_def split_conv fanoutRoutes_alt [symmetric]
    using assms
    by (auto intro!: list_all2_concat_map simp: fanoutCopy_rest viaName_def stripUnderscore_def drop_Suc
        simp del: insert_iff)
qed
section \<open>Distinct names\<close>

text \<open>A tag that cannot run into the double underscore after it.\<close>

definition clean_tag :: "string \<Rightarrow> bool" where
  "clean_tag t \<longleftrightarrow> \<not> Contains t ''__'' \<and> \<not> HasSuffix t ''_''"

lemma HasSuffix_iff: "HasSuffix s p \<longleftrightarrow> (\<exists>t. s = t @ p)"
proof -
  have "HasSuffix s p \<longleftrightarrow> (\<exists>t. rev s = rev p @ t)" by (simp add: HasSuffix_def HasPrefix_iff)
  also have "\<dots> \<longleftrightarrow> (\<exists>t. s = rev t @ p)" by (metis rev_append rev_rev_ident)
  also have "\<dots> \<longleftrightarrow> (\<exists>t. s = t @ p)" by (metis rev_rev_ident)
  finally show ?thesis .
qed

lemma clean_tag_extend:
  assumes "clean_tag (a @ c)" and "c @ ''__'' @ y = ''__'' @ x"
  shows "c = []"
proof (rule ccontr)
  assume "c \<noteq> []"
  then obtain d r where c: "c = d # r" by (cases c) auto
  show False
  proof (cases r)
    case Nil
    with assms c show False by (auto simp: clean_tag_def HasSuffix_iff)
  next
    case (Cons e r')
    with assms(2) c have "a @ c = a @ ''__'' @ r'" by auto
    with assms(1) show False unfolding clean_tag_def Contains_iff by blast
  qed
qed

lemma clean_tag_unique:
  assumes "clean_tag a" "clean_tag b" and "a @ ''__'' @ x = b @ ''__'' @ y"
  shows "a = b \<and> x = y"
proof -
  from assms(3) obtain c where "a = b @ c \<and> c @ ''__'' @ x = ''__'' @ y \<or>
      a @ c = b \<and> ''__'' @ x = c @ ''__'' @ y"
    unfolding append_eq_append_conv2 by blast
  then have "a = b"
    using clean_tag_extend [of b c x y] clean_tag_extend [of a c y x] assms(1,2) by auto
  with assms(3) show ?thesis by simp
qed

lemma viaName_unique:
  assumes "clean_tag a" "clean_tag b" and "HasPrefix x ''_''" "HasPrefix y ''_''"
    and "viaName a x = viaName b y"
  shows "a = b \<and> x = y"
proof -
  have "a @ ''__'' @ stripUnderscore x = b @ ''__'' @ stripUnderscore y"
    using assms(5) by (simp add: viaName_def)
  from clean_tag_unique [OF assms(1,2) this] assms(3,4) show ?thesis
    by (auto simp: stripUnderscore_def HasPrefix_iff)
qed

lemma distinct_routes_names:
  assumes "distinct names" and "distinct tags"
    and inj: "\<And>a b x y. a \<in> set tags \<Longrightarrow> b \<in> set tags \<Longrightarrow> x \<in> set names \<Longrightarrow> y \<in> set names \<Longrightarrow>
       f a x = f b y \<Longrightarrow> a = b \<and> x = y"
  shows "distinct (concat (map (\<lambda>x. map (\<lambda>a. f a x) tags) names))"
  using assms(1) inj
proof (induction names)
  case Nil
  then show ?case by simp
next
  case (Cons x names)
  have "distinct (map (\<lambda>a. f a x) tags)"
    using assms(2) Cons.prems(2) [where x=x and y=x] by (auto simp: distinct_map inj_on_def)
  moreover have "distinct (concat (map (\<lambda>x. map (\<lambda>a. f a x) tags) names))"
  proof (rule Cons.IH)
    show "distinct names" using Cons.prems(1) by simp
    show "a = b \<and> u = v" if "a \<in> set tags" "b \<in> set tags" "u \<in> set names" "v \<in> set names" "f a u = f b v"
      for a b u v using Cons.prems(2) [of a b u v] that by simp
  qed
  moreover have "set (map (\<lambda>a. f a x) tags) \<inter> set (concat (map (\<lambda>x. map (\<lambda>a. f a x) tags) names)) = {}"
  proof -
    have "f a x \<noteq> f b y" if "a \<in> set tags" "b \<in> set tags" "y \<in> set names" for a b y
      using Cons.prems(1) Cons.prems(2) [of a b x y] that by auto
    then show ?thesis by auto
  qed
  ultimately show ?case by simp
qed

lemma stripUnderscore_inj:
  "HasPrefix x ''_'' \<Longrightarrow> HasPrefix y ''_'' \<Longrightarrow> stripUnderscore x = stripUnderscore y \<Longrightarrow> x = y"
  by (auto simp: stripUnderscore_def HasPrefix_iff)

lemma isFanoutTarget_underscore: "isFanoutTarget g \<Longrightarrow> HasPrefix g ''_''"
  by (auto simp: isFanoutTarget_def HasPrefix_iff)

lemma isFanoutTarget_not_AUTO: "isFanoutTarget g \<Longrightarrow> stripUnderscore g \<noteq> ''AUTO''"
  by (auto simp: isFanoutTarget_def stripUnderscore_def HasPrefix_iff)

lemma clean_tag_AUTO [simp]: "clean_tag ''AUTO''"
  by (simp add: clean_tag_def HasPrefix_def HasSuffix_def)

lemma distinct_route_tags:
  assumes "distinct (targetGroupNames groups)"
  shows "distinct (map fst (fanoutRoutes groups pg))"
proof -
  have t: "isFanoutTarget g" if "g \<in> set (targetGroupNames groups)" for g
    using that by (simp add: targetGroupNames_def)
  have "distinct (map stripUnderscore (targetGroupNames groups))"
    using assms t stripUnderscore_inj isFanoutTarget_underscore by (auto simp: distinct_map inj_on_def)
  moreover have "''AUTO'' \<notin> set (map stripUnderscore (targetGroupNames groups))"
    using t isFanoutTarget_not_AUTO by (metis (no_types, lifting) imageE list.set_map)
  ultimately show ?thesis by (simp add: fanoutRoutes_def o_def)
qed

lemma AppendFanout_distinct:
  assumes "\<forall>n\<in>set owns. is_mapping n \<and> HasPrefix (node_name n) ''_''"
    and "distinct (map node_name owns)" and "distinct (targetGroupNames groups)"
    and "\<forall>g\<in>set (targetGroupNames groups). clean_tag (stripUnderscore g)"
  shows "distinct (map node_name (fst (AppendFanoutProxies owns groups pg)))"
proof -
  let ?tags = "map fst (fanoutRoutes groups pg)"
  let ?names = "map node_name (filter fansOut owns)"
  have eq: "map node_name (fst (AppendFanoutProxies owns groups pg)) =
      concat (map (\<lambda>x. map (\<lambda>a. viaName a x) ?tags) ?names)"
    unfolding AppendFanoutProxies_eq fst_conv using assms(1)
    by (induction owns) (auto simp: split_beta o_def)
  have tags: "clean_tag a" if "a \<in> set ?tags" for a
    using that assms(4) by (auto simp: fanoutRoutes_def)
  have names: "HasPrefix x ''_''" if "x \<in> set ?names" for x
    using that assms(1) by auto
  show ?thesis unfolding eq
  proof (rule distinct_routes_names)
    show "distinct ?names" using assms(2) by (simp add: distinct_map_filter)
    show "distinct ?tags" by (rule distinct_route_tags [OF assms(3)])
    show "a = b \<and> x = y" if "a \<in> set ?tags" "b \<in> set ?tags" "x \<in> set ?names" "y \<in> set ?names"
      "viaName a x = viaName b y" for a b x y
      by (rule viaName_unique [OF tags [OF that(1)] tags [OF that(2)] names [OF that(3)] names [OF that(4)] that(5)])
  qed
qed

text \<open>Fan-out copies have distinct names, provided the own proxies and the target groups
  have, the own proxies carry the \<open>_\<close> prefix, and no target group name runs into the double
  underscore that separates the route from the proxy in \<open>via_<group>__<proxy>\<close>.\<close>

theorem AppendFanoutProxies_distinct:
  assumes "\<forall>n\<in>set owns. is_mapping n \<and> HasPrefix (node_name n) ''_''"
    and "distinct (map node_name owns)" and "distinct (targetGroupNames groups)"
    and "\<forall>g\<in>set (targetGroupNames groups). clean_tag (stripUnderscore g)"
  shows "distinct (map node_name (fst (AppendFanoutProxies owns groups pg)))"
  by (rule AppendFanout_distinct [OF assms])

end
