(* ===== verification/Region_Table.thy ===== *)
theory Region_Table
  imports Go_Text
begin

text \<open>
  \<open>internal/merge/region_table.go\<close>: the country of a proxy from its display name.  The Chinese
  indicators are written by code point (\<open>utf8\<close>), since a Go string literal is its UTF-8 bytes.
  Lower-casing outside ASCII is the Unicode table \<open>ulower\<close> of \<^const>\<open>ToLower\<close>.
\<close>

section \<open>Definitions\<close>

definition utf8 :: "nat list \<Rightarrow> string" where
  "utf8 rs = concat (map EncodeRune rs)"

record regionEntry =
  re_Indicator :: string
  re_Code :: string
  re_Lang :: string

text \<open>\<open>countryContinentEntry\<close> is the pair (country, continent).\<close>

type_synonym countryContinentEntry = "string \<times> string"

definition countryToContinent :: "countryContinentEntry list" where
  "countryToContinent = [
     (''CN'', ''AS''), (''JP'', ''AS''), (''KR'', ''AS''), (''HK'', ''AS''), (''TW'', ''AS''),
     (''MO'', ''AS''), (''SG'', ''AS''), (''IN'', ''AS''), (''VN'', ''AS''), (''TH'', ''AS''),
     (''MY'', ''AS''), (''PH'', ''AS''), (''ID'', ''AS''), (''AE'', ''AS''), (''SA'', ''AS''),
     (''IL'', ''AS''), (''TR'', ''AS''), (''GB'', ''EU''), (''DE'', ''EU''), (''FR'', ''EU''),
     (''NL'', ''EU''), (''CH'', ''EU''), (''SE'', ''EU''), (''NO'', ''EU''), (''DK'', ''EU''),
     (''FI'', ''EU''), (''ES'', ''EU''), (''IT'', ''EU''), (''IE'', ''EU''), (''PL'', ''EU''),
     (''UA'', ''EU''), (''RU'', ''EU''), (''US'', ''NA''), (''CA'', ''NA''), (''MX'', ''NA''),
     (''BR'', ''SA''), (''AR'', ''SA''), (''CL'', ''SA''), (''CO'', ''SA''), (''PE'', ''SA''),
     (''VE'', ''SA''), (''AU'', ''OC''), (''NZ'', ''OC''), (''ZA'', ''AF''), (''EG'', ''AF''),
     (''NG'', ''AF''), (''KE'', ''AF''), (''MA'', ''AF''), (''TN'', ''AF'')]"

fun findContinent :: "countryContinentEntry list \<Rightarrow> string \<Rightarrow> string option" where
  "findContinent [] cc = None"
| "findContinent (e # es) cc = (if fst e = cc then Some (snd e) else findContinent es cc)"

definition continentOf :: "string \<Rightarrow> string option" where
  "continentOf cc = findContinent countryToContinent cc"

definition regionTable :: "regionEntry list" where
  "regionTable = [
     \<lparr>re_Indicator = utf8 [0x4E2D, 0x56FD, 0x9999, 0x6E2F], re_Code = ''HK'', re_Lang = ''zh''\<rparr>,
     \<lparr>re_Indicator = utf8 [0x4E2D, 0x56FD, 0x53F0, 0x6E7E], re_Code = ''TW'', re_Lang = ''zh''\<rparr>,
     \<lparr>re_Indicator = utf8 [0x4E2D, 0x56FD, 0x6FB3, 0x95E8], re_Code = ''MO'', re_Lang = ''zh''\<rparr>,
     \<lparr>re_Indicator = utf8 [0x4E2D, 0x56FD], re_Code = ''CN'', re_Lang = ''zh''\<rparr>,
     \<lparr>re_Indicator = utf8 [0x7F8E, 0x56FD], re_Code = ''US'', re_Lang = ''zh''\<rparr>,
     \<lparr>re_Indicator = utf8 [0x65E5, 0x672C], re_Code = ''JP'', re_Lang = ''zh''\<rparr>,
     \<lparr>re_Indicator = utf8 [0x97E9, 0x56FD], re_Code = ''KR'', re_Lang = ''zh''\<rparr>,
     \<lparr>re_Indicator = utf8 [0x9999, 0x6E2F], re_Code = ''HK'', re_Lang = ''zh''\<rparr>,
     \<lparr>re_Indicator = utf8 [0x53F0, 0x6E7E], re_Code = ''TW'', re_Lang = ''zh''\<rparr>,
     \<lparr>re_Indicator = utf8 [0x81FA, 0x7063], re_Code = ''TW'', re_Lang = ''zh''\<rparr>,
     \<lparr>re_Indicator = utf8 [0x65B0, 0x52A0, 0x5761], re_Code = ''SG'', re_Lang = ''zh''\<rparr>,
     \<lparr>re_Indicator = utf8 [0x82F1, 0x56FD], re_Code = ''GB'', re_Lang = ''zh''\<rparr>,
     \<lparr>re_Indicator = utf8 [0x5FB7, 0x56FD], re_Code = ''DE'', re_Lang = ''zh''\<rparr>,
     \<lparr>re_Indicator = utf8 [0x6CD5, 0x56FD], re_Code = ''FR'', re_Lang = ''zh''\<rparr>,
     \<lparr>re_Indicator = utf8 [0x52A0, 0x62FF, 0x5927], re_Code = ''CA'', re_Lang = ''zh''\<rparr>,
     \<lparr>re_Indicator = utf8 [0x6FB3, 0x5927, 0x5229, 0x4E9A], re_Code = ''AU'', re_Lang = ''zh''\<rparr>,
     \<lparr>re_Indicator = utf8 [0x4FC4, 0x7F57, 0x65AF], re_Code = ''RU'', re_Lang = ''zh''\<rparr>,
     \<lparr>re_Indicator = utf8 [0x5370, 0x5EA6], re_Code = ''IN'', re_Lang = ''zh''\<rparr>,
     \<lparr>re_Indicator = utf8 [0x8D8A, 0x5357], re_Code = ''VN'', re_Lang = ''zh''\<rparr>,
     \<lparr>re_Indicator = utf8 [0x6CF0, 0x56FD], re_Code = ''TH'', re_Lang = ''zh''\<rparr>,
     \<lparr>re_Indicator = utf8 [0x9A6C, 0x6765, 0x897F, 0x4E9A], re_Code = ''MY'', re_Lang = ''zh''\<rparr>,
     \<lparr>re_Indicator = utf8 [0x83F2, 0x5F8B, 0x5BBE], re_Code = ''PH'', re_Lang = ''zh''\<rparr>,
     \<lparr>re_Indicator = utf8 [0x5370, 0x5EA6, 0x5C3C, 0x897F, 0x4E9A], re_Code = ''ID'', re_Lang = ''zh''\<rparr>,
     \<lparr>re_Indicator = utf8 [0x5DF4, 0x897F], re_Code = ''BR'', re_Lang = ''zh''\<rparr>,
     \<lparr>re_Indicator = utf8 [0x963F, 0x6839, 0x5EF7], re_Code = ''AR'', re_Lang = ''zh''\<rparr>,
     \<lparr>re_Indicator = utf8 [0x571F, 0x8033, 0x5176], re_Code = ''TR'', re_Lang = ''zh''\<rparr>,
     \<lparr>re_Indicator = utf8 [0x6C99, 0x7279, 0x963F, 0x62C9, 0x4F2F], re_Code = ''SA'', re_Lang = ''zh''\<rparr>,
     \<lparr>re_Indicator = utf8 [0x963F, 0x8054, 0x914B], re_Code = ''AE'', re_Lang = ''zh''\<rparr>,
     \<lparr>re_Indicator = utf8 [0x4EE5, 0x8272, 0x5217], re_Code = ''IL'', re_Lang = ''zh''\<rparr>,
     \<lparr>re_Indicator = utf8 [0x4E4C, 0x514B, 0x5170], re_Code = ''UA'', re_Lang = ''zh''\<rparr>,
     \<lparr>re_Indicator = utf8 [0x6CE2, 0x5170], re_Code = ''PL'', re_Lang = ''zh''\<rparr>,
     \<lparr>re_Indicator = utf8 [0x8377, 0x5170], re_Code = ''NL'', re_Lang = ''zh''\<rparr>,
     \<lparr>re_Indicator = utf8 [0x745E, 0x58EB], re_Code = ''CH'', re_Lang = ''zh''\<rparr>,
     \<lparr>re_Indicator = utf8 [0x745E, 0x5178], re_Code = ''SE'', re_Lang = ''zh''\<rparr>,
     \<lparr>re_Indicator = utf8 [0x632A, 0x5A01], re_Code = ''NO'', re_Lang = ''zh''\<rparr>,
     \<lparr>re_Indicator = utf8 [0x4E39, 0x9EA6], re_Code = ''DK'', re_Lang = ''zh''\<rparr>,
     \<lparr>re_Indicator = utf8 [0x82AC, 0x5170], re_Code = ''FI'', re_Lang = ''zh''\<rparr>,
     \<lparr>re_Indicator = utf8 [0x897F, 0x73ED, 0x7259], re_Code = ''ES'', re_Lang = ''zh''\<rparr>,
     \<lparr>re_Indicator = utf8 [0x610F, 0x5927, 0x5229], re_Code = ''IT'', re_Lang = ''zh''\<rparr>,
     \<lparr>re_Indicator = utf8 [0x7231, 0x5C14, 0x5170], re_Code = ''IE'', re_Lang = ''zh''\<rparr>,
     \<lparr>re_Indicator = ''hong kong'', re_Code = ''HK'', re_Lang = ''en''\<rparr>,
     \<lparr>re_Indicator = ''singapore'', re_Code = ''SG'', re_Lang = ''en''\<rparr>,
     \<lparr>re_Indicator = ''united states'', re_Code = ''US'', re_Lang = ''en''\<rparr>,
     \<lparr>re_Indicator = ''united kingdom'', re_Code = ''GB'', re_Lang = ''en''\<rparr>,
     \<lparr>re_Indicator = ''japan'', re_Code = ''JP'', re_Lang = ''en''\<rparr>,
     \<lparr>re_Indicator = ''germany'', re_Code = ''DE'', re_Lang = ''en''\<rparr>,
     \<lparr>re_Indicator = ''france'', re_Code = ''FR'', re_Lang = ''en''\<rparr>,
     \<lparr>re_Indicator = ''taiwan'', re_Code = ''TW'', re_Lang = ''en''\<rparr>,
     \<lparr>re_Indicator = ''south korea'', re_Code = ''KR'', re_Lang = ''en''\<rparr>,
     \<lparr>re_Indicator = ''canada'', re_Code = ''CA'', re_Lang = ''en''\<rparr>,
     \<lparr>re_Indicator = ''australia'', re_Code = ''AU'', re_Lang = ''en''\<rparr>,
     \<lparr>re_Indicator = ''russia'', re_Code = ''RU'', re_Lang = ''en''\<rparr>,
     \<lparr>re_Indicator = ''india'', re_Code = ''IN'', re_Lang = ''en''\<rparr>,
     \<lparr>re_Indicator = ''vietnam'', re_Code = ''VN'', re_Lang = ''en''\<rparr>,
     \<lparr>re_Indicator = ''thailand'', re_Code = ''TH'', re_Lang = ''en''\<rparr>,
     \<lparr>re_Indicator = ''malaysia'', re_Code = ''MY'', re_Lang = ''en''\<rparr>,
     \<lparr>re_Indicator = ''philippines'', re_Code = ''PH'', re_Lang = ''en''\<rparr>,
     \<lparr>re_Indicator = ''indonesia'', re_Code = ''ID'', re_Lang = ''en''\<rparr>,
     \<lparr>re_Indicator = ''brazil'', re_Code = ''BR'', re_Lang = ''en''\<rparr>,
     \<lparr>re_Indicator = ''argentina'', re_Code = ''AR'', re_Lang = ''en''\<rparr>,
     \<lparr>re_Indicator = ''turkey'', re_Code = ''TR'', re_Lang = ''en''\<rparr>,
     \<lparr>re_Indicator = ''netherlands'', re_Code = ''NL'', re_Lang = ''en''\<rparr>,
     \<lparr>re_Indicator = ''switzerland'', re_Code = ''CH'', re_Lang = ''en''\<rparr>,
     \<lparr>re_Indicator = ''sweden'', re_Code = ''SE'', re_Lang = ''en''\<rparr>,
     \<lparr>re_Indicator = ''norway'', re_Code = ''NO'', re_Lang = ''en''\<rparr>,
     \<lparr>re_Indicator = ''denmark'', re_Code = ''DK'', re_Lang = ''en''\<rparr>,
     \<lparr>re_Indicator = ''finland'', re_Code = ''FI'', re_Lang = ''en''\<rparr>,
     \<lparr>re_Indicator = ''spain'', re_Code = ''ES'', re_Lang = ''en''\<rparr>,
     \<lparr>re_Indicator = ''italy'', re_Code = ''IT'', re_Lang = ''en''\<rparr>,
     \<lparr>re_Indicator = ''ireland'', re_Code = ''IE'', re_Lang = ''en''\<rparr>,
     \<lparr>re_Indicator = ''ukraine'', re_Code = ''UA'', re_Lang = ''en''\<rparr>,
     \<lparr>re_Indicator = ''poland'', re_Code = ''PL'', re_Lang = ''en''\<rparr>,
     \<lparr>re_Indicator = ''israel'', re_Code = ''IL'', re_Lang = ''en''\<rparr>]"

subsection \<open>Flags\<close>

definition isRegionalIndicator :: "nat \<Rightarrow> bool" where
  "isRegionalIndicator r \<longleftrightarrow> 0x1F1E6 \<le> r \<and> r \<le> 0x1F1FF"

definition indicatorLetter :: "nat \<Rightarrow> char" where
  "indicatorLetter r = char_of (r - 0x1F1E6 + 65)"

text \<open>The loop over byte offsets; the argument is the suffix \<open>s[i:]\<close>.\<close>

function decodeRegionalIndicatorPair :: "string \<Rightarrow> string option" where
  "decodeRegionalIndicatorPair s =
     (if s = [] then None
      else
        let r1 = fst (DecodeRune s); sz1 = snd (DecodeRune s) in
        if isRegionalIndicator r1 \<and> sz1 < length s \<and> isRegionalIndicator (fst (DecodeRune (drop sz1 s)))
        then Some [indicatorLetter r1, indicatorLetter (fst (DecodeRune (drop sz1 s)))]
        else decodeRegionalIndicatorPair (drop sz1 s))"
  by pat_completeness auto
termination
  by (relation "measure length") (auto simp: snd_DecodeRune)

declare decodeRegionalIndicatorPair.simps [simp del]

subsection \<open>Start-up validation\<close>

datatype tablePanic =
  BadCode nat | BadLang nat | DuplicateIndicator nat nat
| BadCountry nat | BadContinent nat | DuplicateCountry nat nat

definition isUpperPair :: "string \<Rightarrow> bool" where
  "isUpperPair s \<longleftrightarrow> length s = 2 \<and> CHR ''A'' \<le> s ! 0 \<and> s ! 0 \<le> CHR ''Z'' \<and>
     CHR ''A'' \<le> s ! 1 \<and> s ! 1 \<le> CHR ''Z''"

fun indexWhere :: "('a \<Rightarrow> bool) \<Rightarrow> 'a list \<Rightarrow> nat \<Rightarrow> nat option" where
  "indexWhere P [] i = None"
| "indexWhere P (x # xs) i = (if P x then Some i else indexWhere P xs (i + 1))"

fun initRegions :: "regionEntry list \<Rightarrow> regionEntry list \<Rightarrow> tablePanic option" where
  "initRegions prev [] = None"
| "initRegions prev (e # es) =
     (if \<not> isUpperPair (re_Code e) then Some (BadCode (length prev))
      else if re_Lang e \<noteq> ''zh'' \<and> re_Lang e \<noteq> ''en'' then Some (BadLang (length prev))
      else case indexWhere (\<lambda>p. re_Indicator p = re_Indicator e) prev 0 of
        Some j \<Rightarrow> Some (DuplicateIndicator (length prev) j)
      | None \<Rightarrow> initRegions (prev @ [e]) es)"

definition validContinents :: "string list" where
  "validContinents = [''AF'', ''AS'', ''EU'', ''NA'', ''SA'', ''OC'', ''AN'']"

fun initContinents :: "countryContinentEntry list \<Rightarrow> countryContinentEntry list \<Rightarrow> tablePanic option" where
  "initContinents prev [] = None"
| "initContinents prev (e # es) =
     (if \<not> isUpperPair (fst e) then Some (BadCountry (length prev))
      else if snd e \<notin> set validContinents then Some (BadContinent (length prev))
      else case indexWhere (\<lambda>p. fst p = fst e) prev 0 of
        Some j \<Rightarrow> Some (DuplicateCountry (length prev) j)
      | None \<Rightarrow> initContinents (prev @ [e]) es)"

definition init :: "regionEntry list \<Rightarrow> countryContinentEntry list \<Rightarrow> tablePanic option" where
  "init regions continents = (case initRegions [] regions of
      Some p \<Rightarrow> Some p
    | None \<Rightarrow> initContinents [] continents)"

subsection \<open>Inference\<close>

fun findIndicator :: "string \<Rightarrow> string \<Rightarrow> regionEntry list \<Rightarrow> string option" where
  "findIndicator lang name [] = None"
| "findIndicator lang name (e # es) =
     (if re_Lang e = lang \<and> Contains name (re_Indicator e) then Some (re_Code e)
      else findIndicator lang name es)"

definition inferCountry :: "(nat \<Rightarrow> nat) \<Rightarrow> string \<Rightarrow> string option" where
  "inferCountry ulower name = (case decodeRegionalIndicatorPair name of
      Some code \<Rightarrow> Some code
    | None \<Rightarrow> (case findIndicator ''zh'' name regionTable of
        Some code \<Rightarrow> Some code
      | None \<Rightarrow> findIndicator ''en'' (ToLower ulower name) regionTable))"

section \<open>Flags\<close>

text \<open>The reference: the first two adjacent regional indicators among the runes.\<close>

fun firstFlag :: "nat list \<Rightarrow> string option" where
  "firstFlag (a # b # rs) =
     (if isRegionalIndicator a \<and> isRegionalIndicator b then Some [indicatorLetter a, indicatorLetter b]
      else firstFlag (b # rs))"
| "firstFlag _ = None"

lemma runes_Nil [simp]: "runes [] = []"
  by (simp add: runes.simps)

lemma runes_step: "s \<noteq> [] \<Longrightarrow> runes s = fst (DecodeRune s) # runes (drop (snd (DecodeRune s)) s)"
  by (subst runes.simps) simp

lemma decode_runes: "decodeRegionalIndicatorPair s = firstFlag (runes s)"
proof (induction s rule: decodeRegionalIndicatorPair.induct)
  case (1 s)
  show ?case
  proof (cases "s = []")
    case True
    then show ?thesis by (simp add: decodeRegionalIndicatorPair.simps)
  next
    case False
    let ?r = "fst (DecodeRune s)" and ?t = "drop (snd (DecodeRune s)) s"
    have t: "?t = [] \<longleftrightarrow> \<not> snd (DecodeRune s) < length s" by auto
    have unfold: "decodeRegionalIndicatorPair s =
        (if isRegionalIndicator ?r \<and> ?t \<noteq> [] \<and> isRegionalIndicator (fst (DecodeRune ?t))
         then Some [indicatorLetter ?r, indicatorLetter (fst (DecodeRune ?t))]
         else decodeRegionalIndicatorPair ?t)"
      using False by (subst decodeRegionalIndicatorPair.simps) (simp add: Let_def t)
    have IH: "decodeRegionalIndicatorPair ?t = firstFlag (runes ?t)"
      if "\<not> (isRegionalIndicator ?r \<and> ?t \<noteq> [] \<and> isRegionalIndicator (fst (DecodeRune ?t)))"
      using 1 [OF False refl refl] that t by auto
    show ?thesis
    proof (cases "?t = []")
      case True
      then show ?thesis using unfold IH False by (simp add: runes_step [of s])
    next
      case t_ne: False
      then show ?thesis
        using unfold IH runes_step [OF False] runes_step [OF t_ne] by auto
    qed
  qed
qed

text \<open>The byte loop of \<open>decodeRegionalIndicatorPair\<close> finds exactly the first pair of
  adjacent regional-indicator runes of the decoded text, and yields its two letters; invalid
  UTF-8 is stepped over byte by byte.\<close>

theorem decodeRegionalIndicatorPair_runes: "decodeRegionalIndicatorPair s = firstFlag (runes s)"
  by (rule decode_runes)

section \<open>The tables\<close>

lemma indexWhere_None: "indexWhere (\<lambda>p. f p = y) xs i = None \<longleftrightarrow> y \<notin> set (map f xs)"
  by (induction xs arbitrary: i) auto

lemma initRegions_None:
  "distinct (map re_Indicator prev) \<Longrightarrow> initRegions prev es = None \<longleftrightarrow>
     list_all (\<lambda>e. isUpperPair (re_Code e) \<and> (re_Lang e = ''zh'' \<or> re_Lang e = ''en'')) es \<and>
     distinct (map re_Indicator (prev @ es))"
proof (induction prev es rule: initRegions.induct)
  case (1 prev)
  then show ?case by simp
next
  case (2 prev e es)
  let ?ok = "isUpperPair (re_Code e) \<and> (re_Lang e = ''zh'' \<or> re_Lang e = ''en'')"
  let ?new = "indexWhere (\<lambda>p. re_Indicator p = re_Indicator e) prev 0 = None"
  have new: "?new \<longleftrightarrow> re_Indicator e \<notin> set (map re_Indicator prev)"
    by (rule indexWhere_None)
  have "initRegions prev (e # es) = None \<longleftrightarrow> ?ok \<and> ?new \<and> initRegions (prev @ [e]) es = None"
    by (auto split: option.split)
  moreover have "distinct (map re_Indicator (prev @ [e]))" if ?new using 2(2) that new by simp
  ultimately show ?case using 2(1) new by (cases "?ok \<and> ?new") auto
qed

lemma initContinents_None:
  "distinct (map fst prev) \<Longrightarrow> initContinents prev es = None \<longleftrightarrow>
     list_all (\<lambda>e. isUpperPair (fst e) \<and> snd e \<in> set validContinents) es \<and> distinct (map fst (prev @ es))"
proof (induction prev es rule: initContinents.induct)
  case (1 prev)
  then show ?case by simp
next
  case (2 prev e es)
  let ?ok = "isUpperPair (fst e) \<and> snd e \<in> set validContinents"
  let ?new = "indexWhere (\<lambda>p. fst p = fst e) prev 0 = None"
  have new: "?new \<longleftrightarrow> fst e \<notin> set (map fst prev)"
    by (rule indexWhere_None)
  have "initContinents prev (e # es) = None \<longleftrightarrow> ?ok \<and> ?new \<and> initContinents (prev @ [e]) es = None"
    by (auto split: option.split)
  moreover have "distinct (map fst (prev @ [e]))" if ?new using 2(2) that new by simp
  ultimately show ?case using 2(1) new by (cases "?ok \<and> ?new") auto
qed

lemma runes_utf8: "list_all valid_rune rs \<Longrightarrow> runes (utf8 rs) = rs"
  by (simp add: utf8_def runes_encode list_all_iff)

lemma regionTable_runes: "distinct (map (\<lambda>e. runes (re_Indicator e)) regionTable)"
  by (simp add: regionTable_def runes_utf8 runes_ascii valid_rune_def)

lemma regionTable_wf:
  "list_all (\<lambda>e. isUpperPair (re_Code e) \<and> (re_Lang e = ''zh'' \<or> re_Lang e = ''en'')) regionTable"
  "distinct (map re_Indicator regionTable)"
proof -
  show "list_all (\<lambda>e. isUpperPair (re_Code e) \<and> (re_Lang e = ''zh'' \<or> re_Lang e = ''en'')) regionTable"
    by (simp add: regionTable_def isUpperPair_def)
  have "distinct (map runes (map re_Indicator regionTable))"
    using regionTable_runes by (simp add: o_def)
  then show "distinct (map re_Indicator regionTable)" by (simp only: distinct_map [of runes])
qed

lemma countryToContinent_wf:
  "list_all (\<lambda>e. isUpperPair (fst e) \<and> snd e \<in> set validContinents) countryToContinent"
  "distinct (map fst countryToContinent)"
  by (simp_all add: countryToContinent_def isUpperPair_def validContinents_def)

lemma init_tables: "init regionTable countryToContinent = None"
proof -
  have "initRegions [] regionTable = None"
    using regionTable_wf by (subst initRegions_None) simp_all
  moreover have "initContinents [] countryToContinent = None"
    using countryToContinent_wf by (subst initContinents_None) simp_all
  ultimately show ?thesis by (simp add: init_def)
qed

lemma findContinent_map_of: "findContinent es cc = map_of es cc"
  by (induction es) auto

lemma regions_have_continents: "list_all (\<lambda>e. continentOf (re_Code e) \<noteq> None) regionTable"
  by (simp add: regionTable_def continentOf_def countryToContinent_def)

text \<open>The built-in tables are sound.  The start-up validation does not panic, every country
  the name tables can produce has a continent, each country has one continent only, and that is
  one of the seven.\<close>

theorem region_tables_sound:
  "init regionTable countryToContinent = None \<and>
   list_all (\<lambda>e. continentOf (re_Code e) \<noteq> None) regionTable \<and>
   (continentOf cc = Some cont \<longleftrightarrow> (cc, cont) \<in> set countryToContinent) \<and>
   (case continentOf cc of None \<Rightarrow> True | Some c \<Rightarrow> c \<in> set validContinents)"
proof -
  have iff: "continentOf cc = Some c \<longleftrightarrow> (cc, c) \<in> set countryToContinent" for c
    using countryToContinent_wf(2) by (simp add: continentOf_def findContinent_map_of)
  have "c \<in> set validContinents" if "continentOf cc = Some c" for c
    using that iff countryToContinent_wf(1) by (fastforce simp: list_all_iff)
  then show ?thesis using iff init_tables regions_have_continents by (auto split: option.split)
qed

section \<open>Inference\<close>

lemma findIndicator_code:
  "findIndicator lang name es = Some c \<Longrightarrow>
     \<exists>e\<in>set es. re_Lang e = lang \<and> Contains name (re_Indicator e) \<and> re_Code e = c"
  by (induction lang name es rule: findIndicator.induct) (auto split: if_splits)

lemma isUpperPair_indicator:
  assumes "isRegionalIndicator a" "isRegionalIndicator b"
  shows "isUpperPair [indicatorLetter a, indicatorLetter b]"
proof -
  have "CHR ''A'' \<le> indicatorLetter r \<and> indicatorLetter r \<le> CHR ''Z''" if "isRegionalIndicator r" for r
  proof -
    have "r - 0x1F1E6 + 65 \<le> 90" "65 \<le> r - 0x1F1E6 + 65" using that by (auto simp: isRegionalIndicator_def)
    moreover have "byte (indicatorLetter r) = r - 0x1F1E6 + 65"
      using calculation by (simp add: indicatorLetter_def)
    ultimately show ?thesis by (simp add: less_eq_char_def)
  qed
  with assms show ?thesis by (simp add: isUpperPair_def)
qed

lemma firstFlag_upper: "firstFlag rs = Some c \<Longrightarrow> isUpperPair c"
  by (induction rs rule: firstFlag.induct) (auto split: if_splits intro: isUpperPair_indicator)

lemma inferCountry_upper:
  assumes "inferCountry ulower name = Some c"
  shows "isUpperPair c"
  using assms firstFlag_upper [of "runes name" c] regionTable_wf(1)
  by (auto simp: inferCountry_def decode_runes list_all_iff split: option.splits dest!: findIndicator_code)

subsection \<open>ASCII names\<close>

definition ascii :: "string \<Rightarrow> bool" where "ascii s \<longleftrightarrow> list_all (\<lambda>c. byte c < 128) s"

lemma firstFlag_None: "list_all (\<lambda>r. \<not> isRegionalIndicator r) rs \<Longrightarrow> firstFlag rs = None"
  by (induction rs rule: firstFlag.induct) auto

lemma ascii_no_flag: "ascii s \<Longrightarrow> decodeRegionalIndicatorPair s = None"
proof -
  assume s: "ascii s"
  then have "\<not> isRegionalIndicator (byte c)" if "c \<in> set s" for c
    using that by (auto simp: ascii_def list_all_iff isRegionalIndicator_def dest: less_le_trans)
  then show ?thesis
    using s by (simp add: decode_runes ascii_def runes_ascii list_all_iff firstFlag_None)
qed

lemma EncodeRune_not_ascii: "128 \<le> r \<Longrightarrow> \<not> ascii (EncodeRune r)"
proof -
  assume "128 \<le> r"
  have "128 \<le> byte (char_of n)" if "128 \<le> n" "n < 256" for n :: nat
    using that by (simp add: byte_char_of)
  then show ?thesis
    using \<open>128 \<le> r\<close> by (auto simp: EncodeRune_def encode3_def ascii_def RuneError_def valid_rune_def
        not_less split: if_splits)
qed

lemma ascii_append [simp]: "ascii (a @ b) \<longleftrightarrow> ascii a \<and> ascii b"
  by (simp add: ascii_def)

lemma zh_not_ascii: "list_all (\<lambda>e. re_Lang e = ''zh'' \<longrightarrow> \<not> ascii (re_Indicator e)) regionTable"
proof -
  have "\<not> ascii (utf8 (r # rs))" if "128 \<le> r" for r rs
    using EncodeRune_not_ascii [OF that] by (simp add: utf8_def)
  then show ?thesis by (simp add: regionTable_def)
qed

lemma findIndicator_None:
  "list_all (\<lambda>e. re_Lang e = lang \<longrightarrow> \<not> Contains name (re_Indicator e)) es \<Longrightarrow> findIndicator lang name es = None"
  by (induction lang name es rule: findIndicator.induct) auto

lemma ascii_no_zh: "ascii s \<Longrightarrow> findIndicator ''zh'' s regionTable = None"
proof (rule findIndicator_None)
  assume "ascii s"
  then have "Contains s t \<Longrightarrow> ascii t" for t by (auto simp: Contains_iff)
  then show "list_all (\<lambda>e. re_Lang e = ''zh'' \<longrightarrow> \<not> Contains s (re_Indicator e)) regionTable"
    using zh_not_ascii by (auto simp: list_all_iff)
qed

lemma lower_char_ascii [simp]: "byte c < 128 \<Longrightarrow> byte (lower_char c) < 128"
  by (simp add: lower_char_def)

lemma lower_char_idem [simp]: "lower_char (lower_char c) = lower_char c"
  by (simp add: lower_char_def)

lemma inferCountry_ascii:
  "ascii s \<Longrightarrow> inferCountry ulower s = findIndicator ''en'' (map lower_char s) regionTable"
  by (simp add: inferCountry_def ascii_no_flag ascii_no_zh ToLower_ascii ascii_def)

text \<open>Whatever the name, an inferred country is two upper-case ASCII letters, so the group
  names built from it are plain; on ASCII names the inference ignores case and does not depend
  on the Unicode tables.\<close>

theorem inferCountry_code:
  "(case inferCountry ulower name of None \<Rightarrow> True | Some c \<Rightarrow> isUpperPair c) \<and>
   (if ascii name then inferCountry ulower name = inferCountry ulower' (map lower_char name) else True)"
proof -
  have "inferCountry ulower name = inferCountry ulower' (map lower_char name)" if "ascii name"
  proof -
    have "ascii (map lower_char name)" using that by (simp add: ascii_def list_all_iff)
    then show ?thesis using that by (simp add: inferCountry_ascii o_def)
  qed
  then show ?thesis using inferCountry_upper by (auto split: option.split)
qed

text \<open>The Chinese name of Indonesia contains that of India, which the table lists first.\<close>

lemma indonesia_is_india:
  "inferCountry ulower (utf8 [0x5370, 0x5EA6, 0x5C3C, 0x897F, 0x4E9A]) = Some ''IN'' \<and>
   \<lparr>re_Indicator = utf8 [0x5370, 0x5EA6, 0x5C3C, 0x897F, 0x4E9A], re_Code = ''ID'', re_Lang = ''zh''\<rparr> \<in> set regionTable"
proof
  show "\<lparr>re_Indicator = utf8 [0x5370, 0x5EA6, 0x5C3C, 0x897F, 0x4E9A], re_Code = ''ID'', re_Lang = ''zh''\<rparr> \<in> set regionTable"
    by (simp add: regionTable_def)
  have "decodeRegionalIndicatorPair (utf8 [0x5370, 0x5EA6, 0x5C3C, 0x897F, 0x4E9A]) = None"
    by (simp add: decode_runes runes_utf8 valid_rune_def isRegionalIndicator_def)
  moreover have "findIndicator ''zh'' (utf8 [0x5370, 0x5EA6, 0x5C3C, 0x897F, 0x4E9A]) regionTable = Some ''IN''"
    by (simp add: regionTable_def utf8_def EncodeRune_def encode3_def valid_rune_def HasPrefix_def char_of_eq_iff)
  ultimately show "inferCountry ulower (utf8 [0x5370, 0x5EA6, 0x5C3C, 0x897F, 0x4E9A]) = Some ''IN''"
    by (simp add: inferCountry_def)
qed

end
