(* ===== verification/Region.thy ===== *)
theory Region
  imports Region_Table Proxy_Groups "HOL-Library.AList"
begin

text \<open>
  \<open>internal/merge/region.go\<close>: url-test and load-balance groups per country and per continent.

  A Go map that is filled and then iterated is an association list in the order its keys were
  first written (the code sorts the keys before it uses them, and the theorems show the result
  depends on the set of keys only).  The logger callbacks return the list of their calls.
\<close>

section \<open>Definitions\<close>

record URLTestParams =
  ut_URL :: string
  ut_IntervalSeconds :: int
  ut_TimeoutMS :: int
  ut_MaxFailedTimes :: int
  ut_Lazy :: bool

record LoadBalanceParams =
  lb_URL :: string
  lb_IntervalSeconds :: int
  lb_TimeoutMS :: int
  lb_MaxFailedTimes :: int
  lb_Lazy :: bool
  lb_Strategy :: string

definition newURLTestGroup :: "string \<Rightarrow> string list \<Rightarrow> URLTestParams \<Rightarrow> node" where
  "newURLTestGroup name members params =
     (let g = mkNode MappingNode [] [];
          g = setMappingValue g ''name'' (mkNode ScalarNode name []);
          g = setMappingValue g ''type'' (mkNode ScalarNode ''url-test'' []);
          g = setMappingMembers g ''proxies'' members;
          g = setMappingValue g ''url'' (mkNode ScalarNode (ut_URL params) []);
          g = setMappingValue g ''interval'' (mkNode ScalarNode (Itoa (ut_IntervalSeconds params)) ''!!int'');
          g = setMappingValue g ''timeout'' (mkNode ScalarNode (Itoa (ut_TimeoutMS params)) ''!!int'');
          g = setMappingValue g ''max-failed-times'' (mkNode ScalarNode (Itoa (ut_MaxFailedTimes params)) ''!!int'');
          g = setMappingValue g ''lazy'' (mkNode ScalarNode (FormatBool (ut_Lazy params)) ''!!bool'')
      in g)"

definition newLoadBalanceGroup :: "string \<Rightarrow> string list \<Rightarrow> LoadBalanceParams \<Rightarrow> node" where
  "newLoadBalanceGroup name members params =
     (let g = mkNode MappingNode [] [];
          g = setMappingValue g ''name'' (mkNode ScalarNode name []);
          g = setMappingValue g ''type'' (mkNode ScalarNode ''load-balance'' []);
          g = setMappingMembers g ''proxies'' members;
          g = setMappingValue g ''url'' (mkNode ScalarNode (lb_URL params) []);
          g = setMappingValue g ''interval'' (mkNode ScalarNode (Itoa (lb_IntervalSeconds params)) ''!!int'');
          g = setMappingValue g ''lazy'' (mkNode ScalarNode (FormatBool (lb_Lazy params)) ''!!bool'');
          g = setMappingValue g ''strategy'' (mkNode ScalarNode (lb_Strategy params) []);
          g = setMappingValue g ''timeout'' (mkNode ScalarNode (Itoa (lb_TimeoutMS params)) ''!!int'');
          g = setMappingValue g ''max-failed-times'' (mkNode ScalarNode (Itoa (lb_MaxFailedTimes params)) ''!!int'')
      in g)"

definition stripSourcePrefix :: "string \<Rightarrow> string" where
  "stripSourcePrefix prefixedName =
     (let idx = IndexByte prefixedName CHR ''_'' in
      if idx < 0 then prefixedName else drop (nat (idx + 1)) prefixedName)"

fun contains :: "string list \<Rightarrow> string \<Rightarrow> bool" where
  "contains [] s = False"
| "contains (v # vs) s = (if v = s then True else contains vs s)"

text \<open>\<open>m[k] = append(m[k], xs...)\<close> and the read \<open>m[k]\<close>.\<close>

type_synonym buckets = "(string \<times> string list) list"

definition appendTo :: "string \<Rightarrow> string list \<Rightarrow> buckets \<Rightarrow> buckets" where
  "appendTo k xs m = AList.map_default k xs (\<lambda>l. l @ xs) m"

definition bucket :: "buckets \<Rightarrow> string \<Rightarrow> string list" where
  "bucket m k = (case map_of m k of None \<Rightarrow> [] | Some l \<Rightarrow> l)"

text \<open>The loop both functions end with: the new group names join the selector's members.\<close>

definition addToSelector :: "string \<Rightarrow> string list \<Rightarrow> node list \<Rightarrow> node list" where
  "addToSelector proxiesGroupName names groups =
     (if length names > 0 \<and> proxiesGroupName \<noteq> []
      then case augmentGroup proxiesGroupName names groups of Some gs \<Rightarrow> gs | None \<Rightarrow> groups
      else groups)"

record rg_state =
  rg_ccToProxies :: buckets
  rg_unclassified :: "string list"
  rg_log :: "string list"

definition classifyProxy :: "(nat \<Rightarrow> nat) \<Rightarrow> node \<Rightarrow> rg_state \<Rightarrow> rg_state" where
  "classifyProxy ulower p st =
     (let name = getMappingField p ''name'' in
      if name = [] \<or> HasPrefix name ''_'' then st
      else
        let originalDisplayName = stripSourcePrefix name in
        case inferCountry ulower originalDisplayName of
          Some code \<Rightarrow> st\<lparr>rg_ccToProxies := appendTo code [name] (rg_ccToProxies st)\<rparr>
        | None \<Rightarrow> st\<lparr>rg_unclassified := rg_unclassified st @ [name],
                    rg_log := rg_log st @ [originalDisplayName]\<rparr>)"

definition regionPair ::
  "URLTestParams \<Rightarrow> LoadBalanceParams \<Rightarrow> string \<Rightarrow> string \<Rightarrow> string list \<Rightarrow> node list" where
  "regionPair ut lb urlTestName lbName members =
     [newURLTestGroup urlTestName members ut, newLoadBalanceGroup lbName members lb]"

definition AppendRegionGroups ::
  "(nat \<Rightarrow> nat) \<Rightarrow> node list \<Rightarrow> node list \<Rightarrow> string \<Rightarrow> URLTestParams \<Rightarrow> LoadBalanceParams \<Rightarrow>
     node list \<times> string list" where
  "AppendRegionGroups ulower groups upstreamPrefixedProxies proxiesGroupName ut lb =
     (let st = fold (classifyProxy ulower) upstreamPrefixedProxies
            \<lparr>rg_ccToProxies = [], rg_unclassified = [], rg_log = []\<rparr>;
          ccs = sort (map fst (rg_ccToProxies st));
          regionGroupNames = concat (map (\<lambda>cc. [''_region_'' @ cc, ''_lb_region_'' @ cc]) ccs);
          groups = groups @ concat (map (\<lambda>cc. regionPair ut lb (''_region_'' @ cc) (''_lb_region_'' @ cc)
             (bucket (rg_ccToProxies st) cc)) ccs);
          unknowns = length (rg_unclassified st) > 0;
          regionGroupNames = (if unknowns then regionGroupNames @ [''_region_UNKNOWN'', ''_lb_region_UNKNOWN'']
             else regionGroupNames);
          groups = (if unknowns then groups @ regionPair ut lb ''_region_UNKNOWN'' ''_lb_region_UNKNOWN''
             (rg_unclassified st) else groups)
      in (addToSelector proxiesGroupName regionGroupNames groups, rg_log st))"

record ct_state =
  ct_contToProxies :: buckets
  ct_contToRegions :: buckets
  ct_log :: "string list"

definition rollUpRegion :: "(string \<Rightarrow> string list) \<Rightarrow> string \<Rightarrow> ct_state \<Rightarrow> ct_state" where
  "rollUpRegion regionGroupMembers regionName st =
     (if length regionName < 8 \<or> take 8 regionName \<noteq> ''_region_'' then st
      else
        let cc = drop 8 regionName in
        if cc = ''UNKNOWN'' then st
        else
          let members = regionGroupMembers regionName in
          case continentOf cc of
            None \<Rightarrow> st\<lparr>ct_log := ct_log st @ [cc]\<rparr>
          | Some cont \<Rightarrow>
              st\<lparr>ct_contToRegions := (if \<not> contains (bucket (ct_contToRegions st) cont) cc
                   then appendTo cont [cc] (ct_contToRegions st) else ct_contToRegions st),
                 ct_contToProxies := appendTo cont members (ct_contToProxies st)\<rparr>)"

definition AppendContinentGroups ::
  "node list \<Rightarrow> string list \<Rightarrow> (string \<Rightarrow> string list) \<Rightarrow> string \<Rightarrow> URLTestParams \<Rightarrow> LoadBalanceParams \<Rightarrow>
     node list \<times> string list" where
  "AppendContinentGroups groups regionGroupNames regionGroupMembers proxiesGroupName ut lb =
     (let st = fold (rollUpRegion regionGroupMembers) regionGroupNames
            \<lparr>ct_contToProxies = [], ct_contToRegions = [], ct_log = []\<rparr>;
          conts = sort (map fst (ct_contToProxies st));
          continentGroupNames = concat (map (\<lambda>c. [''_continent_'' @ c, ''_lb_continent_'' @ c]) conts);
          groups = groups @ concat (map (\<lambda>cont.
            let regions = sort (bucket (ct_contToRegions st) cont);
                membersOrdered = concat (map (\<lambda>cc. regionGroupMembers (''_region_'' @ cc)) regions)
            in regionPair ut lb (''_continent_'' @ cont) (''_lb_continent_'' @ cont) membersOrdered) conts)
      in (addToSelector proxiesGroupName continentGroupNames groups, ct_log st))"

section \<open>The emitted groups\<close>

lemma newURLTestGroup_sel [simp]:
  "node_name (newURLTestGroup nm ms p) = nm"
  "members_of (newURLTestGroup nm ms p) = ms"
  "getMappingField (newURLTestGroup nm ms p) ''type'' = ''url-test''"
  "getMappingField (newURLTestGroup nm ms p) ''url'' = ut_URL p"
  "getMappingField (newURLTestGroup nm ms p) ''interval'' = Itoa (ut_IntervalSeconds p)"
  "getMappingField (newURLTestGroup nm ms p) ''timeout'' = Itoa (ut_TimeoutMS p)"
  "getMappingField (newURLTestGroup nm ms p) ''max-failed-times'' = Itoa (ut_MaxFailedTimes p)"
  "getMappingField (newURLTestGroup nm ms p) ''lazy'' = FormatBool (ut_Lazy p)"
  by (simp_all add: newURLTestGroup_def Let_def yaml_get)

lemma newLoadBalanceGroup_sel [simp]:
  "node_name (newLoadBalanceGroup nm ms p) = nm"
  "members_of (newLoadBalanceGroup nm ms p) = ms"
  "getMappingField (newLoadBalanceGroup nm ms p) ''type'' = ''load-balance''"
  "getMappingField (newLoadBalanceGroup nm ms p) ''url'' = lb_URL p"
  "getMappingField (newLoadBalanceGroup nm ms p) ''interval'' = Itoa (lb_IntervalSeconds p)"
  "getMappingField (newLoadBalanceGroup nm ms p) ''strategy'' = lb_Strategy p"
  "getMappingField (newLoadBalanceGroup nm ms p) ''timeout'' = Itoa (lb_TimeoutMS p)"
  "getMappingField (newLoadBalanceGroup nm ms p) ''max-failed-times'' = Itoa (lb_MaxFailedTimes p)"
  "getMappingField (newLoadBalanceGroup nm ms p) ''lazy'' = FormatBool (lb_Lazy p)"
  by (simp_all add: newLoadBalanceGroup_def Let_def yaml_get)

lemma named_newGroups [simp]:
  "nm \<noteq> [] \<Longrightarrow> named_node (newURLTestGroup nm ms p)"
  "nm \<noteq> [] \<Longrightarrow> named_node (newLoadBalanceGroup nm ms q)"
  unfolding named_node_def newURLTestGroup_sel newLoadBalanceGroup_sel
  by (simp_all add: newURLTestGroup_def newLoadBalanceGroup_def Let_def yaml_get)

section \<open>Buckets\<close>

lemma map_of_appendTo: "map_of (appendTo k xs m) k' =
  (if k' = k then Some (bucket m k @ xs) else map_of m k')"
  by (simp add: appendTo_def map_of_map_default bucket_def split: option.split)

lemma bucket_appendTo [simp]: "bucket (appendTo k xs m) k' = (if k' = k then bucket m k @ xs else bucket m k')"
  by (simp add: bucket_def [of "appendTo k xs m"] map_of_appendTo) (simp add: bucket_def)

lemma keys_appendTo [simp]: "fst ` set (appendTo k xs m) = insert k (fst ` set m)"
  by (simp add: appendTo_def dom_map_default)

lemma distinct_appendTo [simp]: "distinct (map fst m) \<Longrightarrow> distinct (map fst (appendTo k xs m))"
  by (simp add: appendTo_def distinct_map_default)

lemma sort_keys: "distinct ks \<Longrightarrow> sort ks = sorted_list_of_set (set ks)"
  using sorted_list_of_set_sort_remdups [of ks] by (simp add: distinct_remdups_id)

section \<open>Classification\<close>

definition upstreamNames :: "node list \<Rightarrow> string list" where
  "upstreamNames ps = filter (\<lambda>n. n \<noteq> [] \<and> \<not> HasPrefix n ''_'') (map node_name ps)"

definition countryOf :: "(nat \<Rightarrow> nat) \<Rightarrow> string \<Rightarrow> string option" where
  "countryOf ulower n = inferCountry ulower (stripSourcePrefix n)"

definition codesOf :: "(nat \<Rightarrow> nat) \<Rightarrow> string list \<Rightarrow> string set" where
  "codesOf ulower ns = {c. Some c \<in> set (map (countryOf ulower) ns)}"

lemma codesOf_simps [simp]:
  "codesOf ulower [] = {}"
  "codesOf ulower (n # ns) = (case countryOf ulower n of None \<Rightarrow> codesOf ulower ns | Some c \<Rightarrow> insert c (codesOf ulower ns))"
  by (auto simp: codesOf_def split: option.split)

lemma classify_step:
  "classifyProxy ulower p st =
     (if node_name p = [] \<or> HasPrefix (node_name p) ''_'' then st
      else case countryOf ulower (node_name p) of
        Some c \<Rightarrow> st\<lparr>rg_ccToProxies := appendTo c [node_name p] (rg_ccToProxies st)\<rparr>
      | None \<Rightarrow> st\<lparr>rg_unclassified := rg_unclassified st @ [node_name p],
                  rg_log := rg_log st @ [stripSourcePrefix (node_name p)]\<rparr>)"
  by (simp add: classifyProxy_def countryOf_def Let_def)

lemma classify_fold:
  "bucket (rg_ccToProxies (fold (classifyProxy ulower) ps st)) c =
     bucket (rg_ccToProxies st) c @ filter (\<lambda>n. countryOf ulower n = Some c) (upstreamNames ps)"
  "fst ` set (rg_ccToProxies (fold (classifyProxy ulower) ps st)) =
     fst ` set (rg_ccToProxies st) \<union> codesOf ulower (upstreamNames ps)"
  "distinct (map fst (rg_ccToProxies st)) \<Longrightarrow>
     distinct (map fst (rg_ccToProxies (fold (classifyProxy ulower) ps st)))"
  "rg_unclassified (fold (classifyProxy ulower) ps st) =
     rg_unclassified st @ filter (\<lambda>n. countryOf ulower n = None) (upstreamNames ps)"
  "rg_log (fold (classifyProxy ulower) ps st) =
     rg_log st @ map stripSourcePrefix (filter (\<lambda>n. countryOf ulower n = None) (upstreamNames ps))"
proof (induction ps arbitrary: st)
  case Nil
  {
    case 1 then show ?case by (simp add: upstreamNames_def)
  next
    case 2 then show ?case by (simp add: upstreamNames_def)
  next
    case 3 then show ?case by simp
  next
    case 4 then show ?case by (simp add: upstreamNames_def)
  next
    case 5 then show ?case by (simp add: upstreamNames_def)
  }
next
  case (Cons p ps)
  note step = classify_step [of ulower p]
  have un: "upstreamNames (p # ps) = (if node_name p = [] \<or> HasPrefix (node_name p) ''_'' then upstreamNames ps
     else node_name p # upstreamNames ps)" by (simp add: upstreamNames_def)
  {
    case 1 then show ?case by (simp add: Cons un step split: option.split)
  next
    case 2 then show ?case by (simp add: Cons un step split: option.split)
  next
    case 3 then show ?case by (simp add: Cons step split: option.split)
  next
    case 4 then show ?case by (simp add: Cons un step split: option.split)
  next
    case 5 then show ?case by (simp add: Cons un step split: option.split)
  }
qed

text \<open>The groups a country grouping of \<open>ns\<close> amounts to: one pair per country in
  alphabetical order, then the pair of the unclassified names.\<close>

definition regionSpec ::
  "(nat \<Rightarrow> nat) \<Rightarrow> URLTestParams \<Rightarrow> LoadBalanceParams \<Rightarrow> string list \<Rightarrow> node list" where
  "regionSpec ulower ut lb ns =
     concat (map (\<lambda>cc. regionPair ut lb (''_region_'' @ cc) (''_lb_region_'' @ cc)
         (filter (\<lambda>n. countryOf ulower n = Some cc) ns)) (sorted_list_of_set (codesOf ulower ns))) @
     (let u = filter (\<lambda>n. countryOf ulower n = None) ns in
      if u = [] then [] else regionPair ut lb ''_region_UNKNOWN'' ''_lb_region_UNKNOWN'' u)"

lemma map_node_name_pairs:
  "map node_name (concat (map (\<lambda>cc. regionPair ut lb (f cc) (g cc) (h cc)) ccs)) =
     concat (map (\<lambda>cc. [f cc, g cc]) ccs)"
  by (induction ccs) (simp_all add: regionPair_def)

lemma AppendRegionGroups_eq:
  "AppendRegionGroups ulower groups ps pg ut lb =
     (let em = regionSpec ulower ut lb (upstreamNames ps) in
      (addToSelector pg (map node_name em) (groups @ em),
       map stripSourcePrefix (filter (\<lambda>n. countryOf ulower n = None) (upstreamNames ps))))"
proof -
  let ?st = "fold (classifyProxy ulower) ps \<lparr>rg_ccToProxies = [], rg_unclassified = [], rg_log = []\<rparr>"
  have "sort (map fst (rg_ccToProxies ?st)) = sorted_list_of_set (codesOf ulower (upstreamNames ps))"
    using sort_keys [OF classify_fold(3)] by (simp add: classify_fold(2))
  moreover have "bucket [] c = []" for c by (simp add: bucket_def)
  moreover have "map node_name (regionPair ut lb a b ms) = [a, b]" for a b ms
    by (simp add: regionPair_def)
  ultimately show ?thesis
    by (simp add: AppendRegionGroups_def regionSpec_def Let_def classify_fold map_node_name_pairs)
qed

section \<open>The selector\<close>

lemma augmentGroup_append:
  "augmentGroup nm ns (gs @ hs) = (case augmentGroup nm ns gs of
      Some gs' \<Rightarrow> Some (gs' @ hs) | None \<Rightarrow>
      (case augmentGroup nm ns hs of Some hs' \<Rightarrow> Some (gs @ hs') | None \<Rightarrow> None))"
  by (induction nm ns gs rule: augmentGroup.induct) (auto split: option.split)

text \<open>With the selector among the given groups, the new groups are appended untouched and the
  selector offers them.\<close>

lemma addToSelector_append:
  assumes "\<forall>g\<in>set groups. named_node g" and "pg \<in> set (map node_name groups)"
  shows "\<exists>front. addToSelector pg names (groups @ em) = front @ em \<and>
     map node_name front = map node_name groups \<and> (\<forall>g\<in>set front. named_node g) \<and>
     (\<exists>g\<in>set front. node_name g = pg \<and> set names \<subseteq> set (members_of g)) \<and>
     (\<forall>i < length groups. node_name (groups ! i) \<noteq> pg \<longrightarrow> front ! i = groups ! i)"
proof (cases "names = []")
  case True
  then show ?thesis using assms by (intro exI [of _ groups]) (auto simp: addToSelector_def)
next
  case False
  have "pg \<noteq> []" using assms by (auto simp: named_node_def)
  obtain front where front: "augmentGroup pg names groups = Some front"
    using assms(2) augmentGroup_None [of pg names groups] by (cases "augmentGroup pg names groups") auto
  from augmentGroup_Some [OF front] obtain pre g post where g: "groups = pre @ g # post" "node_name g = pg"
    "front = pre @ setMappingMembers g ''proxies'' (union_members (members_of g) names) # post" by blast
  let ?g = "setMappingMembers g ''proxies'' (union_members (members_of g) names)"
  have "is_mapping g" using assms(1) g(1) by (simp add: named_node_def)
  then have sel: "node_name ?g = pg" "set names \<subseteq> set (members_of ?g)" using g(2) by (simp_all add: yaml_get)
  have same: "\<forall>i < length groups. node_name (groups ! i) \<noteq> pg \<longrightarrow> front ! i = groups ! i"
    using g by (auto simp: nth_append nth_Cons split: nat.split)
  show ?thesis
  proof (intro exI [of _ front] conjI)
    show "addToSelector pg names (groups @ em) = front @ em"
      using False \<open>pg \<noteq> []\<close> by (simp add: addToSelector_def augmentGroup_append front)
    show "map node_name front = map node_name groups" by (rule map_node_name_augmentGroup [OF front assms(1)])
    show "\<forall>g\<in>set front. named_node g" using named_node_augmentGroup [OF front assms(1)] by blast
    show "\<exists>g\<in>set front. node_name g = pg \<and> set names \<subseteq> set (members_of g)"
      using sel g(3) by (intro bexI [of _ ?g]) simp_all
    show "\<forall>i < length groups. node_name (groups ! i) \<noteq> pg \<longrightarrow> front ! i = groups ! i" by (rule same)
  qed
qed

section \<open>Countries\<close>

lemma mset_partition:
  "distinct cs \<Longrightarrow> mset (concat (map (\<lambda>c. filter (\<lambda>n. f n = c) ns) cs)) = filter_mset (\<lambda>n. f n \<in> set cs) (mset ns)"
proof (induction cs)
  case Nil
  then show ?case by simp
next
  case (Cons c cs)
  have "filter_mset (\<lambda>n. f n = c) M + filter_mset (\<lambda>n. f n \<in> set cs) M = filter_mset (\<lambda>n. f n \<in> set (c # cs)) M" for M
    using Cons.prems by (intro multiset_eqI) auto
  with Cons show ?case by (simp add: mset_filter)
qed

definition ofType :: "string \<Rightarrow> node list \<Rightarrow> node list" where
  "ofType t gs = filter (\<lambda>g. getMappingField g ''type'' = t) gs"

lemma ofType_pairs:
  "map members_of (ofType t (concat (map (\<lambda>cc. regionPair ut lb (f cc) (g cc) (h cc)) ccs))) =
     (if t = ''url-test'' \<or> t = ''load-balance'' then map h ccs else [])"
  by (induction ccs) (auto simp: ofType_def regionPair_def)

lemma finite_codesOf [simp]: "finite (codesOf ulower ns)"
  by (induction ns) (auto split: option.split)

lemma regionSpec_alt:
  "regionSpec ulower ut lb ns =
     (let tags = map Some (sorted_list_of_set (codesOf ulower ns)) @
        (if None \<in> set (map (countryOf ulower) ns) then [None] else []);
        label = (\<lambda>c. case c of None \<Rightarrow> ''UNKNOWN'' | Some cc \<Rightarrow> cc) in
      concat (map (\<lambda>c. regionPair ut lb (''_region_'' @ label c) (''_lb_region_'' @ label c)
         (filter (\<lambda>n. countryOf ulower n = c) ns)) tags))"
proof -
  have "filter (\<lambda>n. countryOf ulower n = None) ns = [] \<longleftrightarrow> None \<notin> set (map (countryOf ulower) ns)"
    unfolding filter_empty_conv by (metis (mono_tags, lifting) image_iff list.set_map not_None_eq)
  then show ?thesis by (simp add: regionSpec_def Let_def o_def)
qed

lemma regionSpec_partition:
  assumes "t = ''url-test'' \<or> t = ''load-balance''"
  shows "mset (concat (map members_of (ofType t (regionSpec ulower ut lb ns)))) = mset ns"
proof -
  let ?tags = "map Some (sorted_list_of_set (codesOf ulower ns)) @
        (if None \<in> set (map (countryOf ulower) ns) then [None] else [])"
  have "distinct ?tags" by (auto simp: distinct_map)
  moreover have "countryOf ulower n \<in> set ?tags" if "n \<in> set ns" for n
  proof (cases "countryOf ulower n")
    case None
    with that have "None \<in> set (map (countryOf ulower) ns)" by (metis image_eqI list.set_map)
    with None show ?thesis by simp
  next
    case (Some c)
    with that have "c \<in> codesOf ulower ns" unfolding codesOf_def by (metis (mono_tags) image_eqI list.set_map mem_Collect_eq)
    with Some show ?thesis by simp
  qed
  ultimately show ?thesis
    using assms mset_partition [of ?tags "countryOf ulower" ns]
    by (simp only: regionSpec_alt Let_def ofType_pairs if_True) (simp add: filter_mset_eq_conv)
qed

lemma regionSpec_names:
  "map node_name (regionSpec ulower ut lb ns) =
     (let tags = sorted_list_of_set (codesOf ulower ns) @
        (if None \<in> set (map (countryOf ulower) ns) then [''UNKNOWN''] else [])
      in concat (map (\<lambda>c. [''_region_'' @ c, ''_lb_region_'' @ c]) tags))"
  by (simp add: regionSpec_alt Let_def map_node_name_pairs o_def)

lemma codesOf_pairs: "c \<in> codesOf ulower ns \<Longrightarrow> length c = 2"
  by (auto simp: codesOf_def countryOf_def isUpperPair_def dest!: inferCountry_upper [OF sym])

lemma distinct_pair_names:
  assumes "distinct cs" and "\<And>x y. a @ x \<noteq> b @ y"
  shows "distinct (concat (map (\<lambda>c. [a @ c, b @ c]) cs))"
  using assms(1)
proof (induction cs)
  case Nil
  then show ?case by simp
next
  case (Cons c cs)
  have "a @ c \<noteq> b @ y" "b @ c \<noteq> a @ y" for y using assms(2) by metis+
  with Cons show ?case by auto
qed

lemma distinct_regionSpec: "distinct (map node_name (regionSpec ulower ut lb ns))"
proof -
  have "''UNKNOWN'' \<notin> codesOf ulower ns" using codesOf_pairs [of "''UNKNOWN''" ulower ns] by auto
  then show ?thesis
    by (simp only: regionSpec_names Let_def) (rule distinct_pair_names, auto)
qed

text \<open>C22: the country groups partition the upstream proxies.  The given groups keep their order
  and all but the selector their contents; behind them come the emitted groups, with distinct
  names; the url-test ones together contain every upstream proxy exactly once, the load-balance
  ones too, and the selector offers all of them.  The unclassified proxies are what the logger
  is called with.\<close>

theorem AppendRegionGroups_partition:
  assumes "\<forall>g\<in>set groups. named_node g" and "pg \<in> set (map node_name groups)"
  shows "\<exists>front em. AppendRegionGroups ulower groups ps pg ut lb =
       (front @ em, map stripSourcePrefix (filter (\<lambda>n. countryOf ulower n = None) (upstreamNames ps))) \<and>
     map node_name front = map node_name groups \<and>
     (\<forall>i < length groups. node_name (groups ! i) \<noteq> pg \<longrightarrow> front ! i = groups ! i) \<and>
     distinct (map node_name em) \<and>
     mset (concat (map members_of (ofType ''url-test'' em))) = mset (upstreamNames ps) \<and>
     mset (concat (map members_of (ofType ''load-balance'' em))) = mset (upstreamNames ps) \<and>
     (\<exists>g\<in>set front. node_name g = pg \<and> set (map node_name em) \<subseteq> set (members_of g))"
proof -
  let ?em = "regionSpec ulower ut lb (upstreamNames ps)"
  from addToSelector_append [OF assms, of "map node_name ?em" ?em] obtain front where
    "addToSelector pg (map node_name ?em) (groups @ ?em) = front @ ?em"
    "map node_name front = map node_name groups"
    "\<forall>i < length groups. node_name (groups ! i) \<noteq> pg \<longrightarrow> front ! i = groups ! i"
    "\<exists>g\<in>set front. node_name g = pg \<and> set (map node_name ?em) \<subseteq> set (members_of g)" by blast
  then show ?thesis
    by (intro exI [of _ front] exI [of _ ?em])
      (simp add: AppendRegionGroups_eq Let_def distinct_regionSpec regionSpec_partition)
qed

section \<open>Continents\<close>

lemma contains_iff [simp]: "contains vs x \<longleftrightarrow> x \<in> set vs"
  by (induction vs x rule: contains.induct) auto

text \<open>The country codes a list of group names rolls up.\<close>

definition rolledUp :: "string list \<Rightarrow> string list" where
  "rolledUp rs = filter (\<lambda>cc. cc \<noteq> ''UNKNOWN'') (map (drop 8) (filter (\<lambda>r. HasPrefix r ''_region_'') rs))"

definition regionsIn :: "string list \<Rightarrow> string \<Rightarrow> string set" where
  "regionsIn rs cont = {cc. cc \<in> set (rolledUp rs) \<and> continentOf cc = Some cont}"

lemma rolledUp_simps [simp]:
  "rolledUp [] = []"
  "rolledUp (r # rs) = (if HasPrefix r ''_region_'' \<and> drop 8 r \<noteq> ''UNKNOWN'' then drop 8 r # rolledUp rs else rolledUp rs)"
  by (simp_all add: rolledUp_def)

lemma rollUp_step:
  "rollUpRegion members r st =
     (if HasPrefix r ''_region_'' \<and> drop 8 r \<noteq> ''UNKNOWN'' then
        (case continentOf (drop 8 r) of
           None \<Rightarrow> st\<lparr>ct_log := ct_log st @ [drop 8 r]\<rparr>
         | Some cont \<Rightarrow>
            st\<lparr>ct_contToRegions := (if drop 8 r \<in> set (bucket (ct_contToRegions st) cont)
                 then ct_contToRegions st else appendTo cont [drop 8 r] (ct_contToRegions st)),
               ct_contToProxies := appendTo cont (members r) (ct_contToProxies st)\<rparr>)
      else st)"
proof -
  have "HasPrefix r ''_region_'' \<longleftrightarrow> \<not> (length r < 8 \<or> take 8 r \<noteq> ''_region_'')"
  proof -
    have "length ''_region_'' = 8" by simp
    then have "HasPrefix r ''_region_'' \<longleftrightarrow> take 8 r = ''_region_''" by (simp only: HasPrefix_def)
    moreover have "take 8 r = ''_region_'' \<Longrightarrow> \<not> length r < 8" by auto
    ultimately show ?thesis by blast
  qed
  then show ?thesis by (auto simp: rollUpRegion_def Let_def split: option.split)
qed

lemma rollUp_fold:
  "fst ` set (ct_contToProxies (fold (rollUpRegion members) rs st)) =
     fst ` set (ct_contToProxies st) \<union> {cont. regionsIn rs cont \<noteq> {}}"
  "distinct (map fst (ct_contToProxies st)) \<Longrightarrow>
     distinct (map fst (ct_contToProxies (fold (rollUpRegion members) rs st)))"
  "set (bucket (ct_contToRegions (fold (rollUpRegion members) rs st)) cont) =
     set (bucket (ct_contToRegions st) cont) \<union> regionsIn rs cont"
  "(\<And>cont. distinct (bucket (ct_contToRegions st) cont)) \<Longrightarrow>
     distinct (bucket (ct_contToRegions (fold (rollUpRegion members) rs st)) cont)"
  "ct_log (fold (rollUpRegion members) rs st) = ct_log st @ filter (\<lambda>cc. continentOf cc = None) (rolledUp rs)"
proof (induction rs arbitrary: st)
  case Nil
  {
    case 1 show ?case by (simp add: regionsIn_def)
  next
    case 2 then show ?case by simp
  next
    case 3 show ?case by (simp add: regionsIn_def)
  next
    case 4 then show ?case by simp
  next
    case 5 show ?case by simp
  }
next
  case (Cons r rs)
  note step = rollUp_step [of members r]
  {
    case 1 then show ?case
      by (auto simp add: Cons step regionsIn_def split: option.split)
  next
    case 2 then show ?case by (simp add: Cons step split: option.split)
  next
    case 3 then show ?case by (auto simp: Cons step regionsIn_def split: option.split)
  next
    case 4
    have "distinct (bucket (ct_contToRegions (rollUpRegion members r st)) c)" for c
      using 4 by (simp add: step split: option.split)
    then show ?case using Cons(4) by simp
  next
    case 5 then show ?case by (simp add: Cons step split: option.split)
  }
qed

definition continentSpec ::
  "URLTestParams \<Rightarrow> LoadBalanceParams \<Rightarrow> string list \<Rightarrow> (string \<Rightarrow> string list) \<Rightarrow> node list" where
  "continentSpec ut lb rs members =
     concat (map (\<lambda>cont. regionPair ut lb (''_continent_'' @ cont) (''_lb_continent_'' @ cont)
        (concat (map (\<lambda>cc. members (''_region_'' @ cc)) (sorted_list_of_set (regionsIn rs cont)))))
        (sorted_list_of_set {cont. regionsIn rs cont \<noteq> {}}))"

lemma AppendContinentGroups_eq:
  "AppendContinentGroups groups rs members pg ut lb =
     (let em = continentSpec ut lb rs members in
      (addToSelector pg (map node_name em) (groups @ em),
       filter (\<lambda>cc. continentOf cc = None) (rolledUp rs)))"
proof -
  let ?st = "fold (rollUpRegion members) rs \<lparr>ct_contToProxies = [], ct_contToRegions = [], ct_log = []\<rparr>"
  have [simp]: "bucket [] c = []" for c by (simp add: bucket_def)
  have "sort (map fst (ct_contToProxies ?st)) = sorted_list_of_set {cont. regionsIn rs cont \<noteq> {}}"
    using sort_keys [OF rollUp_fold(2)] by (simp add: rollUp_fold(1))
  moreover have "sort (bucket (ct_contToRegions ?st) cont) = sorted_list_of_set (regionsIn rs cont)" for cont
    using sort_keys [OF rollUp_fold(4)] by (simp add: rollUp_fold(3))
  ultimately show ?thesis
    by (simp add: AppendContinentGroups_def continentSpec_def Let_def rollUp_fold(5) map_node_name_pairs)
qed

lemma finite_regionsIn [simp]: "finite (regionsIn rs cont)"
  by (simp add: regionsIn_def)

lemma finite_continents [simp]: "finite {cont. regionsIn rs cont \<noteq> {}}"
proof -
  have "{cont. regionsIn rs cont \<noteq> {}} \<subseteq> (\<lambda>cc. the (continentOf cc)) ` set (rolledUp rs)"
    by (force simp: regionsIn_def)
  then show ?thesis by (rule finite_subset) simp
qed

lemma distinct_continentSpec: "distinct (map node_name (continentSpec ut lb rs members))"
  unfolding continentSpec_def map_node_name_pairs by (rule distinct_pair_names) auto

text \<open>Continent groups are the flat union of their countries.  The emitted groups are
  exactly the pairs \<open>_continent_X\<close>, \<open>_lb_continent_X\<close> for the continents \<open>X\<close> that
  some rolled-up country lies in, with distinct names; their members are the members of the
  region groups of those countries, countries in alphabetical order; a country without continent
  is reported and contributes nothing; the selector offers every emitted group.\<close>

theorem AppendContinentGroups_rollup:
  assumes "\<forall>g\<in>set groups. named_node g" and "pg \<in> set (map node_name groups)"
  shows "\<exists>front em. AppendContinentGroups groups rs members pg ut lb =
       (front @ em, filter (\<lambda>cc. continentOf cc = None) (rolledUp rs)) \<and>
     map node_name front = map node_name groups \<and>
     (\<forall>i < length groups. node_name (groups ! i) \<noteq> pg \<longrightarrow> front ! i = groups ! i) \<and>
     distinct (map node_name em) \<and>
     map (\<lambda>g. (node_name g, members_of g)) em =
       concat (map (\<lambda>cont. let ms = concat (map (\<lambda>cc. members (''_region_'' @ cc)) (sorted_list_of_set (regionsIn rs cont)))
          in [(''_continent_'' @ cont, ms), (''_lb_continent_'' @ cont, ms)])
        (sorted_list_of_set {cont. regionsIn rs cont \<noteq> {}})) \<and>
     (\<exists>g\<in>set front. node_name g = pg \<and> set (map node_name em) \<subseteq> set (members_of g))"
proof -
  let ?em = "continentSpec ut lb rs members"
  from addToSelector_append [OF assms, of "map node_name ?em" ?em] obtain front where
    "addToSelector pg (map node_name ?em) (groups @ ?em) = front @ ?em"
    "map node_name front = map node_name groups"
    "\<forall>i < length groups. node_name (groups ! i) \<noteq> pg \<longrightarrow> front ! i = groups ! i"
    "\<exists>g\<in>set front. node_name g = pg \<and> set (map node_name ?em) \<subseteq> set (members_of g)" by blast
  moreover have "map (\<lambda>g. (node_name g, members_of g)) (concat (map (\<lambda>c. regionPair ut lb (f c) (g c) (h c)) cs)) =
      concat (map (\<lambda>c. let ms = h c in [(f c, ms), (g c, ms)]) cs)" for f g h and cs :: "string list"
    by (induction cs) (simp_all add: regionPair_def Let_def)
  ultimately show ?thesis
    by (intro exI [of _ front] exI [of _ ?em])
      (simp add: AppendContinentGroups_eq Let_def distinct_continentSpec, simp add: continentSpec_def)
qed

end
