(* ===== verification/Headers.thy ===== *)
theory Headers
  imports Go_Text
begin

text \<open>
  \<open>internal/fetcher/headers.go\<close>: the \<open>Subscription-Userinfo\<close> and
  \<open>Profile-Update-Interval\<close> headers of an upstream response.
\<close>

section \<open>Definitions\<close>

record SubscriptionUserinfo =
  ui_Upload :: int
  ui_Download :: int
  ui_Total :: int
  ui_Expire :: int

definition zeroUserinfo :: SubscriptionUserinfo where
  "zeroUserinfo = \<lparr>ui_Upload = 0, ui_Download = 0, ui_Total = 0, ui_Expire = 0\<rparr>"

datatype userinfo_error =
  EmptyHeader | MalformedPair string | NotAnInteger string string | NoRecognizedFields string

definition setUserinfo :: "string \<Rightarrow> int \<Rightarrow> SubscriptionUserinfo \<times> string set \<Rightarrow> SubscriptionUserinfo \<times> string set" where
  "setUserinfo key n = (\<lambda>(out, seen).
     if key = ''upload'' then (out\<lparr>ui_Upload := n\<rparr>, insert ''upload'' seen)
     else if key = ''download'' then (out\<lparr>ui_Download := n\<rparr>, insert ''download'' seen)
     else if key = ''total'' then (out\<lparr>ui_Total := n\<rparr>, insert ''total'' seen)
     else if key = ''expire'' then (out\<lparr>ui_Expire := n\<rparr>, insert ''expire'' seen)
     else (out, seen))"

fun parseFields :: "(nat \<Rightarrow> nat) \<Rightarrow> string list \<Rightarrow> SubscriptionUserinfo \<times> string set \<Rightarrow>
    userinfo_error + (SubscriptionUserinfo \<times> string set)" where
  "parseFields ulower [] st = Inr st"
| "parseFields ulower (raw # rest) st =
     (let field = TrimSpace raw in
      if field = [] then parseFields ulower rest st
      else
        let eq = IndexByte field CHR ''='' in
        if eq \<le> 0 then Inl (MalformedPair field)
        else
          let key = ToLower ulower (TrimSpace (take (nat eq) field));
              val = TrimSpace (drop (nat eq + 1) field)
          in case ParseInt val of
               None \<Rightarrow> Inl (NotAnInteger key val)
             | Some n \<Rightarrow> parseFields ulower rest (setUserinfo key n st))"

definition userinfoKeys :: "string list" where
  "userinfoKeys = [''upload'', ''download'', ''total'', ''expire'']"

definition ParseSubscriptionUserinfo ::
  "(nat \<Rightarrow> nat) \<Rightarrow> string \<Rightarrow> userinfo_error + (SubscriptionUserinfo \<times> string list)" where
  "ParseSubscriptionUserinfo ulower s0 =
     (let s = TrimSpace s0 in
      if s = [] then Inl EmptyHeader
      else case parseFields ulower (Split s CHR '';'') (zeroUserinfo, {}) of
        Inl e \<Rightarrow> Inl e
      | Inr (out, seen) \<Rightarrow>
          let missing = filter (\<lambda>w. w \<notin> seen) userinfoKeys in
          if length missing = 4 then Inl (NoRecognizedFields s) else Inr (out, missing))"

definition ParseProfileUpdateInterval :: "string \<Rightarrow> int \<times> bool" where
  "ParseProfileUpdateInterval s0 =
     (let s = TrimSpace s0 in
      if s = [] then (0, False)
      else case ParseInt s of
        None \<Rightarrow> (0, False)
      | Some n \<Rightarrow> if n < 0 then (0, False) else (n, True))"

text \<open>The wire format, as the output adapter prints it with
  \<open>fmt.Sprintf("upload=%d; download=%d; total=%d; expire=%d", ...)\<close>.\<close>

definition formatUserinfo :: "SubscriptionUserinfo \<Rightarrow> string" where
  "formatUserinfo u = ''upload='' @ Itoa (ui_Upload u) @ ''; download='' @ Itoa (ui_Download u) @
     ''; total='' @ Itoa (ui_Total u) @ ''; expire='' @ Itoa (ui_Expire u)"

section \<open>Trimming\<close>

text \<open>A byte that neither starts nor ends the encoding of a space.\<close>

definition solid :: "char \<Rightarrow> bool" where
  "solid c \<longleftrightarrow> byte c < 128 \<and> byte c \<noteq> 32 \<and> \<not> (9 \<le> byte c \<and> byte c \<le> 13)"

lemma space_encodings_ends:
  "list_all (\<lambda>w. w \<noteq> [] \<and> \<not> solid (hd w) \<and> \<not> solid (last w)) space_encodings"
proof -
  have "[0x2000..<0x200B] = [0x2000, 0x2001, 0x2002, 0x2003, 0x2004, 0x2005, 0x2006, 0x2007, 0x2008, 0x2009, 0x200A]"
    by (simp add: upt_rec)
  then show ?thesis
    by (simp add: space_encodings_def EncodeRune_def encode3_def valid_rune_def solid_def)
qed

lemma strip_one_solid:
  "list_all (\<lambda>w. w \<noteq> [] \<and> \<not> solid (hd w)) ws \<Longrightarrow> solid c \<Longrightarrow> strip_one ws (c # s) = None"
proof (induction ws)
  case Nil
  then show ?case by simp
next
  case (Cons w ws)
  then have "\<not> HasPrefix (c # s) w" by (cases w) (auto simp: HasPrefix_iff)
  with Cons show ?case by simp
qed

lemma trim_left_solid:
  "list_all (\<lambda>w. w \<noteq> [] \<and> \<not> solid (hd w)) ws \<Longrightarrow> solid c \<Longrightarrow> trim_left ws (c # s) = c # s"
  by (simp add: trim_left.simps strip_one_solid)

lemma trim_left_Nil [simp]: "trim_left ws [] = []"
proof -
  have "strip_one ws [] = None" by (induction ws) (auto simp: HasPrefix_def)
  then show ?thesis by (simp add: trim_left.simps)
qed

lemma trim_left_spaces [simp]: "trim_left space_encodings s = s" if "s \<noteq> []" "solid (hd s)"
  using that trim_left_solid [of space_encodings "hd s" "tl s"] space_encodings_ends
  by (cases s) (auto simp: list_all_iff)

lemma trim_right_spaces: "trim_left (map rev space_encodings) (rev s) = rev s" if "s \<noteq> []" "solid (last s)"
proof -
  have "rev s = last s # rev (butlast s)" using that(1) by (metis append_butlast_last_id rev_eq_Cons_iff rev_rev_ident)
  moreover have "list_all (\<lambda>w. w \<noteq> [] \<and> \<not> solid (hd w)) (map rev space_encodings)"
    using space_encodings_ends by (auto simp: list_all_iff hd_rev)
  ultimately show ?thesis using that(2) trim_left_solid by metis
qed

lemma TrimSpace_solid [simp]: "s \<noteq> [] \<Longrightarrow> solid (hd s) \<Longrightarrow> solid (last s) \<Longrightarrow> TrimSpace s = s"
  by (simp add: TrimSpace_def trim_right_spaces)

lemma strip_blank: "strip_one space_encodings (CHR '' '' # s) = Some s"
proof -
  have "strip_one (map EncodeRune [9, 10, 11, 12, 13, 32] @ ws) (CHR '' '' # s) = Some s" for ws
    by (simp add: EncodeRune_def HasPrefix_def char_of_def bit_0)
  from this [of "map EncodeRune ([0x85, 0xA0, 0x1680] @ [0x2000..<0x200B] @ [0x2028, 0x2029, 0x202F, 0x205F, 0x3000])"]
  show ?thesis by (simp add: space_encodings_def)
qed

lemma TrimSpace_blank [simp]: "TrimSpace (CHR '' '' # s) = TrimSpace s"
  by (simp add: TrimSpace_def trim_left.simps [of space_encodings "CHR '' '' # s"] strip_blank)

section \<open>Round trip\<close>

lemma Itoa_solid: "Itoa i \<noteq> [] \<and> solid (hd (Itoa i)) \<and> solid (last (Itoa i)) \<and>
    CHR '';'' \<notin> set (Itoa i) \<and> CHR ''='' \<notin> set (Itoa i)"
proof -
  have digit: "solid c \<and> c \<noteq> CHR '';'' \<and> c \<noteq> CHR ''=''" if "is_digit c" for c
    using that by (auto simp: solid_def is_digit_def)
  have u: "utoa n \<noteq> [] \<and> solid (hd (utoa n)) \<and> solid (last (utoa n)) \<and>
      CHR '';'' \<notin> set (utoa n) \<and> CHR ''='' \<notin> set (utoa n)" for n
  proof -
    have n: "utoa n \<noteq> []" "\<And>c. c \<in> set (utoa n) \<Longrightarrow> is_digit c"
      using utoa_digits [of n] by (auto simp: list_all_iff)
    have "is_digit (hd (utoa n))" "is_digit (last (utoa n))" using n by simp_all
    with n digit show ?thesis by blast
  qed
  have "solid CHR ''-''" by (simp add: solid_def)
  then show ?thesis
    using u [of "nat i"] u [of "nat (- i)"] by (cases "i < 0") (simp_all add: Itoa_def)
qed

lemma IndexByte_append: "c \<notin> set p \<Longrightarrow> IndexByte (p @ c # s) c = int (length p)"
proof -
  assume "c \<notin> set p"
  then have "takeWhile (\<lambda>x. x \<noteq> c) (p @ c # s) = p" by (subst takeWhile_append2) auto
  then show ?thesis by (simp add: IndexByte_def)
qed

lemma parse_field:
  assumes "key \<noteq> []" "list_all (\<lambda>c. 97 \<le> byte c \<and> byte c \<le> 122) key" and "in_int64 i"
    and "raw = key @ ''='' @ Itoa i \<or> raw = '' '' @ key @ ''='' @ Itoa i"
  shows "parseFields ulower (raw # rest) st = parseFields ulower rest (setUserinfo key i st)"
proof -
  let ?f = "key @ CHR ''='' # Itoa i"
  have k: "97 \<le> byte c \<and> byte c \<le> 122" if "c \<in> set key" for c using that assms(2) by (simp add: list_all_iff)
  have solid: "solid c" if "c \<in> set key" for c using k [OF that] by (simp add: solid_def)
  have "CHR ''='' \<notin> set key" using k by fastforce
  then have idx: "IndexByte ?f CHR ''='' = int (length key)" by (simp add: IndexByte_append)
  have trim: "TrimSpace raw = ?f"
    using assms(1,4) solid Itoa_solid [of i] by auto
  have keyT: "TrimSpace key = key" using assms(1) solid by simp
  have "lower_char c = c" if "c \<in> set key" for c using k [OF that] by (simp add: lower_char_def)
  then have low: "ToLower ulower key = key"
    using k by (subst ToLower_ascii) (auto simp: list_all_iff map_idI dest!: k)
  have val: "TrimSpace (Itoa i) = Itoa i" using Itoa_solid [of i] by simp
  show ?thesis using assms(1,3) by (simp add: trim idx keyT low val Let_def)
qed

lemma Split_userinfo:
  "Split (formatUserinfo u) CHR '';'' =
     [''upload='' @ Itoa (ui_Upload u), '' download='' @ Itoa (ui_Download u),
      '' total='' @ Itoa (ui_Total u), '' expire='' @ Itoa (ui_Expire u)]"
  by (rule Split_eqI) (use Itoa_solid in \<open>auto simp: formatUserinfo_def\<close>)

definition userinfo64 :: "SubscriptionUserinfo \<Rightarrow> bool" where
  "userinfo64 u \<longleftrightarrow> in_int64 (ui_Upload u) \<and> in_int64 (ui_Download u) \<and> in_int64 (ui_Total u) \<and> in_int64 (ui_Expire u)"

lemma parse_formatUserinfo:
  assumes "userinfo64 u"
  shows "ParseSubscriptionUserinfo ulower (formatUserinfo u) = Inr (u, [])"
proof -
  have "TrimSpace (formatUserinfo u) = formatUserinfo u"
    using Itoa_solid [of "ui_Expire u"]
    by (intro TrimSpace_solid) (auto simp: formatUserinfo_def solid_def)
  moreover have "formatUserinfo u \<noteq> []" by (simp add: formatUserinfo_def)
  moreover have "parseFields ulower (Split (formatUserinfo u) CHR '';'') (zeroUserinfo, {}) =
      Inr (u, {''upload'', ''download'', ''total'', ''expire''})"
    unfolding Split_userinfo using assms
      parse_field [of "''upload''" "ui_Upload u"] parse_field [of "''download''" "ui_Download u"]
      parse_field [of "''total''" "ui_Total u"] parse_field [of "''expire''" "ui_Expire u"]
    by (simp add: userinfo64_def setUserinfo_def zeroUserinfo_def insert_commute)
  ultimately show ?thesis
    by (simp add: ParseSubscriptionUserinfo_def Let_def userinfoKeys_def)
qed

text \<open>The header the server emits is one it can read.  Parsing the wire format of any
  quadruple of 64-bit values gives back the quadruple, with no field missing.\<close>

theorem ParseSubscriptionUserinfo_roundtrip:
  assumes "userinfo64 u"
  shows "ParseSubscriptionUserinfo ulower (formatUserinfo u) = Inr (u, [])"
  using assms by (rule parse_formatUserinfo)

section \<open>Accepted headers\<close>

definition fieldOf :: "string \<Rightarrow> SubscriptionUserinfo \<Rightarrow> int" where
  "fieldOf k u = (if k = ''upload'' then ui_Upload u else if k = ''download'' then ui_Download u
     else if k = ''total'' then ui_Total u else ui_Expire u)"

definition fields_inv :: "SubscriptionUserinfo \<times> string set \<Rightarrow> bool" where
  "fields_inv st \<longleftrightarrow> userinfo64 (fst st) \<and> (\<forall>k\<in>set userinfoKeys. k \<notin> snd st \<longrightarrow> fieldOf k (fst st) = 0)"

lemma fields_inv_set: "fields_inv st \<Longrightarrow> in_int64 n \<Longrightarrow> fields_inv (setUserinfo k n st)"
  by (cases st) (auto simp: fields_inv_def setUserinfo_def userinfo64_def fieldOf_def userinfoKeys_def)

lemma fields_inv_parse: "parseFields ulower raws st = Inr st' \<Longrightarrow> fields_inv st \<Longrightarrow> fields_inv st'"
proof (induction raws arbitrary: st)
  case Nil
  then show ?case by simp
next
  case (Cons raw raws)
  then show ?case
    by (auto simp: Let_def fields_inv_set ParseInt_range split: if_splits option.splits)
qed

text \<open>An accepted header has 64-bit values only, at least one of the four fields was there,
  and the fields reported missing are zero.\<close>

theorem ParseSubscriptionUserinfo_accepts:
  assumes "ParseSubscriptionUserinfo ulower s = Inr (u, missing)"
  shows "userinfo64 u \<and> length missing < 4 \<and> set missing \<subseteq> set userinfoKeys \<and>
     list_all (\<lambda>k. fieldOf k u = 0) missing"
proof -
  let ?s = "TrimSpace s"
  obtain seen where p: "parseFields ulower (Split ?s CHR '';'') (zeroUserinfo, {}) = Inr (u, seen)"
    and m: "missing = filter (\<lambda>w. w \<notin> seen) userinfoKeys" "length missing \<noteq> 4"
    using assms by (auto simp: ParseSubscriptionUserinfo_def Let_def split: if_splits sum.splits)
  have "fields_inv (zeroUserinfo, {})"
    by (simp add: fields_inv_def userinfo64_def zeroUserinfo_def in_int64_def int64_min_def int64_max_def fieldOf_def)
  from fields_inv_parse [OF p this] have "fields_inv (u, seen)" .
  moreover have "length missing \<le> 4"
    unfolding m(1) using length_filter_le [of _ userinfoKeys] by (simp add: userinfoKeys_def)
  ultimately show ?thesis using m by (auto simp: fields_inv_def list_all_iff)
qed

end
