(* ===== verification/Go_Float.thy ===== *)
theory Go_Float
  imports Complex_Main Prelude
begin

text \<open>
  Go \<open>float64\<close> arithmetic on finite values.  A finite float64 is a rational; an operation is
  the exact rational one followed by \<open>fl64\<close>, rounding to nearest with ties to even at 53 bits
  of precision (gradual underflow included).  The server only computes with products and
  quotients of 64-bit counters and ratios between 0 and 1, which stay far below the overflow
  threshold, so infinities do not occur.
\<close>

section \<open>Rounding\<close>

definition round_even :: "rat \<Rightarrow> int" where
  "round_even x =
     (let f = \<lfloor>x\<rfloor>; d = x - of_int f in
      if d < 1 / 2 then f else if 1 / 2 < d then f + 1 else if even f then f else f + 1)"

text \<open>\<open>math.Round\<close>: to nearest, ties away from zero.\<close>

definition Round :: "rat \<Rightarrow> int" where
  "Round x = (if 0 \<le> x then \<lfloor>x + 1 / 2\<rfloor> else - \<lfloor>- x + 1 / 2\<rfloor>)"

fun bits :: "nat \<Rightarrow> nat" where
  "bits n = (if n = 0 then 0 else Suc (bits (n div 2)))"

declare bits.simps [simp del]

definition pow2 :: "int \<Rightarrow> rat" where
  "pow2 e = (if 0 \<le> e then 2 ^ nat e else 1 / 2 ^ nat (- e))"

text \<open>The exponent of a positive rational: \<open>pow2 e \<le> x < pow2 (e + 1)\<close>.\<close>

definition exponent :: "rat \<Rightarrow> int" where
  "exponent x =
     (let (a, b) = quotient_of x; e = int (bits (nat a)) - int (bits (nat b)) in
      if pow2 e \<le> x then e else e - 1)"

definition fl64 :: "rat \<Rightarrow> rat" where
  "fl64 x =
     (if x = 0 then 0
      else let q = pow2 (max (exponent \<bar>x\<bar> - 52) (- 1074)) in of_int (round_even (x / q)) * q)"

definition fmul :: "rat \<Rightarrow> rat \<Rightarrow> rat" where "fmul x y = fl64 (x * y)"
definition fdiv :: "rat \<Rightarrow> rat \<Rightarrow> rat" where "fdiv x y = fl64 (x / y)"
definition fadd :: "rat \<Rightarrow> rat \<Rightarrow> rat" where "fadd x y = fl64 (x + y)"

text \<open>\<open>float64(n)\<close>, and \<open>int64(x)\<close>, whose value outside the range is left to the
  implementation by the language: \<open>cvt\<close> is that value.\<close>

definition float_of_int :: "int \<Rightarrow> rat" where "float_of_int n = fl64 (of_int n)"

definition int_of_float :: "(rat \<Rightarrow> int) \<Rightarrow> rat \<Rightarrow> int" where
  "int_of_float cvt x =
     (let t = (if 0 \<le> x then \<lfloor>x\<rfloor> else \<lceil>x\<rceil>) in if in_int64 t then t else wrap64 (cvt x))"

section \<open>Laws\<close>

lemma round_even_ge: "of_int k \<le> x \<Longrightarrow> k \<le> round_even x"
proof -
  assume "of_int k \<le> x"
  then have "k \<le> \<lfloor>x\<rfloor>" by (simp add: le_floor_iff)
  then show ?thesis by (simp add: round_even_def Let_def)
qed

lemma round_even_le: "x \<le> of_int k \<Longrightarrow> round_even x \<le> k"
proof -
  assume x: "x \<le> of_int k"
  show ?thesis
  proof (cases "x = of_int k")
    case True
    then show ?thesis by (simp add: round_even_def)
  next
    case False
    with x have "\<lfloor>x\<rfloor> < k" by (simp add: floor_less_iff)
    then show ?thesis by (simp add: round_even_def Let_def)
  qed
qed

lemma round_even_int [simp]: "round_even (of_int k) = k"
  by (intro antisym round_even_ge round_even_le) simp_all

lemma pow2_pos [simp]: "0 < pow2 e"
  by (simp add: pow2_def)

lemma pow2_nz [simp]: "pow2 e \<noteq> 0" "0 \<le> pow2 e"
  using pow2_pos [of e] by linarith+

lemma pow2_diff: "pow2 (int a - int b) = 2 ^ a / 2 ^ b"
proof (cases "b \<le> a")
  case True
  then have "nat (int a - int b) = a - b" by simp
  then show ?thesis using True by (simp add: pow2_def power_diff)
next
  case False
  then have "nat (- (int a - int b)) = b - a" by simp
  then show ?thesis using False by (simp add: pow2_def power_diff)
qed

lemma bits_bounds: "0 < n \<Longrightarrow> 2 ^ (bits n - 1) \<le> n \<and> n < 2 ^ bits n \<and> 0 < bits n"
proof (induction n rule: bits.induct)
  case (1 n)
  show ?case
  proof (cases "n = 1")
    case True
    have "bits 0 = 0" by (simp add: bits.simps)
    then have "bits 1 = 1" by (subst bits.simps) simp
    with True show ?thesis by simp
  next
    case False
    with 1 have IH: "2 ^ (bits (n div 2) - 1) \<le> n div 2" "n div 2 < 2 ^ bits (n div 2)" "0 < bits (n div 2)"
      by auto
    have b: "bits n = Suc (bits (n div 2))" using 1(2) by (simp add: bits.simps [of n])
    have "(2::nat) ^ bits (n div 2) = 2 * 2 ^ (bits (n div 2) - 1)" using IH(3) by (cases "bits (n div 2)") auto
    with IH b show ?thesis by simp linarith
  qed
qed

lemma exponent_le: "0 < x \<Longrightarrow> pow2 (exponent x) \<le> x"
proof -
  assume x: "0 < x"
  obtain a b where ab: "quotient_of x = (a, b)" by (cases "quotient_of x")
  then have b: "0 < b" and xe: "x = of_int a / of_int b"
    using quotient_of_denom_pos quotient_of_div by auto
  have a: "0 < a" using x b unfolding xe by (simp add: zero_less_divide_iff)
  let ?e = "int (bits (nat a)) - int (bits (nat b))"
  have "pow2 (?e - 1) \<le> x"
  proof -
    have A: "2 ^ (bits (nat a) - 1) \<le> nat a" "0 < bits (nat a)" and B: "nat b < 2 ^ bits (nat b)"
      using bits_bounds [of "nat a"] bits_bounds [of "nat b"] a b by auto
    have "of_nat (2 ^ (bits (nat a) - 1)) \<le> (of_nat (nat a) :: rat)" using A(1) by (rule of_nat_mono)
    then have A': "(2::rat) ^ (bits (nat a) - 1) \<le> of_int a" using a by simp
    have "of_nat (nat b) \<le> (of_nat (2 ^ bits (nat b)) :: rat)" using B by (intro of_nat_mono) simp
    then have B': "of_int b \<le> (2::rat) ^ bits (nat b)" using b by simp
    have "pow2 (?e - 1) = 2 ^ (bits (nat a) - 1) / 2 ^ bits (nat b)"
      using A(2) pow2_diff [of "bits (nat a) - 1" "bits (nat b)"] by (simp add: algebra_simps)
    also have "\<dots> \<le> of_int a / of_int b"
      using A' B' a b by (intro frac_le) simp_all
    finally show ?thesis unfolding xe .
  qed
  then show ?thesis by (simp add: exponent_def ab Let_def)
qed

lemma pow2_mono: "e \<le> f \<Longrightarrow> pow2 e \<le> pow2 f"
proof -
  assume ef: "e \<le> f"
  obtain a b where e: "e = int a - int b" by (metis diff_0 int_diff_cases)
  obtain n where n: "f = e + int n" using ef zle_iff_zadd by auto
  have "pow2 f = pow2 e * 2 ^ n"
    using pow2_diff [of "a + n" b] pow2_diff [of a b] by (simp add: e n algebra_simps power_add)
  moreover have "pow2 e * 1 \<le> pow2 e * 2 ^ n" by (intro mult_left_mono) (simp_all add: less_imp_le)
  ultimately show ?thesis by simp
qed

text \<open>Below \<open>2 ^ 36\<close> the spacing of float64 numbers is at most \<open>2 ^ -17\<close>.\<close>

lemma fl64_small:
  assumes "0 < x" and "x < 2 ^ 36"
  shows "\<exists>m\<ge>17. fl64 x = of_int (round_even (x * 2 ^ m)) / 2 ^ m"
proof -
  have "exponent x < 36"
  proof (rule ccontr)
    assume "\<not> exponent x < 36"
    then have "pow2 36 \<le> pow2 (exponent x)" by (intro pow2_mono) simp
    with exponent_le [OF assms(1)] have "2 ^ 36 \<le> x" by (simp add: pow2_def)
    with assms(2) show False by simp
  qed
  define k where "k = max (exponent x - 52) (- 1074)"
  define m where "m = nat (- k)"
  have k: "k \<le> - 17" using \<open>exponent x < 36\<close> by (simp add: k_def)
  then have q: "pow2 k = 1 / 2 ^ m" by (simp add: pow2_def m_def)
  have "fl64 x = of_int (round_even (x / pow2 k)) * pow2 k"
    using assms(1) by (simp add: fl64_def k_def Let_def)
  then have "fl64 x = of_int (round_even (x * 2 ^ m)) / 2 ^ m" by (simp add: q)
  moreover have "17 \<le> m" using k by (simp add: m_def)
  ultimately show ?thesis by blast
qed

lemma scaled_int: "17 \<le> m \<Longrightarrow> (of_int k / 2 ^ 17 :: rat) * 2 ^ m = of_int (k * 2 ^ (m - 17))"
proof -
  assume "17 \<le> m"
  then obtain j where "m = 17 + j" by (metis le_Suc_ex)
  then show ?thesis by (simp add: power_add)
qed

lemma fl64_bounds:
  assumes "0 < x" and "x < 2 ^ 36"
  shows "of_int k / 2 ^ 17 \<le> x \<Longrightarrow> of_int k / 2 ^ 17 \<le> fl64 x"
    and "x \<le> of_int k / 2 ^ 17 \<Longrightarrow> fl64 x \<le> of_int k / 2 ^ 17"
proof -
  obtain m where m: "17 \<le> m" "fl64 x = of_int (round_even (x * 2 ^ m)) / 2 ^ m"
    using fl64_small [OF assms] by blast
  {
    assume "of_int k / 2 ^ 17 \<le> x"
    then have "of_int k / 2 ^ 17 * 2 ^ m \<le> x * 2 ^ m" by (intro mult_right_mono) simp_all
    then have "k * 2 ^ (m - 17) \<le> round_even (x * 2 ^ m)"
      unfolding scaled_int [OF m(1)] by (rule round_even_ge)
    then have "(of_int (k * 2 ^ (m - 17)) :: rat) \<le> of_int (round_even (x * 2 ^ m))" by (simp only: of_int_le_iff)
    then have "of_int k / 2 ^ 17 * (2 ^ m :: rat) \<le> of_int (round_even (x * 2 ^ m))" by (simp only: scaled_int [OF m(1)])
    then show "of_int k / 2 ^ 17 \<le> fl64 x" by (simp only: m(2) pos_le_divide_eq zero_less_power zero_less_numeral)
  next
    assume "x \<le> of_int k / 2 ^ 17"
    then have "x * 2 ^ m \<le> of_int k / 2 ^ 17 * 2 ^ m" by (intro mult_right_mono) simp_all
    then have "round_even (x * 2 ^ m) \<le> k * 2 ^ (m - 17)"
      unfolding scaled_int [OF m(1)] by (rule round_even_le)
    then have "(of_int (round_even (x * 2 ^ m)) :: rat) \<le> of_int (k * 2 ^ (m - 17))" by (simp only: of_int_le_iff)
    then have "of_int (round_even (x * 2 ^ m)) \<le> of_int k / 2 ^ 17 * (2 ^ m :: rat)" by (simp only: scaled_int [OF m(1)])
    then show "fl64 x \<le> of_int k / 2 ^ 17" by (simp only: m(2) pos_divide_le_eq zero_less_power zero_less_numeral)
  }
qed

lemma float_of_int_exact: "0 < n \<Longrightarrow> n < 2 ^ 36 \<Longrightarrow> float_of_int n = of_int n"
proof -
  assume n: "0 < n" "n < 2 ^ 36"
  then have x: "0 < (of_int n :: rat)" "(of_int n :: rat) < 2 ^ 36"
    by (simp, metis of_int_less_iff of_int_numeral of_int_power)
  have "of_int (n * 2 ^ 17) / 2 ^ 17 = (of_int n :: rat)" by simp
  with fl64_bounds [OF x, of "n * 2 ^ 17"] show ?thesis
    unfolding float_of_int_def by (metis antisym order_refl)
qed

text \<open>A quotient that is not an integer and not close to one does not round onto one.\<close>

lemma fl64_ceiling:
  assumes "0 < x" and "x < 2 ^ 36" and "of_int n - 1 + 1 / 2 ^ 17 \<le> x" and "x \<le> of_int n"
  shows "\<lceil>fl64 x\<rceil> = n"
proof -
  have e: "of_int ((n - 1) * 2 ^ 17 + 1) / 2 ^ 17 = of_int n - 1 + (1 / 2 ^ 17 :: rat)"
    and e': "of_int (n * 2 ^ 17) / 2 ^ 17 = (of_int n :: rat)" by (simp_all add: field_simps)
  have "of_int n - 1 + 1 / 2 ^ 17 \<le> fl64 x" "fl64 x \<le> of_int n"
    using fl64_bounds [OF assms(1,2), of "(n - 1) * 2 ^ 17 + 1"] fl64_bounds [OF assms(1,2), of "n * 2 ^ 17"]
      assms(3,4) by (simp_all only: e e')
  then have "of_int n - 1 < fl64 x \<and> fl64 x \<le> of_int n" by (simp add: field_simps)
  then show ?thesis by (simp add: ceiling_eq_iff)
qed

subsection \<open>Monotonicity\<close>

lemma exponent_less: "0 < x \<Longrightarrow> x < pow2 (exponent x + 1)"
proof -
  assume x: "0 < x"
  obtain a b where ab: "quotient_of x = (a, b)" by (cases "quotient_of x")
  then have b: "0 < b" and xe: "x = of_int a / of_int b"
    using quotient_of_denom_pos quotient_of_div by auto
  have a: "0 < a" using x b unfolding xe by (simp add: zero_less_divide_iff)
  let ?e = "int (bits (nat a)) - int (bits (nat b))"
  have "x < pow2 (?e + 1)"
  proof -
    have A: "nat a < 2 ^ bits (nat a)" and B: "2 ^ (bits (nat b) - 1) \<le> nat b" "0 < bits (nat b)"
      using bits_bounds [of "nat a"] bits_bounds [of "nat b"] a b by auto
    have "of_nat (nat a) < (of_nat (2 ^ bits (nat a)) :: rat)" using A by (simp only: of_nat_less_iff)
    then have A': "of_int a < (2::rat) ^ bits (nat a)" using a by simp
    have "of_nat (2 ^ (bits (nat b) - 1)) \<le> (of_nat (nat b) :: rat)" using B(1) by (rule of_nat_mono)
    then have B': "(2::rat) ^ (bits (nat b) - 1) \<le> of_int b" using b by simp
    have "of_int a / of_int b < (2 ^ bits (nat a) :: rat) / 2 ^ (bits (nat b) - 1)"
      using A' B' a b by (intro frac_less) simp_all
    also have "\<dots> = pow2 (?e + 1)"
      using B(2) pow2_diff [of "bits (nat a)" "bits (nat b) - 1"] by (simp add: algebra_simps)
    finally show ?thesis unfolding xe .
  qed
  then show ?thesis by (simp add: exponent_def ab Let_def)
qed

lemma exponent_mono: "0 < x \<Longrightarrow> x \<le> y \<Longrightarrow> exponent x \<le> exponent y"
proof (rule ccontr)
  assume xy: "0 < x" "x \<le> y" and "\<not> exponent x \<le> exponent y"
  then have "pow2 (exponent y + 1) \<le> pow2 (exponent x)" by (intro pow2_mono) simp
  with exponent_le [OF xy(1)] exponent_less [of y] xy show False by simp
qed

lemma round_even_mono: "x \<le> y \<Longrightarrow> round_even x \<le> round_even y"
proof -
  assume xy: "x \<le> y"
  then have f: "\<lfloor>x\<rfloor> \<le> \<lfloor>y\<rfloor>" by (rule floor_mono)
  show ?thesis
  proof (cases "\<lfloor>x\<rfloor> = \<lfloor>y\<rfloor>")
    case True
    then show ?thesis using xy by (auto simp: round_even_def Let_def)
  next
    case False
    have "round_even x \<le> \<lfloor>x\<rfloor> + 1" by (simp add: round_even_def Let_def)
    also have "\<dots> \<le> \<lfloor>y\<rfloor>" using f False by simp
    also have "\<dots> \<le> round_even y" by (simp add: round_even_def Let_def)
    finally show ?thesis .
  qed
qed

definition quantum :: "rat \<Rightarrow> int" where
  "quantum x = max (exponent x - 52) (- 1074)"

lemma fl64_quantum: "0 < x \<Longrightarrow> fl64 x = of_int (round_even (x / pow2 (quantum x))) * pow2 (quantum x)"
  by (simp add: fl64_def quantum_def Let_def)

lemma pow2_multiple: "k \<le> e \<Longrightarrow> \<exists>n. pow2 e / pow2 k = of_int n"
proof -
  assume "k \<le> e"
  then obtain n where n: "e = k + int n" using zle_iff_zadd by auto
  obtain a b where k: "k = int a - int b" by (metis diff_0 int_diff_cases)
  have "pow2 e = pow2 k * 2 ^ n"
    using pow2_diff [of "a + n" b] pow2_diff [of a b] by (simp add: k n algebra_simps power_add)
  then have "pow2 e / pow2 k = of_int (2 ^ n)" using pow2_pos [of k] by simp
  then show ?thesis by blast
qed

text \<open>Powers of two at least as large as the spacing are never crossed by rounding.\<close>

lemma fl64_pow2:
  assumes "0 < x" and "quantum x \<le> e"
  shows "pow2 e \<le> x \<Longrightarrow> pow2 e \<le> fl64 x" and "x \<le> pow2 e \<Longrightarrow> fl64 x \<le> pow2 e"
proof -
  let ?q = "pow2 (quantum x)"
  have q: "0 < ?q" by simp
  obtain n where n: "pow2 e / ?q = of_int n" using pow2_multiple [OF assms(2)] by blast
  then have e: "pow2 e = of_int n * ?q" using q by (simp add: field_simps)
  {
    assume "pow2 e \<le> x"
    then have "of_int n \<le> x / ?q" unfolding n [symmetric] by (intro divide_right_mono) simp_all
    then have "n \<le> round_even (x / ?q)" by (rule round_even_ge)
    then show "pow2 e \<le> fl64 x"
      unfolding e fl64_quantum [OF assms(1)] using q by (intro mult_right_mono) simp_all
  next
    assume "x \<le> pow2 e"
    then have "x / ?q \<le> of_int n" unfolding n [symmetric] by (intro divide_right_mono) simp_all
    then have "round_even (x / ?q) \<le> n" by (rule round_even_le)
    then show "fl64 x \<le> pow2 e"
      unfolding e fl64_quantum [OF assms(1)] using q by (intro mult_right_mono) simp_all
  }
qed

lemma fl64_mono_pos:
  assumes "0 < x" and "x \<le> y"
  shows "fl64 x \<le> fl64 y"
proof (cases "quantum x = quantum y")
  case True
  have "x / pow2 (quantum y) \<le> y / pow2 (quantum y)" using assms by (intro divide_right_mono) simp_all
  then have "round_even (x / pow2 (quantum y)) \<le> round_even (y / pow2 (quantum y))" by (rule round_even_mono)
  then show ?thesis using assms True by (simp add: fl64_quantum)
next
  case False
  with exponent_mono [OF assms] have k: "quantum x < quantum y" by (auto simp: quantum_def)
  then have y: "quantum y = exponent y - 52" "exponent x + 1 \<le> exponent y" by (auto simp: quantum_def)
  have "x \<le> pow2 (exponent y)"
    using exponent_less [OF assms(1)] pow2_mono [OF y(2)] by simp
  then have "fl64 x \<le> pow2 (exponent y)" using assms k y by (intro fl64_pow2(2)) auto
  also have "pow2 (exponent y) \<le> fl64 y"
    using assms y exponent_le [of y] by (intro fl64_pow2(1)) auto
  finally show ?thesis .
qed

lemma fl64_0 [simp]: "fl64 0 = 0"
  by (simp add: fl64_def)

lemma fl64_nonneg: "0 \<le> x \<Longrightarrow> 0 \<le> fl64 x"
proof (cases "x = 0")
  case False
  assume "0 \<le> x"
  with False have x: "0 < x" by simp
  have "0 \<le> round_even (x / pow2 (quantum x))" using x by (intro round_even_ge) (simp add: less_imp_le)
  then show ?thesis unfolding fl64_quantum [OF x] by (simp add: less_imp_le)
qed simp

lemma fl64_mono: "0 \<le> x \<Longrightarrow> x \<le> y \<Longrightarrow> fl64 x \<le> fl64 y"
  using fl64_mono_pos [of x y] fl64_nonneg [of y] by (cases "x = 0") auto

lemma fl64_le_1: "0 \<le> x \<Longrightarrow> x \<le> 1 \<Longrightarrow> fl64 x \<le> 1"
proof (cases "x = 0")
  case False
  assume "0 \<le> x" "x \<le> 1"
  with False have x: "0 < x" "x \<le> pow2 0" by (simp_all add: pow2_def)
  have "exponent x \<le> 0"
  proof (rule ccontr)
    assume "\<not> exponent x \<le> 0"
    then have "pow2 1 \<le> pow2 (exponent x)" by (intro pow2_mono) simp
    with exponent_le [OF x(1)] x show False by (simp add: pow2_def)
  qed
  then have "fl64 x \<le> pow2 0" using x by (intro fl64_pow2(2)) (auto simp: quantum_def)
  then show ?thesis by (simp add: pow2_def)
qed simp

text \<open>The quotient of two rounded counters, the smaller by the larger, is between 0 and 1.\<close>

lemma fdiv_ratio:
  assumes "0 \<le> a" and "a \<le> b" and "0 < b"
  shows "0 \<le> fdiv (float_of_int a) (float_of_int b) \<and> fdiv (float_of_int a) (float_of_int b) \<le> 1"
proof -
  have ab: "0 \<le> float_of_int a" "float_of_int a \<le> float_of_int b"
    using assms by (auto simp: float_of_int_def intro: fl64_nonneg fl64_mono)
  then have "0 \<le> float_of_int a / float_of_int b" "float_of_int a / float_of_int b \<le> 1"
    by (auto simp: divide_le_eq_1)
  then show ?thesis by (simp add: fdiv_def fl64_nonneg fl64_le_1)
qed

lemma in_int64_int_of_float [simp]: "in_int64 (int_of_float cvt x)"
  by (simp add: int_of_float_def Let_def)

end
