(* ===== verification/Go_Time.thy ===== *)
theory Go_Time
  imports Go_Text
begin

text \<open>
  Instants, calendar days and time zones, as far as the server uses package \<open>time\<close>.

  A \<open>time.Time\<close> is its instant, in nanoseconds since the Unix epoch.  A \<open>*time.Location\<close>
  is what its zone data answers: \<open>lookup u\<close> is the offset in seconds east of UTC in force at
  Unix second \<open>u\<close>, with the start and the end of the period it is in force.  A calendar day is
  the number of days since 1970-01-01; \<open>Year\<close>, \<open>Month\<close> and \<open>Day\<close> only occur composed
  with \<open>time.Date\<close> and \<open>Format\<close>, which take a day number here.
\<close>

type_synonym time = int
type_synonym location = "int \<Rightarrow> int \<times> int \<times> int"

definition Unix :: "time \<Rightarrow> int" where "Unix t = t div 1000000000"

definition UTC :: location where "UTC = (\<lambda>_. (0, 0, 0))"

text \<open>A nil \<open>*time.Location\<close> stands for UTC wherever the code takes one.\<close>

definition location_of :: "location option \<Rightarrow> location" where
  "location_of l = (case l of None \<Rightarrow> UTC | Some loc \<Rightarrow> loc)"

definition localDay :: "location \<Rightarrow> time \<Rightarrow> int" where
  "localDay loc t = (Unix t + fst (loc (Unix t))) div 86400"

text \<open>\<open>time.Date(y, m, d, 0, 0, 0, 0, loc).Unix()\<close> for the day with number \<open>day\<close>: the
  offset is looked up at the local reading first and again when the result falls outside the
  period found.\<close>

definition dateMidnight :: "location \<Rightarrow> int \<Rightarrow> int" where
  "dateMidnight loc day =
     (let u = day * 86400; (offset, start, fin) = loc u in
      if offset \<noteq> 0 then
        let utc = u - offset;
            offset' = (if utc < start \<or> fin \<le> utc then fst (loc utc) else offset)
        in u - offset'
      else u)"

section \<open>Calendar dates\<close>

text \<open>Proleptic Gregorian year, month and day of a day number.\<close>

definition civil :: "int \<Rightarrow> int \<times> int \<times> int" where
  "civil day =
     (let z = day + 719468; era = z div 146097; doe = z mod 146097;
          yoe = (doe - doe div 1460 + doe div 36524 - doe div 146096) div 365;
          doy = doe - (365 * yoe + yoe div 4 - yoe div 100);
          mp = (5 * doy + 2) div 153;
          d = doy - (153 * mp + 2) div 5 + 1;
          m = (if mp < 10 then mp + 3 else mp - 9);
          y = yoe + era * 400 + (if m \<le> 2 then 1 else 0)
      in (y, m, d))"

definition pad :: "nat \<Rightarrow> int \<Rightarrow> string" where
  "pad w n = (if n < 0 then ''-'' else []) @
     (let s = utoa (nat \<bar>n\<bar>) in replicate (w - length s) CHR ''0'' @ s)"

text \<open>\<open>Format("2006-01-02")\<close>.\<close>

definition formatDate :: "int \<Rightarrow> string" where
  "formatDate day = (let (y, m, d) = civil day in pad 4 y @ ''-'' @ pad 2 m @ ''-'' @ pad 2 d)"

definition daysIn :: "nat \<Rightarrow> nat \<Rightarrow> nat" where
  "daysIn m y =
     (if m = 2 then if y mod 4 = 0 \<and> (y mod 100 \<noteq> 0 \<or> y mod 400 = 0) then 29 else 28
      else if m \<in> {4, 6, 9, 11} then 30 else 31)"

text \<open>Whether \<open>time.Parse("2006-01-02", s)\<close> succeeds.\<close>

definition parsesAsDate :: "string \<Rightarrow> bool" where
  "parsesAsDate s \<longleftrightarrow>
     length s = 10 \<and> list_all is_digit (take 4 s) \<and> s ! 4 = CHR ''-'' \<and>
     list_all is_digit (slice s 5 7) \<and> s ! 7 = CHR ''-'' \<and> list_all is_digit (slice s 8 10) \<and>
     (let y = digits_value 0 (take 4 s); m = digits_value 0 (slice s 5 7); d = digits_value 0 (slice s 8 10)
      in 1 \<le> m \<and> m \<le> 12 \<and> 1 \<le> d \<and> d \<le> daysIn m y)"

lemma dateMidnight_UTC [simp]: "dateMidnight UTC day = day * 86400"
  by (simp add: dateMidnight_def UTC_def)

lemma localDay_UTC [simp]: "localDay UTC t = Unix t div 86400"
  by (simp add: localDay_def UTC_def)

lemma next_day_UTC: "Unix t < (Unix t div 86400 + 1) * 86400 \<and> (Unix t div 86400 + 1) * 86400 \<le> Unix t + 86400"
  by presburger

text \<open>A zone whose offset is constant around the two readings of a midnight.\<close>

lemma dateMidnight_fixed: "(\<And>u. fst (loc u) = off) \<Longrightarrow> dateMidnight loc day = day * 86400 - off"
  by (simp add: dateMidnight_def Let_def split_beta)

end
