(* ===== verification/Daily_Spend.thy ===== *)
theory Daily_Spend
  imports Headers Go_Float Go_Time
begin

text \<open>
  \<open>internal/dailyspend/snapshot.go\<close>: what was consumed since local midnight, against a
  persisted snapshot.

  A Go map is an association list; its order is the order the runtime iterates it in, which the
  language leaves open, so a result that must not depend on it is shown not to.  A snapshot file
  is what \<open>json.Unmarshal\<close> makes of its bytes: a snapshot or nothing.  The file system maps
  paths to files, and the faults the operating system can inject into \<open>Save\<close> are an argument.
\<close>

section \<open>Definitions\<close>

type_synonym userinfos = "(string \<times> SubscriptionUserinfo) list"

record Snapshot =
  sn_LocalDate :: string
  sn_SnapshotUnix :: int
  sn_AllowanceTodayBytes :: int
  sn_Baselines :: "(string \<times> int) list"
  sn_BaselineUploadRatios :: "(string \<times> rat) list"

subsection \<open>Persistence\<close>

datatype content = Encoded Snapshot | Undecodable
datatype fileState = Missing | Unreadable | File content
type_synonym filesystem = "string \<Rightarrow> fileState"

datatype load_error = ReadFailed
datatype save_error = NilSnapshot | OpenFailed | EncodeFailed | SyncFailed | CloseFailed | RenameFailed

definition validateSnapshot :: "Snapshot option \<Rightarrow> bool" where
  "validateSnapshot s = (case s of
      None \<Rightarrow> False
    | Some s \<Rightarrow>
        if \<not> parsesAsDate (sn_LocalDate s) then False
        else if sn_AllowanceTodayBytes s < 0 then False
        else list_all (\<lambda>(_, r). \<not> (r < 0 \<or> 1 < r)) (sn_BaselineUploadRatios s))"

definition FileLoad :: "string \<Rightarrow> filesystem \<Rightarrow> load_error + Snapshot option" where
  "FileLoad path fs = (case fs path of
      Missing \<Rightarrow> Inr None
    | Unreadable \<Rightarrow> Inl ReadFailed
    | File Undecodable \<Rightarrow> Inr None
    | File (Encoded s) \<Rightarrow> if \<not> validateSnapshot (Some s) then Inr None else Inr (Some s))"

definition FileSave :: "string \<Rightarrow> save_error option \<Rightarrow> Snapshot option \<Rightarrow> filesystem \<Rightarrow> filesystem \<times> save_error option" where
  "FileSave path fault s fs = (case s of
      None \<Rightarrow> (fs, Some NilSnapshot)
    | Some s \<Rightarrow>
        let tmp = path @ ''.tmp'' in
        if fault = Some OpenFailed then (fs, Some OpenFailed)
        else
          let fs = fs(tmp := File Undecodable) in
          if fault = Some EncodeFailed then (fs(tmp := Missing), Some EncodeFailed)
          else
            let fs = fs(tmp := File (Encoded s)) in
            if fault = Some SyncFailed then (fs(tmp := Missing), Some SyncFailed)
            else if fault = Some CloseFailed then (fs(tmp := Missing), Some CloseFailed)
            else if fault = Some RenameFailed then (fs(tmp := Missing), Some RenameFailed)
            else (fs(path := fs tmp, tmp := Missing), None))"

definition deepCopySnapshot :: "Snapshot option \<Rightarrow> Snapshot option" where
  "deepCopySnapshot s = (case s of
      None \<Rightarrow> None
    | Some s \<Rightarrow> Some \<lparr>sn_LocalDate = sn_LocalDate s, sn_SnapshotUnix = sn_SnapshotUnix s,
        sn_AllowanceTodayBytes = sn_AllowanceTodayBytes s,
        sn_Baselines = fold (\<lambda>(k, v) m. m @ [(k, v)]) (sn_Baselines s) [],
        sn_BaselineUploadRatios = fold (\<lambda>(k, v) m. m @ [(k, v)]) (sn_BaselineUploadRatios s) []\<rparr>)"

definition MapLoad :: "Snapshot option \<Rightarrow> load_error + Snapshot option" where
  "MapLoad current = (if current = None then Inr None else Inr (deepCopySnapshot current))"

record FileSnapshotter =
  fsn_Path :: string

definition NewFileSnapshotter :: "string \<Rightarrow> FileSnapshotter" where
  "NewFileSnapshotter path = \<lparr>fsn_Path = path\<rparr>"

definition MapSave :: "Snapshot option \<Rightarrow> Snapshot option \<Rightarrow> Snapshot option \<times> save_error option" where
  "MapSave s current = (if s = None then (current, Some NilSnapshot) else (deepCopySnapshot s, None))"

definition NewMapSnapshotter :: "Snapshot option \<Rightarrow> Snapshot option" where
  "NewMapSnapshotter initial = (if initial \<noteq> None then fst (MapSave initial None) else None)"

definition MapCurrent :: "Snapshot option \<Rightarrow> Snapshot option" where
  "MapCurrent current = (if current = None then None else deepCopySnapshot current)"

subsection \<open>Spend\<close>

definition IsRolloverNeeded :: "Snapshot option \<Rightarrow> time \<Rightarrow> location option \<Rightarrow> bool" where
  "IsRolloverNeeded s now loc = (case s of
      None \<Rightarrow> True
    | Some s \<Rightarrow> sn_LocalDate s \<noteq> formatDate (localDay (location_of loc) now))"

definition ComputeUsedToday :: "userinfos \<Rightarrow> Snapshot option \<Rightarrow> int" where
  "ComputeUsedToday perSource s = (case s of
      None \<Rightarrow> 0
    | Some s \<Rightarrow> fold (\<lambda>(name, ui) total.
        case map_of (sn_Baselines s) name of
          None \<Rightarrow> total
        | Some baseline \<Rightarrow>
            let current = wrap64 (ui_Upload ui + ui_Download ui); delta = wrap64 (current - baseline) in
            if delta > 0 then wrap64 (total + delta) else total) perSource 0)"

text \<open>A read of a missing key of \<open>map[string]float64\<close> gives zero.\<close>

definition ratioOf :: "Snapshot \<Rightarrow> string \<Rightarrow> rat" where
  "ratioOf s name = (case map_of (sn_BaselineUploadRatios s) name of None \<Rightarrow> 0 | Some r \<Rightarrow> r)"

definition SplitUsedToday :: "(rat \<Rightarrow> int) \<Rightarrow> int \<Rightarrow> userinfos \<Rightarrow> Snapshot option \<Rightarrow> int \<times> int" where
  "SplitUsedToday cvt usedToday perSource s =
     (if usedToday \<le> 0 \<or> s = None then (0, 0)
      else
        let s = the s;
            (weightedSum, totalDelta) = fold (\<lambda>(name, ui) (weightedSum, totalDelta).
              case map_of (sn_Baselines s) name of
                None \<Rightarrow> (weightedSum, totalDelta)
              | Some baseline \<Rightarrow>
                  let current = wrap64 (ui_Upload ui + ui_Download ui); delta = wrap64 (current - baseline) in
                  if delta \<le> 0 then (weightedSum, totalDelta)
                  else (fadd weightedSum (fmul (float_of_int delta) (ratioOf s name)), wrap64 (totalDelta + delta)))
              perSource (0, 0)
        in if totalDelta = 0 then (0, usedToday)
           else
             let avgRatio = fdiv weightedSum (float_of_int totalDelta);
                 upload = int_of_float cvt (of_int (Round (fmul (float_of_int usedToday) avgRatio)));
                 upload = (if upload < 0 then 0 else upload);
                 upload = (if upload > usedToday then usedToday else upload)
             in (upload, wrap64 (usedToday - upload)))"

definition CaptureSnapshot :: "userinfos \<Rightarrow> int \<Rightarrow> time \<Rightarrow> location option \<Rightarrow> Snapshot" where
  "CaptureSnapshot perSource allowance now loc =
     \<lparr>sn_LocalDate = formatDate (localDay (location_of loc) now), sn_SnapshotUnix = Unix now,
      sn_AllowanceTodayBytes = allowance,
      sn_Baselines = map (\<lambda>(name, ui). (name, wrap64 (ui_Upload ui + ui_Download ui))) perSource,
      sn_BaselineUploadRatios = map (\<lambda>(name, ui).
        let denom = wrap64 (ui_Upload ui + ui_Download ui) in
        (name, if denom > 0 then fdiv (float_of_int (ui_Upload ui)) (float_of_int denom) else 0)) perSource\<rparr>"

section \<open>The snapshotter interface\<close>

lemma fold_snoc_pairs: "fold (\<lambda>(k, v) m. m @ [(k, v)]) xs acc = acc @ xs"
  by (induction xs arbitrary: acc) auto

lemma deepCopySnapshot_id [simp]: "deepCopySnapshot s = s"
  by (cases s) (auto simp: deepCopySnapshot_def fold_snoc_pairs)

text \<open>
  What \<open>Pipeline\<close> relies on (interface \<open>Snapshotter\<close> of \<open>pipeline.go\<close>, which ignores
  the error of \<open>Load\<close>): a successful \<open>Save\<close> of an acceptable snapshot is what the next
  \<open>Load\<close> returns, and a failed \<open>Save\<close> leaves the previous snapshot in place.
\<close>

locale snapshotter =
  fixes load :: "'st \<Rightarrow> load_error + Snapshot option"
    and save :: "Snapshot option \<Rightarrow> 'st \<Rightarrow> 'st \<times> save_error option"
    and acceptable :: "Snapshot \<Rightarrow> bool"
  assumes load_save: "save (Some s) st = (st', None) \<Longrightarrow> acceptable s \<Longrightarrow> load st' = Inr (Some s)"
    and load_failed_save: "save so st = (st', Some e) \<Longrightarrow> load st' = load st"
    and save_nil: "save None st = (st, Some NilSnapshot)"
begin

definition held :: "'st \<Rightarrow> Snapshot option" where
  "held st = (case load st of Inl _ \<Rightarrow> None | Inr s \<Rightarrow> s)"

text \<open>The use \<open>Build\<close> makes of it: load, and save when a new snapshot was captured.\<close>

definition request :: "(Snapshot option \<Rightarrow> Snapshot option) \<Rightarrow> 'st \<Rightarrow> 'st" where
  "request capture st = (case capture (held st) of None \<Rightarrow> st | Some s \<Rightarrow> fst (save (Some s) st))"

lemma held_request_kept: "capture (held st) = None \<Longrightarrow> held (request capture st) = held st"
  by (simp add: request_def)

lemma held_request_saved:
  assumes "capture (held st) = Some s" and "snd (save (Some s) st) = None" and "acceptable s"
  shows "held (request capture st) = Some s"
  using assms load_save [of s st "fst (save (Some s) st)"]
  by (simp add: request_def held_def) (metis old.sum.simps(6) prod.collapse)

lemma held_request_failed:
  assumes "capture (held st) = Some s" and "snd (save (Some s) st) = Some e"
  shows "held (request capture st) = held st"
proof -
  have "load (fst (save (Some s) st)) = load st"
    using load_failed_save [of "Some s" st "fst (save (Some s) st)" e] assms(2) by (metis prod.collapse)
  then show ?thesis using assms(1) by (simp add: request_def held_def)
qed

text \<open>Whatever happens, the next request sees the old snapshot or the captured one.\<close>

lemma held_request_atomic:
  assumes "\<And>s. capture (held st) = Some s \<Longrightarrow> acceptable s"
  shows "held (request capture st) = held st \<or> held (request capture st) = capture (held st)"
proof (cases "capture (held st)")
  case None
  then show ?thesis by (simp add: held_request_kept)
next
  case (Some s)
  then show ?thesis
    using held_request_saved [of capture st s] held_request_failed [of capture st s] assms
    by (cases "snd (save (Some s) st)") auto
qed

end

lemma tmp_not_path [simp]: "path @ ''.tmp'' \<noteq> path"
  by simp

interpretation disk: snapshotter "FileLoad path" "FileSave path fault" "\<lambda>s. validateSnapshot (Some s)"
  for path fault
proof
  show "FileSave path fault (Some s) st = (st', None) \<Longrightarrow> validateSnapshot (Some s) \<Longrightarrow> FileLoad path st' = Inr (Some s)" for s st st'
    by (auto simp: FileSave_def FileLoad_def Let_def split: if_splits)
  show "FileSave path fault s st = (st', Some e) \<Longrightarrow> FileLoad path st' = FileLoad path st" for s st st' e
    by (auto simp: FileSave_def FileLoad_def Let_def split: if_splits option.splits)
  show "FileSave path fault None st = (st, Some NilSnapshot)" for st
    by (simp add: FileSave_def)
qed

interpretation mem: snapshotter MapLoad MapSave "\<lambda>_. True"
  by unfold_locales (auto simp: MapLoad_def MapSave_def split: if_splits)

text \<open>Persisting a snapshot is atomic.  Whichever step of \<open>FileSnapshotter.Save\<close> fails,
  the next \<open>Load\<close> returns what it returned before and no temporary file is left behind that
  was not there; when none fails, \<open>Load\<close> returns the saved snapshot if it passes validation
  and nothing (which forces a rollover) otherwise.\<close>

theorem FileSave_atomic:
  "let (fs', err) = FileSave path fault (Some s) fs in
   (case err of
      Some _ \<Rightarrow> FileLoad path fs' = FileLoad path fs
    | None \<Rightarrow> FileLoad path fs' = Inr (if validateSnapshot (Some s) then Some s else None)) \<and>
   (fs' (path @ ''.tmp'') = Missing \<or> fs' = fs) \<and>
   list_all (\<lambda>p. p = path \<or> p = path @ ''.tmp'' \<or> fs' p = fs p) ps"
proof -
  obtain fs' err where sv: "FileSave path fault (Some s) fs = (fs', err)" by (cases "FileSave path fault (Some s) fs")
  have "case err of Some _ \<Rightarrow> FileLoad path fs' = FileLoad path fs
      | None \<Rightarrow> FileLoad path fs' = Inr (if validateSnapshot (Some s) then Some s else None)"
    using sv disk.load_failed_save [of path fault "Some s" fs fs']
    by (cases err) (auto simp: FileSave_def FileLoad_def Let_def split: if_splits)
  moreover have "fs' (path @ ''.tmp'') = Missing \<or> fs' = fs"
    using sv by (auto simp: FileSave_def Let_def split: if_splits)
  moreover have "p = path \<or> p = path @ ''.tmp'' \<or> fs' p = fs p" for p
    using sv by (auto simp: FileSave_def Let_def split: if_splits)
  ultimately show ?thesis by (simp add: sv list_all_iff)
qed

section \<open>Spend\<close>

text \<open>What one source contributes to today's spend.\<close>

definition usedDelta :: "Snapshot \<Rightarrow> string \<times> SubscriptionUserinfo \<Rightarrow> int" where
  "usedDelta s = (\<lambda>(name, ui). case map_of (sn_Baselines s) name of
      None \<Rightarrow> 0
    | Some b \<Rightarrow> max 0 (wrap64 (wrap64 (ui_Upload ui + ui_Download ui) - b)))"

lemma wrap64_add_right: "wrap64 (a + wrap64 b) = wrap64 (a + b)"
  using wrap64_add_left [of b a] by (simp add: add.commute)

lemma ComputeUsedToday_fold:
  "in_int64 t \<Longrightarrow> fold (\<lambda>(name, ui) total.
        case map_of (sn_Baselines s) name of
          None \<Rightarrow> total
        | Some baseline \<Rightarrow>
            let current = wrap64 (ui_Upload ui + ui_Download ui); delta = wrap64 (current - baseline) in
            if delta > 0 then wrap64 (total + delta) else total) m t = wrap64 (t + sum_list (map (usedDelta s) m))"
proof (induction m arbitrary: t)
  case Nil
  then show ?case by simp
next
  case (Cons x m)
  obtain name ui where x: "x = (name, ui)" by (cases x)
  show ?case
  proof (cases "map_of (sn_Baselines s) name")
    case None
    then show ?thesis using Cons by (simp add: x usedDelta_def)
  next
    case (Some b)
    let ?d = "wrap64 (wrap64 (ui_Upload ui + ui_Download ui) - b)"
    show ?thesis
    proof (cases "0 < ?d")
      case True
      then have "usedDelta s x = ?d" by (simp add: usedDelta_def x Some)
      then show ?thesis
        using True Some Cons.IH [of "wrap64 (t + ?d)"] by (simp add: x Let_def wrap64_add_left add.assoc)
    next
      case False
      then have "usedDelta s x = 0" by (simp add: usedDelta_def x Some)
      then show ?thesis using False Some Cons by (simp add: x Let_def)
    qed
  qed
qed

lemma in_int64_0 [simp]: "in_int64 0"
  by (simp add: in_int64_def int64_min_def int64_max_def)

lemma ComputeUsedToday_eq: "ComputeUsedToday m (Some s) = wrap64 (sum_list (map (usedDelta s) m))"
  using ComputeUsedToday_fold [of 0 s m] by (simp add: ComputeUsedToday_def)

lemma in_int64_ComputeUsedToday [simp]: "in_int64 (ComputeUsedToday m s)"
  by (cases s) (simp_all add: ComputeUsedToday_eq, simp add: ComputeUsedToday_def)

text \<open>Today's spend is the sum over the sources of the growth since the snapshot, counters
  that went backwards and sources without a baseline counting as zero, modulo 64-bit wrap-around;
  it does not depend on the order in which the map is iterated.\<close>

theorem ComputeUsedToday_sum:
  assumes "mset m' = mset m"
  shows "ComputeUsedToday m' (Some s) = wrap64 (\<Sum>x\<leftarrow>m. usedDelta s x)"
proof -
  have "sum_list (map (usedDelta s) m') = sum_list (map (usedDelta s) m)"
    using assms by (metis mset_map sum_mset_sum_list)
  then show ?thesis by (simp add: ComputeUsedToday_eq)
qed

lemma SplitUsedToday_bounds:
  assumes "SplitUsedToday cvt used m s = (up, down)" and "in_int64 used"
  shows "0 \<le> up \<and> 0 \<le> down \<and> up + down = (if s = None then 0 else max 0 used)"
proof (cases "used \<le> 0 \<or> s = None")
  case True
  then show ?thesis using assms(1) by (auto simp: SplitUsedToday_def)
next
  case False
  have clamp: "0 \<le> c \<and> 0 \<le> wrap64 (used - c) \<and> c + wrap64 (used - c) = used" if "0 \<le> c" "c \<le> used" for c
  proof -
    have "in_int64 (used - c)" using that assms(2) by (auto simp: in_int64_def int64_min_def)
    then show ?thesis using that by simp
  qed
  have "\<exists>c. 0 \<le> c \<and> c \<le> used \<and> (up, down) = (c, wrap64 (used - c))"
  proof -
    have zero: "(0::int, used) = (0, wrap64 (used - 0))" using assms(2) by simp
    show ?thesis
      using False assms(1) zero
      by (auto simp: SplitUsedToday_def Let_def split: prod.splits if_splits)
  qed
  then show ?thesis using clamp False by auto
qed

text \<open>The upload and download shares of today's spend are non-negative and add up to it
  exactly, whatever the stored ratios are and however the floating-point computation rounds.\<close>

theorem SplitUsedToday_adds_up:
  "let used = ComputeUsedToday m (Some s); (up, down) = SplitUsedToday cvt used m (Some s) in
   0 \<le> up \<and> 0 \<le> down \<and> up + down = max 0 used"
  using SplitUsedToday_bounds [of cvt "ComputeUsedToday m (Some s)" m "Some s"]
  by (auto simp: Let_def split: prod.split)

section \<open>Fresh snapshots\<close>

lemma map_of_Baselines_Capture:
  "map_of (sn_Baselines (CaptureSnapshot m a now loc)) name =
     map_option (\<lambda>ui. wrap64 (ui_Upload ui + ui_Download ui)) (map_of m name)"
  by (simp add: CaptureSnapshot_def map_of_map)

text \<open>Counters as providers report them: no negative value, no overflow of the sum.\<close>

definition sane :: "SubscriptionUserinfo \<Rightarrow> bool" where
  "sane ui \<longleftrightarrow> 0 \<le> ui_Upload ui \<and> 0 \<le> ui_Download ui \<and> in_int64 (ui_Upload ui + ui_Download ui)"

lemma CaptureSnapshot_ratios:
  assumes "\<forall>(n, ui)\<in>set m. sane ui"
  shows "list_all (\<lambda>(_, r). 0 \<le> r \<and> r \<le> 1) (sn_BaselineUploadRatios (CaptureSnapshot m a now loc))"
proof -
  have "0 \<le> fdiv (float_of_int (ui_Upload ui)) (float_of_int (ui_Upload ui + ui_Download ui)) \<and>
      fdiv (float_of_int (ui_Upload ui)) (float_of_int (ui_Upload ui + ui_Download ui)) \<le> 1"
    if "sane ui" "0 < ui_Upload ui + ui_Download ui" for ui
    using that by (intro fdiv_ratio) (auto simp: sane_def)
  then show ?thesis
    using assms by (fastforce simp: CaptureSnapshot_def list_all_iff Let_def sane_def)
qed

text \<open>A snapshot taken at a rollover is current and consistent.  It needs no rollover on the
  same local day; nothing counts as spent against it for the state it was taken from; and, for
  counters that are not negative, an allowance that is not negative and a date with a four-digit
  year, it passes the validation of the loader, so that it survives a restart.\<close>

theorem CaptureSnapshot_current:
  assumes "distinct (map fst m)"
    and "localDay (location_of loc) now' = localDay (location_of loc) now"
    and "\<forall>(n, ui)\<in>set m. sane ui" and "0 \<le> allowance"
    and "parsesAsDate (formatDate (localDay (location_of loc) now))"
  shows "\<not> IsRolloverNeeded (Some (CaptureSnapshot m allowance now loc)) now' loc \<and>
     ComputeUsedToday m (Some (CaptureSnapshot m allowance now loc)) = 0 \<and>
     validateSnapshot (Some (CaptureSnapshot m allowance now loc))"
proof (intro conjI)
  let ?s = "CaptureSnapshot m allowance now loc"
  show "\<not> IsRolloverNeeded (Some ?s) now' loc"
    using assms(2) by (simp add: IsRolloverNeeded_def CaptureSnapshot_def)
  have "usedDelta ?s x = 0" if "x \<in> set m" for x
  proof -
    obtain name ui where x: "x = (name, ui)" by (cases x)
    then have "map_of m name = Some ui" using that assms(1) by simp
    then show ?thesis by (simp add: usedDelta_def x map_of_Baselines_Capture)
  qed
  then have "map (usedDelta ?s) m = map (\<lambda>_. 0) m" by simp
  then show "ComputeUsedToday m (Some ?s) = 0" by (simp only: ComputeUsedToday_eq) simp
  have "list_all (\<lambda>(_, r). \<not> (r < 0 \<or> 1 < r)) (sn_BaselineUploadRatios ?s)"
    using CaptureSnapshot_ratios [OF assms(3), of allowance now loc] by (auto simp: list_all_iff)
  then show "validateSnapshot (Some ?s)"
    using assms(4,5) by (simp add: validateSnapshot_def) (simp add: CaptureSnapshot_def)
qed

text \<open>A negative counter, which the header parser accepts, can push a ratio out of range, and the
  loader then discards every snapshot it is given.\<close>

lemma negative_counter_never_persists:
  "let ui = \<lparr>ui_Upload = 2, ui_Download = - 1, ui_Total = 100, ui_Expire = 0\<rparr>;
       s = CaptureSnapshot [(''alpha'', ui)] 0 0 None in
   FileLoad path (fst (FileSave path None (Some s) fs)) = Inr None"
proof -
  have bits: "bits (Suc 0) = 1" "bits 2 = 2"
    by (subst bits.simps, simp)+
  have ex: "exponent 1 = 0" "exponent 2 = 1"
    by (simp_all add: exponent_def bits pow2_def Let_def)
  have "fl64 1 = 1" "fl64 2 = 2"
    by (simp_all add: fl64_def ex Let_def pow2_def round_even_def)
  then show ?thesis
    by (simp add: Let_def CaptureSnapshot_def FileSave_def FileLoad_def validateSnapshot_def
        fdiv_def float_of_int_def in_int64_def int64_min_def int64_max_def)
qed

end
