(* ===== verification/Traffic.thy ===== *)
theory Traffic
  imports Daily_Spend
begin

text \<open>
  \<open>internal/merge/traffic.go\<close>: the aggregated counters, the daily allowance and the
  \<open>Subscription-Userinfo\<close> header that is served.
\<close>

section \<open>Definitions\<close>

record ServedTrafficHeader =
  th_DailyAllowanceBytes :: int
  th_ExpireUnix :: int
  th_UsedTodayBytes :: int
  th_TotalBytes :: int
  th_UploadBytes :: int
  th_DownloadBytes :: int
  th_SnapshotLocalDate :: string
  th_RolloverFired :: bool

definition NextMidnightUTC :: "time \<Rightarrow> int" where
  "NextMidnightUTC now = dateMidnight UTC (localDay UTC now + 1)"

definition nextMidnightInLocation :: "time \<Rightarrow> location option \<Rightarrow> int" where
  "nextMidnightInLocation now loc =
     dateMidnight (location_of loc) (localDay (location_of loc) now + 1)"

record DailyAllowance =
  da_PerDayRateBytes :: int
  da_NoExpiryRemainingBytes :: int
  da_ExpiredSourceFlags :: "string list"

definition sortedKeys :: "(string \<times> 'v) list \<Rightarrow> string list" where
  "sortedKeys m = sort (map fst m)"

definition AggregateSubscriptionUserinfo :: "userinfos \<Rightarrow> SubscriptionUserinfo" where
  "AggregateSubscriptionUserinfo perSource =
     fold (\<lambda>name out.
       let ui = the (map_of perSource name);
           out = out\<lparr>ui_Upload := wrap64 (ui_Upload out + ui_Upload ui),
                    ui_Download := wrap64 (ui_Download out + ui_Download ui),
                    ui_Total := wrap64 (ui_Total out + ui_Total ui)\<rparr>
       in if ui_Expire ui = 0 then out
          else if ui_Expire out = 0 \<or> ui_Expire ui < ui_Expire out then out\<lparr>ui_Expire := ui_Expire ui\<rparr>
          else out) (sortedKeys perSource) zeroUserinfo"

text \<open>The values are \<open>*int\<close>: \<open>None\<close> is a nil pointer.\<close>

definition AggregateProfileUpdateInterval :: "(string \<times> int option) list \<Rightarrow> int \<Rightarrow> int" where
  "AggregateProfileUpdateInterval perSource defaultHours =
     (let minHours = fold (\<lambda>name minHours.
         case the (map_of perSource name) of
           None \<Rightarrow> minHours
         | Some hours \<Rightarrow>
             if hours \<le> 0 then minHours
             else if minHours = -1 \<or> hours < minHours then hours else minHours) (sortedKeys perSource) (-1)
      in if minHours = -1 then defaultHours else minHours)"

definition daysRemaining :: "(rat \<Rightarrow> int) \<Rightarrow> int \<Rightarrow> int" where
  "daysRemaining cvt secondsRemaining =
     (let days = int_of_float cvt (of_int \<lceil>fdiv (float_of_int secondsRemaining) 86400\<rceil>) in
      if days < 1 then 1 else days)"

definition ComputeDailyAllowance :: "(rat \<Rightarrow> int) \<Rightarrow> userinfos \<Rightarrow> time \<Rightarrow> DailyAllowance" where
  "ComputeDailyAllowance cvt perSource clk =
     (let now = Unix clk;
          out = fold (\<lambda>name out.
            let ui = the (map_of perSource name);
                remaining = wrap64 (wrap64 (ui_Total ui - ui_Upload ui) - ui_Download ui);
                remaining = (if remaining < 0 then 0 else remaining)
            in if ui_Expire ui = 0 then
                 out\<lparr>da_NoExpiryRemainingBytes := wrap64 (da_NoExpiryRemainingBytes out + remaining)\<rparr>
               else if ui_Expire ui \<le> now then
                 out\<lparr>da_ExpiredSourceFlags := da_ExpiredSourceFlags out @ [name]\<rparr>
               else
                 out\<lparr>da_PerDayRateBytes := wrap64 (da_PerDayRateBytes out +
                   remaining div daysRemaining cvt (wrap64 (ui_Expire ui - now)))\<rparr>)
            (sortedKeys perSource)
            \<lparr>da_PerDayRateBytes = 0, da_NoExpiryRemainingBytes = 0, da_ExpiredSourceFlags = []\<rparr>
      in out\<lparr>da_ExpiredSourceFlags := sort (da_ExpiredSourceFlags out)\<rparr>)"

text \<open>The clock is read twice, by \<open>ComputeDailyAllowance\<close> and again for the snapshot; here
  both reads are arguments.\<close>

definition ComposeServedTrafficHeaderWithSpend ::
  "(rat \<Rightarrow> int) \<Rightarrow> userinfos \<Rightarrow> time \<Rightarrow> time \<Rightarrow> Snapshot option \<Rightarrow> location option \<Rightarrow>
     ServedTrafficHeader option \<times> Snapshot option" where
  "ComposeServedTrafficHeaderWithSpend cvt perSource clk1 now snapshot loc =
     (if length perSource = 0 then (None, snapshot)
      else
        let da = ComputeDailyAllowance cvt perSource clk1;
            allowance = wrap64 (da_PerDayRateBytes da + da_NoExpiryRemainingBytes da);
            rolloverFired = IsRolloverNeeded snapshot now loc;
            snapshot = (if rolloverFired then CaptureSnapshot perSource allowance now loc else the snapshot);
            used = ComputeUsedToday perSource (Some snapshot);
            (upload, download) = SplitUsedToday cvt used perSource (Some snapshot)
        in (Some \<lparr>th_DailyAllowanceBytes = sn_AllowanceTodayBytes snapshot,
                  th_ExpireUnix = nextMidnightInLocation now loc,
                  th_UsedTodayBytes = used,
                  th_TotalBytes = wrap64 (sn_AllowanceTodayBytes snapshot + used),
                  th_UploadBytes = upload, th_DownloadBytes = download,
                  th_SnapshotLocalDate = sn_LocalDate snapshot, th_RolloverFired = rolloverFired\<rparr>,
            Some snapshot))"

definition ComposeServedTrafficHeader :: "(rat \<Rightarrow> int) \<Rightarrow> userinfos \<Rightarrow> time \<Rightarrow> time \<Rightarrow> ServedTrafficHeader option" where
  "ComposeServedTrafficHeader cvt perSource clk1 now =
     fst (ComposeServedTrafficHeaderWithSpend cvt perSource clk1 now None (Some UTC))"

section \<open>Midnights\<close>

text \<open>The expiry of the served header without spend tracking is the first midnight UTC
  strictly after now: at most a day ahead and never now itself.\<close>

theorem NextMidnightUTC_next:
  "Unix now < NextMidnightUTC now \<and> NextMidnightUTC now \<le> Unix now + 86400 \<and> 86400 dvd NextMidnightUTC now"
  using next_day_UTC [of now] by (simp add: NextMidnightUTC_def)

section \<open>Aggregates\<close>

lemma sortedKeys_mset: "mset (sortedKeys m) = mset (map fst m)"
  by (simp add: sortedKeys_def)

text \<open>A fold over the sorted keys of a map as a fold over its values.\<close>

definition sortedValues :: "(string \<times> 'v) list \<Rightarrow> 'v list" where
  "sortedValues m = map (\<lambda>name. the (map_of m name)) (sortedKeys m)"

lemma sortedValues_mset:
  assumes "distinct (map fst m)"
  shows "mset (sortedValues m) = mset (map snd m)"
proof -
  have "mset (sortedValues m) = image_mset (\<lambda>n. the (map_of m n)) (mset (map fst m))"
    by (simp add: sortedValues_def sortedKeys_def)
  also have "\<dots> = mset (map (\<lambda>n. the (map_of m n)) (map fst m))" by (simp only: mset_map)
  also have "map (\<lambda>n. the (map_of m n)) (map fst m) = map snd m"
    using assms by (auto simp: map_of_is_SomeI)
  finally show ?thesis .
qed

definition addUserinfo :: "SubscriptionUserinfo \<Rightarrow> SubscriptionUserinfo \<Rightarrow> SubscriptionUserinfo" where
  "addUserinfo ui out =
     \<lparr>ui_Upload = wrap64 (ui_Upload out + ui_Upload ui), ui_Download = wrap64 (ui_Download out + ui_Download ui),
      ui_Total = wrap64 (ui_Total out + ui_Total ui),
      ui_Expire = (if ui_Expire ui = 0 then ui_Expire out
        else if ui_Expire out = 0 \<or> ui_Expire ui < ui_Expire out then ui_Expire ui else ui_Expire out)\<rparr>"

lemma Aggregate_fold: "AggregateSubscriptionUserinfo m = fold addUserinfo (sortedValues m) zeroUserinfo"
proof -
  have "(\<lambda>name out. let ui = the (map_of m name);
           out = out\<lparr>ui_Upload := wrap64 (ui_Upload out + ui_Upload ui),
                    ui_Download := wrap64 (ui_Download out + ui_Download ui),
                    ui_Total := wrap64 (ui_Total out + ui_Total ui)\<rparr>
       in if ui_Expire ui = 0 then out
          else if ui_Expire out = 0 \<or> ui_Expire ui < ui_Expire out then out\<lparr>ui_Expire := ui_Expire ui\<rparr>
          else out) = (\<lambda>name. addUserinfo (the (map_of m name)))"
    by (intro ext) (simp add: addUserinfo_def Let_def)
  then show ?thesis by (simp add: AggregateSubscriptionUserinfo_def sortedValues_def fold_map o_def)
qed

lemma fold_addUserinfo_sums:
  "userinfo64 out \<Longrightarrow>
     ui_Upload (fold addUserinfo uis out) = wrap64 (ui_Upload out + (\<Sum>u\<leftarrow>uis. ui_Upload u)) \<and>
     ui_Download (fold addUserinfo uis out) = wrap64 (ui_Download out + (\<Sum>u\<leftarrow>uis. ui_Download u)) \<and>
     ui_Total (fold addUserinfo uis out) = wrap64 (ui_Total out + (\<Sum>u\<leftarrow>uis. ui_Total u))"
proof (induction uis arbitrary: out rule: rev_induct)
  case Nil
  then show ?case by (simp add: userinfo64_def)
next
  case (snoc u uis)
  from snoc.IH [OF snoc.prems] show ?case by (simp add: addUserinfo_def wrap64_add_left add.assoc)
qed

definition expiries :: "SubscriptionUserinfo list \<Rightarrow> int set" where
  "expiries uis = {e. e \<in> ui_Expire ` set uis \<and> e \<noteq> 0}"

lemma ui_Expire_addUserinfo:
  "ui_Expire (addUserinfo ui out) = (if ui_Expire ui = 0 then ui_Expire out
     else if ui_Expire out = 0 \<or> ui_Expire ui < ui_Expire out then ui_Expire ui else ui_Expire out)"
  by (simp add: addUserinfo_def)

lemma fold_addUserinfo_expire:
  "ui_Expire (fold addUserinfo uis zeroUserinfo) = (if expiries uis = {} then 0 else Min (expiries uis))"
proof (induction uis rule: rev_induct)
  case Nil
  then show ?case by (simp add: expiries_def zeroUserinfo_def)
next
  case (snoc u uis)
  let ?e = "ui_Expire (fold addUserinfo uis zeroUserinfo)"
  have fin: "finite (expiries uis)" by (simp add: expiries_def)
  have ins: "expiries (uis @ [u]) = (if ui_Expire u = 0 then expiries uis else insert (ui_Expire u) (expiries uis))"
    by (auto simp: expiries_def)
  have zero: "?e = 0 \<longleftrightarrow> expiries uis = {}"
    using snoc Min_in [OF fin] by (auto simp: expiries_def split: if_splits)
  show ?case
  proof (cases "ui_Expire u = 0 \<or> expiries uis = {}")
    case True
    then show ?thesis using snoc zero ins by (auto simp: ui_Expire_addUserinfo)
  next
    case False
    then have "Min (expiries (uis @ [u])) = min (ui_Expire u) (Min (expiries uis))"
      using fin by (simp add: ins)
    then show ?thesis using False snoc zero ins by (auto simp: ui_Expire_addUserinfo min_def)
  qed
qed

text \<open>The aggregated counters are the sums over all sources (modulo 64-bit wrap-around) and
  the aggregated expiry is the earliest one reported, zero exactly when no source has one.  They
  do not depend on the map order.\<close>

theorem AggregateSubscriptionUserinfo_sums:
  assumes "distinct (map fst m)"
  shows "let a = AggregateSubscriptionUserinfo m; uis = map snd m in
     ui_Upload a = wrap64 (\<Sum>u\<leftarrow>uis. ui_Upload u) \<and>
     ui_Download a = wrap64 (\<Sum>u\<leftarrow>uis. ui_Download u) \<and>
     ui_Total a = wrap64 (\<Sum>u\<leftarrow>uis. ui_Total u) \<and>
     ui_Expire a = (if expiries uis = {} then 0 else Min (expiries uis))"
proof -
  have ms: "mset (sortedValues m) = mset (map snd m)" by (rule sortedValues_mset [OF assms])
  have sums: "(\<Sum>u\<leftarrow>sortedValues m. f u) = (\<Sum>u\<leftarrow>map snd m. f u)" for f :: "SubscriptionUserinfo \<Rightarrow> int"
    using ms by (metis mset_map sum_mset_sum_list)
  have ex: "expiries (sortedValues m) = expiries (map snd m)"
    using mset_eq_setD [OF ms] by (simp add: expiries_def)
  have z: "userinfo64 zeroUserinfo" by (simp add: userinfo64_def zeroUserinfo_def)
  show ?thesis
    using fold_addUserinfo_sums [OF z, of "sortedValues m"] fold_addUserinfo_expire [of "sortedValues m"]
    by (simp add: Aggregate_fold Let_def sums ex zeroUserinfo_def)
qed

definition positives :: "int option list \<Rightarrow> int set" where
  "positives vs = {h. Some h \<in> set vs \<and> 0 < h}"

definition positiveHours :: "(string \<times> int option) list \<Rightarrow> int set" where
  "positiveHours m = positives (map snd m)"

definition minHoursStep :: "int option \<Rightarrow> int \<Rightarrow> int" where
  "minHoursStep v acc = (case v of None \<Rightarrow> acc | Some hours \<Rightarrow>
     if hours \<le> 0 then acc else if acc = -1 \<or> hours < acc then hours else acc)"

lemma positives_snoc [simp]:
  "positives [] = {}"
  "positives (vs @ [v]) = (case v of None \<Rightarrow> positives vs
     | Some h \<Rightarrow> if 0 < h then insert h (positives vs) else positives vs)"
  by (auto simp: positives_def split: option.split)

lemma finite_positives [simp]: "finite (positives vs)"
  by (induction vs rule: rev_induct) (auto split: option.split)

lemma Min_positives: "positives vs \<noteq> {} \<Longrightarrow> 0 < Min (positives vs)"
  using Min_in [OF finite_positives, of vs] by (simp add: positives_def)

lemma minHours_fold:
  "fold minHoursStep vs (-1) = (if positives vs = {} then -1 else Min (positives vs))"
proof (induction vs rule: rev_induct)
  case Nil
  then show ?case by simp
next
  case (snoc v vs)
  show ?case
  proof (cases "positives vs = {}")
    case True
    then show ?thesis using snoc by (simp add: minHoursStep_def split: option.split)
  next
    case False
    define M where "M = Min (positives vs)"
    have M: "M \<noteq> -1" using Min_positives [OF False] by (simp add: M_def del: Min_gr_iff)
    have "Min (insert h (positives vs)) = min h M" for h
      using False by (simp add: M_def Min_insert)
    then show ?thesis using snoc False M
      by (simp add: minHoursStep_def [of v] M_def [symmetric] min_def split: option.split)
  qed
qed

text \<open>The served update interval is the smallest positive one any source asks for, and the
  configured default exactly when no source asks for a positive one.\<close>

theorem AggregateProfileUpdateInterval_min:
  assumes "distinct (map fst m)"
  shows "AggregateProfileUpdateInterval m d = (if positiveHours m = {} then d else Min (positiveHours m))"
proof -
  have st: "(\<lambda>name. minHoursStep (the (map_of m name))) = (\<lambda>name minHours.
         case the (map_of m name) of
           None \<Rightarrow> minHours
         | Some hours \<Rightarrow>
             if hours \<le> 0 then minHours
             else if minHours = -1 \<or> hours < minHours then hours else minHours)"
    by (intro ext) (simp add: minHoursStep_def)
  have eq: "AggregateProfileUpdateInterval m d =
      (let h = fold minHoursStep (sortedValues m) (-1) in if h = -1 then d else h)"
    by (simp add: AggregateProfileUpdateInterval_def sortedValues_def fold_map o_def flip: st)
  have "positives (sortedValues m) = positiveHours m"
    using mset_eq_setD [OF sortedValues_mset [OF assms]] by (simp add: positiveHours_def positives_def)
  moreover have "Min (positiveHours m) \<noteq> -1" if "positiveHours m \<noteq> {}"
    using Min_positives [of "map snd m"] that unfolding positiveHours_def by linarith
  ultimately show ?thesis by (simp add: eq minHours_fold Let_def)
qed

section \<open>Allowance\<close>

lemma ceil_days:
  "(secs::int) + 86399 = 86400 * q + r \<Longrightarrow> 0 \<le> r \<Longrightarrow> r < 86400 \<Longrightarrow> 0 < secs \<Longrightarrow>
     86400 * (q - 1) + 1 \<le> secs \<and> secs \<le> 86400 * q \<and> 0 < q \<and> q \<le> secs"
  by auto

lemma daysRemaining_exact:
  assumes "0 < secs" and "secs < 2 ^ 36"
  shows "daysRemaining cvt secs = (secs + 86399) div 86400"
proof -
  let ?n = "(secs + 86399) div 86400"
  have n: "86400 * (?n - 1) + 1 \<le> secs" "secs \<le> 86400 * ?n" "0 < ?n" "?n \<le> secs"
    using ceil_days [of secs ?n "(secs + 86399) mod 86400"] assms(1) by simp_all
  define x :: rat where "x = of_int secs / 86400"
  have lo: "(of_int (86400 * (?n - 1) + 1) :: rat) \<le> of_int secs" using n(1) by (simp only: of_int_le_iff)
  have hi: "(of_int secs :: rat) \<le> of_int (86400 * ?n)" using n(2) by (simp only: of_int_le_iff)
  have "(of_int secs :: rat) < of_int (2 ^ 36)" using assms(2) by (simp only: of_int_less_iff)
  then have x: "0 < x" "x < 2 ^ 36" using assms(1) by (simp_all add: x_def)
  have x1: "of_int ?n - 1 + 1 / 2 ^ 17 \<le> x" using lo by (simp add: x_def field_simps)
  have x2: "x \<le> of_int ?n" using hi by (simp add: x_def field_simps)
  have "\<lceil>fdiv (float_of_int secs) 86400\<rceil> = ?n"
    using fl64_ceiling [OF x x1 x2] float_of_int_exact [OF assms] by (simp add: fdiv_def x_def)
  moreover have "in_int64 ?n" using n assms(2) by (simp add: in_int64_def int64_min_def int64_max_def)
  ultimately show ?thesis using n(3) by (simp add: daysRemaining_def int_of_float_def Let_def)
qed

definition remainingBytes :: "SubscriptionUserinfo \<Rightarrow> int" where
  "remainingBytes ui = max 0 (ui_Total ui - ui_Upload ui - ui_Download ui)"

definition dailyRate :: "int \<Rightarrow> SubscriptionUserinfo \<Rightarrow> int" where
  "dailyRate now ui = remainingBytes ui div ((ui_Expire ui - now + 86399) div 86400)"

text \<open>Counters whose differences fit 64 bits, and an expiry less than \<open>2 ^ 36\<close> seconds (over
  two thousand years) ahead.\<close>

definition plausible :: "int \<Rightarrow> SubscriptionUserinfo \<Rightarrow> bool" where
  "plausible now ui \<longleftrightarrow> in_int64 (ui_Total ui - ui_Upload ui) \<and>
     in_int64 (ui_Total ui - ui_Upload ui - ui_Download ui) \<and> ui_Expire ui - now < 2 ^ 36"

definition allowanceStep :: "int \<Rightarrow> string \<times> SubscriptionUserinfo \<Rightarrow> DailyAllowance \<Rightarrow> DailyAllowance" where
  "allowanceStep now = (\<lambda>(name, ui) out.
     if ui_Expire ui = 0 then out\<lparr>da_NoExpiryRemainingBytes := wrap64 (da_NoExpiryRemainingBytes out + remainingBytes ui)\<rparr>
     else if ui_Expire ui \<le> now then out\<lparr>da_ExpiredSourceFlags := da_ExpiredSourceFlags out @ [name]\<rparr>
     else out\<lparr>da_PerDayRateBytes := wrap64 (da_PerDayRateBytes out + dailyRate now ui)\<rparr>)"

definition noExpiry :: "userinfos \<Rightarrow> userinfos" where
  "noExpiry m = filter (\<lambda>(_, ui). ui_Expire ui = 0) m"
definition expired :: "int \<Rightarrow> userinfos \<Rightarrow> userinfos" where
  "expired now m = filter (\<lambda>(_, ui). ui_Expire ui \<noteq> 0 \<and> ui_Expire ui \<le> now) m"
definition running :: "int \<Rightarrow> userinfos \<Rightarrow> userinfos" where
  "running now m = filter (\<lambda>(_, ui). ui_Expire ui \<noteq> 0 \<and> now < ui_Expire ui) m"

lemma allowance_fold:
  "in_int64 (da_PerDayRateBytes out) \<Longrightarrow> in_int64 (da_NoExpiryRemainingBytes out) \<Longrightarrow>
   fold (allowanceStep now) m out =
     \<lparr>da_PerDayRateBytes = wrap64 (da_PerDayRateBytes out + (\<Sum>(_, ui)\<leftarrow>running now m. dailyRate now ui)),
      da_NoExpiryRemainingBytes = wrap64 (da_NoExpiryRemainingBytes out + (\<Sum>(_, ui)\<leftarrow>noExpiry m. remainingBytes ui)),
      da_ExpiredSourceFlags = da_ExpiredSourceFlags out @ map fst (expired now m)\<rparr>"
proof (induction m arbitrary: out)
  case Nil
  then show ?case by (simp add: running_def noExpiry_def expired_def)
next
  case (Cons x m)
  obtain name ui where x: "x = (name, ui)" by (cases x)
  have "in_int64 (da_PerDayRateBytes (allowanceStep now x out))"
    "in_int64 (da_NoExpiryRemainingBytes (allowanceStep now x out))"
    using Cons.prems by (auto simp: allowanceStep_def x)
  from Cons.IH [OF this] show ?case
    by (auto simp: x allowanceStep_def running_def noExpiry_def expired_def wrap64_add_left add.assoc)
qed

lemma map_of_sorted_pairs:
  assumes "distinct (map fst m)"
  shows "mset (map (\<lambda>name. (name, the (map_of m name))) (sortedKeys m)) = mset m"
proof -
  have "mset (map (\<lambda>name. (name, the (map_of m name))) (sortedKeys m)) =
      mset (map (\<lambda>name. (name, the (map_of m name))) (map fst m))"
    by (simp only: mset_map sortedKeys_mset)
  also have "map (\<lambda>name. (name, the (map_of m name))) (map fst m) = m"
    using assms by (auto simp: map_of_is_SomeI intro: map_idI)
  finally show ?thesis .
qed

lemma ComputeDailyAllowance_steps:
  assumes "list_all (\<lambda>(_, ui). plausible (Unix clk) ui) pairs"
    and "pairs = map (\<lambda>name. (name, the (map_of m name))) (sortedKeys m)"
  shows "ComputeDailyAllowance cvt m clk =
     (let out = fold (allowanceStep (Unix clk)) pairs
        \<lparr>da_PerDayRateBytes = 0, da_NoExpiryRemainingBytes = 0, da_ExpiredSourceFlags = []\<rparr>
      in out\<lparr>da_ExpiredSourceFlags := sort (da_ExpiredSourceFlags out)\<rparr>)"
proof -
  have rem: "(let r = wrap64 (wrap64 (ui_Total ui - ui_Upload ui) - ui_Download ui) in if r < 0 then 0 else r) = remainingBytes ui"
    if "plausible (Unix clk) ui" for ui
    using that by (simp add: plausible_def remainingBytes_def Let_def max_def)
  have days: "daysRemaining cvt (wrap64 (ui_Expire ui - Unix clk)) = (ui_Expire ui - Unix clk + 86399) div 86400"
    if "plausible (Unix clk) ui" "Unix clk < ui_Expire ui" for ui
  proof -
    have "in_int64 (ui_Expire ui - Unix clk)"
      using that by (simp add: plausible_def in_int64_def int64_min_def int64_max_def)
    then show ?thesis using that daysRemaining_exact [of "ui_Expire ui - Unix clk" cvt]
      by (simp add: plausible_def)
  qed
  have "allowanceStep (Unix clk) (name, the (map_of m name)) out =
      (let ui = the (map_of m name);
                remaining = wrap64 (wrap64 (ui_Total ui - ui_Upload ui) - ui_Download ui);
                remaining = (if remaining < 0 then 0 else remaining)
            in if ui_Expire ui = 0 then
                 out\<lparr>da_NoExpiryRemainingBytes := wrap64 (da_NoExpiryRemainingBytes out + remaining)\<rparr>
               else if ui_Expire ui \<le> Unix clk then
                 out\<lparr>da_ExpiredSourceFlags := da_ExpiredSourceFlags out @ [name]\<rparr>
               else
                 out\<lparr>da_PerDayRateBytes := wrap64 (da_PerDayRateBytes out +
                   remaining div daysRemaining cvt (wrap64 (ui_Expire ui - Unix clk)))\<rparr>)"
    if "name \<in> set (sortedKeys m)" for name out
  proof -
    have "plausible (Unix clk) (the (map_of m name))" using that assms(1,2) by (auto simp: list_all_iff)
    with rem [OF this] days [OF this] show ?thesis
      by (simp add: allowanceStep_def dailyRate_def Let_def)
  qed
  then have "fold (allowanceStep (Unix clk)) pairs out = fold (\<lambda>name out.
            let ui = the (map_of m name);
                remaining = wrap64 (wrap64 (ui_Total ui - ui_Upload ui) - ui_Download ui);
                remaining = (if remaining < 0 then 0 else remaining)
            in if ui_Expire ui = 0 then
                 out\<lparr>da_NoExpiryRemainingBytes := wrap64 (da_NoExpiryRemainingBytes out + remaining)\<rparr>
               else if ui_Expire ui \<le> Unix clk then
                 out\<lparr>da_ExpiredSourceFlags := da_ExpiredSourceFlags out @ [name]\<rparr>
               else
                 out\<lparr>da_PerDayRateBytes := wrap64 (da_PerDayRateBytes out +
                   remaining div daysRemaining cvt (wrap64 (ui_Expire ui - Unix clk)))\<rparr>) (sortedKeys m) out" for out
    unfolding assms(2) fold_map o_def by (intro fold_cong) auto
  then show ?thesis by (simp add: ComputeDailyAllowance_def Let_def)
qed

text \<open>C26: the daily allowance is computed exactly.  For plausible counters the per-day rate is
  the sum over the running plans of the remaining bytes divided by the number of days left,
  rounded up (the floating-point quotient never rounds onto a different day), the no-expiry
  figure is the sum of what the plans without expiry have left, and the expired sources are
  listed alphabetically.\<close>

theorem ComputeDailyAllowance_exact:
  assumes "distinct (map fst m)" and "\<forall>(n, ui)\<in>set m. plausible (Unix clk) ui"
  shows "ComputeDailyAllowance cvt m clk =
     \<lparr>da_PerDayRateBytes = wrap64 (\<Sum>(_, ui)\<leftarrow>running (Unix clk) m. dailyRate (Unix clk) ui),
      da_NoExpiryRemainingBytes = wrap64 (\<Sum>(_, ui)\<leftarrow>noExpiry m. remainingBytes ui),
      da_ExpiredSourceFlags = sort (map fst (expired (Unix clk) m))\<rparr>"
proof -
  define pairs where "pairs = map (\<lambda>name. (name, the (map_of m name))) (sortedKeys m)"
  have ms: "mset pairs = mset m" unfolding pairs_def by (rule map_of_sorted_pairs [OF assms(1)])
  have "list_all (\<lambda>(_, ui). plausible (Unix clk) ui) pairs"
    using assms(2) mset_eq_setD [OF ms] by (auto simp: list_all_iff)
  note steps = ComputeDailyAllowance_steps [OF this pairs_def, of cvt]
  have sums: "(\<Sum>x\<leftarrow>filter P pairs. f x) = (\<Sum>x\<leftarrow>filter P m. f x)" for P and f :: "string \<times> SubscriptionUserinfo \<Rightarrow> int"
    using ms by (metis mset_filter mset_map sum_mset_sum_list)
  have sorts: "sort (map fst (filter P pairs)) = sort (map fst (filter P m))" for P
    using ms by (metis mset_filter mset_map sorted_list_of_multiset_mset)
  show ?thesis
    unfolding steps by (simp add: allowance_fold running_def noExpiry_def expired_def sums sorts)
qed

section \<open>The served header\<close>

lemma Compose_cases:
  assumes "m \<noteq> []"
    and "s = (if IsRolloverNeeded snap now loc
       then CaptureSnapshot m (wrap64 (da_PerDayRateBytes (ComputeDailyAllowance cvt m clk) +
          da_NoExpiryRemainingBytes (ComputeDailyAllowance cvt m clk))) now loc else the snap)"
    and "SplitUsedToday cvt (ComputeUsedToday m (Some s)) m (Some s) = (up, down)"
  shows "ComposeServedTrafficHeaderWithSpend cvt m clk now snap loc =
     (Some \<lparr>th_DailyAllowanceBytes = sn_AllowanceTodayBytes s,
                  th_ExpireUnix = nextMidnightInLocation now loc,
                  th_UsedTodayBytes = ComputeUsedToday m (Some s),
                  th_TotalBytes = wrap64 (sn_AllowanceTodayBytes s + ComputeUsedToday m (Some s)),
                  th_UploadBytes = up, th_DownloadBytes = down,
                  th_SnapshotLocalDate = sn_LocalDate s, th_RolloverFired = IsRolloverNeeded snap now loc\<rparr>,
      Some s)"
  using assms(1,3) by (simp add: ComposeServedTrafficHeaderWithSpend_def Let_def flip: assms(2))

lemma IsRolloverNeeded_Capture [simp]:
  "localDay (location_of loc) now' = localDay (location_of loc) now \<Longrightarrow>
     \<not> IsRolloverNeeded (Some (CaptureSnapshot m a now loc)) now' loc"
  by (simp add: IsRolloverNeeded_def CaptureSnapshot_def)

lemma Compose_snapshot:
  assumes "m \<noteq> []"
  shows "\<exists>h s. ComposeServedTrafficHeaderWithSpend cvt m clk now snap loc = (Some h, Some s) \<and>
     th_DailyAllowanceBytes h = sn_AllowanceTodayBytes s \<and>
     th_RolloverFired h = IsRolloverNeeded snap now loc \<and>
     (\<not> IsRolloverNeeded snap now loc \<longrightarrow> snap = Some s) \<and>
     sn_LocalDate s = formatDate (localDay (location_of loc) now)"
proof -
  define s where "s = (if IsRolloverNeeded snap now loc
       then CaptureSnapshot m (wrap64 (da_PerDayRateBytes (ComputeDailyAllowance cvt m clk) +
          da_NoExpiryRemainingBytes (ComputeDailyAllowance cvt m clk))) now loc else the snap)"
  obtain up down where "SplitUsedToday cvt (ComputeUsedToday m (Some s)) m (Some s) = (up, down)"
    by fastforce
  note c = Compose_cases [OF assms s_def this]
  have "sn_LocalDate s = formatDate (localDay (location_of loc) now) \<and> (\<not> IsRolloverNeeded snap now loc \<longrightarrow> snap = Some s)"
    by (cases snap) (auto simp: s_def IsRolloverNeeded_def CaptureSnapshot_def)
  then show ?thesis unfolding c by simp
qed

text \<open>The served header is coherent.  With no counters there is none; otherwise the upload and
  download figures are non-negative and add up to today's spend, the total is the pinned
  allowance plus the spend, the snapshot behind it carries today's local date, and it is the
  loaded one unless that was missing or of another day.\<close>

theorem ComposeServedTrafficHeaderWithSpend_coherent:
  "case ComposeServedTrafficHeaderWithSpend cvt m clk now snap loc of
     (None, snap') \<Rightarrow> m = [] \<and> snap' = snap
   | (Some h, None) \<Rightarrow> False
   | (Some h, Some s) \<Rightarrow> m \<noteq> [] \<and>
       th_UsedTodayBytes h = ComputeUsedToday m (Some s) \<and>
       0 \<le> th_UploadBytes h \<and> 0 \<le> th_DownloadBytes h \<and>
       th_UploadBytes h + th_DownloadBytes h = max 0 (th_UsedTodayBytes h) \<and>
       th_DailyAllowanceBytes h = sn_AllowanceTodayBytes s \<and>
       th_TotalBytes h = wrap64 (th_DailyAllowanceBytes h + th_UsedTodayBytes h) \<and>
       sn_LocalDate s = formatDate (localDay (location_of loc) now) \<and>
       (if IsRolloverNeeded snap now loc then th_RolloverFired h else snap = Some s)"
proof (cases "m = []")
  case True
  then show ?thesis by (simp add: ComposeServedTrafficHeaderWithSpend_def)
next
  case False
  define s where "s = (if IsRolloverNeeded snap now loc
       then CaptureSnapshot m (wrap64 (da_PerDayRateBytes (ComputeDailyAllowance cvt m clk) +
          da_NoExpiryRemainingBytes (ComputeDailyAllowance cvt m clk))) now loc else the snap)"
  obtain up down where split: "SplitUsedToday cvt (ComputeUsedToday m (Some s)) m (Some s) = (up, down)"
    by fastforce
  note c = Compose_cases [OF False s_def split]
  have "0 \<le> up \<and> 0 \<le> down \<and> up + down = max 0 (ComputeUsedToday m (Some s))"
    using SplitUsedToday_bounds [OF split] by simp
  moreover have "sn_LocalDate s = formatDate (localDay (location_of loc) now)"
    "\<not> IsRolloverNeeded snap now loc \<Longrightarrow> snap = Some s"
    by (cases snap; auto simp: s_def IsRolloverNeeded_def CaptureSnapshot_def)+
  ultimately show ?thesis using False unfolding c by simp
qed

end
