(* ===== verification/Fetcher.thy ===== *)
theory Fetcher
  imports Headers Subscriptions Yaml_Node Go_Time
begin

text \<open>
  \<open>internal/fetcher/http.go\<close>: one fetch of one source.

  The network is an argument: \<open>exchange\<close> is how the request ended.  \<open>yaml.Unmarshal\<close> and
  \<open>url.Parse\<close> are the arguments \<open>unmarshal\<close> (an error message or the document) and
  \<open>urlSplit\<close> (scheme, host and path).  \<open>start\<close> and \<open>stop\<close> are the two readings of
  the system clock.
\<close>

section \<open>Definitions\<close>

datatype FetchOutcome = OutcomeNone | OutcomeSuccess | OutcomeHTTPError | OutcomeTimeout
  | OutcomeParseError | OutcomeNetworkError

record FetchResult =
  fr_SourceName :: string
  fr_AttemptedAt :: time
  fr_Outcome :: FetchOutcome
  fr_HTTPStatus :: int
  fr_PayloadBytes :: nat
  fr_Error :: string
  fr_Duration :: int

record UpstreamHeaders =
  uh_SubscriptionUserinfo :: "SubscriptionUserinfo option"
  uh_ProfileUpdateIntervalHours :: "int option"

record UpstreamCachedPayload =
  cp_SourceName :: string
  cp_FetchedAt :: time
  cp_BodyYAML :: string
  cp_Headers :: UpstreamHeaders
  cp_PayloadBytes :: nat
  cp_parsedConfig :: "node option"

type_synonym unmarshaller = "string \<Rightarrow> string + node"

text \<open>\<open>Parse\<close> also returns the payload, whose field it may fill in.\<close>

definition Parse :: "unmarshaller \<Rightarrow> UpstreamCachedPayload \<Rightarrow> (string + node) \<times> UpstreamCachedPayload" where
  "Parse unmarshal p = (case cp_parsedConfig p of
      Some n \<Rightarrow> (Inr n, p)
    | None \<Rightarrow> (case unmarshal (cp_BodyYAML p) of
        Inl e \<Rightarrow> (Inl e, p)
      | Inr n \<Rightarrow> (Inr n, p\<lparr>cp_parsedConfig := Some n\<rparr>)))"

definition SetParsed :: "node \<Rightarrow> UpstreamCachedPayload \<Rightarrow> UpstreamCachedPayload" where
  "SetParsed n p = p\<lparr>cp_parsedConfig := Some n\<rparr>"

datatype shape_error = RootNotMapping | NoClashKeys

fun hasClashKey :: "node list \<Rightarrow> bool" where
  "hasClashKey (k # v # r) =
     (if nvalue k = ''proxies'' \<or> nvalue k = ''proxy-groups'' \<or> nvalue k = ''rules'' then True else hasClashKey r)"
| "hasClashKey _ = False"

definition assertClashShape :: "node \<Rightarrow> shape_error option" where
  "assertClashShape parsed =
     (let root = (if nkind parsed = DocumentNode \<and> length (content parsed) > 0 then content parsed ! 0 else parsed) in
      if nkind root \<noteq> MappingNode then Some RootNotMapping
      else if hasClashKey (content root) then None else Some NoClashKeys)"

text \<open>\<open>indexOf\<close> scans the suffixes \<open>s[i:]\<close>; -1 when there is none.\<close>

fun indexFrom :: "nat \<Rightarrow> string \<Rightarrow> string \<Rightarrow> int" where
  "indexFrom i [] sub = (if sub = [] then int i else -1)"
| "indexFrom i (c # s) sub = (if HasPrefix (c # s) sub then int i else indexFrom (i + 1) s sub)"

definition indexOf :: "string \<Rightarrow> string \<Rightarrow> int" where
  "indexOf s sub = indexFrom 0 s sub"

lemma indexFrom_bounds: "indexFrom i s sub \<noteq> -1 \<Longrightarrow> int i \<le> indexFrom i s sub \<and>
    indexFrom i s sub + int (length sub) \<le> int i + int (length s)"
proof (induction i s sub rule: indexFrom.induct)
  case (1 i sub)
  then show ?case by (auto split: if_splits)
next
  case (2 i c s sub)
  show ?case
  proof (cases "HasPrefix (c # s) sub")
    case True
    then obtain t where "c # s = sub @ t" by (auto simp: HasPrefix_iff)
    then have "length (c # s) = length sub + length t" by (metis length_append)
    then show ?thesis using True by simp
  next
    case False
    then show ?thesis using 2 by auto
  qed
qed

text \<open>The loop of \<open>replaceAll\<close> for a non-empty pattern.\<close>

function replaceLoop :: "string \<Rightarrow> string \<Rightarrow> string \<Rightarrow> string" where
  "replaceLoop s old new =
     (if old = [] \<or> indexOf s old < 0 then s
      else let i = nat (indexOf s old) in take i s @ new @ replaceLoop (drop (i + length old) s) old new)"
  by pat_completeness auto
termination
proof (relation "measure (\<lambda>(s, _, _). length s)", simp)
  fix s old :: string and new :: string and i
  assume a: "\<not> (old = [] \<or> indexOf s old < 0)" "i = nat (indexOf s old)"
  then have "indexOf s old + int (length old) \<le> int (length s)"
    using indexFrom_bounds [of 0 s old] by (auto simp: indexOf_def)
  with a show "((drop (i + length old) s, old, new), s, old, new) \<in> measure (\<lambda>(s, _, _). length s)"
    by (cases old) auto
qed

declare replaceLoop.simps [simp del]

definition replaceAll :: "string \<Rightarrow> string \<Rightarrow> string \<Rightarrow> string" where
  "replaceAll s old new = (if old = [] then s else replaceLoop s old new)"

definition sanitizeURLInError :: "(string \<Rightarrow> (string \<times> string \<times> string) option) \<Rightarrow> string \<Rightarrow> string \<Rightarrow> string" where
  "sanitizeURLInError urlSplit msg link =
     (if link = [] then msg
      else case urlSplit link of
        None \<Rightarrow> msg
      | Some (scheme, host, path) \<Rightarrow> replaceAll msg link (scheme @ ''://'' @ host @ path))"

datatype exchange =
    BuildFails string
  | DoFails bool string
  | BodyFails int string
  | Answer int "string \<Rightarrow> string" string

datatype fetch_error = BuildRequest string | Transport string | ReadBody string | HTTPStatus int | YAMLParse string | Shape shape_error

definition DefaultUserAgent :: string where
  "DefaultUserAgent = ''clash-meta/v1.18.0''"

text \<open>The fetcher is what the requests depend on: the timeouts and the user agent.\<close>

record UpstreamFetcher =
  uf_ClientTimeout :: int
  uf_Timeout :: int
  uf_UserAgent :: string

definition NewUpstreamFetcher :: "int \<Rightarrow> UpstreamFetcher" where
  "NewUpstreamFetcher timeout =
     \<lparr>uf_ClientTimeout = wrap64 (timeout + 5 * 10 ^ 9), uf_Timeout = timeout, uf_UserAgent = DefaultUserAgent\<rparr>"

definition requestUserAgent :: "string \<Rightarrow> string" where
  "requestUserAgent ua = (if ua = [] then DefaultUserAgent else ua)"

definition captureHeaders :: "(nat \<Rightarrow> nat) \<Rightarrow> (string \<Rightarrow> string) \<Rightarrow> UpstreamHeaders" where
  "captureHeaders ulower get =
     (let v = get ''Subscription-Userinfo'';
          ui = (if v \<noteq> [] then (case ParseSubscriptionUserinfo ulower v of Inl _ \<Rightarrow> None | Inr (ui, _) \<Rightarrow> Some ui)
                else None);
          w = get ''Profile-Update-Interval'';
          hours = (if w \<noteq> [] then (let (h, ok) = ParseProfileUpdateInterval w in if ok then Some h else None)
                   else None)
      in \<lparr>uh_SubscriptionUserinfo = ui, uh_ProfileUpdateIntervalHours = hours\<rparr>)"

definition shapeMessage :: "shape_error \<Rightarrow> string" where
  "shapeMessage e = (case e of
      RootNotMapping \<Rightarrow> ''upstream payload is not a Clash YAML config (root is not a mapping '' @ EncodeRune 0x2014 @
        '' common cause: provider returned V2Ray-style base64 URL list because our User-Agent wasn't recognized as a Clash client; check UpstreamFetcher.UserAgent)''
    | NoClashKeys \<Rightarrow> ''upstream payload has no proxies / proxy-groups / rules at the top level '' @ EncodeRune 0x2014 @
        '' not a Clash subscription'')"

definition Fetch ::
  "(nat \<Rightarrow> nat) \<Rightarrow> (string \<Rightarrow> (string \<times> string \<times> string) option) \<Rightarrow> unmarshaller \<Rightarrow> (string \<Rightarrow> exchange) \<Rightarrow>
     string \<Rightarrow> time \<Rightarrow> time \<Rightarrow> SubscriptionRow \<Rightarrow>
     UpstreamCachedPayload option \<times> FetchResult \<times> fetch_error option" where
  "Fetch ulower urlSplit unmarshal network userAgent start stop source =
     (let res = \<lparr>fr_SourceName = row_Name source, fr_AttemptedAt = start, fr_Outcome = OutcomeNone,
            fr_HTTPStatus = 0, fr_PayloadBytes = 0, fr_Error = [], fr_Duration = 0\<rparr>;
          ua = requestUserAgent userAgent
      in case network ua of
        BuildFails msg \<Rightarrow>
          (None, res\<lparr>fr_Outcome := OutcomeNetworkError,
             fr_Error := sanitizeURLInError urlSplit msg (row_Link source), fr_Duration := stop - start\<rparr>, Some (BuildRequest msg))
      | DoFails deadline msg \<Rightarrow>
          (None, res\<lparr>fr_Duration := stop - start,
             fr_Outcome := (if deadline then OutcomeTimeout else OutcomeNetworkError),
             fr_Error := sanitizeURLInError urlSplit msg (row_Link source)\<rparr>, Some (Transport msg))
      | BodyFails status msg \<Rightarrow>
          (None, res\<lparr>fr_Outcome := OutcomeNetworkError, fr_HTTPStatus := status, fr_Error := msg,
             fr_Duration := stop - start\<rparr>, Some (ReadBody msg))
      | Answer status get body \<Rightarrow>
          let res = res\<lparr>fr_HTTPStatus := status, fr_PayloadBytes := length body\<rparr> in
          if status < 200 \<or> 300 \<le> status then
            (None, res\<lparr>fr_Outcome := OutcomeHTTPError, fr_Error := ''HTTP '' @ Itoa status,
               fr_Duration := stop - start\<rparr>, Some (HTTPStatus status))
          else
            let headers = captureHeaders ulower get in
            case unmarshal body of
              Inl e \<Rightarrow> (None, res\<lparr>fr_Outcome := OutcomeParseError, fr_Error := e,
                 fr_Duration := stop - start\<rparr>, Some (YAMLParse e))
            | Inr parsed \<Rightarrow>
                (case assertClashShape parsed of
                   Some e \<Rightarrow> (None, res\<lparr>fr_Outcome := OutcomeParseError, fr_Error := shapeMessage e,
                      fr_Duration := stop - start\<rparr>, Some (Shape e))
                 | None \<Rightarrow>
                     let payload = SetParsed parsed \<lparr>cp_SourceName = row_Name source, cp_FetchedAt = start,
                           cp_BodyYAML = body, cp_Headers = headers, cp_PayloadBytes = length body,
                           cp_parsedConfig = None\<rparr>
                     in (Some payload, res\<lparr>fr_Outcome := OutcomeSuccess, fr_Duration := stop - start\<rparr>, None)))"

text \<open>\<open>Error()\<close> of the returned error.  \<open>%q\<close> only adds the quotes here: source names
  are lower-case letters.\<close>

definition fetchErrorText :: "string \<Rightarrow> fetch_error \<Rightarrow> string" where
  "fetchErrorText name e = ''upstream '' @ [CHR 0x22] @ name @ [CHR 0x22] @ '': '' @ (case e of
      BuildRequest msg \<Rightarrow> ''build request: '' @ msg
    | Transport msg \<Rightarrow> msg
    | ReadBody msg \<Rightarrow> ''read body: '' @ msg
    | HTTPStatus status \<Rightarrow> ''HTTP '' @ Itoa status
    | YAMLParse msg \<Rightarrow> ''yaml parse: '' @ msg
    | Shape e \<Rightarrow> shapeMessage e)"

section \<open>Properties\<close>

lemma Parse_cached: "cp_parsedConfig p = Some n \<Longrightarrow> Parse unmarshal p = (Inr n, p)"
  by (simp add: Parse_def)

text \<open>C24: a fetch yields a payload exactly when the answer is a 2xx response whose body is a Clash
  configuration, and then, and only then, the outcome is success and there is no error.  The
  payload carries its parsed document, which is what later reads return, and that document is the
  unmarshalled body, so parsing never happens again and never fails.\<close>

theorem Fetch_success:
  "let (p, res, err) = Fetch ulower urlSplit unmarshal network ua start stop source in
   (fr_Outcome res = OutcomeSuccess) = (p \<noteq> None) \<and> (err = None) = (p \<noteq> None) \<and>
   fr_SourceName res = row_Name source \<and>
   (case p of
      None \<Rightarrow> (case network (requestUserAgent ua) of
          Answer status get body \<Rightarrow> status < 200 \<or> 300 \<le> status \<or>
            (case unmarshal body of Inl _ \<Rightarrow> True | Inr n \<Rightarrow> assertClashShape n \<noteq> None)
        | _ \<Rightarrow> True)
    | Some p \<Rightarrow> cp_SourceName p = row_Name source \<and>
        (case network (requestUserAgent ua) of
          Answer status get body \<Rightarrow> 200 \<le> status \<and> status < 300 \<and> cp_BodyYAML p = body \<and>
            unmarshal body = fst (Parse unmarshal p) \<and> snd (Parse unmarshal p) = p \<and>
            (case fst (Parse unmarshal p) of Inl _ \<Rightarrow> False | Inr n \<Rightarrow> assertClashShape n = None)
        | _ \<Rightarrow> False))"
  by (cases "network (requestUserAgent ua)")
    (auto simp: Fetch_def Let_def SetParsed_def Parse_def split: sum.splits option.splits)

lemma indexFrom_neg: "indexFrom i s sub < 0 \<longleftrightarrow> \<not> Contains s sub"
proof (induction i s sub rule: indexFrom.induct)
  case (1 i sub)
  then show ?case by simp
next
  case (2 i c s sub)
  then show ?case by simp
qed

lemma replaceAll_absent: "\<not> Contains s old \<Longrightarrow> replaceAll s old new = s"
  by (subst replaceAll_def, subst replaceLoop.simps) (simp add: indexOf_def indexFrom_neg)

end
