(* ===== verification/Logging.thy ===== *)
theory Logging
  imports Prelude
begin

text \<open>
  \<open>observability.New\<close> and what the sources use of \<open>log/slog\<close>: the levels, ordered by their
  numbers, a line as its level, message and fields, and a logger as its threshold and its writer.  The
  JSON text of a line is the library's.
\<close>

section \<open>Definitions\<close>

datatype logLevel = LevelDebug | LevelInfo | LevelWarn | LevelError

fun levelNumber :: "logLevel \<Rightarrow> int" where
  "levelNumber LevelDebug = - 4"
| "levelNumber LevelInfo = 0"
| "levelNumber LevelWarn = 4"
| "levelNumber LevelError = 8"

lemma levelNumber_eq_iff [simp]: "levelNumber a = levelNumber b \<longleftrightarrow> a = b"
  by (cases a; cases b) simp_all

instantiation logLevel :: linorder
begin

definition less_eq_logLevel :: "logLevel \<Rightarrow> logLevel \<Rightarrow> bool" where
  "less_eq_logLevel a b \<longleftrightarrow> levelNumber a \<le> levelNumber b"

definition less_logLevel :: "logLevel \<Rightarrow> logLevel \<Rightarrow> bool" where
  "less_logLevel a b \<longleftrightarrow> levelNumber a < levelNumber b"

instance
proof
  fix a b :: logLevel
  show "a \<le> b \<Longrightarrow> b \<le> a \<Longrightarrow> a = b"
    by (simp add: less_eq_logLevel_def)
qed (auto simp: less_eq_logLevel_def less_logLevel_def)

end

datatype logValue = LStr string | LInt int | LBool bool | LStrs "string list"

type_synonym logLine = "logLevel \<times> string \<times> (string \<times> logValue) list"

datatype logWriter = Stdout | Buffer nat

record Logger =
  lg_Level :: logLevel
  lg_Writer :: logWriter

definition New :: "logLevel \<Rightarrow> logWriter option \<Rightarrow> Logger" where
  "New level w = (let w = (case w of None \<Rightarrow> Stdout | Some w \<Rightarrow> w) in \<lparr>lg_Level = level, lg_Writer = w\<rparr>)"

definition Enabled :: "Logger \<Rightarrow> logLevel \<Rightarrow> bool" where
  "Enabled log level \<longleftrightarrow> lg_Level log \<le> level"

text \<open>What reaches the writer of the lines a program logs.\<close>

definition emitted :: "Logger \<Rightarrow> logLine list \<Rightarrow> logLine list" where
  "emitted log lines = filter (\<lambda>(level, _). Enabled log level) lines"

section \<open>Filtering\<close>

lemma Enabled_New [simp]: "Enabled (New level w) l \<longleftrightarrow> level \<le> l"
  by (simp add: Enabled_def New_def)

lemma LevelError_top [simp]: "l \<le> LevelError"
  by (cases l) (simp_all add: less_eq_logLevel_def)

lemma LevelDebug_bot [simp]: "LevelDebug \<le> l"
  by (cases l) (simp_all add: less_eq_logLevel_def)

lemma le_LevelDebug [simp]: "l \<le> LevelDebug \<longleftrightarrow> l = LevelDebug"
  by (cases l) (simp_all add: less_eq_logLevel_def)

text \<open>Lowering the threshold only adds lines.\<close>

lemma emitted_lower:
  assumes "lg_Level log' \<le> lg_Level log"
  shows "emitted log lines = filter (\<lambda>(level, _). Enabled log level) (emitted log' lines)"
  using assms by (auto simp: emitted_def Enabled_def intro!: filter_cong)

lemma emitted_append [simp]: "emitted log (xs @ ys) = emitted log xs @ emitted log ys"
  by (simp add: emitted_def)

end
