(* ===== verification/Pipeline.thy ===== *)
theory Pipeline
  imports Merge_Rules Ruleset Prune Fanout Region Traffic Fetcher Logging
begin

text \<open>
  \<open>internal/merge/pipeline.go\<close>: one build of the merged configuration from the cache, the
  configuration rows, the own proxies and the snapshot store.

  \<open>Build\<close> asks the cache twice for every source while the scheduler may be writing to it: for the
  payload to merge and, in a second loop, for its headers.  \<open>get\<close> and \<open>get'\<close> are \<open>CacheReader.Get\<close> in
  the two loops.  The snapshot store is a state \<open>st\<close> with the two operations of \<open>Snapshotter\<close> (\<open>None\<close>
  for a nil one).  \<open>BuildLogged\<close> is the whole function with the lines it logs (the text of a save
  error apart), \<open>Build\<close> and \<open>BuildLog\<close> are its projections.
\<close>

section \<open>Definitions\<close>

type_synonym cacheReader = "string \<Rightarrow> UpstreamCachedPayload option"
type_synonym 'st snapshotOps =
  "('st \<Rightarrow> load_error + Snapshot option) \<times> (Snapshot option \<Rightarrow> 'st \<Rightarrow> 'st \<times> save_error option)"

record MergedConfig =
  mc_Proxies :: "node list"
  mc_ProxyGroups :: "node list"
  mc_RuleProviders :: "node option"
  mc_Rules :: "string list"
  mc_RulePriorities :: "int list"
  mc_RuleContributors :: "string list"
  mc_ContributingSources :: "string list"
  mc_Collisions :: "ProxyCollision list"
  mc_GroupConflicts :: "GroupConflict list"
  mc_AggregatedSubscriptionUserinfo :: SubscriptionUserinfo
  mc_AggregatedProfileUpdateIntervalHours :: int
  mc_ServedTrafficHeader :: "ServedTrafficHeader option"

record Pipeline =
  p_subscriptions :: "SubscriptionRow list"
  p_ownProxies :: "node list"
  p_ownGroups :: "node list"
  p_defaultProfileUpdateIntervalHours :: int
  p_customRules :: "CustomRuleSet list"
  p_proxiesGroupName :: string
  p_fallbackRuleTarget :: string
  p_urlTestParams :: URLTestParams
  p_loadBalanceParams :: LoadBalanceParams
  p_budgetLocation :: "location option"

definition zeroURLTestParams :: URLTestParams where
  "zeroURLTestParams = \<lparr>ut_URL = [], ut_IntervalSeconds = 0, ut_TimeoutMS = 0, ut_MaxFailedTimes = 0, ut_Lazy = False\<rparr>"

definition zeroLoadBalanceParams :: LoadBalanceParams where
  "zeroLoadBalanceParams = \<lparr>lb_URL = [], lb_IntervalSeconds = 0, lb_TimeoutMS = 0, lb_MaxFailedTimes = 0,
     lb_Lazy = False, lb_Strategy = []\<rparr>"

definition NewPipeline :: "SubscriptionRow list \<Rightarrow> node list \<Rightarrow> node list \<Rightarrow> int \<Rightarrow> Pipeline" where
  "NewPipeline subs ownProxies ownGroups defaultUpdateIntervalHours =
     \<lparr>p_subscriptions = subs, p_ownProxies = ownProxies, p_ownGroups = ownGroups,
      p_defaultProfileUpdateIntervalHours = defaultUpdateIntervalHours, p_customRules = [],
      p_proxiesGroupName = ''Proxies'', p_fallbackRuleTarget = ''auto'',
      p_urlTestParams = zeroURLTestParams, p_loadBalanceParams = zeroLoadBalanceParams,
      p_budgetLocation = None\<rparr>"

definition WithProxiesGroupName :: "string \<Rightarrow> Pipeline \<Rightarrow> Pipeline" where
  "WithProxiesGroupName name p = (if name \<noteq> [] then p\<lparr>p_proxiesGroupName := name\<rparr> else p)"

definition WithCustomRules :: "CustomRuleSet list \<Rightarrow> Pipeline \<Rightarrow> Pipeline" where
  "WithCustomRules rules p = p\<lparr>p_customRules := rules\<rparr>"

definition WithFallbackRuleTarget :: "string \<Rightarrow> Pipeline \<Rightarrow> Pipeline" where
  "WithFallbackRuleTarget target p = (if target \<noteq> [] then p\<lparr>p_fallbackRuleTarget := target\<rparr> else p)"

definition WithURLTestParams :: "URLTestParams \<Rightarrow> Pipeline \<Rightarrow> Pipeline" where
  "WithURLTestParams params p = p\<lparr>p_urlTestParams := params\<rparr>"

definition WithLoadBalanceParams :: "LoadBalanceParams \<Rightarrow> Pipeline \<Rightarrow> Pipeline" where
  "WithLoadBalanceParams params p = p\<lparr>p_loadBalanceParams := params\<rparr>"

definition WithBudgetLocation :: "location option \<Rightarrow> Pipeline \<Rightarrow> Pipeline" where
  "WithBudgetLocation loc p = p\<lparr>p_budgetLocation := loc\<rparr>"

text \<open>Descending priority, ties in row order: the less function compares priorities with
  \<open>>\<close>, so the key is the negated priority.\<close>

definition sortSourcesByPriority :: "SubscriptionRow list \<Rightarrow> SubscriptionRow list" where
  "sortSourcesByPriority rows = sort_key (\<lambda>r. - row_Priority r) (filter row_Enable rows)"

subsection \<open>Reading the cache\<close>

record sources =
  so_proxies :: "string \<Rightarrow> node list"
  so_groups :: "string \<Rightarrow> node list"
  so_rules :: "string \<Rightarrow> string list"
  so_ruleProviders :: "string \<rightharpoonup> node"
  so_contributing :: "string list"

definition emptySources :: sources where
  "emptySources = \<lparr>so_proxies = (\<lambda>_. []), so_groups = (\<lambda>_. []), so_rules = (\<lambda>_. []),
     so_ruleProviders = Map.empty, so_contributing = []\<rparr>"

datatype build_error = ParseCachedPayload string string

definition readRoot :: "string \<Rightarrow> node \<Rightarrow> sources \<Rightarrow> sources" where
  "readRoot name rt so =
     (let so = (case findChildSequence (Some rt) ''proxies'' of
            Some seq \<Rightarrow> so\<lparr>so_proxies := (so_proxies so)(name := content seq)\<rparr> | None \<Rightarrow> so);
          so = (case findChildSequence (Some rt) ''proxy-groups'' of
            Some seq \<Rightarrow> so\<lparr>so_groups := (so_groups so)(name := content seq)\<rparr> | None \<Rightarrow> so);
          so = (case findChildSequence (Some rt) ''rules'' of
            Some seq \<Rightarrow> so\<lparr>so_rules := (so_rules so)
              (name := map nvalue (filter (\<lambda>n. nkind n = ScalarNode) (content seq)))\<rparr> | None \<Rightarrow> so);
          so = (case findChildMapping (Some rt) ''rule-providers'' of
            Some m \<Rightarrow> so\<lparr>so_ruleProviders := (so_ruleProviders so)(name \<mapsto> m)\<rparr> | None \<Rightarrow> so)
      in so\<lparr>so_contributing := so_contributing so @ [name]\<rparr>)"

fun readSources :: "unmarshaller \<Rightarrow> cacheReader \<Rightarrow> SubscriptionRow list \<Rightarrow> sources \<Rightarrow> build_error + sources" where
  "readSources unmarshal get [] so = Inr so"
| "readSources unmarshal get (row # rows) so =
     (case get (row_Name row) of
        None \<Rightarrow> readSources unmarshal get rows so
      | Some payload \<Rightarrow>
          (case fst (Parse unmarshal payload) of
             Inl e \<Rightarrow> Inl (ParseCachedPayload (row_Name row) e)
           | Inr doc \<Rightarrow> readSources unmarshal get rows (readRoot (row_Name row) (docRoot doc) so)))"

definition userinfoOf :: "cacheReader \<Rightarrow> string list \<Rightarrow> userinfos" where
  "userinfoOf get contributing = fold (\<lambda>name m. case get name of
      None \<Rightarrow> m
    | Some payload \<Rightarrow> (case uh_SubscriptionUserinfo (cp_Headers payload) of
        None \<Rightarrow> m | Some ui \<Rightarrow> AList.update name ui m)) contributing []"

definition intervalsOf :: "cacheReader \<Rightarrow> string list \<Rightarrow> (string \<times> int option) list" where
  "intervalsOf get contributing = fold (\<lambda>name m. case get name of
      None \<Rightarrow> m
    | Some payload \<Rightarrow> AList.update name (uh_ProfileUpdateIntervalHours (cp_Headers payload)) m) contributing []"

subsection \<open>Namespacing\<close>

text \<open>The loops also collect what is logged later: the malformed providers skipped and the
  \<open>RULE-SET\<close> rules dropped, each with its source.\<close>

type_synonym skippedProviderEvt = "string \<times> string"
type_synonym droppedRuleSetEvt = "string \<times> DroppedRuleSet"

definition namespaceSource ::
  "string \<Rightarrow> sources \<times> (string \<rightharpoonup> node) \<times> skippedProviderEvt list \<Rightarrow>
     sources \<times> (string \<rightharpoonup> node) \<times> skippedProviderEvt list" where
  "namespaceSource name = (\<lambda>(so, ns, skippedProviders).
     let (ps, gs, rs) = RewriteSource name (so_proxies so name) (so_groups so name) (so_rules so name);
         so = so\<lparr>so_proxies := (so_proxies so)(name := ps), so_groups := (so_groups so)(name := gs),
                so_rules := (so_rules so)(name := rs)\<rparr>
     in case so_ruleProviders so name of
          None \<Rightarrow> (so, ns, skippedProviders)
        | Some raw \<Rightarrow>
            let (n, skipped) = RewriteSourceRuleProviders name (Some raw)
            in (so, ns(name := n), skippedProviders @ map (\<lambda>s. (name, s)) skipped))"

definition dropUnbacked ::
  "(string \<rightharpoonup> node) \<Rightarrow> string \<Rightarrow> sources \<times> droppedRuleSetEvt list \<Rightarrow> sources \<times> droppedRuleSetEvt list" where
  "dropUnbacked ns name = (\<lambda>(so, droppedRuleSets).
     let keys = ruleProviderKeys (ns name);
         (kept, dropped) = DropUnbackedRuleSetRules (so_rules so name) keys
     in (so\<lparr>so_rules := (so_rules so)(name := kept)\<rparr>, droppedRuleSets @ map (\<lambda>d. (name, d)) dropped))"

text \<open>The names offered by the selector and the proxies the country groups are made of: own
  proxies are left out of both.\<close>

definition selectorNames :: "node list \<Rightarrow> string list" where
  "selectorNames merged =
     filter (\<lambda>name. \<not> (name = [] \<or> HasPrefix name ''_'')) (map (\<lambda>n. getMappingField n ''name'') merged)"

definition upstreamOnly :: "node list \<Rightarrow> node list" where
  "upstreamOnly merged =
     filter (\<lambda>n. let name = getMappingField n ''name'' in name \<noteq> [] \<and> hd name \<noteq> CHR ''_'') merged"

definition regionGroupsOf :: "node list \<Rightarrow> string list \<times> (string \<Rightarrow> string list)" where
  "regionGroupsOf groups =
     fold (\<lambda>g (names, members).
       let name = getMappingField g ''name'' in
       if length name > 8 \<and> take 8 name = ''_region_''
       then (names @ [name], members(name := mappingMembers g ''proxies'')) else (names, members))
       groups ([], \<lambda>_. [])"

definition eventLine :: "logLevel \<Rightarrow> string \<Rightarrow> string \<Rightarrow> (string \<times> logValue) list \<Rightarrow> logLine" where
  "eventLine level msg event attrs = (level, msg, (''event'', LStr event) # attrs)"

definition unmappedLine :: "string \<Rightarrow> string \<Rightarrow> string \<Rightarrow> logLine" where
  "unmappedLine event field x = eventLine LevelInfo event event [(field, LStr x)]"

text \<open>A fragment or country is logged when it is first seen.\<close>

definition mergeGroupsLogged ::
  "(nat \<Rightarrow> nat) \<Rightarrow> Pipeline \<Rightarrow> node list \<Rightarrow> node list \<Rightarrow> node list \<times> logLine list" where
  "mergeGroupsLogged ulower p mergedProxies mergedGroups =
     (let mergedGroups = AppendProxiesGroup mergedGroups (selectorNames mergedProxies) (p_proxiesGroupName p);
          (mergedGroups, fragments) = AppendRegionGroups ulower mergedGroups (upstreamOnly mergedProxies)
             (p_proxiesGroupName p) (p_urlTestParams p) (p_loadBalanceParams p);
          (regionGroupNames, regionGroupMembers) = regionGroupsOf mergedGroups;
          (mergedGroups, ccs) = AppendContinentGroups mergedGroups regionGroupNames regionGroupMembers
             (p_proxiesGroupName p) (p_urlTestParams p) (p_loadBalanceParams p)
      in (mergedGroups,
          map (unmappedLine ''region-unmapped-indicator'' ''fragment'') (add_unseen {} [] fragments) @
          map (unmappedLine ''continent-unmapped-country'' ''country_code'') (add_unseen {} [] ccs)))"

definition mergeGroups :: "(nat \<Rightarrow> nat) \<Rightarrow> Pipeline \<Rightarrow> node list \<Rightarrow> node list \<Rightarrow> node list" where
  "mergeGroups ulower p mergedProxies mergedGroups = fst (mergeGroupsLogged ulower p mergedProxies mergedGroups)"

lemma mergeGroups_eq:
  "mergeGroups ulower p mergedProxies mergedGroups =
     (let mergedGroups = AppendProxiesGroup mergedGroups (selectorNames mergedProxies) (p_proxiesGroupName p);
          mergedGroups = fst (AppendRegionGroups ulower mergedGroups (upstreamOnly mergedProxies)
             (p_proxiesGroupName p) (p_urlTestParams p) (p_loadBalanceParams p));
          (regionGroupNames, regionGroupMembers) = regionGroupsOf mergedGroups
      in fst (AppendContinentGroups mergedGroups regionGroupNames regionGroupMembers
             (p_proxiesGroupName p) (p_urlTestParams p) (p_loadBalanceParams p)))"
  by (simp add: mergeGroups_def mergeGroupsLogged_def Let_def split_beta)

definition fanoutTargetGroups :: "node list \<Rightarrow> nat" where
  "fanoutTargetGroups mergedGroups =
     fold (\<lambda>g count. let name = getMappingField g ''name'' in
       if HasPrefix name ''_region_'' \<or> HasPrefix name ''_continent_'' \<or> HasPrefix name ''_lb_region_'' \<or>
          HasPrefix name ''_lb_continent_'' then count + 1 else count) mergedGroups 0"

definition fanoutLine :: "nat \<Rightarrow> nat \<Rightarrow> nat \<Rightarrow> nat \<Rightarrow> logLine" where
  "fanoutLine ownProxyCount skipped targetGroups emittedCount =
     eventLine LevelInfo ''fanout-emitted'' ''fanout-emitted''
       [(''own_proxy_count'', LInt (int ownProxyCount)), (''skipped_explicit_dialer'', LInt (int skipped)),
        (''target_group_count'', LInt (int targetGroups)), (''emitted_count'', LInt (int emittedCount))]"

subsection \<open>The traffic header\<close>

text \<open>The new snapshot is saved when it is not the loaded one; the pointers differ exactly when
  the rollover captured a fresh one.  The line of a failed save also carries the text of its error,
  most of which is the operating system's; it is left out.\<close>

definition serveTrafficLogged ::
  "(rat \<Rightarrow> int) \<Rightarrow> 'st snapshotOps option \<Rightarrow> userinfos \<Rightarrow> time \<Rightarrow> time \<Rightarrow> location option \<Rightarrow> 'st \<Rightarrow>
     ServedTrafficHeader option \<times> 'st \<times> logLine list" where
  "serveTrafficLogged cvt ops userinfos clk1 clk2 loc st = (case ops of
      None \<Rightarrow> (ComposeServedTrafficHeader cvt userinfos clk1 clk2, st, [])
    | Some (load, save) \<Rightarrow>
        let loaded = (case load st of Inl _ \<Rightarrow> None | Inr s \<Rightarrow> s);
            (header, new) = ComposeServedTrafficHeaderWithSpend cvt userinfos clk1 clk2 loaded loc;
            fresh = (case header of None \<Rightarrow> False | Some h \<Rightarrow> th_RolloverFired h)
        in if new \<noteq> None \<and> fresh
           then (case save new st of
               (st, None) \<Rightarrow> (header, st, [])
             | (st, Some _) \<Rightarrow> (header, st,
                 [eventLine LevelWarn ''dailyspend snapshot save failed'' ''dailyspend-save-failed'' []]))
           else (header, st, []))"

definition serveTraffic ::
  "(rat \<Rightarrow> int) \<Rightarrow> 'st snapshotOps option \<Rightarrow> userinfos \<Rightarrow> time \<Rightarrow> time \<Rightarrow> location option \<Rightarrow> 'st \<Rightarrow>
     ServedTrafficHeader option \<times> 'st" where
  "serveTraffic cvt ops userinfos clk1 clk2 loc st =
     (case serveTrafficLogged cvt ops userinfos clk1 clk2 loc st of (header, st, _) \<Rightarrow> (header, st))"

subsection \<open>What the pruning and the rule sets log\<close>

definition retargetLine :: "RuleRetarget \<Rightarrow> logLine" where
  "retargetLine rt = eventLine LevelInfo ''rule-retargeted'' ''rule-retargeted''
     [(''rule_index'', LInt (int (rt_RuleIndex rt))), (''old_target'', LStr (rt_OldTarget rt)),
      (''new_target'', LStr (rt_NewTarget rt))]"

definition pruneLines :: "PruneResult \<Rightarrow> logLine list" where
  "pruneLines pruneResult =
     (if length (pr_RemovedGroups pruneResult) > 0 \<or> length (pr_Retargets pruneResult) > 0 then
        eventLine LevelInfo ''proxy-groups-pruned'' ''proxy-groups-pruned''
          [(''removed_count'', LInt (int (length (pr_RemovedGroups pruneResult)))),
           (''removed'', LStrs (pr_RemovedGroups pruneResult)),
           (''retargeted_rules'', LInt (int (length (pr_Retargets pruneResult))))] #
        map retargetLine (pr_Retargets pruneResult)
      else [])"

definition orderedNSRuleProviders :: "string list \<Rightarrow> (string \<rightharpoonup> node) \<Rightarrow> node list" where
  "orderedNSRuleProviders contributing ns = List.map_filter ns contributing"

definition droppedLine :: "droppedRuleSetEvt \<Rightarrow> logLine" where
  "droppedLine = (\<lambda>(source, d). eventLine LevelInfo ''ruleset-rule-dropped'' ''ruleset-rule-dropped''
     [(''source'', LStr source), (''provider'', LStr (drs_Provider d)), (''rule'', LStr (drs_Rule d))])"

definition skippedLine :: "skippedProviderEvt \<Rightarrow> logLine" where
  "skippedLine = (\<lambda>(source, provider). eventLine LevelInfo ''ruleset-provider-skipped'' ''ruleset-provider-skipped''
     [(''source'', LStr source), (''provider'', LStr provider), (''reason'', LStr ''malformed'')])"

definition rulesetLines ::
  "node option \<Rightarrow> droppedRuleSetEvt list \<Rightarrow> skippedProviderEvt list \<Rightarrow> logLine list" where
  "rulesetLines ruleProviders droppedRuleSets skippedProviders =
     map droppedLine droppedRuleSets @ map skippedLine skippedProviders @
     (if ruleProviders \<noteq> None \<or> length droppedRuleSets > 0 \<or> length skippedProviders > 0 then
        let mergedCount = (case ruleProviders of None \<Rightarrow> 0 | Some m \<Rightarrow> length (content m) div 2) in
        [eventLine LevelInfo ''ruleset-merged'' ''ruleset-merged''
           [(''providers_merged'', LInt (int mergedCount)),
            (''rules_dropped'', LInt (int (length droppedRuleSets))),
            (''providers_skipped'', LInt (int (length skippedProviders)))]]
      else [])"

subsection \<open>Build\<close>

definition BuildLogged ::
  "(nat \<Rightarrow> nat) \<Rightarrow> (rat \<Rightarrow> int) \<Rightarrow> unmarshaller \<Rightarrow> cacheReader \<Rightarrow> cacheReader \<Rightarrow> 'st snapshotOps option \<Rightarrow>
     Pipeline \<Rightarrow> time \<Rightarrow> time \<Rightarrow> 'st \<Rightarrow> (build_error + MergedConfig) \<times> 'st \<times> logLine list" where
  "BuildLogged ulower cvt unmarshal get get' ops p clk1 clk2 st =
     (let rows = sortSourcesByPriority (p_subscriptions p) in
      case readSources unmarshal get rows emptySources of
        Inl e \<Rightarrow> (Inl e, st, [])
      | Inr so \<Rightarrow>
          let contributing = so_contributing so;
              userinfoPerSource = userinfoOf get' contributing;
              intervalPerSource = intervalsOf get' contributing;
              (so, nsRuleProviders, skippedProviders) = fold namespaceSource contributing (so, Map.empty, []);
              (so, droppedRuleSets) = fold (dropUnbacked nsRuleProviders) contributing (so, []);
              (ownProxies, ownGroups) = RewriteOwn (p_ownProxies p) (p_ownGroups p);
              (mergedProxies, collisions) = MergeProxies (so_proxies so) contributing ownProxies;
              (mergedGroups, conflicts) = MergeProxyGroups (so_groups so) contributing ownGroups;
              mergedRules = MergeUnifiedRules (so_rules so) rows (p_customRules p) (p_fallbackRuleTarget p);
              (mergedGroups, groupLines) = mergeGroupsLogged ulower p mergedProxies mergedGroups;
              (fanoutProxies, fanoutSkipped) = AppendFanoutProxies ownProxies mergedGroups (p_proxiesGroupName p);
              mergedProxies = mergedProxies @ fanoutProxies;
              fanout = fanoutLine (length ownProxies) fanoutSkipped (fanoutTargetGroups mergedGroups) (length fanoutProxies);
              aggregatedUI = AggregateSubscriptionUserinfo userinfoPerSource;
              aggregatedInterval = AggregateProfileUpdateInterval intervalPerSource
                (p_defaultProfileUpdateIntervalHours p);
              (header, st, trafficLines) =
                serveTrafficLogged cvt ops userinfoPerSource clk1 clk2 (p_budgetLocation p) st;
              (prunedGroups, prunedRules, pruneResult) = PruneEmptyProxyGroups mergedGroups (mr_Rules mergedRules)
                (p_proxiesGroupName p) (p_fallbackRuleTarget p);
              referenced = ReferencedRuleProviders prunedRules;
              ruleProviders = MergeRuleProviders (orderedNSRuleProviders contributing nsRuleProviders) referenced
          in (Inr \<lparr>mc_Proxies = mergedProxies, mc_ProxyGroups = prunedGroups, mc_RuleProviders = ruleProviders,
                 mc_Rules = prunedRules, mc_RulePriorities = mr_Priorities mergedRules,
                 mc_RuleContributors = mr_Contributors mergedRules, mc_ContributingSources = contributing,
                 mc_Collisions = collisions, mc_GroupConflicts = conflicts,
                 mc_AggregatedSubscriptionUserinfo = aggregatedUI,
                 mc_AggregatedProfileUpdateIntervalHours = aggregatedInterval,
                 mc_ServedTrafficHeader = header\<rparr>, st,
              groupLines @ [fanout] @ trafficLines @ pruneLines pruneResult @
              rulesetLines ruleProviders droppedRuleSets skippedProviders))"

definition Build ::
  "(nat \<Rightarrow> nat) \<Rightarrow> (rat \<Rightarrow> int) \<Rightarrow> unmarshaller \<Rightarrow> cacheReader \<Rightarrow> cacheReader \<Rightarrow> 'st snapshotOps option \<Rightarrow>
     Pipeline \<Rightarrow> time \<Rightarrow> time \<Rightarrow> 'st \<Rightarrow> (build_error + MergedConfig) \<times> 'st" where
  "Build ulower cvt unmarshal get get' ops p clk1 clk2 st =
     (case BuildLogged ulower cvt unmarshal get get' ops p clk1 clk2 st of (r, st, _) \<Rightarrow> (r, st))"

definition BuildLog ::
  "(nat \<Rightarrow> nat) \<Rightarrow> (rat \<Rightarrow> int) \<Rightarrow> unmarshaller \<Rightarrow> cacheReader \<Rightarrow> cacheReader \<Rightarrow> 'st snapshotOps option \<Rightarrow>
     Pipeline \<Rightarrow> time \<Rightarrow> time \<Rightarrow> 'st \<Rightarrow> logLine list" where
  "BuildLog ulower cvt unmarshal get get' ops p clk1 clk2 st =
     snd (snd (BuildLogged ulower cvt unmarshal get get' ops p clk1 clk2 st))"

lemma BuildLogged_split:
  "BuildLogged ulower cvt unmarshal get get' ops p clk1 clk2 st =
     (fst (Build ulower cvt unmarshal get get' ops p clk1 clk2 st),
      snd (Build ulower cvt unmarshal get get' ops p clk1 clk2 st),
      BuildLog ulower cvt unmarshal get get' ops p clk1 clk2 st)"
  by (simp add: Build_def BuildLog_def split: prod.split)

definition CollectPerSourceUserinfo :: "cacheReader \<Rightarrow> Pipeline \<Rightarrow> userinfos" where
  "CollectPerSourceUserinfo get p = fold (\<lambda>row out.
     if \<not> row_Enable row then out
     else case get (row_Name row) of
       None \<Rightarrow> out
     | Some payload \<Rightarrow> (case uh_SubscriptionUserinfo (cp_Headers payload) of
         None \<Rightarrow> out | Some ui \<Rightarrow> AList.update (row_Name row) ui out)) (p_subscriptions p) []"

definition PipelineDailyAllowance :: "(rat \<Rightarrow> int) \<Rightarrow> cacheReader \<Rightarrow> Pipeline \<Rightarrow> time \<Rightarrow> DailyAllowance" where
  "PipelineDailyAllowance cvt get p clk = ComputeDailyAllowance cvt (CollectPerSourceUserinfo get p) clk"

lemmas Build_unfold = Build_def BuildLogged_def

section \<open>Sources\<close>

text \<open>What a source's cached document offers.\<close>

definition cachedDoc :: "unmarshaller \<Rightarrow> cacheReader \<Rightarrow> string \<Rightarrow> node option" where
  "cachedDoc unmarshal get s = (case get s of
      None \<Rightarrow> None
    | Some payload \<Rightarrow> (case fst (Parse unmarshal payload) of Inl _ \<Rightarrow> None | Inr doc \<Rightarrow> Some (docRoot doc)))"

definition cachedList :: "unmarshaller \<Rightarrow> cacheReader \<Rightarrow> string \<Rightarrow> string \<Rightarrow> node list" where
  "cachedList unmarshal get key s =
     (case findChildSequence (cachedDoc unmarshal get s) key of None \<Rightarrow> [] | Some seq \<Rightarrow> content seq)"

lemma readRoot_sel:
  "so_contributing (readRoot name rt so) = so_contributing so @ [name]"
  "so_proxies (readRoot name rt so) = (case findChildSequence (Some rt) ''proxies'' of
     None \<Rightarrow> so_proxies so | Some seq \<Rightarrow> (so_proxies so)(name := content seq))"
  "so_groups (readRoot name rt so) = (case findChildSequence (Some rt) ''proxy-groups'' of
     None \<Rightarrow> so_groups so | Some seq \<Rightarrow> (so_groups so)(name := content seq))"
  by (simp_all add: readRoot_def Let_def split: option.split)

lemma readSources_contributing:
  "readSources unmarshal get rows so = Inr so' \<Longrightarrow>
     so_contributing so' = so_contributing so @ map row_Name (filter (\<lambda>r. get (row_Name r) \<noteq> None) rows)"
  by (induction unmarshal get rows so rule: readSources.induct)
    (auto simp: readRoot_sel split: option.splits sum.splits)

text \<open>Each source is read once, so its entry is what its own document holds.\<close>

lemma readSources_lists:
  assumes "readSources unmarshal get rows so = Inr so'" and "distinct (map row_Name rows)"
  shows "(s \<notin> row_Name ` set rows \<longrightarrow> so_proxies so' s = so_proxies so s \<and> so_groups so' s = so_groups so s) \<and>
     (s \<in> row_Name ` set rows \<longrightarrow> so_proxies so s = [] \<longrightarrow> so_proxies so' s = cachedList unmarshal get ''proxies'' s) \<and>
     (s \<in> row_Name ` set rows \<longrightarrow> so_groups so s = [] \<longrightarrow> so_groups so' s = cachedList unmarshal get ''proxy-groups'' s)"
  using assms
proof (induction unmarshal get rows so rule: readSources.induct)
  case (1 unmarshal get so)
  then show ?case by simp
next
  case (2 unmarshal get row rows so)
  show ?case
  proof (cases "get (row_Name row)")
    case None
    have "cachedList unmarshal get k (row_Name row) = []" for k
      using None by (simp add: cachedList_def cachedDoc_def findChildSequence_def)
    with None 2 show ?thesis by auto
  next
    case (Some payload)
    with 2(3) obtain doc where doc: "fst (Parse unmarshal payload) = Inr doc" by (auto split: sum.splits)
    let ?so = "readRoot (row_Name row) (docRoot doc) so"
    have cd: "cachedDoc unmarshal get (row_Name row) = Some (docRoot doc)"
      using Some doc by (simp add: cachedDoc_def)
    have rest: "readSources unmarshal get rows ?so = Inr so'" using 2(3) Some doc by simp
    have dist: "distinct (map row_Name rows)" "row_Name row \<notin> row_Name ` set rows" using 2(4) by auto
    note IH = 2(2) [OF Some doc rest dist(1)]
    have other: "so_proxies ?so s = so_proxies so s" "so_groups ?so s = so_groups so s" if "s \<noteq> row_Name row"
      using that by (simp_all add: readRoot_sel split: option.split)
    show ?thesis
    proof (cases "s = row_Name row")
      case True
      have "so_proxies so s = [] \<Longrightarrow> so_proxies ?so s = cachedList unmarshal get ''proxies'' s"
        "so_groups so s = [] \<Longrightarrow> so_groups ?so s = cachedList unmarshal get ''proxy-groups'' s"
        using True cd by (simp_all add: readRoot_sel cachedList_def split: option.split)
      then show ?thesis using IH dist True by auto
    next
      case False
      then show ?thesis using IH other by auto
    qed
  qed
qed

lemma namespaceSource_sel:
  "so_proxies (fst (namespaceSource name (so, ns))) =
     (so_proxies so)(name := map (prefixName (name @ ''_'')) (so_proxies so name))"
  "so_groups (fst (namespaceSource name (so, ns))) =
     (so_groups so)(name := map (\<lambda>g. rewriteGroupMembers (prefixName (name @ ''_'') g) name) (so_groups so name))"
  by (simp_all add: namespaceSource_def RewriteSource_def Let_def split: option.split prod.split)

lemma namespace_fold:
  "distinct names \<Longrightarrow>
   so_proxies (fst (fold namespaceSource names (so, ns))) s =
     (if s \<in> set names then map (prefixName (s @ ''_'')) (so_proxies so s) else so_proxies so s) \<and>
   so_groups (fst (fold namespaceSource names (so, ns))) s =
     (if s \<in> set names then map (\<lambda>g. rewriteGroupMembers (prefixName (s @ ''_'') g) s) (so_groups so s)
      else so_groups so s)"
proof (induction names arbitrary: so ns)
  case Nil
  then show ?case by simp
next
  case (Cons name names)
  obtain so1 ns1 where st: "namespaceSource name (so, ns) = (so1, ns1)" by (cases "namespaceSource name (so, ns)")
  have p: "so_proxies so1 = (so_proxies so)(name := map (prefixName (name @ ''_'')) (so_proxies so name))"
    "so_groups so1 = (so_groups so)(name := map (\<lambda>g. rewriteGroupMembers (prefixName (name @ ''_'') g) name) (so_groups so name))"
    using namespaceSource_sel [of name so ns] by (simp_all add: st)
  have "distinct names" "name \<notin> set names" using Cons.prems by auto
  with Cons.IH [OF this(1), of so1 ns1] show ?case by (auto simp: st p)
qed

lemma dropUnbacked_fold:
  "so_proxies (fst (fold (dropUnbacked ns) names (so, evts))) = so_proxies so \<and>
   so_groups (fst (fold (dropUnbacked ns) names (so, evts))) = so_groups so"
  by (induction names arbitrary: so evts) (simp_all add: dropUnbacked_def split: prod.split)

lemma distinct_contributing:
  assumes "distinct (map row_Name rows)"
  shows "distinct (map row_Name (filter P (sortSourcesByPriority rows)))"
proof -
  have "distinct (map row_Name (filter row_Enable rows))" using assms by (simp add: distinct_map_filter)
  then have "distinct (map row_Name (sortSourcesByPriority rows))"
    unfolding sortSourcesByPriority_def by (simp only: sk.sorter_distinct)
  then show ?thesis by (rule distinct_map_filter)
qed

lemma set_sortSources: "set (sortSourcesByPriority rows) = {r \<in> set rows. row_Enable r}"
  by (auto simp: sortSourcesByPriority_def)

section \<open>Decomposition of a successful build\<close>

text \<open>The intermediate results of a build that the theorems refer to.\<close>

record stages =
  sg_contributing :: "string list"
  sg_own :: "node list"
  sg_merged :: "node list"
  sg_collisions :: "ProxyCollision list"
  sg_groups0 :: "node list"
  sg_groups :: "node list"
  sg_rules :: MergeResult
  sg_sourceRules :: "string \<Rightarrow> string list"
  sg_providers :: "string \<rightharpoonup> node"
  sg_skipped :: "skippedProviderEvt list"
  sg_dropped :: "droppedRuleSetEvt list"

definition buildStages :: "(nat \<Rightarrow> nat) \<Rightarrow> unmarshaller \<Rightarrow> cacheReader \<Rightarrow> Pipeline \<Rightarrow> stages option" where
  "buildStages ulower unmarshal get p =
     (let rows = sortSourcesByPriority (p_subscriptions p) in
      case readSources unmarshal get rows emptySources of
        Inl e \<Rightarrow> None
      | Inr so \<Rightarrow>
          let cs = so_contributing so;
              (so, ns, skipped) = fold namespaceSource cs (so, Map.empty, []);
              (so, dropped) = fold (dropUnbacked ns) cs (so, []);
              (ownP, ownG) = RewriteOwn (p_ownProxies p) (p_ownGroups p);
              (merged, coll) = MergeProxies (so_proxies so) cs ownP;
              groups0 = fst (MergeProxyGroups (so_groups so) cs ownG)
          in Some \<lparr>sg_contributing = cs, sg_own = ownP, sg_merged = merged, sg_collisions = coll,
                sg_groups0 = groups0, sg_groups = mergeGroups ulower p merged groups0,
                sg_rules = MergeUnifiedRules (so_rules so) rows (p_customRules p) (p_fallbackRuleTarget p),
                sg_sourceRules = so_rules so, sg_providers = ns, sg_skipped = skipped, sg_dropped = dropped\<rparr>)"

lemma Build_stages:
  assumes "Build ulower cvt unmarshal get get' ops p clk1 clk2 st = (Inr mc, st')"
  shows "\<exists>sg. buildStages ulower unmarshal get p = Some sg \<and>
     mc_Proxies mc = sg_merged sg @ fst (AppendFanoutProxies (sg_own sg) (sg_groups sg) (p_proxiesGroupName p)) \<and>
     mc_Collisions mc = sg_collisions sg \<and> mc_ContributingSources mc = sg_contributing sg \<and>
     (mc_ProxyGroups mc, mc_Rules mc) =
       (case PruneEmptyProxyGroups (sg_groups sg) (mr_Rules (sg_rules sg)) (p_proxiesGroupName p) (p_fallbackRuleTarget p)
        of (gs, rs, _) \<Rightarrow> (gs, rs)) \<and>
     mc_RulePriorities mc = mr_Priorities (sg_rules sg) \<and> mc_RuleContributors mc = mr_Contributors (sg_rules sg) \<and>
     mc_RuleProviders mc = MergeRuleProviders (orderedNSRuleProviders (sg_contributing sg) (sg_providers sg))
       (ReferencedRuleProviders (mc_Rules mc)) \<and>
     (mc_ServedTrafficHeader mc, st') =
       serveTraffic cvt ops (userinfoOf get' (sg_contributing sg)) clk1 clk2 (p_budgetLocation p) st"
  using assms
  by (auto simp: Build_unfold buildStages_def mergeGroups_def serveTraffic_def Let_def split: sum.splits prod.splits)

lemma BuildLog_stages:
  assumes "Build ulower cvt unmarshal get get' ops p clk1 clk2 st = (Inr mc, st')"
    and "buildStages ulower unmarshal get p = Some sg"
  shows "BuildLog ulower cvt unmarshal get get' ops p clk1 clk2 st =
     snd (mergeGroupsLogged ulower p (sg_merged sg) (sg_groups0 sg)) @
     [fanoutLine (length (sg_own sg)) (snd (AppendFanoutProxies (sg_own sg) (sg_groups sg) (p_proxiesGroupName p)))
        (fanoutTargetGroups (sg_groups sg))
        (length (fst (AppendFanoutProxies (sg_own sg) (sg_groups sg) (p_proxiesGroupName p))))] @
     snd (snd (serveTrafficLogged cvt ops (userinfoOf get' (sg_contributing sg)) clk1 clk2 (p_budgetLocation p) st)) @
     pruneLines (snd (snd (PruneEmptyProxyGroups (sg_groups sg) (mr_Rules (sg_rules sg))
        (p_proxiesGroupName p) (p_fallbackRuleTarget p)))) @
     rulesetLines (mc_RuleProviders mc) (sg_dropped sg) (sg_skipped sg)"
  using assms
  by (auto simp: Build_unfold BuildLog_def buildStages_def mergeGroups_def Let_def split: sum.splits prod.splits)

section \<open>One allowance per local day\<close>

lemma serveTraffic_ops:
  "serveTraffic cvt (Some (load, save)) m c t loc st =
     (let loaded = (case load st of Inl _ \<Rightarrow> None | Inr s \<Rightarrow> s);
          (header, new) = ComposeServedTrafficHeaderWithSpend cvt m c t loaded loc in
      if new \<noteq> None \<and> (case header of None \<Rightarrow> False | Some h \<Rightarrow> th_RolloverFired h)
      then (header, fst (save new st)) else (header, st))"
  by (auto simp: serveTraffic_def serveTrafficLogged_def Let_def split: prod.splits option.splits)

lemma Compose_Nil [simp]: "ComposeServedTrafficHeaderWithSpend cvt [] c t snap loc = (None, snap)"
  by (simp add: ComposeServedTrafficHeaderWithSpend_def)

context snapshotter
begin

lemma serve_step:
  assumes "m \<noteq> []"
  obtains h s where "ComposeServedTrafficHeaderWithSpend cvt m c t (held st) loc = (Some h, Some s)"
    and "th_DailyAllowanceBytes h = sn_AllowanceTodayBytes s"
    and "sn_LocalDate s = formatDate (localDay (location_of loc) t)"
    and "th_RolloverFired h = IsRolloverNeeded (held st) t loc"
    and "\<not> th_RolloverFired h \<Longrightarrow> held st = Some s"
    and "serveTraffic cvt (Some (load, save)) m c t loc st =
           (Some h, if th_RolloverFired h then fst (save (Some s) st) else st)"
proof -
  obtain h s where hs: "ComposeServedTrafficHeaderWithSpend cvt m c t (held st) loc = (Some h, Some s)"
    "th_DailyAllowanceBytes h = sn_AllowanceTodayBytes s"
    "th_RolloverFired h = IsRolloverNeeded (held st) t loc"
    "\<not> IsRolloverNeeded (held st) t loc \<longrightarrow> held st = Some s"
    "sn_LocalDate s = formatDate (localDay (location_of loc) t)"
    using Compose_snapshot [OF assms] by blast
  moreover have "serveTraffic cvt (Some (load, save)) m c t loc st =
      (Some h, if th_RolloverFired h then fst (save (Some s) st) else st)"
    using hs(1) by (simp add: serveTraffic_ops held_def Let_def)
  ultimately show ?thesis using that by blast
qed

lemma serve_pinned:
  assumes h1: "serveTraffic cvt (Some (load, save)) m1 c1 t1 loc st = (Some h1, st1)"
    and ok: "\<And>s. snd (save (Some s) st) = None"
    and acc: "\<And>h s. ComposeServedTrafficHeaderWithSpend cvt m1 c1 t1 (held st) loc = (h, Some s) \<Longrightarrow> acceptable s"
    and day: "localDay (location_of loc) t2 = localDay (location_of loc) t1" and m2: "m2 \<noteq> []"
  shows "\<exists>h2. serveTraffic cvt (Some (load, save)) m2 c2 t2 loc st1 = (Some h2, st1) \<and>
     \<not> th_RolloverFired h2 \<and> th_DailyAllowanceBytes h2 = th_DailyAllowanceBytes h1"
proof -
  have "m1 \<noteq> []"
    using h1 by (auto simp: serveTraffic_ops Let_def)
  from serve_step [OF this, of cvt c1 t1 st loc] obtain h s where
    s: "ComposeServedTrafficHeaderWithSpend cvt m1 c1 t1 (held st) loc = (Some h, Some s)"
       "th_DailyAllowanceBytes h = sn_AllowanceTodayBytes s"
       "sn_LocalDate s = formatDate (localDay (location_of loc) t1)"
       "\<not> th_RolloverFired h \<Longrightarrow> held st = Some s"
       "serveTraffic cvt (Some (load, save)) m1 c1 t1 loc st =
           (Some h, if th_RolloverFired h then fst (save (Some s) st) else st)" by blast
  have "save (Some s) st = (fst (save (Some s) st), None)" using ok [of s] by (metis prod.collapse)
  from load_save [OF this acc [OF s(1)]] have "held (fst (save (Some s) st)) = Some s" by (simp add: held_def)
  with s h1 have held1: "held st1 = Some s" and hh: "h = h1" by (auto split: if_splits)
  from serve_step [OF m2, of cvt c2 t2 st1 loc] obtain h2 s2 where
    s2: "th_DailyAllowanceBytes h2 = sn_AllowanceTodayBytes s2"
       "th_RolloverFired h2 = IsRolloverNeeded (held st1) t2 loc"
       "\<not> th_RolloverFired h2 \<Longrightarrow> held st1 = Some s2"
       "serveTraffic cvt (Some (load, save)) m2 c2 t2 loc st1 =
           (Some h2, if th_RolloverFired h2 then fst (save (Some s2) st1) else st1)" by blast
  have "\<not> th_RolloverFired h2" using s2(2) held1 s(3) day by (simp add: IsRolloverNeeded_def)
  with s2 held1 s(2) hh show ?thesis by auto
qed

end

lemma FileLoad_valid: "FileLoad path fs = Inr (Some s) \<Longrightarrow> validateSnapshot (Some s)"
  by (auto simp: FileLoad_def split: fileState.splits content.splits if_splits)

lemma disk_pinned:
  assumes "serveTraffic cvt (Some (FileLoad path, FileSave path None)) m1 c1 t1 loc fs = (Some h1, fs1)"
    and "\<forall>(n, ui)\<in>set m1. sane ui" and "0 \<le> th_DailyAllowanceBytes h1"
    and "parsesAsDate (formatDate (localDay (location_of loc) t1))"
    and "localDay (location_of loc) t2 = localDay (location_of loc) t1" and "m2 \<noteq> []"
  shows "\<exists>h2. serveTraffic cvt (Some (FileLoad path, FileSave path None)) m2 c2 t2 loc fs1 = (Some h2, fs1) \<and>
     \<not> th_RolloverFired h2 \<and> th_DailyAllowanceBytes h2 = th_DailyAllowanceBytes h1"
proof (rule disk.serve_pinned [OF assms(1)])
  show "snd (FileSave path None (Some s) fs) = None" for s by (simp add: FileSave_def)
  show "localDay (location_of loc) t2 = localDay (location_of loc) t1" "m2 \<noteq> []" using assms(5,6) .
  fix h s
  assume c: "ComposeServedTrafficHeaderWithSpend cvt m1 c1 t1 (disk.held path fs) loc = (h, Some s)"
  have m1: "m1 \<noteq> []" using assms(1) by (auto simp: serveTraffic_ops Let_def)
  show "validateSnapshot (Some s)"
  proof (cases "IsRolloverNeeded (disk.held path fs) t1 loc")
    case True
    obtain a where s: "s = CaptureSnapshot m1 a t1 loc"
      using c True m1 by (auto simp: ComposeServedTrafficHeaderWithSpend_def Let_def split: prod.splits)
    obtain h' s' where "ComposeServedTrafficHeaderWithSpend cvt m1 c1 t1 (disk.held path fs) loc = (Some h', Some s')"
      "th_DailyAllowanceBytes h' = sn_AllowanceTodayBytes s'"
      "serveTraffic cvt (Some (FileLoad path, FileSave path None)) m1 c1 t1 loc fs =
         (Some h', if th_RolloverFired h' then fst (FileSave path None (Some s') fs) else fs)"
      by (rule disk.serve_step [OF m1])
    with c assms(1,3) have "0 \<le> sn_AllowanceTodayBytes s" by auto
    moreover have "list_all (\<lambda>(_, r). \<not> (r < 0 \<or> 1 < r)) (sn_BaselineUploadRatios s)"
      using CaptureSnapshot_ratios [OF assms(2), of a t1 loc] unfolding s by (auto simp: list_all_iff)
    moreover have "sn_LocalDate s = formatDate (localDay (location_of loc) t1)"
      by (simp add: s CaptureSnapshot_def)
    ultimately show ?thesis using assms(4) by (simp add: validateSnapshot_def)
  next
    case False
    then obtain s0 where s0: "disk.held path fs = Some s0"
      by (cases "disk.held path fs") (auto simp: IsRolloverNeeded_def)
    from Compose_snapshot [OF m1, of cvt c1 t1 "disk.held path fs" loc] c False s0 have "s = s0" by auto
    with s0 have "FileLoad path fs = Inr (Some s)" by (auto simp: disk.held_def split: sum.splits)
    then show ?thesis by (rule FileLoad_valid)
  qed
qed

text \<open>C12: one allowance per local day, for requests one after the other.  Take a request with a traffic
  header from at least one source, with upload and download counters that are not negative and add up within 64 bits, on a day whose date parses, and
  let its save of the snapshot, if it makes one, succeed.  It is served a header; if the allowance in it
  is not negative, the next request of the same local day with a header from at least one source,
  whatever its counters and its clock, is served the same daily allowance, without a rollover and
  without touching the file, so that the same holds of the one after it.\<close>

theorem allowance_pinned_for_the_day:
  assumes "m1 \<noteq> []" and "\<forall>(n, ui)\<in>set m1. sane ui"
    and "parsesAsDate (formatDate (localDay (location_of loc) t1))"
    and "localDay (location_of loc) t2 = localDay (location_of loc) t1" and "m2 \<noteq> []"
  shows "\<exists>h1 fs1. serveTraffic cvt (Some (FileLoad path, FileSave path None)) m1 c1 t1 loc fs = (Some h1, fs1) \<and>
     (0 \<le> th_DailyAllowanceBytes h1 \<longrightarrow>
      (\<exists>h2. serveTraffic cvt (Some (FileLoad path, FileSave path None)) m2 c2 t2 loc fs1 = (Some h2, fs1) \<and>
        \<not> th_RolloverFired h2 \<and> th_DailyAllowanceBytes h2 = th_DailyAllowanceBytes h1))"
proof -
  obtain h1 fs1 where s: "serveTraffic cvt (Some (FileLoad path, FileSave path None)) m1 c1 t1 loc fs = (Some h1, fs1)"
    by (rule disk.serve_step [OF assms(1)]) blast
  from disk_pinned [OF s assms(2) _ assms(3-5), of c2] s show ?thesis by blast
qed

section \<open>Rules\<close>

text \<open>Every cached payload of an enabled source has a document.\<close>

definition parseable :: "unmarshaller \<Rightarrow> cacheReader \<Rightarrow> SubscriptionRow list \<Rightarrow> bool" where
  "parseable unmarshal get rows = list_all (\<lambda>r. row_Enable r \<longrightarrow> (case get (row_Name r) of
      None \<Rightarrow> True
    | Some payload \<Rightarrow> (case fst (Parse unmarshal payload) of Inl _ \<Rightarrow> False | Inr _ \<Rightarrow> True))) rows"

lemma readSources_total:
  "(\<exists>so'. readSources unmarshal get rows so = Inr so') \<longleftrightarrow> list_all (\<lambda>r. case get (row_Name r) of
      None \<Rightarrow> True
    | Some payload \<Rightarrow> (case fst (Parse unmarshal payload) of Inl _ \<Rightarrow> False | Inr _ \<Rightarrow> True)) rows"
  by (induction unmarshal get rows so rule: readSources.induct) (auto split: option.splits sum.splits)

lemma parseable_rows:
  "parseable unmarshal get rows \<longleftrightarrow> (\<exists>so'. readSources unmarshal get (sortSourcesByPriority rows) so = Inr so')"
  by (auto simp: readSources_total parseable_def list_all_iff set_sortSources)

lemma Build_total:
  "(\<exists>mc st'. Build ulower cvt unmarshal get get' ops p clk1 clk2 st = (Inr mc, st')) \<longleftrightarrow>
     parseable unmarshal get (p_subscriptions p)"
proof (cases "readSources unmarshal get (sortSourcesByPriority (p_subscriptions p)) emptySources")
  case (Inl e)
  then have "\<not> parseable unmarshal get (p_subscriptions p)"
    using parseable_rows [of unmarshal get "p_subscriptions p" emptySources] by simp
  then show ?thesis using Inl by (simp add: Build_unfold)
next
  case (Inr so)
  then have "parseable unmarshal get (p_subscriptions p)"
    using parseable_rows [of unmarshal get "p_subscriptions p" emptySources] by blast
  then show ?thesis using Inr by (simp add: Build_unfold Let_def split: prod.split)
qed

lemma Build_failure:
  assumes "Build ulower cvt unmarshal get get' ops p clk1 clk2 st = (Inl e, st')"
  shows "st' = st"
  using assms by (auto simp: Build_unfold Let_def split: sum.splits prod.splits)

lemma Build_contributing:
  assumes "Build ulower cvt unmarshal get get' ops p clk1 clk2 st = (Inr mc, st')"
  shows "mset (mc_ContributingSources mc) =
    mset (map row_Name (filter (\<lambda>r. row_Enable r \<and> get (row_Name r) \<noteq> None) (p_subscriptions p)))"
proof -
  let ?rows = "sortSourcesByPriority (p_subscriptions p)"
  obtain so where so: "readSources unmarshal get ?rows emptySources = Inr so"
    using assms by (auto simp: Build_unfold Let_def split: sum.splits)
  obtain sg where "buildStages ulower unmarshal get p = Some sg" "mc_ContributingSources mc = sg_contributing sg"
    using Build_stages [OF assms] by blast
  then have "mc_ContributingSources mc = map row_Name (filter (\<lambda>r. get (row_Name r) \<noteq> None) ?rows)"
    using so readSources_contributing [OF so]
    by (auto simp: buildStages_def Let_def emptySources_def split: prod.splits)
  then have "mset (mc_ContributingSources mc) =
      image_mset row_Name (filter_mset (\<lambda>r. get (row_Name r) \<noteq> None) (mset ?rows))"
    by (simp only: mset_map mset_filter)
  also have "mset ?rows = filter_mset row_Enable (mset (p_subscriptions p))"
    by (simp add: sortSourcesByPriority_def)
  finally show ?thesis by (simp add: filter_filter_mset conj_commute)
qed

text \<open>C7: a build fails exactly when the cached payload of an enabled source has no YAML document,
  and a failed build leaves the snapshot store alone.  Sources without a payload are skipped.\<close>

theorem Build_fails_iff:
  "case Build ulower cvt unmarshal get get' ops p clk1 clk2 st of
     (Inl e, st') \<Rightarrow> \<not> parseable unmarshal get (p_subscriptions p) \<and> st' = st
   | (Inr mc, st') \<Rightarrow> parseable unmarshal get (p_subscriptions p) \<and>
       mset (mc_ContributingSources mc) =
         mset (map row_Name (filter (\<lambda>r. row_Enable r \<and> get (row_Name r) \<noteq> None) (p_subscriptions p)))"
proof -
  obtain r st' where b: "Build ulower cvt unmarshal get get' ops p clk1 clk2 st = (r, st')"
    by (cases "Build ulower cvt unmarshal get get' ops p clk1 clk2 st")
  show ?thesis
  proof (cases r)
    case (Inl e)
    then show ?thesis
      using b Build_total [of ulower cvt unmarshal get get' ops p clk1 clk2 st] Build_failure [of ulower cvt unmarshal get get' ops p clk1 clk2 st e st']
      by auto
  next
    case (Inr mc)
    then show ?thesis
      using b Build_contributing [OF b [unfolded Inr]] Build_total [of ulower cvt unmarshal get get' ops p clk1 clk2 st] by auto
  qed
qed

lemma Build_rules_eq:
  assumes "Build ulower cvt unmarshal get get' ops p clk1 clk2 st = (Inr mc, st')"
    and "CHR '','' \<notin> set (p_fallbackRuleTarget p)"
  shows "length (mc_RulePriorities mc) = length (mc_Rules mc) \<and>
     length (mc_RuleContributors mc) = length (mc_Rules mc) \<and> mc_Rules mc \<noteq> [] \<and>
     last (mc_Rules mc) = ''MATCH,'' @ p_fallbackRuleTarget p \<and>
     last (mc_RulePriorities mc) = 0 \<and> last (mc_RuleContributors mc) = []"
proof -
  let ?fb = "p_fallbackRuleTarget p"
  obtain sg where sg: "buildStages ulower unmarshal get p = Some sg"
    and pr: "(mc_ProxyGroups mc, mc_Rules mc) =
       (case PruneEmptyProxyGroups (sg_groups sg) (mr_Rules (sg_rules sg)) (p_proxiesGroupName p) ?fb of (gs, rs, _) \<Rightarrow> (gs, rs))"
    and mc: "mc_RulePriorities mc = mr_Priorities (sg_rules sg)" "mc_RuleContributors mc = mr_Contributors (sg_rules sg)"
    using Build_stages [OF assms(1)] by blast
  obtain ups rows where r: "sg_rules sg = MergeUnifiedRules ups rows (p_customRules p) ?fb"
    using sg by (auto simp: buildStages_def Let_def split: sum.splits prod.splits)
  obtain gs rs res where prune: "PruneEmptyProxyGroups (sg_groups sg) (mr_Rules (sg_rules sg)) (p_proxiesGroupName p) ?fb = (gs, rs, res)"
    by (cases "PruneEmptyProxyGroups (sg_groups sg) (mr_Rules (sg_rules sg)) (p_proxiesGroupName p) ?fb") auto
  note closed = Prune_closed [OF prune]
  have fb: "?fb \<notin> set (pr_RemovedGroups res)" using closed fallback_not_removed by metis
  have last: "retargetRule (set (pr_RemovedGroups res)) ?fb (''MATCH,'' @ ?fb) = ''MATCH,'' @ ?fb"
  proof -
    have "Split (''MATCH,'' @ ?fb) CHR '','' = [''MATCH'', ?fb]"
      using assms(2) by (intro Split_eqI) auto
    then show ?thesis using fb by (simp add: retargetRule_fields targetIndex_def Let_def)
  qed
  have rules: "mc_Rules mc = map (retargetRule (set (pr_RemovedGroups res)) ?fb) (mr_Rules (sg_rules sg))"
    using pr closed by (simp add: prune)
  then show ?thesis using last by (simp add: mc r MergeUnifiedRules_stream Let_def)
qed

text \<open>C6: with a fallback target without a comma, a build over parseable payloads returns, and serves rules whose three slices are parallel
  and whose last entry is the server's own \<open>MATCH\<close> rule with the configured fallback target,
  which pruning never redirects.\<close>

theorem Build_rules:
  assumes "parseable unmarshal get (p_subscriptions p)"
    and "CHR '','' \<notin> set (p_fallbackRuleTarget p)"
  shows "\<exists>mc st'. Build ulower cvt unmarshal get get' ops p clk1 clk2 st = (Inr mc, st') \<and>
     length (mc_RulePriorities mc) = length (mc_Rules mc) \<and>
     length (mc_RuleContributors mc) = length (mc_Rules mc) \<and> mc_Rules mc \<noteq> [] \<and>
     last (mc_Rules mc) = ''MATCH,'' @ p_fallbackRuleTarget p \<and>
     last (mc_RulePriorities mc) = 0 \<and> last (mc_RuleContributors mc) = []"
proof -
  obtain mc st' where b: "Build ulower cvt unmarshal get get' ops p clk1 clk2 st = (Inr mc, st')"
    using Build_total [of ulower cvt unmarshal get get' ops p clk1 clk2 st] assms(1) by blast
  from Build_rules_eq [OF b assms(2)] b show ?thesis by blast
qed

end
