(* ===== verification/Served_Config.thy ===== *)
theory Served_Config
  imports Pipeline
begin

text \<open>
  The served configuration as a whole: the lemmas that carry the component results through
  \<open>Pipeline.Build\<close>.  \<open>inputsOk\<close> collects what they need of the inputs: some of it the loaders
  guarantee (the row names, the own entries), some of it is asked of the upstream payloads and of the
  operator's naming, which the code does not check.
\<close>

section \<open>Inputs\<close>

text \<open>
  Rows as the CSV loader returns them; every cached proxy and group has a name, and no name
  occurs twice among the proxies of one source (nothing checks this of an upstream payload) or among
  the own proxies; no own group (after its \<open>_\<close> prefix) and not the selector has a name reserved
  for the generated region and continent groups.
\<close>

definition inputsOk :: "unmarshaller \<Rightarrow> cacheReader \<Rightarrow> Pipeline \<Rightarrow> bool" where
  "inputsOk unmarshal get p \<longleftrightarrow>
     distinct (map row_Name (p_subscriptions p)) \<and>
     list_all (\<lambda>r. lower_name (row_Name r) \<and>
        distinct (map node_name (cachedList unmarshal get ''proxies'' (row_Name r))) \<and>
        list_all named_node (cachedList unmarshal get ''proxies'' (row_Name r)) \<and>
        list_all named_node (cachedList unmarshal get ''proxy-groups'' (row_Name r))) (p_subscriptions p) \<and>
     distinct (map node_name (p_ownProxies p)) \<and>
     list_all named_node (p_ownProxies p) \<and> list_all named_node (p_ownGroups p) \<and>
     list_all (\<lambda>g. \<not> isFanoutTarget (''_'' @ node_name g)) (p_ownGroups p) \<and>
     p_proxiesGroupName p \<noteq> [] \<and> \<not> isFanoutTarget (p_proxiesGroupName p)"

section \<open>Merged proxies and groups\<close>

text \<open>The sources that contribute, and their entries after namespacing.\<close>

definition contributors :: "cacheReader \<Rightarrow> Pipeline \<Rightarrow> string list" where
  "contributors get p = map row_Name (filter (\<lambda>r. get (row_Name r) \<noteq> None) (sortSourcesByPriority (p_subscriptions p)))"

definition nsProxies :: "unmarshaller \<Rightarrow> cacheReader \<Rightarrow> string \<Rightarrow> node list" where
  "nsProxies unmarshal get s = map (prefixName (s @ ''_'')) (cachedList unmarshal get ''proxies'' s)"

definition nsGroups :: "unmarshaller \<Rightarrow> cacheReader \<Rightarrow> string \<Rightarrow> node list" where
  "nsGroups unmarshal get s =
     map (\<lambda>g. rewriteGroupMembers (prefixName (s @ ''_'') g) s) (cachedList unmarshal get ''proxy-groups'' s)"

definition ownGroups' :: "Pipeline \<Rightarrow> node list" where
  "ownGroups' p = snd (RewriteOwn (p_ownProxies p) (p_ownGroups p))"

lemma tagged_cong:
  assumes "\<And>s. s \<in> set cs \<Longrightarrow> f s = g s"
  shows "tagged f cs = tagged g cs"
  using assms by (induction cs) (auto simp: tagged_def)

lemma MergeProxies_cong:
  assumes "\<And>s. s \<in> set cs \<Longrightarrow> f s = g s"
  shows "MergeProxies f cs own = MergeProxies g cs own"
proof -
  have "tagged f cs = tagged g cs" using assms by (rule tagged_cong)
  then show ?thesis by (simp only: MergeProxies_alt)
qed

lemma MergeProxyGroups_cong:
  assumes "\<And>s. s \<in> set cs \<Longrightarrow> f s = g s"
  shows "fst (MergeProxyGroups f cs own) = fst (MergeProxyGroups g cs own)"
proof -
  have "tagged f cs = tagged g cs" using assms by (rule tagged_cong)
  then show ?thesis by (simp only: MergeProxyGroups_alt)
qed

lemma buildStages_sources:
  assumes "buildStages ulower unmarshal get p = Some sg" and "distinct (map row_Name (p_subscriptions p))"
  shows "sg_contributing sg = contributors get p \<and>
     sg_own sg = map (prefixName ''_'') (p_ownProxies p) \<and>
     (sg_merged sg, sg_collisions sg) = MergeProxies (nsProxies unmarshal get) (contributors get p) (sg_own sg) \<and>
     sg_groups0 sg = fst (MergeProxyGroups (nsGroups unmarshal get) (contributors get p) (ownGroups' p)) \<and>
     sg_groups sg = mergeGroups ulower p (sg_merged sg) (sg_groups0 sg)"
proof -
  let ?rows = "sortSourcesByPriority (p_subscriptions p)"
  let ?cs = "contributors get p"
  obtain so where so: "readSources unmarshal get ?rows emptySources = Inr so"
    using assms(1) by (auto simp: buildStages_def Let_def split: sum.splits)
  have cs: "so_contributing so = ?cs"
    using readSources_contributing [OF so] by (simp add: contributors_def emptySources_def)
  have dist: "distinct (map row_Name ?rows)" using distinct_contributing [OF assms(2), of "\<lambda>_. True"] by simp
  have dcs: "distinct ?cs" unfolding contributors_def by (rule distinct_contributing [OF assms(2)])
  obtain so1 ns sk where f: "fold namespaceSource ?cs (so, Map.empty, []) = (so1, ns, sk)"
    by (cases "fold namespaceSource ?cs (so, Map.empty, [])")
  let ?so2 = "fst (fold (dropUnbacked ns) ?cs (so1, []))"
  have lists: "so_proxies ?so2 s = nsProxies unmarshal get s" "so_groups ?so2 s = nsGroups unmarshal get s"
    if "s \<in> set ?cs" for s
  proof -
    have "s \<in> row_Name ` set ?rows" using that by (auto simp: contributors_def)
    then have "so_proxies so s = cachedList unmarshal get ''proxies'' s"
      "so_groups so s = cachedList unmarshal get ''proxy-groups'' s"
      using readSources_lists [OF so dist, of s] by (auto simp: emptySources_def)
    then show "so_proxies ?so2 s = nsProxies unmarshal get s" "so_groups ?so2 s = nsGroups unmarshal get s"
      using namespace_fold [OF dcs, of so "(Map.empty, [])" s] f that
      by (simp_all add: dropUnbacked_fold nsProxies_def nsGroups_def)
  qed
  have mp: "MergeProxies (so_proxies ?so2) ?cs own = MergeProxies (nsProxies unmarshal get) ?cs own" for own
    by (rule MergeProxies_cong) (rule lists(1))
  have mg: "fst (MergeProxyGroups (so_groups ?so2) ?cs own) = fst (MergeProxyGroups (nsGroups unmarshal get) ?cs own)" for own
    by (rule MergeProxyGroups_cong) (rule lists(2))
  have "sg = (let (ownP, ownG) = RewriteOwn (p_ownProxies p) (p_ownGroups p);
              (merged, coll) = MergeProxies (so_proxies ?so2) ?cs ownP;
              groups0 = fst (MergeProxyGroups (so_groups ?so2) ?cs ownG)
          in \<lparr>sg_contributing = ?cs, sg_own = ownP, sg_merged = merged, sg_collisions = coll,
                sg_groups0 = groups0, sg_groups = mergeGroups ulower p merged groups0,
                sg_rules = MergeUnifiedRules (so_rules ?so2) ?rows (p_customRules p) (p_fallbackRuleTarget p),
                sg_sourceRules = so_rules ?so2, sg_providers = ns, sg_skipped = sk,
                sg_dropped = snd (fold (dropUnbacked ns) ?cs (so1, []))\<rparr>)"
    using assms(1) by (simp add: buildStages_def so cs f Let_def split: prod.splits)
  then show ?thesis
    by (auto simp: Let_def mp mg RewriteOwn_def ownGroups'_def split: prod.splits)
qed

lemma contributors_sub: "s \<in> set (contributors get p) \<Longrightarrow> \<exists>r\<in>set (p_subscriptions p). row_Name r = s"
  by (auto simp: contributors_def set_sortSources)

lemma merged_names:
  assumes "buildStages ulower unmarshal get p = Some sg" and ok: "inputsOk unmarshal get p"
  shows "sg_collisions sg = []"
    and "sg_merged sg = sg_own sg @ concat (map (nsProxies unmarshal get) (contributors get p))"
    and "distinct (map node_name (sg_merged sg))"
    and "\<forall>n\<in>set (sg_own sg). \<exists>x. node_name n = ''_'' @ x"
    and "\<forall>n\<in>set (concat (map (nsProxies unmarshal get) (contributors get p))).
           \<exists>s\<in>set (contributors get p). \<exists>x. node_name n = s @ ''_'' @ x"
proof -
  have d: "distinct (map row_Name (p_subscriptions p))" using ok by (simp add: inputsOk_def)
  note st = buildStages_sources [OF assms(1) d]
  have low: "\<forall>s\<in>set (contributors get p). lower_name s"
    using ok contributors_sub by (fastforce simp: inputsOk_def list_all_iff)
  have dcs: "distinct (contributors get p)" unfolding contributors_def by (rule distinct_contributing [OF d])
  have src: "\<forall>s\<in>set (contributors get p). distinct (map node_name (cachedList unmarshal get ''proxies'' s)) \<and>
      (\<forall>n\<in>set (cachedList unmarshal get ''proxies'' s). named_node n)"
    using ok contributors_sub by (fastforce simp: inputsOk_def list_all_iff)
  have own: "distinct (map node_name (p_ownProxies p))" "\<forall>n\<in>set (p_ownProxies p). named_node n"
    using ok by (simp_all add: inputsOk_def list_all_iff)
  have so: "sg_own sg = map (prefixName ''_'') (p_ownProxies p)" using st by simp
  note mp = MergeProxies_prefixed [OF low dcs src own _ so, of "nsProxies unmarshal get", unfolded nsProxies_def, OF refl,
      folded nsProxies_def]
  show "sg_collisions sg = []"
    and m: "sg_merged sg = sg_own sg @ concat (map (nsProxies unmarshal get) (contributors get p))"
    using st mp(1) by auto
  show "distinct (map node_name (sg_merged sg))" unfolding m by (rule mp(2))
  show "\<forall>n\<in>set (sg_own sg). \<exists>x. node_name n = ''_'' @ x" by (rule mp(3))
  show "\<forall>n\<in>set (concat (map (nsProxies unmarshal get) (contributors get p))).
           \<exists>s\<in>set (contributors get p). \<exists>x. node_name n = s @ ''_'' @ x" by (rule mp(4))
qed

lemma MergeProxyGroups_inv:
  assumes "\<forall>g\<in>set (own @ concat (map perSource sources)). named_node g"
  defines "inputs \<equiv> map (Pair ''own'') own @ tagged perSource sources"
  shows "\<forall>g\<in>set (fst (MergeProxyGroups perSource sources own)). group_of inputs g"
    and "node_name ` set (fst (MergeProxyGroups perSource sources own)) =
       node_name ` set (own @ concat (map perSource sources))"
proof -
  have "\<forall>x\<in>set inputs. named_node (snd x)" using assms by (auto simp: tagged_def)
  from mg_inv_fold [OF this] have inv: "mg_inv inputs (fold (\<lambda>(s, g). addGroup s g) inputs
       \<lparr>mg_merged = [], mg_byName = Map.empty, mg_chosenSource = (\<lambda>_. []), mg_conflicts = []\<rparr>)" .
  show "\<forall>g\<in>set (fst (MergeProxyGroups perSource sources own)). group_of inputs g"
    using inv unfolding mg_inv_def MergeProxyGroups_alt inputs_def by simp
  have "set (map (node_name \<circ> snd) inputs) = node_name ` set (own @ concat (map perSource sources))"
    unfolding inputs_def by (simp add: image_Un image_comp flip: map_snd_tagged)
  then show "node_name ` set (fst (MergeProxyGroups perSource sources own)) =
       node_name ` set (own @ concat (map perSource sources))"
    using inv unfolding mg_inv_def MergeProxyGroups_alt inputs_def by simp
qed

lemma nsGroups_named:
  assumes "inputsOk unmarshal get p" and "s \<in> set (contributors get p)" and "g \<in> set (nsGroups unmarshal get s)"
  shows "named_node g \<and> (\<exists>x. node_name g = s @ ''_'' @ x)"
proof -
  obtain g0 where g0: "g0 \<in> set (cachedList unmarshal get ''proxy-groups'' s)"
    and g: "g = rewriteGroupMembers (prefixName (s @ ''_'') g0) s"
    using assms(3) by (auto simp: nsGroups_def)
  have n: "named_node g0"
    using assms(1,2) g0 contributors_sub [of s get p] by (auto simp: inputsOk_def list_all_iff)
  then have "named_node (prefixName (s @ ''_'') g0)" by blast
  then have "is_mapping (prefixName (s @ ''_'') g0)" by (simp add: named_node_def)
  then show ?thesis using n by (auto simp: g named_node_def [of g0])
qed

lemma ownGroups_named:
  assumes "inputsOk unmarshal get p" and "g \<in> set (ownGroups' p)"
  shows "named_node g \<and> (\<exists>g0\<in>set (p_ownGroups p). node_name g = ''_'' @ node_name g0)"
proof -
  obtain g0 where g0: "g0 \<in> set (p_ownGroups p)"
    and g: "g = rewriteOwnGroupMembers (prefixName ''_'' g0) (entryNames (p_ownProxies p)) (entryNames (p_ownGroups p))"
    using assms(2) by (auto simp: ownGroups'_def RewriteOwn_def Let_def)
  have n: "named_node g0" using assms(1) g0 by (auto simp: inputsOk_def list_all_iff)
  then have "named_node (prefixName ''_'' g0)" by blast
  then have "is_mapping (prefixName ''_'' g0)" by (simp add: named_node_def)
  then show ?thesis using n g0 by (auto simp: g named_node_def [of g0])
qed

lemma groups0_named:
  assumes st: "buildStages ulower unmarshal get p = Some sg" and ok: "inputsOk unmarshal get p"
    and g: "g \<in> set (sg_groups0 sg)"
  shows "named_node g \<and> \<not> isFanoutTarget (node_name g)"
proof -
  have d: "distinct (map row_Name (p_subscriptions p))" using ok by (simp add: inputsOk_def)
  have g0: "sg_groups0 sg = fst (MergeProxyGroups (nsGroups unmarshal get) (contributors get p) (ownGroups' p))"
    using buildStages_sources [OF st d] by simp
  have named: "\<forall>g\<in>set (ownGroups' p @ concat (map (nsGroups unmarshal get) (contributors get p))). named_node g"
    using nsGroups_named [OF ok] ownGroups_named [OF ok] by auto
  note inv = MergeProxyGroups_inv [OF named, folded g0]
  have "named_node g" using inv(1) g by (auto simp: group_of_def)
  moreover have "node_name g \<in> node_name ` set (ownGroups' p @ concat (map (nsGroups unmarshal get) (contributors get p)))"
    using inv(2) g by blast
  then obtain h where nm: "node_name g = node_name h"
    and h: "h \<in> set (ownGroups' p) \<or> (\<exists>s\<in>set (contributors get p). h \<in> set (nsGroups unmarshal get s))" by auto
  have "\<not> isFanoutTarget (node_name h)"
  proof (cases "h \<in> set (ownGroups' p)")
    case True
    then obtain b where "b \<in> set (p_ownGroups p)" "node_name h = ''_'' @ node_name b"
      using ownGroups_named [OF ok] by blast
    then show ?thesis using ok by (simp add: inputsOk_def list_all_iff)
  next
    case False
    then obtain s where s: "s \<in> set (contributors get p)" "h \<in> set (nsGroups unmarshal get s)" using h by blast
    obtain x where x: "node_name h = s @ ''_'' @ x" using nsGroups_named [OF ok s] by blast
    have "lower_name s" using ok contributors_sub [OF s(1)] by (auto simp: inputsOk_def list_all_iff)
    then have "s @ ''_'' @ x \<noteq> CHR ''_'' # y" for y by simp
    then show ?thesis using isFanoutTarget_underscore [of "node_name h"] x by (auto simp: HasPrefix_iff)
  qed
  ultimately show ?thesis using nm by simp
qed

section \<open>The group list\<close>

lemma AppendProxiesGroup_facts:
  assumes "\<forall>g\<in>set groups. named_node g" and "pg \<noteq> []"
  shows "\<forall>g\<in>set (AppendProxiesGroup groups ns pg). named_node g"
    and "pg \<in> set (map node_name (AppendProxiesGroup groups ns pg))"
    and "node_name ` set (AppendProxiesGroup groups ns pg) = insert pg (node_name ` set groups)"
    and "map node_name (AppendProxiesGroup groups ns pg) = map node_name groups \<or>
         map node_name (AppendProxiesGroup groups ns pg) = map node_name groups @ [pg] \<and> pg \<notin> set (map node_name groups)"
    and "g \<in> set (AppendProxiesGroup groups ns pg) \<Longrightarrow>
         \<exists>h. (h \<in> set groups \<or> members_of h = []) \<and> set (members_of g) \<subseteq> set (members_of h) \<union> set ns"
proof -
  show 4: "map node_name (AppendProxiesGroup groups ns pg) = map node_name groups \<or>
         map node_name (AppendProxiesGroup groups ns pg) = map node_name groups @ [pg] \<and> pg \<notin> set (map node_name groups)"
    using map_node_name_augmentGroup [of pg ns groups] augmentGroup_None [of pg ns groups] assms
    by (cases "augmentGroup pg ns groups") (auto simp: AppendProxiesGroup_cases)
  show "\<forall>g\<in>set (AppendProxiesGroup groups ns pg). named_node g"
    using named_node_augmentGroup [of pg ns groups] assms
    by (cases "augmentGroup pg ns groups") (auto simp: AppendProxiesGroup_cases)
  have in': "pg \<in> set (map node_name groups)" if "map node_name (AppendProxiesGroup groups ns pg) = map node_name groups"
    using that augmentGroup_None [of pg ns groups] assms(2)
    by (cases "augmentGroup pg ns groups") (auto simp: AppendProxiesGroup_cases)
  show "pg \<in> set (map node_name (AppendProxiesGroup groups ns pg))"
    using 4 in' by (metis UnCI list.set_intros(1) set_append)
  have "set (map node_name (AppendProxiesGroup groups ns pg)) = insert pg (set (map node_name groups))"
    using 4 in' by (metis (no_types, lifting) insert_absorb list.simps(15) rotate1.simps(2) set_rotate1)
  then show "node_name ` set (AppendProxiesGroup groups ns pg) = insert pg (node_name ` set groups)" by simp
  assume g: "g \<in> set (AppendProxiesGroup groups ns pg)"
  show "\<exists>h. (h \<in> set groups \<or> members_of h = []) \<and> set (members_of g) \<subseteq> set (members_of h) \<union> set ns"
  proof (cases "augmentGroup pg ns groups")
    case None
    then have "g \<in> set groups \<or> g = selectorNode pg ns" using g assms(2) by (simp add: AppendProxiesGroup_cases) blast
    moreover have "members_of (mkNode ScalarNode [] []) = []"
      by (simp add: mappingMembers_def getMappingNode_def)
    ultimately show ?thesis by (metis Un_upper1 Un_upper2 selectorNode_sel(2))
  next
    case (Some gs)
    from augmentGroup_Some [OF this] obtain pre h post where h: "groups = pre @ h # post"
      "gs = pre @ setMappingMembers h ''proxies'' (union_members (members_of h) ns) # post" by blast
    have "is_mapping h" using h(1) assms(1) by (simp add: named_node_def)
    then have "members_of (setMappingMembers h ''proxies'' (union_members (members_of h) ns)) = union_members (members_of h) ns"
      by (simp add: yaml_get)
    moreover have "g \<in> set gs" using g Some assms(2) by (simp add: AppendProxiesGroup_cases)
    ultimately show ?thesis using h by (auto intro: exI [of _ g] exI [of _ h])
  qed
qed

lemma addToSelector_members:
  assumes "\<forall>g\<in>set gs. named_node g" and "g \<in> set (addToSelector pg names gs)"
  shows "\<exists>h\<in>set gs. set (members_of g) \<subseteq> set (members_of h) \<union> set names"
proof (cases "augmentGroup pg names gs")
  case None
  then show ?thesis using assms(2) by (auto simp: addToSelector_def split: if_splits)
next
  case (Some gs')
  from augmentGroup_Some [OF this] obtain pre h post where h: "gs = pre @ h # post"
    "gs' = pre @ setMappingMembers h ''proxies'' (union_members (members_of h) names) # post" by blast
  have "is_mapping h" using h(1) assms(1) by (simp add: named_node_def)
  then have "members_of (setMappingMembers h ''proxies'' (union_members (members_of h) names)) = union_members (members_of h) names"
    by (simp add: yaml_get)
  moreover have "g \<in> set gs \<or> g \<in> set gs'" using assms(2) Some by (auto simp: addToSelector_def split: if_splits)
  ultimately show ?thesis using h by auto
qed

lemma regionSpec_groups:
  assumes "g \<in> set (regionSpec ulower ut lb ns)"
  shows "named_node g \<and> set (members_of g) \<subseteq> set ns"
  using assms unfolding regionSpec_alt Let_def by (auto simp: regionPair_def)

lemma continentSpec_groups:
  assumes "g \<in> set (continentSpec ut lb rs members)"
  shows "named_node g \<and> set (members_of g) \<subseteq> (\<Union>nm. set (members nm))"
  using assms unfolding continentSpec_def by (auto simp: regionPair_def)

lemma upper_letters: "isUpperPair c \<Longrightarrow> \<exists>a b. c = [a, b] \<and> a \<noteq> CHR ''_'' \<and> b \<noteq> CHR ''_''"
proof -
  assume c: "isUpperPair c"
  then obtain a b where ab: "c = [a, b]"
    by (auto simp: isUpperPair_def length_Suc_conv numeral_2_eq_2)
  with c have "a \<le> CHR ''Z''" "b \<le> CHR ''Z''" by (simp_all add: isUpperPair_def)
  then have "a \<noteq> CHR ''_''" "b \<noteq> CHR ''_''" by auto
  with ab show ?thesis by blast
qed

lemma generated_name:
  assumes "isUpperPair c \<or> c = ''UNKNOWN''"
    and "x \<in> {''_region_'' @ c, ''_lb_region_'' @ c, ''_continent_'' @ c, ''_lb_continent_'' @ c}"
  shows "isFanoutTarget x \<and> clean_tag (stripUnderscore x)"
proof -
  have pair: "clean_tag (''region_'' @ [a, b])" "clean_tag (''lb_region_'' @ [a, b])"
    "clean_tag (''continent_'' @ [a, b])" "clean_tag (''lb_continent_'' @ [a, b])"
    if "a \<noteq> CHR ''_''" "b \<noteq> CHR ''_''" for a b
    using that by (simp_all add: clean_tag_def HasPrefix_def HasSuffix_def)
  have unknown: "clean_tag ''region_UNKNOWN''" "clean_tag ''lb_region_UNKNOWN''"
    "clean_tag ''continent_UNKNOWN''" "clean_tag ''lb_continent_UNKNOWN''"
    by (simp_all add: clean_tag_def HasPrefix_def HasSuffix_def)
  have clean: "clean_tag (''region_'' @ c) \<and> clean_tag (''lb_region_'' @ c) \<and>
      clean_tag (''continent_'' @ c) \<and> clean_tag (''lb_continent_'' @ c)"
  proof (cases "c = ''UNKNOWN''")
    case True
    then show ?thesis using unknown by simp
  next
    case False
    with assms(1) have "isUpperPair c" by simp
    from upper_letters [OF this] obtain a b where "c = [a, b]" "a \<noteq> CHR ''_''" "b \<noteq> CHR ''_''" by blast
    then show ?thesis using pair [of a b] by blast
  qed
  have strip: "stripUnderscore (''_'' @ y) = y" for y
    by (simp add: stripUnderscore_def HasPrefix_def)
  from assms(2) consider "x = ''_'' @ ''region_'' @ c" | "x = ''_'' @ ''lb_region_'' @ c"
    | "x = ''_'' @ ''continent_'' @ c" | "x = ''_'' @ ''lb_continent_'' @ c" by auto
  then have "clean_tag (stripUnderscore x)" using clean by cases (simp_all only: strip)
  moreover from assms(2) have "isFanoutTarget x" by (auto simp: isFanoutTarget_def HasPrefix_def)
  ultimately show ?thesis by blast
qed

lemma regionSpec_targets:
  assumes "x \<in> set (map node_name (regionSpec ulower ut lb ns))"
  shows "isFanoutTarget x \<and> clean_tag (stripUnderscore x)"
proof -
  have up: "isUpperPair c" if "c \<in> codesOf ulower ns" for c
    using that by (auto simp: codesOf_def countryOf_def intro: inferCountry_upper [OF sym])
  from assms obtain c where c: "c \<in> codesOf ulower ns \<or> c = ''UNKNOWN''"
    and x: "x = ''_region_'' @ c \<or> x = ''_lb_region_'' @ c"
    unfolding regionSpec_names Let_def by (auto split: if_splits)
  show ?thesis by (rule generated_name [of c]) (use c x up in auto)
qed

lemma continentSpec_targets:
  assumes "x \<in> set (map node_name (continentSpec ut lb rs members))"
  shows "isFanoutTarget x \<and> clean_tag (stripUnderscore x)"
proof -
  from assms obtain c where c: "regionsIn rs c \<noteq> {}" and x: "x = ''_continent_'' @ c \<or> x = ''_lb_continent_'' @ c"
    unfolding continentSpec_def map_node_name_pairs by auto
  then obtain cc where "continentOf cc = Some c" by (auto simp: regionsIn_def)
  then have "(cc, c) \<in> set countryToContinent"
    using countryToContinent_wf(2) by (simp add: continentOf_def findContinent_map_of)
  then have "c \<in> set validContinents" using countryToContinent_wf(1) by (auto simp: list_all_iff)
  then have "isUpperPair c" by (auto simp: validContinents_def isUpperPair_def)
  then show ?thesis by (intro generated_name [of c]) (use x in auto)
qed

lemma spec_names_disjoint:
  "set (map node_name (regionSpec ulower ut lb ns)) \<inter> set (map node_name (continentSpec ut lb rs members)) = {}"
  unfolding regionSpec_names continentSpec_def map_node_name_pairs Let_def by auto

text \<open>The generated groups, for the proxies and groups a build has merged.\<close>

definition regionStage :: "(nat \<Rightarrow> nat) \<Rightarrow> Pipeline \<Rightarrow> node list \<Rightarrow> node list" where
  "regionStage ulower p merged =
     regionSpec ulower (p_urlTestParams p) (p_loadBalanceParams p) (upstreamNames (upstreamOnly merged))"

lemma mergeGroups_shape:
  assumes "\<forall>g\<in>set groups0. named_node g" and pg: "p_proxiesGroupName p \<noteq> []"
  obtains G1 G2 rs ms where
    "G1 = AppendProxiesGroup groups0 (selectorNames merged) (p_proxiesGroupName p)"
    and "\<forall>g\<in>set G2. named_node g"
    and "map node_name G2 = map node_name G1 @ map node_name (regionStage ulower p merged)"
    and "\<forall>g\<in>set G2. \<exists>h\<in>set (G1 @ regionStage ulower p merged).
           set (members_of g) \<subseteq> set (members_of h) \<union> set (map node_name (regionStage ulower p merged))"
    and "(rs, ms) = regionGroupsOf G2"
    and "map node_name (mergeGroups ulower p merged groups0) = map node_name G2 @
           map node_name (continentSpec (p_urlTestParams p) (p_loadBalanceParams p) rs ms)"
    and "\<forall>g\<in>set (mergeGroups ulower p merged groups0). named_node g \<and>
           (\<exists>h\<in>set (G2 @ continentSpec (p_urlTestParams p) (p_loadBalanceParams p) rs ms).
           set (members_of g) \<subseteq> set (members_of h) \<union>
             set (map node_name (continentSpec (p_urlTestParams p) (p_loadBalanceParams p) rs ms)))"
proof -
  let ?pg = "p_proxiesGroupName p" and ?ut = "p_urlTestParams p" and ?lb = "p_loadBalanceParams p"
  define G1 where "G1 = AppendProxiesGroup groups0 (selectorNames merged) ?pg"
  let ?em1 = "regionStage ulower p merged"
  note f = AppendProxiesGroup_facts [OF assms(1) pg, where ns = "selectorNames merged", folded G1_def]
  obtain F1 where F1: "addToSelector ?pg (map node_name ?em1) (G1 @ ?em1) = F1 @ ?em1"
    "map node_name F1 = map node_name G1" "\<forall>g\<in>set F1. named_node g"
    using addToSelector_append [OF f(1,2), of "map node_name ?em1" ?em1] by blast
  define G2 where "G2 = F1 @ ?em1"
  have em1: "\<forall>g\<in>set ?em1. named_node g" by (auto simp: regionStage_def dest!: regionSpec_groups)
  then have n2: "\<forall>g\<in>set G2. named_node g" using F1(3) by (auto simp: G2_def)
  have pg2: "?pg \<in> set (map node_name G2)" using F1(2) f(2) by (simp add: G2_def)
  obtain rs ms where r: "(rs, ms) = regionGroupsOf G2" by (metis surj_pair)
  let ?em2 = "continentSpec ?ut ?lb rs ms"
  obtain F2 where F2: "addToSelector ?pg (map node_name ?em2) (G2 @ ?em2) = F2 @ ?em2"
    "map node_name F2 = map node_name G2" "\<forall>g\<in>set F2. named_node g"
    using addToSelector_append [OF n2 pg2, of "map node_name ?em2" ?em2] by blast
  have em2: "\<forall>g\<in>set ?em2. named_node g" by (auto dest!: continentSpec_groups)
  have g2: "fst (AppendRegionGroups ulower G1 (upstreamOnly merged) ?pg ?ut ?lb) = G2"
    by (simp add: AppendRegionGroups_eq Let_def F1(1) [unfolded regionStage_def] G2_def regionStage_def)
  have g3: "mergeGroups ulower p merged groups0 = F2 @ ?em2"
    using F2(1) by (simp add: mergeGroups_eq G1_def [symmetric] g2 AppendContinentGroups_eq Let_def r [symmetric])
  show ?thesis
  proof (rule that)
    show "G1 = AppendProxiesGroup groups0 (selectorNames merged) ?pg" by (rule G1_def)
    show "\<forall>g\<in>set G2. named_node g" by (rule n2)
    show "map node_name G2 = map node_name G1 @ map node_name ?em1" by (simp add: G2_def F1(2))
    show "\<forall>g\<in>set G2. \<exists>h\<in>set (G1 @ ?em1). set (members_of g) \<subseteq> set (members_of h) \<union> set (map node_name ?em1)"
    proof
      fix g assume "g \<in> set G2"
      then have "g \<in> set (addToSelector ?pg (map node_name ?em1) (G1 @ ?em1))" by (simp only: G2_def F1(1))
      moreover have "\<forall>g\<in>set (G1 @ ?em1). named_node g" using f(1) em1 by auto
      ultimately show "\<exists>h\<in>set (G1 @ ?em1). set (members_of g) \<subseteq> set (members_of h) \<union> set (map node_name ?em1)"
        by (rule addToSelector_members [rotated])
    qed
    show "(rs, ms) = regionGroupsOf G2" by (rule r)
    show "map node_name (mergeGroups ulower p merged groups0) = map node_name G2 @ map node_name ?em2"
      by (simp add: g3 F2(2))
    show "\<forall>g\<in>set (mergeGroups ulower p merged groups0). named_node g \<and>
        (\<exists>h\<in>set (G2 @ ?em2). set (members_of g) \<subseteq> set (members_of h) \<union> set (map node_name ?em2))"
    proof (intro ballI conjI)
      fix g assume g: "g \<in> set (mergeGroups ulower p merged groups0)"
      then show "named_node g" using F2(3) em2 by (auto simp: g3)
      have "g \<in> set (addToSelector ?pg (map node_name ?em2) (G2 @ ?em2))" using g by (simp only: g3 F2(1))
      moreover have "\<forall>g\<in>set (G2 @ ?em2). named_node g" using n2 em2 by auto
      ultimately show "\<exists>h\<in>set (G2 @ ?em2). set (members_of g) \<subseteq> set (members_of h) \<union> set (map node_name ?em2)"
        by (rule addToSelector_members [rotated])
    qed
  qed
qed

lemma generated_targets:
  assumes st: "buildStages ulower unmarshal get p = Some sg" and ok: "inputsOk unmarshal get p"
  shows "distinct (targetGroupNames (sg_groups sg)) \<and>
     (\<forall>g\<in>set (targetGroupNames (sg_groups sg)). clean_tag (stripUnderscore g))"
proof -
  let ?em1 = "regionStage ulower p (sg_merged sg)"
  have d: "distinct (map row_Name (p_subscriptions p))" and pg: "p_proxiesGroupName p \<noteq> []" "\<not> isFanoutTarget (p_proxiesGroupName p)"
    using ok by (simp_all add: inputsOk_def)
  have g: "sg_groups sg = mergeGroups ulower p (sg_merged sg) (sg_groups0 sg)"
    using buildStages_sources [OF st d] by simp
  have n0: "\<forall>g\<in>set (sg_groups0 sg). named_node g" using groups0_named [OF st ok] by blast
  obtain G1 G2 rs ms where
    G1: "G1 = AppendProxiesGroup (sg_groups0 sg) (selectorNames (sg_merged sg)) (p_proxiesGroupName p)"
    and G2: "map node_name G2 = map node_name G1 @ map node_name ?em1"
    and G3: "map node_name (sg_groups sg) = map node_name G2 @
           map node_name (continentSpec (p_urlTestParams p) (p_loadBalanceParams p) rs ms)"
    by (rule mergeGroups_shape [OF n0 pg(1), of "sg_merged sg" ulower, folded g])
  let ?em2 = "continentSpec (p_urlTestParams p) (p_loadBalanceParams p) rs ms"
  have "node_name ` set G1 = insert (p_proxiesGroupName p) (node_name ` set (sg_groups0 sg))"
    unfolding G1 by (rule AppendProxiesGroup_facts(3) [OF n0 pg(1)])
  then have "\<not> isFanoutTarget x" if "x \<in> set (map node_name G1)" for x
    using that pg(2) groups0_named [OF st ok] by auto
  then have f1: "filter isFanoutTarget (map node_name G1) = []" by (simp add: filter_empty_conv)
  have f2: "filter isFanoutTarget (map node_name ?em1) = map node_name ?em1"
    unfolding regionStage_def by (rule filter_True) (use regionSpec_targets in blast)
  have f3: "filter isFanoutTarget (map node_name ?em2) = map node_name ?em2"
    by (rule filter_True) (use continentSpec_targets in blast)
  have t: "targetGroupNames (sg_groups sg) = map node_name ?em1 @ map node_name ?em2"
    unfolding targetGroupNames_def G3 G2 filter_append f1 f2 f3 by simp
  have "distinct (map node_name ?em1 @ map node_name ?em2)"
    unfolding distinct_append regionStage_def
    using distinct_regionSpec distinct_continentSpec spec_names_disjoint by blast
  moreover have "\<forall>g\<in>set (map node_name ?em1 @ map node_name ?em2). clean_tag (stripUnderscore g)"
    unfolding regionStage_def set_append using regionSpec_targets continentSpec_targets by blast
  ultimately show ?thesis unfolding t by blast
qed

lemma own_stage:
  assumes "buildStages ulower unmarshal get p = Some sg" and ok: "inputsOk unmarshal get p"
  shows "\<forall>n\<in>set (sg_own sg). named_node n" and "distinct (map node_name (sg_own sg))"
proof -
  have d: "distinct (map row_Name (p_subscriptions p))" using ok by (simp add: inputsOk_def)
  have o: "sg_own sg = map (prefixName ''_'') (p_ownProxies p)"
    using buildStages_sources [OF assms(1) d] by simp
  have "\<forall>n\<in>set (p_ownProxies p). named_node n" "distinct (map node_name (p_ownProxies p))"
    using ok by (simp_all add: inputsOk_def list_all_iff)
  then show "\<forall>n\<in>set (sg_own sg). named_node n" "distinct (map node_name (sg_own sg))"
    unfolding o by (auto simp del: map_map intro: distinct_map_prefixName)
qed

section \<open>Distinct names\<close>

lemma via_names:
  assumes "\<forall>n\<in>set owns. named_node n" and "n \<in> set (fst (AppendFanoutProxies owns groups pg))"
  shows "named_node n \<and> (\<exists>x. node_name n = ''via_'' @ x)"
proof -
  obtain own tag d where own: "own \<in> set owns" and n: "n = fanoutCopy own (viaName tag (node_name own)) d"
    using assms(2) by (auto simp: AppendFanoutProxies_eq)
  have "is_mapping own" using assms(1) own by (auto simp: named_node_def)
  then have "named_node n" "node_name n = viaName tag (node_name own)" by (simp_all add: n)
  then show ?thesis by (auto simp: viaName_def)
qed

lemma served_names_distinct:
  assumes st: "buildStages ulower unmarshal get p = Some sg" and ok: "inputsOk unmarshal get p"
    and via: "''via'' \<notin> set (map row_Name (p_subscriptions p))"
  shows "distinct (map node_name (sg_merged sg @
     fst (AppendFanoutProxies (sg_own sg) (sg_groups sg) (p_proxiesGroupName p))))"
proof -
  let ?fan = "fst (AppendFanoutProxies (sg_own sg) (sg_groups sg) (p_proxiesGroupName p))"
  note m = merged_names [OF st ok] and own = own_stage [OF st ok]
  have fan: "distinct (map node_name ?fan)"
    using AppendFanout_distinct [of "sg_own sg" "sg_groups sg" "p_proxiesGroupName p"]
      own m(4) generated_targets [OF st ok] by (auto simp: named_node_def HasPrefix_iff)
  have "node_name n \<noteq> node_name v" if n: "n \<in> set (sg_merged sg)" and v: "v \<in> set ?fan" for n v
  proof
    assume eq: "node_name n = node_name v"
    obtain x where x: "node_name v = ''via_'' @ x" using via_names [OF own(1) v] by blast
    show False
    proof (cases "n \<in> set (sg_own sg)")
      case True
      then obtain y where "node_name n = ''_'' @ y" using m(4) by blast
      with eq x show False by simp
    next
      case False
      then have "n \<in> set (concat (map (nsProxies unmarshal get) (contributors get p)))" using n m(2) by simp
      then obtain s y where s: "s \<in> set (contributors get p)" "node_name n = s @ ''_'' @ y"
        using m(5) by blast
      have "s \<noteq> ''via''" using via contributors_sub [OF s(1)] by (metis image_eqI list.set_map)
      moreover have "lower_name s" using ok contributors_sub [OF s(1)] by (auto simp: inputsOk_def list_all_iff)
      moreover have "lower_name ''via''" by (simp add: lower_name_def)
      moreover have "s @ CHR ''_'' # y = ''via'' @ CHR ''_'' # x" using eq x s(2) by simp
      ultimately show False using prefixed_names_eq by blast
    qed
  qed
  then show ?thesis using m(3) fan by auto
qed

section \<open>References\<close>

text \<open>The members that dangle before the build has touched them, under the name they are served
  with: a member of a group of a source, or of an own group, that is neither a built-in target nor
  the name of a proxy or group of that same source or own file.\<close>

definition danglingMembers :: "unmarshaller \<Rightarrow> cacheReader \<Rightarrow> Pipeline \<Rightarrow> string set" where
  "danglingMembers unmarshal get p =
     (\<Union>r\<in>set (p_subscriptions p). \<Union>g\<in>set (cachedList unmarshal get ''proxy-groups'' (row_Name r)).
        (\<lambda>m. row_Name r @ ''_'' @ m) ` {m \<in> set (members_of g). m \<notin> builtinTargets \<union>
          entryNames (cachedList unmarshal get ''proxies'' (row_Name r) @ cachedList unmarshal get ''proxy-groups'' (row_Name r))}) \<union>
     (\<Union>g\<in>set (p_ownGroups p).
        {m \<in> set (members_of g). m \<notin> builtinTargets \<union> entryNames (p_ownProxies p @ p_ownGroups p)})"

text \<open>What a served member may be besides a served proxy or group.\<close>

abbreviation outerTargets :: "unmarshaller \<Rightarrow> cacheReader \<Rightarrow> Pipeline \<Rightarrow> string set" where
  "outerTargets unmarshal get p \<equiv> builtinTargets \<union> danglingMembers unmarshal get p"

lemma in_un3: "(P \<Longrightarrow> m \<in> B) \<Longrightarrow> (Q \<Longrightarrow> m \<in> C) \<Longrightarrow> P \<or> Q \<Longrightarrow> m \<in> A \<union> B \<union> C"
  by blast

lemma un3_mono: "M \<subseteq> A \<union> B \<union> C \<Longrightarrow> B \<subseteq> B' \<Longrightarrow> C \<subseteq> C' \<Longrightarrow> M \<subseteq> A \<union> B' \<union> C'"
  by blast

lemma named_memberI: "node_name n' = m \<Longrightarrow> n' \<in> A \<Longrightarrow> m \<in> node_name ` A"
  by blast

lemma ns_group_members:
  assumes ok: "inputsOk unmarshal get p"
    and s: "s \<in> set (contributors get p)" and g: "g \<in> set (nsGroups unmarshal get s)"
  shows "set (members_of g) \<subseteq> outerTargets unmarshal get p \<union> node_name ` set (nsProxies unmarshal get s) \<union> node_name ` set (nsGroups unmarshal get s)"
proof
  fix m assume m: "m \<in> set (members_of g)"
  let ?cp = "cachedList unmarshal get ''proxies'' s" and ?cg = "cachedList unmarshal get ''proxy-groups'' s"
  obtain r where r: "r \<in> set (p_subscriptions p)" "row_Name r = s" using contributors_sub [OF s] by blast
  have named: "\<forall>n\<in>set (?cp @ ?cg). named_node n"
    using ok r by (auto simp: inputsOk_def list_all_iff)
  obtain g0 where g0: "g0 \<in> set ?cg" and gd: "g = rewriteGroupMembers (prefixName (s @ ''_'') g0) s"
    using g by (auto simp: nsGroups_def)
  have "named_node (prefixName (s @ ''_'') g0)" using named g0 by auto
  then have "is_mapping (prefixName (s @ ''_'') g0)" by (simp add: named_node_def)
  then obtain m0 where m0: "m0 \<in> set (members_of g0)"
    and md: "m = (if m0 \<in> builtinTargets then m0 else s @ ''_'' @ m0)"
    using m by (auto simp: gd)
  consider "m0 \<in> builtinTargets" | n where "m0 \<notin> builtinTargets" "n \<in> set (?cp @ ?cg)" "node_name n = m0"
    | "m0 \<notin> builtinTargets \<union> entryNames (?cp @ ?cg)" by (auto simp: entryNames_def)
  then show "m \<in> outerTargets unmarshal get p \<union> node_name ` set (nsProxies unmarshal get s) \<union> node_name ` set (nsGroups unmarshal get s)"
  proof cases
    case 1
    then show ?thesis by (simp add: md)
  next
    case (2 n)
    have n: "named_node n" using named 2(2) by blast
    then have nm: "node_name (prefixName (s @ ''_'') n) = m" using 2 by (simp add: named_node_def md)
    have "is_mapping (prefixName (s @ ''_'') n)" using n named_node_prefixName by (auto simp: named_node_def)
    then have gm: "node_name (rewriteGroupMembers (prefixName (s @ ''_'') n) s) = m" using nm by simp
    have G: "n \<in> set ?cg \<Longrightarrow> m \<in> node_name ` set (nsGroups unmarshal get s)"
      by (rule named_memberI [OF gm]) (simp add: nsGroups_def)
    have P: "n \<in> set ?cp \<Longrightarrow> m \<in> node_name ` set (nsProxies unmarshal get s)"
      by (rule named_memberI [OF nm]) (simp add: nsProxies_def)
    from 2(2) have "n \<in> set ?cp \<or> n \<in> set ?cg" by simp
    with P G show ?thesis by (rule in_un3)
  next
    case 3
    then have "m \<in> danglingMembers unmarshal get p"
      unfolding danglingMembers_def using r g0 m0 md by (intro UnI1 UN_I [of r] UN_I [of g0]) auto
    then show ?thesis by simp
  qed
qed

lemma own_group_members:
  assumes ok: "inputsOk unmarshal get p" and g: "g \<in> set (ownGroups' p)"
  shows "set (members_of g) \<subseteq> outerTargets unmarshal get p \<union> node_name ` set (map (prefixName ''_'') (p_ownProxies p)) \<union> node_name ` set (ownGroups' p)"
proof
  fix m assume m: "m \<in> set (members_of g)"
  let ?P = "entryNames (p_ownProxies p)" and ?G = "entryNames (p_ownGroups p)"
  have named: "\<forall>n\<in>set (p_ownProxies p @ p_ownGroups p). named_node n"
    using ok by (auto simp: inputsOk_def list_all_iff)
  have og: "ownGroups' p = map (\<lambda>g. rewriteOwnGroupMembers (prefixName ''_'' g) ?P ?G) (p_ownGroups p)"
    by (simp add: ownGroups'_def RewriteOwn_def Let_def)
  obtain g0 where g0: "g0 \<in> set (p_ownGroups p)" and gd: "g = rewriteOwnGroupMembers (prefixName ''_'' g0) ?P ?G"
    using g by (auto simp: og)
  have "named_node (prefixName ''_'' g0)" using named g0 by auto
  then have "is_mapping (prefixName ''_'' g0)" by (simp add: named_node_def)
  then obtain m0 where m0: "m0 \<in> set (members_of g0)"
    and md: "m = (if m0 \<in> builtinTargets then m0 else if m0 \<in> ?P \<or> m0 \<in> ?G then ''_'' @ m0 else m0)"
    using m by (auto simp: gd)
  consider "m0 \<in> builtinTargets" | "m0 \<notin> builtinTargets" "m0 \<in> ?P \<or> m0 \<in> ?G"
    | "m0 \<notin> builtinTargets" "m0 \<notin> ?P" "m0 \<notin> ?G" by blast
  then show "m \<in> outerTargets unmarshal get p \<union> node_name ` set (map (prefixName ''_'') (p_ownProxies p)) \<union> node_name ` set (ownGroups' p)"
  proof cases
    case 1
    then show ?thesis by (simp add: md)
  next
    case 2
    then have "\<exists>n\<in>set (p_ownProxies p @ p_ownGroups p). node_name n = m0" by (auto simp: entryNames_def)
    then obtain n where n: "node_name n = m0" "n \<in> set (p_ownProxies p @ p_ownGroups p)" by blast
    have nn: "named_node n" using named n(2) by blast
    then have nm: "node_name (prefixName ''_'' n) = m" using 2 n(1) by (simp add: named_node_def md)
    have "is_mapping (prefixName ''_'' n)" using nn named_node_prefixName by (auto simp: named_node_def)
    then have gm: "node_name (rewriteOwnGroupMembers (prefixName ''_'' n) ?P ?G) = m" using nm by simp
    have G: "n \<in> set (p_ownGroups p) \<Longrightarrow> m \<in> node_name ` set (ownGroups' p)"
      by (rule named_memberI [OF gm]) (simp add: og)
    have P: "n \<in> set (p_ownProxies p) \<Longrightarrow> m \<in> node_name ` set (map (prefixName ''_'') (p_ownProxies p))"
      by (rule named_memberI [OF nm]) simp
    from n(2) have "n \<in> set (p_ownProxies p) \<or> n \<in> set (p_ownGroups p)" by simp
    with P G show ?thesis by (rule in_un3)
  next
    case 3
    then have "m \<in> danglingMembers unmarshal get p"
      unfolding danglingMembers_def using g0 m0 md by (intro UnI2 UN_I [of g0]) (auto simp: entryNames_def)
    then show ?thesis by simp
  qed
qed

lemma groups0_members:
  assumes st: "buildStages ulower unmarshal get p = Some sg" and ok: "inputsOk unmarshal get p"
    and g: "g \<in> set (sg_groups0 sg)"
  shows "set (members_of g) \<subseteq> outerTargets unmarshal get p \<union> node_name ` set (sg_merged sg) \<union> node_name ` set (sg_groups0 sg)"
proof -
  let ?ns = "nsGroups unmarshal get" and ?cs = "contributors get p"
  have d: "distinct (map row_Name (p_subscriptions p))" using ok by (simp add: inputsOk_def)
  note sts = buildStages_sources [OF st d]
  have g0: "sg_groups0 sg = fst (MergeProxyGroups ?ns ?cs (ownGroups' p))" using sts by simp
  have named: "\<forall>g\<in>set (ownGroups' p @ concat (map ?ns ?cs)). named_node g"
    using nsGroups_named [OF ok] ownGroups_named [OF ok] by auto
  note inv = MergeProxyGroups_inv [OF named, folded g0]
  have merged: "set (sg_merged sg) = set (map (prefixName ''_'') (p_ownProxies p)) \<union> (\<Union>s\<in>set ?cs. set (nsProxies unmarshal get s))"
    using merged_names(2) [OF st ok] sts by simp
  have names0: "node_name ` set (sg_groups0 sg) = node_name ` set (ownGroups' p) \<union> (\<Union>s\<in>set ?cs. node_name ` set (?ns s))"
    unfolding inv(2) by auto
  have input: "set (members_of h) \<subseteq> outerTargets unmarshal get p \<union> node_name ` set (sg_merged sg) \<union> node_name ` set (sg_groups0 sg)"
    if "h \<in> set (ownGroups' p) \<or> (\<exists>s\<in>set ?cs. h \<in> set (?ns s))" for h
    using that
  proof
    assume h: "h \<in> set (ownGroups' p)"
    have p: "node_name ` set (map (prefixName ''_'') (p_ownProxies p)) \<subseteq> node_name ` set (sg_merged sg)"
      unfolding merged by (intro image_mono Un_upper1)
    have g: "node_name ` set (ownGroups' p) \<subseteq> node_name ` set (sg_groups0 sg)"
      unfolding names0 by (rule Un_upper1)
    show ?thesis by (rule un3_mono [OF own_group_members [OF ok h] p g])
  next
    assume "\<exists>s\<in>set ?cs. h \<in> set (?ns s)"
    then obtain s where s: "s \<in> set ?cs" "h \<in> set (?ns s)" by blast
    have p: "node_name ` set (nsProxies unmarshal get s) \<subseteq> node_name ` set (sg_merged sg)"
      unfolding merged by (intro image_mono le_supI2 UN_upper s(1))
    have g: "node_name ` set (?ns s) \<subseteq> node_name ` set (sg_groups0 sg)"
      unfolding names0 by (intro le_supI2 UN_upper [of s _ "\<lambda>s. node_name ` set (?ns s)"] s(1))
    show ?thesis by (rule un3_mono [OF ns_group_members [OF ok s] p g])
  qed
  have mem: "set (members_of g) = (\<Union>h\<in>{h \<in> set (map snd (map (Pair ''own'') (ownGroups' p) @ tagged ?ns ?cs)). node_name h = node_name g}. set (members_of h))"
    using inv(1) g by (simp add: group_of_def)
  have all: "set (map snd (map (Pair ''own'') (ownGroups' p) @ tagged ?ns ?cs)) = set (ownGroups' p) \<union> (\<Union>s\<in>set ?cs. set (?ns s))"
    unfolding map_append map_snd_tagged by (simp add: o_def)
  show ?thesis unfolding mem all
  proof (rule UN_least)
    fix h assume "h \<in> {h \<in> set (ownGroups' p) \<union> (\<Union>s\<in>set ?cs. set (?ns s)). node_name h = node_name g}"
    then have "h \<in> set (ownGroups' p) \<or> (\<exists>s\<in>set ?cs. h \<in> set (?ns s))" by simp
    then show "set (members_of h) \<subseteq> outerTargets unmarshal get p \<union> node_name ` set (sg_merged sg) \<union> node_name ` set (sg_groups0 sg)"
      by (rule input)
  qed
qed

lemma regionGroupsOf_members: "set (snd (regionGroupsOf gs) nm) \<subseteq> (\<Union>g\<in>set gs. set (members_of g))"
proof -
  define f where "f = (\<lambda>g (names, members :: string \<Rightarrow> string list).
       let name = getMappingField g ''name'' in
       if length name > 8 \<and> take 8 name = ''_region_''
       then (names @ [name], members(name := mappingMembers g ''proxies'')) else (names, members))"
  have "set (snd (fold f gs (ns, ms)) nm) \<subseteq> set (ms nm) \<union> (\<Union>g\<in>set gs. set (members_of g))" for ns ms
  proof (induction gs arbitrary: ns ms)
    case Nil
    then show ?case by simp
  next
    case (Cons g gs)
    obtain ns' ms' where f: "f g (ns, ms) = (ns', ms')" by (cases "f g (ns, ms)")
    then have "set (ms' nm) \<subseteq> set (ms nm) \<union> set (members_of g)"
      by (auto simp: f_def Let_def split: if_splits)
    with Cons [of ns' ms'] show ?case by (auto simp: f)
  qed
  from this [of "[]" "\<lambda>_. []"] show ?thesis by (simp add: regionGroupsOf_def f_def)
qed

lemma upstream_in_merged:
  "set (selectorNames merged) \<subseteq> node_name ` set merged"
  "set (upstreamNames (upstreamOnly merged)) \<subseteq> node_name ` set merged"
  by (auto simp: selectorNames_def upstreamNames_def upstreamOnly_def)

lemma groups_members:
  assumes st: "buildStages ulower unmarshal get p = Some sg" and ok: "inputsOk unmarshal get p"
    and g: "g \<in> set (sg_groups sg)"
  shows "set (members_of g) \<subseteq> outerTargets unmarshal get p \<union> node_name ` set (sg_merged sg) \<union> node_name ` set (sg_groups sg)"
proof -
  let ?em1 = "regionStage ulower p (sg_merged sg)"
  let ?N = "outerTargets unmarshal get p \<union> node_name ` set (sg_merged sg) \<union> node_name ` set (sg_groups sg)"
  have d: "distinct (map row_Name (p_subscriptions p))" and pg: "p_proxiesGroupName p \<noteq> []"
    using ok by (simp_all add: inputsOk_def)
  have gs: "sg_groups sg = mergeGroups ulower p (sg_merged sg) (sg_groups0 sg)"
    using buildStages_sources [OF st d] by simp
  have n0: "\<forall>g\<in>set (sg_groups0 sg). named_node g" using groups0_named [OF st ok] by blast
  obtain G1 G2 rs ms where
    G1: "G1 = AppendProxiesGroup (sg_groups0 sg) (selectorNames (sg_merged sg)) (p_proxiesGroupName p)"
    and n2: "map node_name G2 = map node_name G1 @ map node_name ?em1"
    and m2: "\<forall>g\<in>set G2. \<exists>h\<in>set (G1 @ ?em1). set (members_of g) \<subseteq> set (members_of h) \<union> set (map node_name ?em1)"
    and rg: "(rs, ms) = regionGroupsOf G2"
    and n3: "map node_name (sg_groups sg) = map node_name G2 @
           map node_name (continentSpec (p_urlTestParams p) (p_loadBalanceParams p) rs ms)"
    and m3: "\<forall>g\<in>set (sg_groups sg). named_node g \<and>
           (\<exists>h\<in>set (G2 @ continentSpec (p_urlTestParams p) (p_loadBalanceParams p) rs ms).
           set (members_of g) \<subseteq> set (members_of h) \<union>
             set (map node_name (continentSpec (p_urlTestParams p) (p_loadBalanceParams p) rs ms)))"
    by (rule mergeGroups_shape [OF n0 pg, of "sg_merged sg" ulower, folded gs])
  let ?em2 = "continentSpec (p_urlTestParams p) (p_loadBalanceParams p) rs ms"
  have N3: "node_name ` set (sg_groups sg) = set (map node_name G1) \<union> set (map node_name ?em1) \<union> set (map node_name ?em2)"
    using arg_cong [OF n3, of set] unfolding n2 by auto
  have N1: "node_name ` set (sg_groups0 sg) \<subseteq> set (map node_name G1)"
    using AppendProxiesGroup_facts(3) [OF n0 pg, of "selectorNames (sg_merged sg)"] by (auto simp: G1)
  have c1: "set (members_of g) \<subseteq> ?N" if "g \<in> set G1" for g
  proof -
    obtain h where h: "h \<in> set (sg_groups0 sg) \<or> members_of h = []"
      "set (members_of g) \<subseteq> set (members_of h) \<union> set (selectorNames (sg_merged sg))"
      using AppendProxiesGroup_facts(5) [OF n0 pg] \<open>g \<in> set G1\<close> unfolding G1 by blast
    have "set (members_of h) \<subseteq> ?N"
      using h(1) groups0_members [OF st ok, of h] N1 unfolding N3 by (elim disjE) (blast, simp)
    moreover have "set (selectorNames (sg_merged sg)) \<subseteq> ?N" using upstream_in_merged(1) by blast
    ultimately show ?thesis using h(2) by blast
  qed
  have c2: "set (members_of g) \<subseteq> ?N" if "g \<in> set G2" for g
  proof -
    have e1: "set (members_of h) \<subseteq> ?N" if "h \<in> set ?em1" for h
      using that regionSpec_groups upstream_in_merged(2) unfolding regionStage_def by blast
    from m2 \<open>g \<in> set G2\<close> obtain h where "h \<in> set (G1 @ ?em1)"
      "set (members_of g) \<subseteq> set (members_of h) \<union> set (map node_name ?em1)" by blast
    moreover have "set (members_of h) \<subseteq> ?N" using calculation(1) c1 e1 unfolding set_append by blast
    ultimately show ?thesis using N3 by blast
  qed
  have "set (ms nm) \<subseteq> ?N" for nm
    using regionGroupsOf_members [of G2 nm] c2 by (simp add: rg [symmetric]) blast
  then have e2: "set (members_of h) \<subseteq> ?N" if "h \<in> set ?em2" for h
    using continentSpec_groups [OF that] by blast
  from m3 g obtain h where "h \<in> set (G2 @ ?em2)"
    "set (members_of g) \<subseteq> set (members_of h) \<union> set (map node_name ?em2)" by blast
  moreover have "set (members_of h) \<subseteq> ?N" using calculation(1) c2 e2 unfolding set_append by blast
  ultimately show ?thesis using N3 by blast
qed

lemma pruned_members:
  assumes cl: "\<And>g. g \<in> set groups \<Longrightarrow> set (members_of g) \<subseteq> B \<union> P \<union> node_name ` set groups"
    and pr: "PruneEmptyProxyGroups groups rules pg fb = (groups', rules', res)" and g: "g \<in> set groups'"
  shows "set (members_of g) \<subseteq> B \<union> P \<union> node_name ` set groups'"
proof
  fix m assume m: "m \<in> set (members_of g)"
  let ?rem = "set (pr_RemovedGroups res)"
  note pc = Prune_closed [OF pr]
  have gs: "groups' = map (dropMembers ?rem) (filter (\<lambda>g. \<not> emptyGroup groups pg fb g) groups)" using pc by blast
  from g obtain h where h: "h \<in> set groups" "g = dropMembers ?rem h" unfolding gs by auto
  from m have mh: "m \<in> set (members_of h)" "m \<notin> ?rem" unfolding h(2) members_dropMembers by auto
  from cl [OF h(1)] mh(1) have "m \<in> B \<union> P \<or> m \<in> node_name ` set groups" by (rule subsetD [elim_format]) (rule UnE, assumption, simp_all)
  then show "m \<in> B \<union> P \<union> node_name ` set groups'"
  proof
    assume "m \<in> node_name ` set groups"
    then obtain k where k: "k \<in> set groups" "node_name k = m" by (rule imageE) simp
    have "\<not> emptyGroup groups pg fb k"
    proof
      assume "emptyGroup groups pg fb k"
      with k(1) have "k \<in> set (filter (emptyGroup groups pg fb) groups)" by simp
      from named_memberI [OF k(2) this] have "m \<in> ?rem" using pc by (simp only: set_map)
      with mh(2) show False ..
    qed
    with k(1) have "dropMembers ?rem k \<in> set groups'" unfolding gs by simp
    moreover have "node_name (dropMembers ?rem k) = m" using k(2) by simp
    ultimately show ?thesis using named_memberI by (intro UnI2)
  qed (rule UnI1)
qed

lemma served_members:
  assumes b: "Build ulower cvt unmarshal get get' ops p clk1 clk2 st = (Inr mc, st')"
    and ok: "inputsOk unmarshal get p"
    and g: "g \<in> set (mc_ProxyGroups mc)"
  shows "set (members_of g) \<subseteq> outerTargets unmarshal get p \<union> node_name ` set (mc_Proxies mc) \<union> node_name ` set (mc_ProxyGroups mc)"
proof -
  obtain sg where sg: "buildStages ulower unmarshal get p = Some sg"
    and mp: "mc_Proxies mc = sg_merged sg @ fst (AppendFanoutProxies (sg_own sg) (sg_groups sg) (p_proxiesGroupName p))"
    and pr: "(mc_ProxyGroups mc, mc_Rules mc) =
       (case PruneEmptyProxyGroups (sg_groups sg) (mr_Rules (sg_rules sg)) (p_proxiesGroupName p) (p_fallbackRuleTarget p)
        of (gs, rs, _) \<Rightarrow> (gs, rs))"
    using Build_stages [OF b] by blast
  obtain gs rs res where prune: "PruneEmptyProxyGroups (sg_groups sg) (mr_Rules (sg_rules sg)) (p_proxiesGroupName p) (p_fallbackRuleTarget p) = (gs, rs, res)"
    by (rule prod_cases3)
  have gs: "mc_ProxyGroups mc = gs" using pr by (simp add: prune)
  have "node_name ` set (sg_merged sg) \<subseteq> node_name ` set (mc_Proxies mc)"
    unfolding mp set_append by (intro image_mono Un_upper1)
  then have cls: "set (members_of h) \<subseteq> outerTargets unmarshal get p \<union> node_name ` set (mc_Proxies mc) \<union> node_name ` set (sg_groups sg)"
    if "h \<in> set (sg_groups sg)" for h
    by (rule un3_mono [OF groups_members [OF sg ok that]]) (rule subset_refl)
  show ?thesis unfolding gs by (rule pruned_members [OF cls prune]) (assumption, rule g [unfolded gs])
qed

end
