(* ===== verification/Witnesses.thy ===== *)
theory Witnesses
  imports Served_Config Subscriptions Custom_Rules
begin

text \<open>
  Sample data and, for every theorem with a hypothesis, an instance of it on sample data at which
  the hypotheses hold.
\<close>

section \<open>Sample data\<close>

definition sampleProxy :: "string \<Rightarrow> node" where
  "sampleProxy name = Node (hdr (mkNode MappingNode [] ''!!map''))
     [mkNode ScalarNode ''name'' ''!!str'', mkNode ScalarNode name ''!!str'',
      mkNode ScalarNode ''type'' ''!!str'', mkNode ScalarNode ''ss'' ''!!str'']"

definition sampleSeq :: "node list \<Rightarrow> node" where
  "sampleSeq cs = Node (hdr (mkNode SequenceNode [] ''!!seq'')) cs"

definition sampleGroup :: "string \<Rightarrow> string list \<Rightarrow> node" where
  "sampleGroup name members = Node (hdr (mkNode MappingNode [] ''!!map''))
     [mkNode ScalarNode ''name'' ''!!str'', mkNode ScalarNode name ''!!str'',
      mkNode ScalarNode ''proxies'' ''!!str'', sampleSeq (map (\<lambda>m. mkNode ScalarNode m ''!!str'') members)]"

definition sampleDoc :: "node list \<Rightarrow> node list \<Rightarrow> string list \<Rightarrow> node" where
  "sampleDoc proxies groups rules = Node (hdr (mkNode MappingNode [] ''!!map''))
     [mkNode ScalarNode ''proxies'' ''!!str'', sampleSeq proxies,
      mkNode ScalarNode ''proxy-groups'' ''!!str'', sampleSeq groups,
      mkNode ScalarNode ''rules'' ''!!str'', sampleSeq (map (\<lambda>r. mkNode ScalarNode r ''!!str'') rules)]"

lemma sampleProxy_facts [simp]:
  "is_mapping (sampleProxy name)" "node_name (sampleProxy name) = name"
  "members_of (sampleProxy name) = []" "named_node (sampleProxy name) \<longleftrightarrow> name \<noteq> []"
  by (simp_all add: sampleProxy_def is_mapping_def getMappingField_def mappingMembers_def
      getMappingNode_def named_node_def scalar_field_def)

lemma sampleGroup_facts [simp]:
  "is_mapping (sampleGroup name ms)" "node_name (sampleGroup name ms) = name"
  "members_of (sampleGroup name ms) = ms" "named_node (sampleGroup name ms) \<longleftrightarrow> name \<noteq> []"
  by (simp_all add: sampleGroup_def sampleSeq_def is_mapping_def getMappingField_def mappingMembers_def
      getMappingNode_def named_node_def scalar_field_def filter_map o_def)

definition sampleRow :: SubscriptionRow where
  "sampleRow = \<lparr>row_Name = ''alpha'', row_Link = ''https://a.example/s'', row_Priority = 10, row_Enable = True,
     row_RefreshSeconds = 0, row_StaleOnErrorSeconds = 0\<rparr>"

definition samplePayload :: UpstreamCachedPayload where
  "samplePayload = \<lparr>cp_SourceName = ''alpha'', cp_FetchedAt = 0, cp_BodyYAML = ''body'',
     cp_Headers = \<lparr>uh_SubscriptionUserinfo = None, uh_ProfileUpdateIntervalHours = None\<rparr>, cp_PayloadBytes = 4,
     cp_parsedConfig = None\<rparr>"

definition sampleGet :: cacheReader where
  "sampleGet = [''alpha'' \<mapsto> samplePayload]"

definition sampleUnmarshal :: unmarshaller where
  "sampleUnmarshal = (\<lambda>_. Inr (sampleDoc [sampleProxy ''HK 01''] [sampleGroup ''Pick'' [''HK 01'', ''DIRECT'']] [''MATCH,Pick'']))"

definition samplePipeline :: Pipeline where
  "samplePipeline = NewPipeline [sampleRow] [sampleProxy ''home''] [sampleGroup ''mine'' [''home'']] 24"

lemma sampleCached [simp]:
  "cachedList sampleUnmarshal sampleGet ''proxies'' ''alpha'' = [sampleProxy ''HK 01'']"
  "cachedList sampleUnmarshal sampleGet ''proxy-groups'' ''alpha'' = [sampleGroup ''Pick'' [''HK 01'', ''DIRECT'']]"
  by (simp_all add: cachedList_def cachedDoc_def sampleGet_def samplePayload_def sampleUnmarshal_def Parse_def
      docRoot_def sampleDoc_def findChildSequence_def sampleSeq_def)

lemma sampleRow_name [simp]: "row_Name sampleRow = ''alpha''"
  by (simp add: sampleRow_def)

lemma sample_parseable: "parseable sampleUnmarshal sampleGet (p_subscriptions samplePipeline)"
  by (simp add: parseable_def samplePipeline_def NewPipeline_def sampleGet_def samplePayload_def
      sampleUnmarshal_def Parse_def split: option.split)

lemma sample_inputsOk: "inputsOk sampleUnmarshal sampleGet samplePipeline"
  by (simp add: inputsOk_def samplePipeline_def NewPipeline_def lower_name_def isFanoutTarget_def HasPrefix_def)

lemma sample_danglingMembers: "danglingMembers sampleUnmarshal sampleGet samplePipeline = {}"
  by (auto simp: danglingMembers_def samplePipeline_def NewPipeline_def builtinTargets_def entryNames_def)

section \<open>Namespacing and merging\<close>

theorem RewriteSource_references_closed_witness:
  "let (proxies', groups', rules') = RewriteSource ''alpha'' [sampleProxy ''HK 01''] [sampleGroup ''Pick'' [''HK 01'', ''DIRECT'']] []
   in list_all (\<lambda>g. set (members_of g) \<subseteq> builtinTargets \<union> entryNames (proxies' @ groups')) groups'"
proof -
  obtain ps gs rs where r: "RewriteSource ''alpha'' [sampleProxy ''HK 01''] [sampleGroup ''Pick'' [''HK 01'', ''DIRECT'']] [] = (ps, gs, rs)"
    by (rule prod_cases3)
  from RewriteSource_references_closed [OF r]
  have "\<forall>g\<in>set gs. set (members_of g) \<subseteq> builtinTargets \<union> entryNames (ps @ gs)"
    by (simp add: builtinTargets_def entryNames_def)
  then show ?thesis by (simp only: r Let_def prod.case list_all_iff)
qed

definition sampleSources :: "string \<Rightarrow> node list" where
  "sampleSources = (\<lambda>_. [sampleProxy ''HK 01'', sampleProxy ''JP 02''])"

theorem MergeProxies_namespaced_witness:
  "distinct (map node_name (fst (MergeProxies (\<lambda>s. fst (RewriteSource s (sampleSources s) [] [])) [''alpha'', ''beta'']
     (fst (RewriteOwn [sampleProxy ''home''] [])))))"
proof -
  have low: "lower_name ''alpha''" "lower_name ''beta''" by (simp_all add: lower_name_def)
  show ?thesis
    by (rule MergeProxies_namespaced [where ownGroups = "[]" and groups = "\<lambda>_. []" and rules = "\<lambda>_. []", OF _ _ _ _ _ refl refl, THEN conjunct2])
      (simp_all add: low sampleSources_def)
qed

theorem AppendProxiesGroup_selector_witness:
  "\<exists>pre g' post. AppendProxiesGroup [sampleGroup ''Pick'' [''x'']] [''HK 01''] ''Proxies'' = pre @ g' # post \<and>
     node_name g' = ''Proxies'' \<and> ''HK 01'' \<in> set (members_of g')"
proof -
  have "\<forall>g\<in>set [sampleGroup ''Pick'' [''x'']]. named_node g" by simp
  from AppendProxiesGroup_selector [OF _ this, of "''Proxies''" "[''HK 01'']"]
  obtain pre g' post where "AppendProxiesGroup [sampleGroup ''Pick'' [''x'']] [''HK 01''] ''Proxies'' = pre @ g' # post"
    "node_name g' = ''Proxies''" "set [''HK 01''] \<subseteq> set (members_of g')" by blast
  then show ?thesis by (intro exI conjI) simp_all
qed

theorem MergeProxyGroups_union_witness:
  "distinct (map node_name (fst (MergeProxyGroups (\<lambda>_. [sampleGroup ''G'' [''a'']]) [''alpha'', ''beta''] [sampleGroup ''G'' [''b'']])))"
  using MergeProxyGroups_union [of "[sampleGroup ''G'' [''b'']]" "\<lambda>_. [sampleGroup ''G'' [''a'']]" "[''alpha'', ''beta'']", OF _ refl refl]
  by simp

section \<open>Configuration files\<close>

definition sampleReads :: csv_reads where
  "sampleReads = [Inr [''name'', ''link'', ''priority'', ''enable''],
     Inr [''alpha'', ''https://a.example/s'', ''10'', ''Enable''],
     Inr [''beta'', ''https://b.example/s'', ''5'', ''Disable'']]"

definition sampleURL :: url_parser where
  "sampleURL = (\<lambda>_. Some (''https'', ''a.example''))"

lemma fold_ascii:
  "list_all (\<lambda>c. byte c < 128) s \<Longrightarrow> list_all (\<lambda>c. byte c < 128) t \<Longrightarrow>
     EqualFold s t \<longleftrightarrow> map (\<lambda>c. fold_rune (byte c)) s = map (\<lambda>c. fold_rune (byte c)) t"
  by (simp add: EqualFold_def runes_ascii o_def)

lemma sampleReads_parsed:
  "parseSubscriptions id sampleURL sampleReads = Inr
     [\<lparr>row_Name = ''alpha'', row_Link = ''https://a.example/s'', row_Priority = 10, row_Enable = True,
       row_RefreshSeconds = 0, row_StaleOnErrorSeconds = 0\<rparr>,
      \<lparr>row_Name = ''beta'', row_Link = ''https://b.example/s'', row_Priority = 5, row_Enable = False,
       row_RefreshSeconds = 0, row_StaleOnErrorSeconds = 0\<rparr>]"
  by (simp add: parseSubscriptions_def sampleReads_def sampleURL_def requiredCols_def optionalCols_def solid_def
      ToLower_ascii lower_char_def getCol_def lower_name_def parseRow_def validLink_def parseOptional_def
      ParseInt_def ParseUint_def is_digit_def fold_ascii fold_rune_def Let_def)

theorem parseSubscriptions_wf_witness:
  "case parseSubscriptions id sampleURL sampleReads of
     Inl _ \<Rightarrow> False | Inr rows \<Rightarrow> length rows = 2 \<and> distinct (map row_Name rows) \<and> list_all (row_ok sampleURL) rows"
  using parseSubscriptions_wf [OF sampleReads_parsed] unfolding sampleReads_parsed by (simp add: list_all_iff)

definition sampleDir :: "dirEntry list" where
  "sampleDir =
     [\<lparr>de_IsDir = False, de_Name = ''b.yaml'', de_File = Parsed \<lparr>f_Name = None, f_Priority = Some 7, f_Rules = None\<rparr>\<rparr>,
      \<lparr>de_IsDir = False, de_Name = ''a.yml'', de_File = Parsed \<lparr>f_Name = None, f_Priority = Some 7, f_Rules = None\<rparr>\<rparr>]"

theorem LoadCustomRules_sorted_witness:
  "sorted (map crs_key (LoadCustomRules (sort_key crs_key) (Some sampleDir))) \<and>
   list_all (\<lambda>c. 0 \<le> crs_Priority c) (LoadCustomRules (sort_key crs_key) (Some sampleDir)) \<and>
   length (LoadCustomRules (sort_key crs_key) (Some sampleDir)) = 2"
proof -
  have "slice_sorter (sort_key crs_key) crs_key" by unfold_locales simp_all
  from LoadCustomRules_sorted [OF this refl, of sampleDir]
  have "mset (LoadCustomRules (sort_key crs_key) (Some sampleDir)) = mset (List.map_filter loadEntry sampleDir)"
    "sorted (map crs_key (LoadCustomRules (sort_key crs_key) (Some sampleDir)))"
    "list_all (\<lambda>c. 0 \<le> crs_Priority c) (LoadCustomRules (sort_key crs_key) (Some sampleDir))" by blast+
  moreover from this(1) have "length (LoadCustomRules (sort_key crs_key) (Some sampleDir)) = length (List.map_filter loadEntry sampleDir)"
    by (rule mset_eq_length)
  moreover have "length (List.map_filter loadEntry sampleDir) = 2"
    by (simp add: sampleDir_def loadEntry_def List.map_filter_def HasSuffix_def HasPrefix_def Let_def)
  ultimately show ?thesis by simp
qed

section \<open>Rules\<close>

theorem DropUnbackedRuleSetRules_spec_witness:
  "fst (DropUnbackedRuleSetRules [''RULE-SET,ads,REJECT'', ''MATCH,DIRECT''] {}) = [''MATCH,DIRECT'']"
proof -
  obtain k d where "DropUnbackedRuleSetRules [''RULE-SET,ads,REJECT'', ''MATCH,DIRECT''] {} = (k, d)" by (rule prod.exhaust)
  moreover have "isRuleSetRule ''RULE-SET,ads,REJECT''" "\<not> isRuleSetRule ''MATCH,DIRECT''" by code_simp+
  ultimately show ?thesis using DropUnbackedRuleSetRules_spec by fastforce
qed

theorem Prune_no_dangling_witness:
  "let (groups', rules', res) = PruneEmptyProxyGroups [sampleGroup ''E'' [], sampleGroup ''F'' [''E'', ''DIRECT'']]
       [''GEOIP,CN,E,no-resolve'', ''MATCH,E''] ''Proxies'' ''auto''
   in map members_of groups' = [[''DIRECT'']] \<and> rules' = [''GEOIP,CN,auto,no-resolve'', ''MATCH,auto'']"
proof -
  let ?gs = "[sampleGroup ''E'' [], sampleGroup ''F'' [''E'', ''DIRECT'']]"
  obtain gs rs res where r: "PruneEmptyProxyGroups ?gs [''GEOIP,CN,E,no-resolve'', ''MATCH,E''] ''Proxies'' ''auto'' = (gs, rs, res)"
    by (rule prod_cases3)
  have removed: "node_name ` {g \<in> set ?gs. \<not> (node_name g \<in> {if ''Proxies'' = '''' then ''Proxies'' else ''Proxies'', ''auto''} \<or>
      members_of g \<noteq> [])} = {''E''}"
    by (auto intro!: image_eqI [of _ node_name "sampleGroup ''E'' []"])
  note P = Prune_no_dangling [OF r, unfolded Let_def removed]
  have "map members_of gs = [[''DIRECT'']]"
    using conjunct1 [OF conjunct2 [OF P]] by (auto simp: list_all2_Cons1)
  moreover obtain r1 r2 where rs: "rs = [r1, r2]"
    using list_all2_lengthD [OF conjunct2 [OF conjunct2 [OF P]]] by (cases rs; cases "tl rs") auto
  have "r1 = ''GEOIP,CN,auto,no-resolve''"
    using list_all2_nthD [OF conjunct2 [OF conjunct2 [OF P]], of 0, THEN conjunct2, THEN conjunct1, rule_format, of "''GEOIP''" "''E''" "''CN''"]
    by (simp add: rs)
  moreover have "r2 = ''MATCH,auto''"
    using list_all2_nthD [OF conjunct2 [OF conjunct2 [OF P]], of 1, THEN conjunct1, rule_format, of "''E''"] by (simp add: rs)
  ultimately show ?thesis by (simp add: r rs)
qed

theorem Prune_identity_witness:
  "fst (PruneEmptyProxyGroups [sampleGroup ''F'' [''DIRECT'']] [''MATCH,F''] ''Proxies'' ''auto'') = [sampleGroup ''F'' [''DIRECT'']]"
  using Prune_identity [of "[sampleGroup ''F'' [''DIRECT'']]"] by simp

section \<open>Generated groups\<close>

theorem AppendFanoutProxies_routes_witness:
  "map (\<lambda>n. (node_name n, getMappingField n ''dialer-proxy''))
     (fst (AppendFanoutProxies [sampleProxy ''_home''] [sampleGroup ''_region_HK'' [''a'']] ''Proxies'')) =
   [(''via_AUTO__home'', ''Proxies''), (''via_region_HK__home'', ''_region_HK'')]"
proof -
  have "getMappingField (sampleProxy ''_home'') ''dialer-proxy'' = []"
    by (simp add: sampleProxy_def getMappingField_def)
  then show ?thesis
    using AppendFanoutProxies_routes [of "[sampleProxy ''_home'']" "[sampleGroup ''_region_HK'' [''a'']]" "''Proxies''"]
    by (auto simp: Let_def HasPrefix_def list_all2_Cons1 split: prod.splits)
qed

theorem AppendFanoutProxies_distinct_witness:
  "distinct (map node_name (fst (AppendFanoutProxies [sampleProxy ''_home'', sampleProxy ''_work'']
     [sampleGroup ''_region_HK'' [''a'']] ''Proxies'')))"
proof -
  have t: "targetGroupNames [sampleGroup ''_region_HK'' [''a'']] = [''_region_HK'']"
    by (simp add: targetGroupNames_def isFanoutTarget_def HasPrefix_def)
  have c: "clean_tag (stripUnderscore ''_region_HK'')"
    by (simp add: clean_tag_def stripUnderscore_def HasSuffix_def HasPrefix_def)
  show ?thesis
    by (rule AppendFanoutProxies_distinct) (simp_all add: t c HasPrefix_def)
qed

theorem AppendRegionGroups_partition_witness:
  "\<exists>front em. fst (AppendRegionGroups id [sampleGroup ''Proxies'' [''alpha_HK 01'']] [sampleProxy ''alpha_HK 01'']
       ''Proxies'' zeroURLTestParams zeroLoadBalanceParams) = front @ em \<and> map node_name front = [''Proxies''] \<and>
     mset (concat (map members_of (ofType ''url-test'' em))) = {#''alpha_HK 01''#}"
proof -
  have n: "\<forall>g\<in>set [sampleGroup ''Proxies'' [''alpha_HK 01'']]. named_node g"
    "''Proxies'' \<in> set (map node_name [sampleGroup ''Proxies'' [''alpha_HK 01'']])" by simp_all
  have u: "mset (upstreamNames [sampleProxy ''alpha_HK 01'']) = {#''alpha_HK 01''#}"
    by (simp add: upstreamNames_def HasPrefix_def)
  from AppendRegionGroups_partition [OF n, of id "[sampleProxy ''alpha_HK 01'']" zeroURLTestParams zeroLoadBalanceParams]
  obtain front em where
    a: "AppendRegionGroups id [sampleGroup ''Proxies'' [''alpha_HK 01'']] [sampleProxy ''alpha_HK 01'']
       ''Proxies'' zeroURLTestParams zeroLoadBalanceParams =
       (front @ em, map stripSourcePrefix (filter (\<lambda>n. countryOf id n = None) (upstreamNames [sampleProxy ''alpha_HK 01''])))"
    and b: "map node_name front = map node_name [sampleGroup ''Proxies'' [''alpha_HK 01'']]"
    and c: "mset (concat (map members_of (ofType ''url-test'' em))) = mset (upstreamNames [sampleProxy ''alpha_HK 01''])"
    by blast
  show ?thesis by (rule exI [of _ front], rule exI [of _ em]) (simp add: a b c u del: mset_concat)
qed

theorem AppendContinentGroups_rollup_witness:
  "\<exists>front em. fst (AppendContinentGroups [sampleGroup ''Proxies'' []] [''_region_HK''] (\<lambda>_. [''alpha_HK 01''])
       ''Proxies'' zeroURLTestParams zeroLoadBalanceParams) = front @ em \<and> map node_name front = [''Proxies''] \<and>
     distinct (map node_name em)"
proof -
  have n: "\<forall>g\<in>set [sampleGroup ''Proxies'' []]. named_node g"
    "''Proxies'' \<in> set (map node_name [sampleGroup ''Proxies'' []])" by simp_all
  from AppendContinentGroups_rollup [OF n, of "[''_region_HK'']" "\<lambda>_. [''alpha_HK 01'']" zeroURLTestParams zeroLoadBalanceParams]
  obtain front em where
    a: "AppendContinentGroups [sampleGroup ''Proxies'' []] [''_region_HK''] (\<lambda>_. [''alpha_HK 01''])
       ''Proxies'' zeroURLTestParams zeroLoadBalanceParams =
       (front @ em, filter (\<lambda>cc. continentOf cc = None) (rolledUp [''_region_HK'']))"
    and b: "map node_name front = map node_name [sampleGroup ''Proxies'' []]" "distinct (map node_name em)"
    by blast
  show ?thesis by (rule exI [of _ front], rule exI [of _ em]) (simp add: a b)
qed

section \<open>Traffic\<close>

definition sampleInfo :: SubscriptionUserinfo where
  "sampleInfo = \<lparr>ui_Upload = 100, ui_Download = 200, ui_Total = 1000, ui_Expire = 1000000\<rparr>"

theorem ParseSubscriptionUserinfo_roundtrip_witness:
  "userinfo64 sampleInfo \<and> ParseSubscriptionUserinfo id (formatUserinfo sampleInfo) = Inr (sampleInfo, [])"
proof -
  have u: "userinfo64 sampleInfo"
    by (simp add: userinfo64_def sampleInfo_def in_int64_def int64_min_def int64_max_def)
  from u ParseSubscriptionUserinfo_roundtrip [OF u, of id] show ?thesis ..
qed

theorem ParseSubscriptionUserinfo_accepts_witness:
  "userinfo64 \<lparr>ui_Upload = 0, ui_Download = 0, ui_Total = 9, ui_Expire = 0\<rparr>"
proof -
  have "ParseSubscriptionUserinfo id ''total=9'' =
      Inr (\<lparr>ui_Upload = 0, ui_Download = 0, ui_Total = 9, ui_Expire = 0\<rparr>, [''upload'', ''download'', ''expire''])"
    by (simp add: ParseSubscriptionUserinfo_def Split_def solid_def IndexByte_def ToLower_ascii lower_char_def
        ParseInt_def ParseUint_def is_digit_def setUserinfo_def zeroUserinfo_def userinfoKeys_def Let_def)
  from ParseSubscriptionUserinfo_accepts [OF this] show ?thesis by simp
qed

theorem ComputeUsedToday_sum_witness:
  "ComputeUsedToday [(''b'', sampleInfo), (''a'', sampleInfo)] (Some (CaptureSnapshot [(''a'', sampleInfo)] 0 0 None)) =
   wrap64 (\<Sum>x\<leftarrow>[(''a'', sampleInfo), (''b'', sampleInfo)]. usedDelta (CaptureSnapshot [(''a'', sampleInfo)] 0 0 None) x)"
  by (rule ComputeUsedToday_sum) simp

lemma sampleInfo_sane: "sane sampleInfo"
  by (simp add: sane_def sampleInfo_def in_int64_def int64_min_def int64_max_def)

lemma epoch_parses: "parsesAsDate (formatDate (localDay (location_of None) 0))"
  by code_simp

theorem CaptureSnapshot_current_witness:
  "\<not> IsRolloverNeeded (Some (CaptureSnapshot [(''a'', sampleInfo)] 5 0 None)) 3600000000000 None \<and>
   validateSnapshot (Some (CaptureSnapshot [(''a'', sampleInfo)] 5 0 None))"
proof -
  have "localDay (location_of None) 3600000000000 = localDay (location_of None) 0" by code_simp
  from CaptureSnapshot_current [OF _ this, of "[(''a'', sampleInfo)]" 5] show ?thesis
    by (simp add: sampleInfo_sane epoch_parses)
qed

theorem AggregateSubscriptionUserinfo_sums_witness:
  "ui_Total (AggregateSubscriptionUserinfo [(''b'', sampleInfo), (''a'', sampleInfo)]) = 2000"
  using AggregateSubscriptionUserinfo_sums [of "[(''b'', sampleInfo), (''a'', sampleInfo)]"]
  by (simp add: Let_def sampleInfo_def wrap64_def)

theorem AggregateProfileUpdateInterval_min_witness:
  "AggregateProfileUpdateInterval [(''b'', Some 6), (''a'', None), (''c'', Some 12)] 24 = 6"
proof -
  have "positiveHours [(''b'', Some 6), (''a'', None), (''c'', Some 12)] = {6, 12}" by (auto simp: positiveHours_def positives_def)
  then show ?thesis
    using AggregateProfileUpdateInterval_min [of "[(''b'', Some 6), (''a'', None), (''c'', Some 12)]" 24] by simp
qed

theorem ComputeDailyAllowance_exact_witness:
  "da_ExpiredSourceFlags (ComputeDailyAllowance (\<lambda>_. 0) [(''b'', sampleInfo), (''a'', sampleInfo)] 2000000000000000) = [''a'', ''b'']"
proof -
  have "plausible (Unix 2000000000000000) sampleInfo"
    by (simp add: plausible_def sampleInfo_def in_int64_def int64_min_def int64_max_def Unix_def)
  then show ?thesis
    using ComputeDailyAllowance_exact [of "[(''b'', sampleInfo), (''a'', sampleInfo)]" 2000000000000000 "\<lambda>_. 0"]
    by (simp add: expired_def sampleInfo_def Unix_def)
qed

section \<open>Builds\<close>

theorem allowance_pinned_for_the_day_witness:
  "\<exists>h1 fs1. serveTraffic (\<lambda>_. 0) (Some (FileLoad ''f'', FileSave ''f'' None)) [(''a'', sampleInfo)] 0 0 None (\<lambda>_. Missing) = (Some h1, fs1)"
  using allowance_pinned_for_the_day [of "[(''a'', sampleInfo)]" None 0 0 "[(''a'', sampleInfo)]" "\<lambda>_. 0" "''f''" 0 "\<lambda>_. Missing" 0]
  by (auto simp: sampleInfo_sane epoch_parses)

theorem Build_rules_witness:
  "\<exists>mc st'. Build id (\<lambda>_. 0) sampleUnmarshal sampleGet sampleGet None samplePipeline 0 0 () = (Inr mc, st') \<and>
     mc_Rules mc \<noteq> [] \<and> last (mc_Rules mc) = ''MATCH,auto''"
proof -
  have f: "p_fallbackRuleTarget samplePipeline = ''auto''" by (simp add: samplePipeline_def NewPipeline_def)
  from Build_rules [OF sample_parseable, of id "\<lambda>_. 0" sampleGet None 0 0 "()"] show ?thesis by (auto simp: f)
qed

end
