(* ===== verification/Output.thy ===== *)
theory Output
  imports Pipeline
begin

text \<open>
  \<open>internal/output/subscription_mode.go\<close>: the served document.  The merged lists are put into the
  template tree, the tree is normalised (comments, styles, field order, priority comments), encoded,
  and the escapes the encoder writes for supplementary-plane characters are undone in the bytes.

  The YAML parser \<open>unmarshal\<close> and the YAML encoder \<open>encode\<close> (bytes, or the error of \<open>Encode\<close> or
  \<open>Close\<close>) are parameters.  Go mutates the nodes in place; every node of the document occurs in it
  once, so the passes return the changed tree.
\<close>

section \<open>Definitions\<close>

subsection \<open>Field order\<close>

text \<open>The first position \<open>i\<close> (counting keys and values) with key \<open>key\<close> that satisfies \<open>ok\<close>.\<close>

fun keyIndex :: "string \<Rightarrow> (nat \<Rightarrow> bool) \<Rightarrow> nat \<Rightarrow> node list \<Rightarrow> nat option" where
  "keyIndex key ok i (k # v # r) = (if nvalue k = key \<and> ok i then Some i else keyIndex key ok (i + 2) r)"
| "keyIndex key ok i _ = None"

definition reorderNameFirst :: "node \<Rightarrow> node" where
  "reorderNameFirst n =
     (if nkind n \<noteq> MappingNode then n
      else case keyIndex ''name'' (\<lambda>i. i > 0) 0 (content n) of
        None \<Rightarrow> n
      | Some i \<Rightarrow> Node (hdr n) (content n ! i # content n ! (i + 1) # take i (content n) @ drop (i + 2) (content n)))"

definition moveFieldToPosition :: "node \<Rightarrow> string \<Rightarrow> nat \<Rightarrow> node" where
  "moveFieldToPosition n key targetPos = (case keyIndex key (\<lambda>_. True) 0 (content n) of
      None \<Rightarrow> n
    | Some i \<Rightarrow>
        if i = targetPos then n
        else if targetPos + 1 \<ge> length (content n) then n
        else let c = content n; targetKey = c ! targetPos; targetVal = c ! (targetPos + 1);
                 c = c[targetPos := c ! i]; c = c[targetPos + 1 := c ! (i + 1)];
                 c = c[i := targetKey]; c = c[i + 1 := targetVal]
             in Node (hdr n) c)"

definition reorderProxyGroupFields :: "node \<Rightarrow> node" where
  "reorderProxyGroupFields n =
     (if nkind n \<noteq> MappingNode \<or> length (content n) < 2 then n
      else
        let n = moveFieldToPosition n ''name'' 0;
            n = moveFieldToPosition n ''type'' 2;
            n = moveFieldToPosition n ''proxies'' 4;
            typeValue = (if length (content n) > 3 \<and> nkind (content n ! 3) = ScalarNode then nvalue (content n ! 3) else [])
        in if typeValue = ''load-balance'' then
             let n = moveFieldToPosition n ''url'' 6;
                 n = moveFieldToPosition n ''interval'' 8;
                 n = moveFieldToPosition n ''lazy'' 10;
                 n = moveFieldToPosition n ''strategy'' 12;
                 n = moveFieldToPosition n ''timeout'' 14
             in moveFieldToPosition n ''max-failed-times'' 16
           else
             let n = moveFieldToPosition n ''url'' 6;
                 n = moveFieldToPosition n ''interval'' 8;
                 n = moveFieldToPosition n ''timeout'' 10;
                 n = moveFieldToPosition n ''max-failed-times'' 12
             in moveFieldToPosition n ''lazy'' 14)"

subsection \<open>Styles and comments\<close>

definition FlowStyle :: nat where "FlowStyle = 32"

fun setFlowStyleRecursive :: "node \<Rightarrow> node" where
  "setFlowStyleRecursive (Node h cs) =
     Node (if y_kind h = MappingNode \<or> y_kind h = SequenceNode then h\<lparr>y_style := FlowStyle\<rparr> else h)
       (map setFlowStyleRecursive cs)"

fun resetScalarStyles :: "node \<Rightarrow> node" where
  "resetScalarStyles (Node h cs) =
     Node (if y_kind h = ScalarNode then h\<lparr>y_style := 0\<rparr> else h) (map resetScalarStyles cs)"

fun stripComments :: "node \<Rightarrow> node" where
  "stripComments (Node h cs) = Node (h\<lparr>y_head := [], y_line := [], y_foot := []\<rparr>) (map stripComments cs)"

definition normalizeProxies :: "node \<Rightarrow> node" where
  "normalizeProxies seq =
     (if nkind seq \<noteq> SequenceNode then seq
      else Node (hdr seq) (map (\<lambda>proxy. reorderNameFirst (setFlowStyleRecursive proxy)) (content seq)))"

definition normalizeProxyStyle :: "node \<Rightarrow> node" where
  "normalizeProxyStyle rt = Node (hdr rt) (updPair ''proxies'' normalizeProxies (content rt))"

definition normalizeGroups :: "node \<Rightarrow> node" where
  "normalizeGroups seq =
     (if nkind seq \<noteq> SequenceNode then seq
      else Node (hdr seq) (map (\<lambda>g.
        if nkind g \<noteq> MappingNode then g
        else reorderProxyGroupFields (Node (hdr g\<lparr>y_style := 0\<rparr>) (content g))) (content seq)))"

definition normalizeProxyGroupStyle :: "node \<Rightarrow> node" where
  "normalizeProxyGroupStyle rt = Node (hdr rt) (updPair ''proxy-groups'' normalizeGroups (content rt))"

subsection \<open>Priority comments\<close>

definition setHeadComment :: "string \<Rightarrow> node \<Rightarrow> node" where
  "setHeadComment c n = Node (hdr n\<lparr>y_head := c\<rparr>) (content n)"

definition bucketNames :: "string list \<Rightarrow> string list" where
  "bucketNames contributors = sort (add_unseen {[]} [] contributors)"

definition bucketComment :: "int \<Rightarrow> string list \<Rightarrow> string" where
  "bucketComment priority contributors =
     ''# --- priority '' @ Itoa priority @ '' ('' @ Join (bucketNames contributors) '', '' @ '') ---''"

text \<open>The walk over the buckets, on the rules with their priorities and contributors.\<close>

function annotateRules :: "(node \<times> int \<times> string) list \<Rightarrow> node list" where
  "annotateRules [] = []"
| "annotateRules ((r, p, c) # xs) =
     (if p = 0 then r # annotateRules xs
      else let bucket = takeWhile (\<lambda>(_, q, _). q = p) xs
           in setHeadComment (bucketComment p (c # map (\<lambda>(_, _, c). c) bucket)) r #
              map fst bucket @ annotateRules (dropWhile (\<lambda>(_, q, _). q = p) xs))"
  by pat_completeness auto
termination
  by (relation "measure length") (auto simp: le_imp_less_Suc length_dropWhile_le)

definition annotateRuleSeq :: "int list \<Rightarrow> string list \<Rightarrow> node \<Rightarrow> node" where
  "annotateRuleSeq priorities contributors seq =
     (if nkind seq \<noteq> SequenceNode \<or> length (content seq) = 0 then seq
      else let n = min (min (length (content seq)) (length priorities)) (length contributors)
           in Node (hdr seq) (annotateRules (zip (content seq) (zip priorities contributors)) @ drop n (content seq)))"

definition normalizeRulesPriorityComments :: "node \<Rightarrow> int list \<Rightarrow> string list \<Rightarrow> node" where
  "normalizeRulesPriorityComments rt priorities contributors =
     Node (hdr rt) (updPair ''rules'' (annotateRuleSeq priorities contributors) (content rt))"

subsection \<open>Undoing the encoder's escapes\<close>

definition isHex :: "char \<Rightarrow> bool" where
  "isHex b \<longleftrightarrow> 48 \<le> byte b \<and> byte b \<le> 57 \<or> 97 \<le> byte b \<and> byte b \<le> 102 \<or> 65 \<le> byte b \<and> byte b \<le> 70"

definition allHex :: "string \<Rightarrow> bool" where
  "allHex p = list_all isHex p"

definition hexDigit :: "char \<Rightarrow> nat" where
  "hexDigit b = (if byte b \<le> 57 then byte b - 48 else if byte b \<le> 70 then byte b - 55 else byte b - 87)"

text \<open>\<open>strconv.ParseInt(s, 16, 32)\<close> on eight hexadecimal digits.\<close>

definition parseHex32 :: "string \<Rightarrow> nat option" where
  "parseHex32 s = (let n = foldl (\<lambda>a b. 16 * a + hexDigit b) 0 s in if n < 2 ^ 31 then Some n else None)"

abbreviation dquote :: char where "dquote \<equiv> CHR 0x22"
abbreviation backslash :: char where "backslash \<equiv> CHR 0x5C"

function unescapeLoop :: "bool \<Rightarrow> string \<Rightarrow> string" where
  "unescapeLoop inDQ [] = []"
| "unescapeLoop inDQ (b # r) =
     (if \<not> inDQ then b # unescapeLoop (b = dquote) r
      else case r of
        next # r' \<Rightarrow>
          if b = backslash then
            (case (if next = CHR ''U'' \<and> 8 \<le> length r' \<and> allHex (take 8 r') then parseHex32 (take 8 r') else None) of
               Some codepoint \<Rightarrow> EncodeRune codepoint @ unescapeLoop True (drop 8 r')
             | None \<Rightarrow> b # next # unescapeLoop True r')
          else b # unescapeLoop (b \<noteq> dquote) r
      | [] \<Rightarrow> b # unescapeLoop (b \<noteq> dquote) r)"
  by pat_completeness auto
termination
  by (relation "measure (length \<circ> snd)") auto

definition unescapeSupplementaryPlane :: "string \<Rightarrow> string" where
  "unescapeSupplementaryPlane body = unescapeLoop False body"

subsection \<open>Rendering\<close>

definition sequenceOfNodes :: "node list \<Rightarrow> node" where
  "sequenceOfNodes items = Node (hdr (mkNode SequenceNode [] ''!!seq'')) items"

definition sequenceOfStrings :: "string list \<Rightarrow> node" where
  "sequenceOfStrings items =
     Node (hdr (mkNode SequenceNode [] ''!!seq'')) (map (\<lambda>s. mkNode ScalarNode s ''!!str'') items)"

text \<open>\<open>root\<close> is a pointer into \<open>doc\<close>: changing it changes the document.\<close>

definition withRoot :: "node \<Rightarrow> node \<Rightarrow> node" where
  "withRoot doc rt = (if nkind doc = DocumentNode \<and> content doc \<noteq> [] then Node (hdr doc) (rt # tl (content doc)) else rt)"

definition fillTemplate :: "MergedConfig \<Rightarrow> node \<Rightarrow> node" where
  "fillTemplate merged rt =
     (let rt = setMappingValue rt ''proxies'' (sequenceOfNodes (mc_Proxies merged));
          rt = setMappingValue rt ''proxy-groups'' (sequenceOfNodes (mc_ProxyGroups merged));
          rt = setMappingValue rt ''rules'' (sequenceOfStrings (mc_Rules merged))
      in case mc_RuleProviders merged of
           None \<Rightarrow> rt
         | Some rp \<Rightarrow> setMappingValue rt ''rule-providers'' rp)"

definition renderDoc :: "MergedConfig \<Rightarrow> node \<Rightarrow> node" where
  "renderDoc merged doc =
     (let doc = stripComments (withRoot doc (fillTemplate merged (docRoot doc)));
          rt = normalizeProxyStyle (docRoot doc);
          rt = normalizeProxyGroupStyle rt;
          rt = normalizeRulesPriorityComments rt (mc_RulePriorities merged) (mc_RuleContributors merged)
      in resetScalarStyles (withRoot doc rt))"

definition servedUserinfo :: "ServedTrafficHeader \<Rightarrow> SubscriptionUserinfo" where
  "servedUserinfo h =
     (let total = (if th_TotalBytes h = 0 then th_DailyAllowanceBytes h else th_TotalBytes h)
      in \<lparr>ui_Upload = th_UploadBytes h, ui_Download = th_DownloadBytes h, ui_Total = total, ui_Expire = th_ExpireUnix h\<rparr>)"

definition renderHeaders :: "MergedConfig \<Rightarrow> (string \<rightharpoonup> string)" where
  "renderHeaders merged =
     (let headers = [''Content-Type'' \<mapsto> ''application/yaml; charset=utf-8'',
            ''Cache-Control'' \<mapsto> ''no-store, no-cache, must-revalidate''];
          headers = (case mc_ServedTrafficHeader merged of
              None \<Rightarrow> headers
            | Some h \<Rightarrow> headers(''Subscription-Userinfo'' \<mapsto> formatUserinfo (servedUserinfo h)))
      in if mc_AggregatedProfileUpdateIntervalHours merged > 0
         then headers(''Profile-Update-Interval'' \<mapsto> Itoa (mc_AggregatedProfileUpdateIntervalHours merged))
         else headers)"

record Rendered =
  rd_Body :: string
  rd_Headers :: "string \<rightharpoonup> string"

datatype output_error = TemplateUnreadable string | TemplateUnparseable string | NilMergedConfig | TemplateNotMapping | EncodeFailed string

text \<open>The adapter is the template; \<open>file\<close> is what \<open>os.ReadFile\<close> returns.\<close>

definition NewSubscriptionMode :: "unmarshaller \<Rightarrow> string + string \<Rightarrow> output_error + string" where
  "NewSubscriptionMode unmarshal file = (case file of
      Inl e \<Rightarrow> Inl (TemplateUnreadable e)
    | Inr b \<Rightarrow> (case unmarshal b of
        Inl e \<Rightarrow> Inl (TemplateUnparseable e) | Inr _ \<Rightarrow> Inr b))"

definition NewSubscriptionModeFromBytes :: "unmarshaller \<Rightarrow> string \<Rightarrow> output_error + string" where
  "NewSubscriptionModeFromBytes unmarshal tmpl = (case unmarshal tmpl of
      Inl e \<Rightarrow> Inl (TemplateUnparseable e) | Inr _ \<Rightarrow> Inr tmpl)"

definition Render ::
  "unmarshaller \<Rightarrow> (node \<Rightarrow> string + string) \<Rightarrow> string \<Rightarrow> MergedConfig option \<Rightarrow> output_error + Rendered" where
  "Render unmarshal encode templateBytes merged = (case merged of
      None \<Rightarrow> Inl NilMergedConfig
    | Some merged \<Rightarrow>
        (case unmarshal templateBytes of
           Inl e \<Rightarrow> Inl (TemplateUnparseable e)
         | Inr doc \<Rightarrow>
             if nkind (docRoot doc) \<noteq> MappingNode then Inl TemplateNotMapping
             else case encode (renderDoc merged doc) of
               Inl e \<Rightarrow> Inl (EncodeFailed e)
             | Inr bytes \<Rightarrow> Inr \<lparr>rd_Body = unescapeSupplementaryPlane bytes, rd_Headers = renderHeaders merged\<rparr>))"

section \<open>Pairs\<close>

text \<open>The passes on the pairs of a mapping: what they do to positions they do to pairs.\<close>

abbreviation pairKey :: "node \<times> node \<Rightarrow> string" where "pairKey kv \<equiv> nvalue (fst kv)"

fun findKey :: "string \<Rightarrow> (node \<times> node) list \<Rightarrow> nat option" where
  "findKey key [] = None"
| "findKey key (kv # ps) = (if pairKey kv = key then Some 0 else map_option Suc (findKey key ps))"

definition movePair :: "string \<Rightarrow> nat \<Rightarrow> (node \<times> node) list \<Rightarrow> (node \<times> node) list" where
  "movePair key p ps = (case findKey key ps of
      None \<Rightarrow> ps
    | Some i \<Rightarrow> if length ps \<le> p then ps else ps[p := ps ! i, i := ps ! p])"

lemma even_unpairs: "even (length cs) \<Longrightarrow> unpairs (pairs_of cs) = cs"
  by (induction cs rule: pairs_of.induct) auto

lemma unpairs_Cons: "unpairs (x # xs) = fst x # snd x # unpairs xs"
  by (cases x) simp

lemma unpairs_nth:
  "i < length ps \<Longrightarrow> unpairs ps ! (2 * i) = fst (ps ! i) \<and> unpairs ps ! Suc (2 * i) = snd (ps ! i)"
proof (induction ps arbitrary: i rule: unpairs.induct)
  case (2 k v r)
  then show ?case by (cases i) auto
qed simp

lemma unpairs_update:
  "i < length ps \<Longrightarrow> (unpairs ps)[2 * i := k, Suc (2 * i) := v] = unpairs (ps[i := (k, v)])"
proof (induction ps arbitrary: i rule: unpairs.induct)
  case (2 k' v' r)
  then show ?case by (cases i) auto
qed simp

lemma findKey_Some:
  "findKey key ps = Some i \<Longrightarrow> i < length ps \<and> pairKey (ps ! i) = key \<and> (\<forall>j<i. pairKey (ps ! j) \<noteq> key)"
proof (induction ps arbitrary: i)
  case (Cons kv ps)
  then show ?case by (cases i) (auto split: if_splits simp: less_Suc_eq_0_disj)
qed simp

lemma findKey_None: "findKey key ps = None \<longleftrightarrow> key \<notin> pairKey ` set ps"
  by (induction ps) auto

lemma keyIndex_unpairs_from:
  "(\<And>i. m \<le> i \<Longrightarrow> ok i) \<Longrightarrow> keyIndex key ok m (unpairs ps) = map_option (\<lambda>i. m + 2 * i) (findKey key ps)"
  by (induction ps arbitrary: m rule: unpairs.induct) (auto simp: option.map_comp o_def)

lemmas keyIndex_unpairs = keyIndex_unpairs_from [where ok = "\<lambda>_. True", OF TrueI]

lemma take_unpairs: "take (2 * i) (unpairs ps) = unpairs (take i ps)"
  and drop_unpairs: "drop (2 * i) (unpairs ps) = unpairs (drop i ps)"
  by (induction ps arbitrary: i rule: unpairs.induct) (case_tac i; simp)+

lemma move_unpairs:
  assumes "content n = unpairs ps"
  shows "moveFieldToPosition n key (2 * p) = Node (hdr n) (unpairs (movePair key p ps))"
proof (cases "findKey key ps")
  case None
  then show ?thesis using assms
    by (cases n) (simp add: moveFieldToPosition_def movePair_def keyIndex_unpairs)
next
  case (Some i)
  then have i: "i < length ps" using findKey_Some by blast
  show ?thesis
  proof (cases "p < length ps \<and> p \<noteq> i")
    case False
    then show ?thesis using assms Some i
      by (cases n) (auto simp: moveFieldToPosition_def movePair_def keyIndex_unpairs)
  next
    case True
    let ?c = "unpairs ps"
    have "?c[2 * p := ?c ! (2 * i), Suc (2 * p) := ?c ! Suc (2 * i)] = unpairs (ps[p := ps ! i])"
      using unpairs_nth [OF i] unpairs_update [of p ps "fst (ps ! i)" "snd (ps ! i)"] True by simp
    moreover have "(unpairs (ps[p := ps ! i]))[2 * i := ?c ! (2 * p), Suc (2 * i) := ?c ! Suc (2 * p)]
        = unpairs (ps[p := ps ! i, i := ps ! p])"
      using unpairs_nth [of p ps] unpairs_update [of i "ps[p := ps ! i]" "fst (ps ! p)" "snd (ps ! p)"] True i by simp
    moreover have "?c[2 * p := ?c ! (2 * i)] ! Suc (2 * i) = ?c ! Suc (2 * i)"
      by (rule nth_list_update_neq) presburger
    ultimately show ?thesis using assms Some True
      by (simp add: moveFieldToPosition_def movePair_def keyIndex_unpairs Let_def)
  qed
qed

lemma mset_movePair [simp]: "mset (movePair key p ps) = mset ps"
  using findKey_Some [of key ps] by (auto simp: movePair_def mset_swap split: option.split)

lemma length_movePair [simp]: "length (movePair key p ps) = length ps"
  by (simp add: movePair_def split: option.split)

lemma set_movePair [simp]: "set (movePair key p ps) = set ps"
  using mset_movePair set_mset_mset by metis

lemma movePair_keeps:
  assumes "key \<notin> pairKey ` set (take q ps)" and "q \<le> p"
  shows "take q (movePair key p ps) = take q ps"
proof (cases "findKey key ps")
  case (Some i)
  then have i: "i < length ps" "pairKey (ps ! i) = key" using findKey_Some by blast+
  have "\<not> i < q"
  proof
    assume "i < q"
    then have "ps ! i \<in> set (take q ps)" using i(1) by (auto simp: in_set_conv_nth)
    with assms(1) i(2) show False by blast
  qed
  then show ?thesis using assms(2) by (simp add: movePair_def Some take_update_cancel)
qed (simp add: movePair_def)

lemma movePair_places:
  assumes "key \<in> pairKey ` set ps" and "p < length ps"
  shows "pairKey (movePair key p ps ! p) = key"
proof -
  have "findKey key ps \<noteq> None" unfolding findKey_None using assms(1) by simp
  then obtain i where i: "findKey key ps = Some i" by blast
  then show ?thesis using findKey_Some [OF i] assms(2) by (cases "i = p") (auto simp: movePair_def)
qed

text \<open>A sequence of moves, to consecutive positions.\<close>

fun movePairs :: "nat \<Rightarrow> string list \<Rightarrow> (node \<times> node) list \<Rightarrow> (node \<times> node) list" where
  "movePairs p [] ps = ps"
| "movePairs p (key # keys) ps = movePairs (Suc p) keys (movePair key p ps)"

lemma mset_movePairs [simp]: "mset (movePairs p keys ps) = mset ps"
  by (induction p keys ps rule: movePairs.induct) auto

lemma movePairs_append: "movePairs p (ks @ ks') ps = movePairs (p + length ks) ks' (movePairs p ks ps)"
  by (induction p ks ps rule: movePairs.induct) auto

lemma movePairs_keeps:
  "set keys \<inter> pairKey ` set (take q ps) = {} \<Longrightarrow> q \<le> p \<Longrightarrow> take q (movePairs p keys ps) = take q ps"
proof (induction p keys ps rule: movePairs.induct)
  case (2 p key keys ps)
  then have t: "take q (movePair key p ps) = take q ps" by (intro movePair_keeps) auto
  with 2 show ?case by auto
qed simp

lemma movePairs_order:
  assumes "map pairKey (take p ps) = done" and "set keys \<subseteq> pairKey ` set ps"
    and "distinct (map pairKey ps)" and "distinct (done @ keys)" and "length done = p"
  shows "map pairKey (take (p + length keys) (movePairs p keys ps)) = done @ keys"
  using assms
proof (induction p keys ps arbitrary: "done" rule: movePairs.induct)
  case (1 p ps)
  then show ?case by simp
next
  case (2 p key keys ps)
  let ?ps = "movePair key p ps"
  have "key \<notin> set done" using 2(5) by simp
  then have notin: "key \<notin> pairKey ` set (take p ps)" using 2(2) by (metis image_set)
  have p: "p < length ps"
  proof (rule ccontr)
    assume "\<not> p < length ps"
    then have "take p ps = ps" by simp
    with notin 2(3) show False by simp
  qed
  have "take (Suc p) ?ps = take p ?ps @ [?ps ! p]" using p by (simp add: take_Suc_conv_app_nth)
  then have "map pairKey (take (Suc p) ?ps) = done @ [key]"
    using movePair_keeps [OF notin le_refl] movePair_places [of key ps p] 2(2,3) p by simp
  moreover have "distinct (map pairKey ?ps)"
    using 2(4) by (metis mset_map mset_movePair mset_eq_imp_distinct_iff)
  ultimately show ?case using 2(1) [of "done @ [key]"] 2(3,5,6) by simp
qed

definition nameFirst :: "(node \<times> node) list \<Rightarrow> (node \<times> node) list" where
  "nameFirst ps = (case ps of
      [] \<Rightarrow> []
    | kv # qs \<Rightarrow> (case findKey ''name'' qs of
        None \<Rightarrow> ps | Some i \<Rightarrow> qs ! i # kv # take i qs @ drop (Suc i) qs))"

lemma reorderNameFirst_unpairs:
  assumes "nkind n = MappingNode" and "content n = unpairs ps"
  shows "reorderNameFirst n = Node (hdr n) (unpairs (nameFirst ps))"
proof (cases ps)
  case Nil
  then show ?thesis using assms by (cases n) (simp add: reorderNameFirst_def nameFirst_def)
next
  case (Cons kv qs)
  obtain k v where kv: "kv = (k, v)" by (cases kv)
  have idx: "keyIndex ''name'' (\<lambda>i. 0 < i) 0 (unpairs ps) = map_option (\<lambda>i. 2 + 2 * i) (findKey ''name'' qs)"
    using keyIndex_unpairs_from [of 2 "\<lambda>i. 0 < i" "''name''" qs] by (simp add: Cons kv numeral_2_eq_2)
  show ?thesis
  proof (cases "findKey ''name'' qs")
    case None
    then show ?thesis using assms idx by (cases n) (simp add: reorderNameFirst_def nameFirst_def Cons)
  next
    case (Some i)
    then have i: "Suc i < length ps" using findKey_Some Cons by fastforce
    have "unpairs ps ! (2 + 2 * i) = fst (qs ! i)" "unpairs ps ! (2 + 2 * i + 1) = snd (qs ! i)"
      "take (2 + 2 * i) (unpairs ps) = unpairs (kv # take i qs)"
      "drop (2 + 2 * i + 2) (unpairs ps) = unpairs (drop (Suc i) qs)"
      using unpairs_nth [OF i] take_unpairs [of "Suc i" ps] drop_unpairs [of "Suc (Suc i)" ps] by (simp_all add: Cons kv)
    with assms idx Some show ?thesis
      by (simp add: reorderNameFirst_def nameFirst_def Cons kv unpairs_Cons unpairs_append)
  qed
qed

lemma mset_nameFirst [simp]: "mset (nameFirst ps) = mset ps"
proof (cases ps)
  case (Cons kv qs)
  show ?thesis
  proof (cases "findKey ''name'' qs")
    case (Some i)
    then have "i < length qs" using findKey_Some by blast
    then have "mset qs = add_mset (qs ! i) (mset (take i qs) + mset (drop (Suc i) qs))"
      by (metis id_take_nth_drop mset_append mset.simps(2) union_mset_add_mset_right)
    then show ?thesis by (simp add: nameFirst_def Cons Some)
  qed (simp add: nameFirst_def Cons)
qed (simp add: nameFirst_def)

lemma nameFirst_first: "''name'' \<in> pairKey ` set ps \<Longrightarrow> nameFirst ps \<noteq> [] \<and> pairKey (hd (nameFirst ps)) = ''name''"
  by (cases ps) (auto simp: nameFirst_def findKey_None dest: findKey_Some split: option.split)

text \<open>The order of the fields on the wire.\<close>

definition wireOrder :: "string \<Rightarrow> string list" where
  "wireOrder ty = [''name'', ''type'', ''proxies''] @
     (if ty = ''load-balance'' then [''url'', ''interval'', ''lazy'', ''strategy'', ''timeout'', ''max-failed-times'']
      else [''url'', ''interval'', ''timeout'', ''max-failed-times'', ''lazy''])"

definition typeAt :: "(node \<times> node) list \<Rightarrow> string" where
  "typeAt ps = (if 1 < length ps \<and> nkind (snd (ps ! 1)) = ScalarNode then nvalue (snd (ps ! 1)) else [])"

lemma reorderProxyGroupFields_unpairs:
  assumes "nkind n = MappingNode" and "content n = unpairs ps" and "ps \<noteq> []"
  shows "reorderProxyGroupFields n =
     Node (hdr n) (unpairs (movePairs 0 (wireOrder (typeAt (movePairs 0 [''name'', ''type'', ''proxies''] ps))) ps))"
proof -
  define ps3 where "ps3 = movePairs 0 [''name'', ''type'', ''proxies''] ps"
  have len: "length ps3 = length ps" unfolding ps3_def by (metis mset_movePairs size_mset)
  have mv: "moveFieldToPosition (Node h (unpairs qs)) key (2 * p) = Node h (unpairs (movePair key p qs))" for h qs key p
    by (simp add: move_unpairs)
  note mvs = mv [where p = 0, simplified] mv [where p = 1, simplified] mv [where p = 2, simplified] mv [where p = 3, simplified]
    mv [where p = 4, simplified] mv [where p = 5, simplified] mv [where p = 6, simplified] mv [where p = 7, simplified]
    mv [where p = 8, simplified]
  have n: "n = Node (hdr n) (unpairs ps)" using assms(2) by (cases n) simp
  have len2: "\<not> length (content n) < 2" using assms(2,3) by (cases ps) auto
  have three: "moveFieldToPosition (moveFieldToPosition (moveFieldToPosition n ''name'' 0) ''type'' 2) ''proxies'' 4
      = Node (hdr n) (unpairs ps3)"
    by (subst n) (simp add: mvs ps3_def numeral_2_eq_2 [symmetric])
  have wire: "movePairs 0 (wireOrder t) ps = movePairs 3 (drop 3 (wireOrder t)) ps3" for t
    by (simp add: wireOrder_def ps3_def numeral_2_eq_2 [symmetric])
  have "reorderProxyGroupFields n = Node (hdr n) (unpairs (movePairs 3 (drop 3 (wireOrder (typeAt ps3))) ps3))"
  proof (cases "1 < length ps3")
    case True
    then have "unpairs ps3 ! 3 = snd (ps3 ! 1)" "3 < 2 * length ps3"
      using unpairs_nth [OF True] by (simp_all add: numeral_3_eq_3)
    then show ?thesis using assms(1) len2 True
      by (simp add: reorderProxyGroupFields_def three Let_def wireOrder_def mvs typeAt_def)
  next
    case False
    then have "\<not> 3 < 2 * length ps3" by simp
    with False show ?thesis using assms(1) len2
      by (simp add: reorderProxyGroupFields_def three Let_def wireOrder_def mvs typeAt_def)
  qed
  then show ?thesis unfolding ps3_def [symmetric] wire .
qed

definition fieldKeys :: "node \<Rightarrow> string list" where
  "fieldKeys n = map pairKey (pairs_of (content n))"

lemma distinct_pair_lookup:
  assumes "distinct (map pairKey ps)" and "kv \<in> set ps"
  shows "findPair P (pairKey kv) (unpairs ps) = (if P (snd kv) then Some (snd kv) else None)"
proof -
  have none: "key \<notin> pairKey ` set ps \<Longrightarrow> findPair P key (unpairs ps) = None" for key ps
    by (induction ps rule: unpairs.induct) auto
  show ?thesis using assms
  proof (induction ps rule: unpairs.induct)
    case (2 k v r)
    show ?case
    proof (cases "kv = (k, v)")
      case True
      then show ?thesis using 2(2) none [of "nvalue k" r] by auto
    next
      case False
      then have kv: "kv \<in> set r" using 2(3) by simp
      have "nvalue k \<notin> pairKey ` set r" using 2(2) by simp
      then have "pairKey kv \<noteq> nvalue k" using imageI [OF kv, of pairKey] by metis
      then show ?thesis using 2(1) [OF _ kv] 2(2) by auto
    qed
  qed simp
qed

lemma typeAt_field:
  assumes "nkind n = MappingNode" and "content n = unpairs ps" and "distinct (map pairKey ps)"
    and "{''name'', ''type'', ''proxies''} \<subseteq> pairKey ` set ps"
  shows "typeAt (movePairs 0 [''name'', ''type'', ''proxies''] ps) = getMappingField n ''type''"
proof -
  let ?ps = "movePairs 0 [''name'', ''type'', ''proxies''] ps"
  have m: "mset ?ps = mset ps" by (rule mset_movePairs)
  have keys: "map pairKey (take 3 ?ps) = [''name'', ''type'', ''proxies'']"
    using movePairs_order [of 0 ps "[]" "[''name'', ''type'', ''proxies'']"] assms(3,4) by (simp add: numeral_3_eq_3)
  then have "length (take 3 ?ps) = 3" by (metis length_map length_Cons list.size(3) numeral_3_eq_3)
  then have len: "1 < length ?ps" by simp
  then have "map pairKey (take 3 ?ps) ! 1 = pairKey (?ps ! 1)" by simp
  with keys have key: "pairKey (?ps ! 1) = ''type''" by simp
  have "?ps ! 1 \<in> set ps" using len m by (metis nth_mem set_mset_mset)
  from distinct_pair_lookup [OF assms(3) this, of "\<lambda>v. nkind v = ScalarNode"] key
  show ?thesis using len assms(1,2) by (auto simp: typeAt_def getMappingField_def)
qed

text \<open>A served group has its fields in the wire order.  The reordering permutes the fields of a
  group; as many fields of the documented order (which depends on the group's type) as the group
  has, beginning with name, type and proxies, come first and in that order.\<close>

theorem reorderProxyGroupFields_order:
  assumes "is_mapping n" and "distinct (fieldKeys n)" and "3 \<le> m"
    and "ks = take m (wireOrder (getMappingField n ''type''))" and "set ks \<subseteq> set (fieldKeys n)"
  shows "mset (pairs_of (content (reorderProxyGroupFields n))) = mset (pairs_of (content n)) \<and>
     take (length ks) (fieldKeys (reorderProxyGroupFields n)) = ks"
proof -
  let ?ty = "getMappingField n ''type''" and ?l = "[''name'', ''type'', ''proxies'']"
  define ps where "ps = pairs_of (content n)"
  have n: "nkind n = MappingNode" "content n = unpairs ps"
    using assms(1) by (simp_all add: is_mapping_def ps_def even_unpairs)
  have d: "distinct (map pairKey ps)" using assms(2) by (simp add: fieldKeys_def ps_def)
  have sub: "set ks \<subseteq> pairKey ` set ps" using assms(5) by (simp add: fieldKeys_def ps_def)
  obtain r where r: "m = 3 + r" using assms(3) le_Suc_ex by blast
  then have ks: "ks = ?l @ take r (drop 3 (wireOrder ?ty))" using assms(4) by (simp add: wireOrder_def numeral_3_eq_3)
  then have "set ?l \<subseteq> set ks" by simp
  with sub have lead: "{''name'', ''type'', ''proxies''} \<subseteq> pairKey ` set ps" by (simp only: list.set)
  then have "ps \<noteq> []" by auto
  from reorderProxyGroupFields_unpairs [OF n this] typeAt_field [OF n d lead]
  have eq: "pairs_of (content (reorderProxyGroupFields n)) = movePairs 0 (wireOrder ?ty) ps" by simp
  have dw: "distinct (wireOrder ?ty)" by (simp add: wireOrder_def)
  have "distinct ks" using dw assms(4) by simp
  then have k1: "map pairKey (take (length ks) (movePairs 0 ks ps)) = ks"
    using movePairs_order [of 0 ps "[]" ks] d sub by simp
  have "wireOrder ?ty = ks @ drop m (wireOrder ?ty)" using assms(4) by simp
  then have split: "movePairs 0 (wireOrder ?ty) ps = movePairs (length ks) (drop m (wireOrder ?ty)) (movePairs 0 ks ps)"
    using movePairs_append [of 0 ks "drop m (wireOrder ?ty)" ps] by simp
  have "set (drop m (wireOrder ?ty)) \<inter> set ks = {}"
    using dw assms(4) by (metis append_take_drop_id distinct_append inf_commute)
  then have "take (length ks) (movePairs 0 (wireOrder ?ty) ps) = take (length ks) (movePairs 0 ks ps)"
    unfolding split by (intro movePairs_keeps) (metis k1 image_set, simp)
  then have "map pairKey (take (length ks) (movePairs 0 (wireOrder ?ty) ps)) = ks" using k1 by simp
  then show ?thesis using eq by (simp add: fieldKeys_def take_map ps_def)
qed

section \<open>Priority comments\<close>

definition opensBucket :: "(node \<times> int \<times> string) list \<Rightarrow> nat \<Rightarrow> bool" where
  "opensBucket xs i \<longleftrightarrow> (let prio = (\<lambda>i. fst (snd (xs ! i))) in prio i \<noteq> 0 \<and> (if i = 0 then True else prio (i - 1) \<noteq> prio i))"

definition bucketFrom :: "(node \<times> int \<times> string) list \<Rightarrow> nat \<Rightarrow> string list" where
  "bucketFrom xs i = map (\<lambda>(_, _, c). c) (takeWhile (\<lambda>(_, q, _). q = fst (snd (xs ! i))) (drop i xs))"

definition annotated :: "(node \<times> int \<times> string) list \<Rightarrow> nat \<Rightarrow> node" where
  "annotated xs i = (if opensBucket xs i
     then setHeadComment (bucketComment (fst (snd (xs ! i))) (bucketFrom xs i)) (fst (xs ! i)) else fst (xs ! i))"

lemma annotated_shift:
  assumes "i < length ys" and "xs \<noteq> []"
    and "i = 0 \<Longrightarrow> fst (snd (ys ! 0)) \<noteq> 0 \<Longrightarrow> fst (snd (last xs)) \<noteq> fst (snd (ys ! 0))"
  shows "annotated (xs @ ys) (length xs + i) = annotated ys i"
proof -
  have "opensBucket (xs @ ys) (length xs + i) = opensBucket ys i"
  proof (cases i)
    case 0
    have "(xs @ ys) ! (length xs - 1) = last xs" using assms(2) by (simp add: nth_append last_conv_nth)
    then show ?thesis using assms 0 by (auto simp: opensBucket_def nth_append)
  next
    case (Suc j)
    then show ?thesis by (simp add: opensBucket_def nth_append)
  qed
  moreover have "bucketFrom (xs @ ys) (length xs + i) = bucketFrom ys i" by (simp add: bucketFrom_def nth_append)
  ultimately show ?thesis by (simp add: annotated_def nth_append)
qed

lemma length_annotateRules [simp]: "length (annotateRules xs) = length xs"
proof (induction xs rule: annotateRules.induct)
  case (2 r p c xs)
  have "length (takeWhile (\<lambda>(_, q, _). q = p) xs) + length (dropWhile (\<lambda>(_, q, _). q = p) xs) = length xs"
    by (metis length_append takeWhile_dropWhile_id)
  with 2 show ?case by (auto simp: Let_def)
qed simp

lemma annotateRules_nth: "i < length xs \<Longrightarrow> annotateRules xs ! i = annotated xs i"
proof (induction xs arbitrary: i rule: annotateRules.induct)
  case (2 r p c xs)
  let ?x = "(r, p, c)" and ?same = "\<lambda>(_, q, _). q = p"
  show ?case
  proof (cases "p = 0")
    case True
    show ?thesis
    proof (cases i)
      case 0
      then show ?thesis using True by (simp add: annotated_def opensBucket_def)
    next
      case (Suc j)
      then have "annotated (?x # xs) i = annotated xs j"
        using annotated_shift [of j xs "[?x]"] 2(3) True by simp
      then show ?thesis using Suc True 2(1) [of j] 2(3) by simp
    qed
  next
    case False
    define b d where "b = takeWhile ?same xs" and "d = dropWhile ?same xs"
    have xs: "xs = b @ d" by (simp add: b_def d_def)
    have b: "\<forall>y\<in>set b. fst (snd y) = p" unfolding b_def by (auto dest: set_takeWhileD)
    have ann: "annotateRules (?x # xs) =
        (setHeadComment (bucketComment p (c # map (\<lambda>(_, _, c). c) b)) r # map fst b) @ annotateRules d"
      using False by (simp add: Let_def b_def d_def)
    have i: "i < Suc (length b + length d)" using 2(3) xs by simp
    consider "i = 0" | j where "i = Suc j" "j < length b" | j where "i = length (?x # b) + j" "j < length d"
    proof (cases "i = 0 \<or> length b < i")
      case True
      then show ?thesis using that(1) that(3) [of "i - Suc (length b)"] i by (auto simp: less_diff_conv2)
    next
      case False
      then have "i = Suc (i - 1)" "i - 1 < length b" by linarith+
      then show ?thesis by (rule that(2))
    qed
    then show ?thesis
    proof cases
      case 1
      have "takeWhile ?same (?x # xs) = ?x # b" by (simp add: b_def)
      then have "bucketFrom (?x # xs) 0 = c # map (\<lambda>(_, _, c). c) b" by (simp add: bucketFrom_def)
      then show ?thesis unfolding ann using 1 False by (simp add: annotated_def opensBucket_def)
    next
      case (2 j)
      have "fst (snd ((?x # b) ! j)) = p" using b 2(2) by (cases j) auto
      moreover have "fst (snd (b ! j)) = p" using b 2(2) by simp
      ultimately have "\<not> opensBucket (?x # xs) i" using 2 by (simp add: opensBucket_def xs nth_append nth_Cons split: nat.splits)
      then show ?thesis unfolding ann using 2 by (simp add: annotated_def nth_append xs)
    next
      case (3 j)
      have "fst (snd (last (?x # b))) = p" using b by (cases "b = []") auto
      moreover have "fst (snd (d ! 0)) \<noteq> p" if "d \<noteq> []"
        using that hd_dropWhile [of ?same xs] unfolding d_def by (auto simp: hd_conv_nth split: prod.splits)
      ultimately have "annotated ((?x # b) @ d) i = annotated d j"
        unfolding 3(1) using 3(2) by (intro annotated_shift) auto
      moreover have "annotateRules d ! j = annotated d j" using "2.IH"(2) [OF False refl] 3(2) by (simp add: d_def)
      ultimately show ?thesis using 3(1) unfolding ann by (simp add: nth_append xs)
    qed
  qed
qed simp

text \<open>The comments of the served rules.  The rules themselves are unchanged and in order; a rule
  carries a comment exactly when its priority is not 0 and it opens a run of equal priorities, and
  the comment then names the priority and, sorted and once each, the contributors of the whole run.\<close>

theorem annotateRules_comments:
  "annotateRules xs = map (\<lambda>i. if opensBucket xs i
       then setHeadComment (bucketComment (fst (snd (xs ! i))) (bucketFrom xs i)) (fst (xs ! i)) else fst (xs ! i))
     [0..<length xs] \<and>
   sorted (bucketNames cs) \<and> distinct (bucketNames cs) \<and> set (bucketNames cs) = set cs - {[]}"
proof -
  have "annotateRules xs = map (annotated xs) [0..<length xs]"
    by (rule nth_equalityI) (simp_all add: annotateRules_nth)
  moreover have "set (add_unseen ({[]} \<union> set ns) ns cs) = set ns \<union> (set cs - {[]}) \<and>
      (distinct ns \<longrightarrow> distinct (add_unseen ({[]} \<union> set ns) ns cs))" if "[] \<notin> set ns" for ns :: "string list"
    using that
  proof (induction cs arbitrary: ns)
    case (Cons c cs)
    then show ?case using Cons.IH [of "ns @ [c]"] by (cases "c \<in> {[]} \<union> set ns") (auto simp: insert_commute)
  qed simp
  from this [of "[]"] have "set (bucketNames cs) = set cs - {[]}" "distinct (bucketNames cs)"
    by (simp_all add: bucketNames_def)
  ultimately show ?thesis by (simp add: annotated_def bucketNames_def)
qed

section \<open>The document\<close>

text \<open>A tree without its styles and comments: the data a client reads.\<close>

fun plain :: "node \<Rightarrow> node" where
  "plain (Node h cs) = Node (h\<lparr>y_style := 0, y_head := [], y_line := [], y_foot := []\<rparr>) (map plain cs)"

lemma plain_sel [simp]:
  "nkind (plain n) = nkind n" "nvalue (plain n) = nvalue n" "content (plain n) = map plain (content n)"
  by (cases n; simp)+

lemma pass_sel [simp]:
  "nkind (stripComments n) = nkind n" "nvalue (stripComments n) = nvalue n"
  "content (stripComments n) = map stripComments (content n)"
  "nkind (resetScalarStyles n) = nkind n" "nvalue (resetScalarStyles n) = nvalue n"
  "content (resetScalarStyles n) = map resetScalarStyles (content n)"
  "nkind (setFlowStyleRecursive n) = nkind n" "nvalue (setFlowStyleRecursive n) = nvalue n"
  "content (setFlowStyleRecursive n) = map setFlowStyleRecursive (content n)"
  by (cases n; simp)+

lemma plain_passes [simp]:
  "plain (stripComments n) = plain n" "plain (resetScalarStyles n) = plain n" "plain (setFlowStyleRecursive n) = plain n"
  by (induction n; simp)+

lemma plain_head [simp]: "plain (setHeadComment c n) = plain n"
  by (cases n) (simp add: setHeadComment_def)

lemma pairs_of_map: "pairs_of (map f cs) = map (map_prod f f) (pairs_of cs)"
  by (induction cs rule: pairs_of.induct) auto

lemma getMappingNode_map:
  assumes "\<And>n. nvalue (f n) = nvalue n" and "nkind m = nkind n" and "content m = map f (content n)"
  shows "getMappingNode m k = map_option f (getMappingNode n k)"
proof -
  have "findPair (\<lambda>_. True) k (map f cs) = map_option f (findPair (\<lambda>_. True) k cs)" for cs
    by (induction "\<lambda>_::node. True" k cs rule: findPair.induct) (auto simp: assms(1))
  then show ?thesis by (simp add: getMappingNode_def assms(2,3))
qed

lemma getMappingNode_updPair:
  "getMappingNode (Node h (updPair k f cs)) k' =
     (if k' = k then map_option f (getMappingNode (Node h cs) k) else getMappingNode (Node h cs) k')"
proof -
  have "findPair (\<lambda>_. True) k (updPair k f cs) = map_option f (findPair (\<lambda>_. True) k cs)"
    by (induction k f cs rule: updPair.induct) auto
  then show ?thesis by (simp add: getMappingNode_def)
qed

lemma docRoot_withRoot: "nkind rt \<noteq> DocumentNode \<Longrightarrow> docRoot (withRoot doc rt) = rt"
  by (cases "content doc") (auto simp: docRoot_def withRoot_def split: list.splits)

lemma docRoot_pass:
  assumes "nkind m = nkind n" and "content m = map f (content n)" and "m = f n"
  shows "docRoot m = f (docRoot n)"
  using assms by (auto simp: docRoot_def split: list.splits)

text \<open>The same fields, up to their order.\<close>

definition sameFields :: "node \<Rightarrow> node \<Rightarrow> bool" where
  "sameFields m n \<longleftrightarrow> nkind m = nkind n \<and> mset (pairs_of (content (plain m))) = mset (pairs_of (content (plain n)))"

lemma sameFields_plain: "plain m = plain n \<Longrightarrow> sameFields m n"
  unfolding sameFields_def by (metis plain_sel(1))

lemma sameFields_trans: "sameFields a b \<Longrightarrow> sameFields b c \<Longrightarrow> sameFields a c"
  by (simp add: sameFields_def)

lemma sameFields_perm:
  "nkind m = nkind n \<Longrightarrow> mset (pairs_of (content m)) = mset (pairs_of (content n)) \<Longrightarrow> sameFields m n"
  by (simp add: sameFields_def pairs_of_map mset_map)

lemma sameFields_reorderNameFirst: "is_mapping n \<Longrightarrow> sameFields (reorderNameFirst n) n"
  using reorderNameFirst_unpairs [of n "pairs_of (content n)"]
  by (intro sameFields_perm) (simp_all add: is_mapping_def even_unpairs)

lemma sameFields_reorderProxyGroupFields:
  assumes "is_mapping n"
  shows "sameFields (reorderProxyGroupFields n) n"
proof (cases "pairs_of (content n) = []")
  case True
  then have "content n = []" using assms even_unpairs [of "content n"] by (simp add: is_mapping_def)
  then show ?thesis by (simp add: reorderProxyGroupFields_def sameFields_def)
next
  case False
  then show ?thesis using assms reorderProxyGroupFields_unpairs [of n "pairs_of (content n)"]
    by (intro sameFields_perm) (simp_all add: is_mapping_def even_unpairs)
qed

lemma is_mapping_passes [simp]:
  "is_mapping (setFlowStyleRecursive n) = is_mapping n" "is_mapping (stripComments n) = is_mapping n"
  "is_mapping (Node (hdr n\<lparr>y_style := s\<rparr>) (content n)) = is_mapping n"
  by (simp_all add: is_mapping_def)

definition fieldPass :: "MergedConfig \<Rightarrow> string \<Rightarrow> node \<Rightarrow> node" where
  "fieldPass merged k v =
     resetScalarStyles
       ((if k = ''proxies'' then normalizeProxies else if k = ''proxy-groups'' then normalizeGroups
         else if k = ''rules'' then annotateRuleSeq (mc_RulePriorities merged) (mc_RuleContributors merged) else id)
        (stripComments v))"

lemma is_mapping_fillTemplate: "is_mapping rt \<Longrightarrow> is_mapping (fillTemplate merged rt)"
  by (auto simp: fillTemplate_def Let_def split: option.splits)

lemma renderDoc_field:
  assumes "is_mapping (docRoot doc)"
  shows "getMappingNode (docRoot (renderDoc merged doc)) k =
     map_option (fieldPass merged k) (getMappingNode (fillTemplate merged (docRoot doc)) k)"
proof -
  let ?rt1 = "fillTemplate merged (docRoot doc)"
  have m1: "is_mapping ?rt1" using assms by (rule is_mapping_fillTemplate)
  then have k1: "nkind ?rt1 = MappingNode" by (simp add: is_mapping_def)
  have rt: "docRoot (stripComments (withRoot doc ?rt1)) = stripComments ?rt1"
    using docRoot_pass [of "stripComments (withRoot doc ?rt1)" "withRoot doc ?rt1" stripComments] k1
    by (simp add: docRoot_withRoot)
  let ?n1 = "normalizeProxyStyle (stripComments ?rt1)" and ?n2 = "normalizeProxyGroupStyle (normalizeProxyStyle (stripComments ?rt1))"
  let ?rt2 = "normalizeRulesPriorityComments ?n2 (mc_RulePriorities merged) (mc_RuleContributors merged)"
  have k2: "nkind ?rt2 = MappingNode" using k1
    by (simp add: normalizeRulesPriorityComments_def normalizeProxyGroupStyle_def normalizeProxyStyle_def)
  have "docRoot (renderDoc merged doc) = resetScalarStyles ?rt2"
    unfolding renderDoc_def Let_def rt
    using docRoot_pass [of "resetScalarStyles (withRoot (stripComments (withRoot doc ?rt1)) ?rt2)" _ resetScalarStyles] k2
    by (simp add: docRoot_withRoot)
  then have "getMappingNode (docRoot (renderDoc merged doc)) k = map_option resetScalarStyles (getMappingNode ?rt2 k)"
    using getMappingNode_map [of resetScalarStyles "resetScalarStyles ?rt2" ?rt2] by simp
  also have "getMappingNode ?rt2 k = map_option (\<lambda>v.
      (if k = ''proxies'' then normalizeProxies else if k = ''proxy-groups'' then normalizeGroups
         else if k = ''rules'' then annotateRuleSeq (mc_RulePriorities merged) (mc_RuleContributors merged) else id) v)
      (getMappingNode (stripComments ?rt1) k)"
    by (simp add: normalizeRulesPriorityComments_def normalizeProxyGroupStyle_def normalizeProxyStyle_def
        getMappingNode_updPair id_def option.map_ident) (simp add: getMappingNode_def)
  also have "getMappingNode (stripComments ?rt1) k = map_option stripComments (getMappingNode ?rt1 k)"
    using getMappingNode_map [of stripComments "stripComments ?rt1" ?rt1] by simp
  finally show ?thesis unfolding fieldPass_def [abs_def] by (simp only: option.map_comp o_def)
qed

lemma plain_annotateRules: "map plain (annotateRules xs) = map (\<lambda>x. plain (fst x)) xs"
  by (rule nth_equalityI) (auto simp: annotateRules_nth annotated_def)

lemma plain_annotateRuleSeq: "plain (annotateRuleSeq ps cs seq) = plain seq"
proof (cases "nkind seq \<noteq> SequenceNode \<or> content seq = []")
  case True
  then show ?thesis by (auto simp: annotateRuleSeq_def)
next
  case False
  let ?n = "min (min (length (content seq)) (length ps)) (length cs)"
  have "map (\<lambda>x. plain (fst x)) (zip (content seq) (zip ps cs)) = map plain (map fst (zip (content seq) (zip ps cs)))"
    by simp
  also have "map fst (zip (content seq) (zip ps cs)) = take ?n (content seq)"
    by (simp add: map_fst_zip_take min.assoc)
  finally have "map plain (annotateRules (zip (content seq) (zip ps cs)) @ drop ?n (content seq)) = map plain (content seq)"
    by (simp only: map_append plain_annotateRules) (simp only: map_append [symmetric] append_take_drop_id)
  then show ?thesis using False by (cases seq) (simp add: annotateRuleSeq_def Let_def)
qed


lemma sameFields_normalizeProxies:
  assumes "list_all is_mapping ps"
  shows "list_all2 sameFields (content (normalizeProxies (stripComments (sequenceOfNodes ps)))) ps"
proof -
  have "sameFields (reorderNameFirst (setFlowStyleRecursive (stripComments p))) p" if "is_mapping p" for p
    by (rule sameFields_trans [OF sameFields_reorderNameFirst]) (simp_all add: that sameFields_plain)
  with assms show ?thesis
    by (simp add: normalizeProxies_def sequenceOfNodes_def list_all2_conv_all_nth list_all_length mkNode_def)
qed

lemma sameFields_normalizeGroups:
  assumes "list_all is_mapping gs"
  shows "list_all2 sameFields (content (normalizeGroups (stripComments (sequenceOfNodes gs)))) gs"
proof -
  have "sameFields (reorderProxyGroupFields (Node (hdr (stripComments g)\<lparr>y_style := 0\<rparr>) (content (stripComments g)))) g"
    if "is_mapping g" for g
  proof -
    have "plain (Node (hdr (stripComments g)\<lparr>y_style := 0\<rparr>) (content (stripComments g))) = plain g"
      by (cases g) (simp add: o_def)
    then show ?thesis
      using that sameFields_reorderProxyGroupFields [of "Node (hdr (stripComments g)\<lparr>y_style := 0\<rparr>) (content (stripComments g))"]
      by (metis is_mapping_passes(2,3) sameFields_plain sameFields_trans)
  qed
  with assms show ?thesis
    by (simp add: normalizeGroups_def sequenceOfNodes_def list_all2_conv_all_nth list_all_length mkNode_def is_mapping_def)
qed

lemma sameFields_resetScalarStyles:
  "list_all2 sameFields (content m) ns \<Longrightarrow> list_all2 sameFields (content (resetScalarStyles m)) ns"
  by (auto simp: list_all2_conv_all_nth intro: sameFields_trans [OF sameFields_plain])

lemma nkind_normalize [simp]: "nkind (normalizeProxies n) = nkind n" "nkind (normalizeGroups n) = nkind n"
  by (simp_all add: normalizeProxies_def normalizeGroups_def)

lemma nkind_sequenceOfNodes [simp]: "nkind (sequenceOfNodes xs) = SequenceNode"
  by (simp add: sequenceOfNodes_def mkNode_def)

lemma fillTemplate_field:
  assumes "is_mapping rt"
  shows "getMappingNode (fillTemplate merged rt) k =
     (if k = ''rule-providers'' \<and> mc_RuleProviders merged \<noteq> None then mc_RuleProviders merged
      else if k = ''rules'' then Some (sequenceOfStrings (mc_Rules merged))
      else if k = ''proxy-groups'' then Some (sequenceOfNodes (mc_ProxyGroups merged))
      else if k = ''proxies'' then Some (sequenceOfNodes (mc_Proxies merged)) else getMappingNode rt k)"
  using assms by (auto simp: fillTemplate_def Let_def getMappingNode_setMappingValue split: option.splits)

text \<open>What the rules of a document say to a client.\<close>

definition ruleLines :: "node \<Rightarrow> string list" where
  "ruleLines rt = (case getMappingNode rt ''rules'' of
      Some n \<Rightarrow> if nkind n = SequenceNode then map nvalue (content n) else [] | None \<Rightarrow> [])"

definition entries :: "node \<Rightarrow> string \<Rightarrow> node list" where
  "entries rt key = (case getMappingNode rt key of
      Some n \<Rightarrow> if nkind n = SequenceNode then content n else [] | None \<Rightarrow> [])"

lemma renderDoc_document:
  assumes "is_mapping (docRoot doc)"
    and "list_all is_mapping (mc_Proxies merged)" and "list_all is_mapping (mc_ProxyGroups merged)"
  shows "ruleLines (docRoot (renderDoc merged doc)) = mc_Rules merged \<and>
     list_all2 sameFields (entries (docRoot (renderDoc merged doc)) ''proxies'') (mc_Proxies merged) \<and>
     list_all2 sameFields (entries (docRoot (renderDoc merged doc)) ''proxy-groups'') (mc_ProxyGroups merged) \<and>
     map_option plain (getMappingNode (docRoot (renderDoc merged doc)) ''rule-providers'') =
       map_option plain (case mc_RuleProviders merged of
           None \<Rightarrow> getMappingNode (docRoot doc) ''rule-providers'' | Some rp \<Rightarrow> Some rp) \<and>
     (if k \<in> {''proxies'', ''proxy-groups'', ''rules'', ''rule-providers''} then True
      else map_option plain (getMappingNode (docRoot (renderDoc merged doc)) k) = map_option plain (getMappingNode (docRoot doc) k))"
proof -
  let ?out = "renderDoc merged doc"
  note field = renderDoc_field [OF assms(1), of merged] fillTemplate_field [OF assms(1), of merged]
  have "ruleLines (docRoot ?out) = mc_Rules merged"
  proof -
    let ?seq = "annotateRuleSeq (mc_RulePriorities merged) (mc_RuleContributors merged) (stripComments (sequenceOfStrings (mc_Rules merged)))"
    have p: "plain ?seq = plain (sequenceOfStrings (mc_Rules merged))" by (simp add: plain_annotateRuleSeq)
    have "map nvalue (content ?seq) = map nvalue (content (plain ?seq))" by simp
    also have "\<dots> = mc_Rules merged" unfolding p by (simp add: sequenceOfStrings_def mkNode_def o_def)
    finally have "map nvalue (content ?seq) = mc_Rules merged" .
    moreover have "nkind ?seq = SequenceNode" using p
      by (metis plain_sel(1) sequenceOfStrings_def mkNode_def node.sel(1) nkind_sequenceOfNodes sequenceOfNodes_def)
    ultimately show ?thesis by (simp add: ruleLines_def field fieldPass_def o_def)
  qed
  moreover have "list_all2 sameFields (entries (docRoot ?out) ''proxies'') (mc_Proxies merged)"
    using sameFields_resetScalarStyles [OF sameFields_normalizeProxies [OF assms(2)]]
    by (simp add: entries_def field fieldPass_def)
  moreover have "list_all2 sameFields (entries (docRoot ?out) ''proxy-groups'') (mc_ProxyGroups merged)"
    using sameFields_resetScalarStyles [OF sameFields_normalizeGroups [OF assms(3)]]
    by (simp add: entries_def field fieldPass_def)
  moreover have "map_option plain (getMappingNode (docRoot ?out) ''rule-providers'') =
       map_option plain (case mc_RuleProviders merged of
           None \<Rightarrow> getMappingNode (docRoot doc) ''rule-providers'' | Some rp \<Rightarrow> Some rp)"
    by (simp add: field fieldPass_def option.map_comp o_def split: option.splits)
  moreover have "map_option plain (getMappingNode (docRoot ?out) k) = map_option plain (getMappingNode (docRoot doc) k)"
    if "k \<notin> {''proxies'', ''proxy-groups'', ''rules'', ''rule-providers''}"
    using that by (simp add: field fieldPass_def option.map_comp o_def)
  ultimately show ?thesis by simp
qed

lemma Render_mapping:
  assumes "unmarshal tmpl = Inr doc" and "is_mapping (docRoot doc)"
  shows "Render unmarshal encode tmpl (Some merged) = (case encode (renderDoc merged doc) of
     Inl e \<Rightarrow> Inl (EncodeFailed e)
   | Inr bytes \<Rightarrow> Inr \<lparr>rd_Body = unescapeSupplementaryPlane bytes, rd_Headers = renderHeaders merged\<rparr>)"
  using assms by (simp add: Render_def is_mapping_def split: sum.split)

lemma rendered_document:
  assumes "unmarshal tmpl = Inr doc" and "is_mapping (docRoot doc)"
    and "list_all is_mapping (mc_Proxies merged)" and "list_all is_mapping (mc_ProxyGroups merged)"
    and "Render unmarshal encode tmpl (Some merged) = Inr rd"
  shows "\<exists>out bytes. encode out = Inr bytes \<and> rd_Body rd = unescapeSupplementaryPlane bytes \<and>
     ruleLines (docRoot out) = mc_Rules merged \<and>
     list_all2 sameFields (entries (docRoot out) ''proxies'') (mc_Proxies merged) \<and>
     list_all2 sameFields (entries (docRoot out) ''proxy-groups'') (mc_ProxyGroups merged) \<and>
     map_option plain (getMappingNode (docRoot out) ''rule-providers'') =
       map_option plain (case mc_RuleProviders merged of
           None \<Rightarrow> getMappingNode (docRoot doc) ''rule-providers'' | Some rp \<Rightarrow> Some rp) \<and>
     (if k \<in> {''proxies'', ''proxy-groups'', ''rules'', ''rule-providers''} then True
      else map_option plain (getMappingNode (docRoot out) k) = map_option plain (getMappingNode (docRoot doc) k))"
proof -
  obtain bytes where "encode (renderDoc merged doc) = Inr bytes" "rd_Body rd = unescapeSupplementaryPlane bytes"
    using assms(5) unfolding Render_mapping [where unmarshal = unmarshal and tmpl = tmpl and doc = doc, OF assms(1,2)] by (auto split: sum.splits)
  then show ?thesis using renderDoc_document [OF assms(2-4), of k] by blast
qed

text \<open>C31: what a successful render serves.  The bytes are the encoding of a document whose rules
  are the merged rules, in order; whose proxies and groups are the merged ones, in order and each
  with the same fields; whose rule providers are the merged ones when there are any; and every
  other key of which has the value the template gives it.\<close>

theorem Render_document:
  assumes "unmarshal tmpl = Inr doc" and "is_mapping (docRoot doc)"
    and "list_all is_mapping (mc_Proxies merged)" and "list_all is_mapping (mc_ProxyGroups merged)"
    and "Render unmarshal encode tmpl (Some merged) = Inr rd"
  shows "\<exists>out bytes. encode out = Inr bytes \<and> rd_Body rd = unescapeSupplementaryPlane bytes \<and>
     ruleLines (docRoot out) = mc_Rules merged \<and>
     list_all2 sameFields (entries (docRoot out) ''proxies'') (mc_Proxies merged) \<and>
     list_all2 sameFields (entries (docRoot out) ''proxy-groups'') (mc_ProxyGroups merged) \<and>
     map_option plain (getMappingNode (docRoot out) ''rule-providers'') =
       map_option plain (case mc_RuleProviders merged of
           None \<Rightarrow> getMappingNode (docRoot doc) ''rule-providers'' | Some rp \<Rightarrow> Some rp) \<and>
     (if k \<in> {''proxies'', ''proxy-groups'', ''rules'', ''rule-providers''} then True
      else map_option plain (getMappingNode (docRoot out) k) = map_option plain (getMappingNode (docRoot doc) k))"
  by (rule rendered_document [OF assms])

section \<open>Escapes\<close>

text \<open>The encoder's output as the scanner of the source reads it: stretches without a double quote,
  and double-quoted strings made of plain bytes, two-byte escapes and eight-digit escapes.\<close>

datatype dq_token = Raw char | Esc char | Uni nat
datatype yaml_segment = Unquoted string | Quoted "dq_token list"

definition hexChar :: "nat \<Rightarrow> char" where
  "hexChar d = (if d < 10 then char_of (48 + d) else char_of (55 + d))"

fun hexDigits :: "nat \<Rightarrow> nat \<Rightarrow> string" where
  "hexDigits 0 n = []"
| "hexDigits (Suc k) n = hexDigits k (n div 16) @ [hexChar (n mod 16)]"

fun emitToken :: "dq_token \<Rightarrow> string" where
  "emitToken (Raw b) = [b]"
| "emitToken (Esc b) = [backslash, b]"
| "emitToken (Uni n) = backslash # CHR ''U'' # hexDigits 8 n"

fun literalToken :: "dq_token \<Rightarrow> string" where
  "literalToken (Uni n) = EncodeRune n"
| "literalToken t = emitToken t"

fun segmentBytes :: "(dq_token \<Rightarrow> string) \<Rightarrow> yaml_segment \<Rightarrow> string" where
  "segmentBytes f (Unquoted s) = s"
| "segmentBytes f (Quoted ts) = dquote # concat (map f ts) @ [dquote]"

fun wfToken :: "dq_token \<Rightarrow> bool" where
  "wfToken (Raw b) \<longleftrightarrow> b \<noteq> dquote \<and> b \<noteq> backslash"
| "wfToken (Esc b) \<longleftrightarrow> b \<noteq> CHR ''U''"
| "wfToken (Uni n) \<longleftrightarrow> n < 2 ^ 31"

fun wfSegment :: "yaml_segment \<Rightarrow> bool" where
  "wfSegment (Unquoted s) \<longleftrightarrow> dquote \<notin> set s"
| "wfSegment (Quoted ts) \<longleftrightarrow> list_all wfToken ts"

lemma length_hexDigits [simp]: "length (hexDigits k n) = k"
  by (induction k arbitrary: n) auto

lemma hexChar_digit:
  assumes "d < 16"
  shows "isHex (hexChar d) \<and> hexDigit (hexChar d) = d"
proof -
  have "byte (hexChar d) = (if d < 10 then 48 + d else 55 + d)" using assms by (simp add: hexChar_def)
  then show ?thesis using assms by (auto simp: isHex_def hexDigit_def)
qed

lemma hexDigits_value:
  "n < 16 ^ k \<Longrightarrow> allHex (hexDigits k n) \<and> foldl (\<lambda>a b. 16 * a + hexDigit b) 0 (hexDigits k n) = n"
proof (induction k arbitrary: n)
  case (Suc k)
  have "n div 16 < 16 ^ k" using Suc.prems by (simp add: less_mult_imp_div_less)
  from Suc.IH [OF this] show ?case using hexChar_digit [of "n mod 16"] by (simp add: allHex_def)
qed (simp add: allHex_def)

lemma unescape_unquoted:
  "dquote \<notin> set s \<Longrightarrow> unescapeLoop False (s @ r) = s @ unescapeLoop False r"
  by (induction s) auto

lemma unescape_token:
  assumes "wfToken t" and "r \<noteq> []"
  shows "unescapeLoop True (emitToken t @ r) = literalToken t @ unescapeLoop True r"
proof (cases t)
  case (Raw b)
  then show ?thesis using assms by (cases r) auto
next
  case (Esc b)
  then show ?thesis using assms by simp
next
  case (Uni n)
  then have "n < 2 ^ 31" using assms(1) by simp
  then have "parseHex32 (hexDigits 8 n) = Some n" "allHex (hexDigits 8 n)"
    using hexDigits_value [of n 8] by (simp_all add: parseHex32_def)
  then show ?thesis by (simp add: Uni)
qed

lemma unescape_quoted:
  "list_all wfToken ts \<Longrightarrow> unescapeLoop True (concat (map emitToken ts) @ dquote # r) =
     concat (map literalToken ts) @ dquote # unescapeLoop False r"
proof (induction ts)
  case Nil
  then show ?case by (cases r) auto
next
  case (Cons t ts)
  then show ?case using unescape_token [of t "concat (map emitToken ts) @ dquote # r"] by simp
qed

text \<open>C33: escapes in double-quoted strings are undone.  In a text that is a sequence of stretches without
  a double quote and well-formed double-quoted strings, every eight-digit escape is replaced by the UTF-8
  bytes of its code point, and every other byte, the other escapes included, is unchanged.  Texts with a double
  quote inside a plain or single-quoted scalar are not of this form and not covered.\<close>

theorem unescapeSupplementaryPlane_segments:
  assumes "list_all wfSegment segs"
  shows "unescapeSupplementaryPlane (concat (map (segmentBytes emitToken) segs)) =
     concat (map (segmentBytes literalToken) segs)"
proof -
  have "unescapeLoop False (concat (map (segmentBytes emitToken) segs)) = concat (map (segmentBytes literalToken) segs)"
    using assms
  proof (induction segs)
    case (Cons seg segs)
    then show ?case
      by (cases seg) (simp_all add: unescape_unquoted unescape_quoted)
  qed simp
  then show ?thesis by (simp add: unescapeSupplementaryPlane_def)
qed

section \<open>Headers\<close>

definition served64 :: "ServedTrafficHeader \<Rightarrow> bool" where
  "served64 h \<longleftrightarrow> userinfo64 (servedUserinfo h)"

text \<open>C32: the headers of a served response.  The response is YAML and not to be cached; a client
  that parses the usage header gets the served quadruple back, and the header is there exactly when
  the merge produced one; the update interval is there exactly when it is positive.\<close>

theorem Render_headers:
  assumes "Render unmarshal encode tmpl (Some merged) = Inr rd"
    and "list_all served64 (case mc_ServedTrafficHeader merged of None \<Rightarrow> [] | Some h \<Rightarrow> [h])"
  shows "rd_Headers rd ''Content-Type'' = Some ''application/yaml; charset=utf-8'' \<and>
    rd_Headers rd ''Cache-Control'' = Some ''no-store, no-cache, must-revalidate'' \<and>
    map_option (ParseSubscriptionUserinfo ulower) (rd_Headers rd ''Subscription-Userinfo'') =
      map_option (\<lambda>h. Inr (servedUserinfo h, [])) (mc_ServedTrafficHeader merged) \<and>
    rd_Headers rd ''Profile-Update-Interval'' =
      (let h = mc_AggregatedProfileUpdateIntervalHours merged in if h > 0 then Some (Itoa h) else None)"
proof -
  have "rd_Headers rd = renderHeaders merged"
    using assms(1) by (auto simp: Render_def split: if_splits sum.splits)
  moreover have "ParseSubscriptionUserinfo ulower (formatUserinfo (servedUserinfo h)) = Inr (servedUserinfo h, [])"
    if "mc_ServedTrafficHeader merged = Some h" for h
    using assms(2) that by (simp add: served64_def parse_formatUserinfo)
  ultimately show ?thesis by (simp add: renderHeaders_def Let_def split: option.splits)
qed

end
