(* ===== verification/Cache.thy ===== *)
theory Cache
  imports Fetcher "HOL-Library.AList"
begin

text \<open>
  \<open>internal/fetcher/cache.go\<close>: the payload cache and its snapshots on disk.

  The map of entries is an association list with distinct keys.  The directory \<open>c.dir\<close> is part of
  the state: it maps the names of its files to what a read of them returns (source names are
  lower-case letters, so \<open>filepath.Join\<close> only appends them).  The JSON encoder and decoder, the
  YAML parser, the readings of the clock, the random part of a temporary file name and the faults
  of the operating system are arguments.  The lock makes every method one step on the state;
  \<open>RefreshIfStale\<close>, which takes it several times, is written out reading by reading.
\<close>

section \<open>Definitions\<close>

subsection \<open>Times\<close>

text \<open>The zero \<open>time.Time\<close> is the first instant of year 1; \<open>Time.Sub\<close> saturates.\<close>

definition zeroTime :: time where "zeroTime = -62135596800000000000"

definition IsZero :: "time \<Rightarrow> bool" where "IsZero t \<longleftrightarrow> t = zeroTime"

definition timeSub :: "time \<Rightarrow> time \<Rightarrow> int" where
  "timeSub t u = max int64_min (min int64_max (t - u))"

subsection \<open>State\<close>

datatype CacheState = StateMissing | StateFresh | StateStale

record cacheEntry =
  ce_payload :: "UpstreamCachedPayload option"
  ce_storedAt :: time
  ce_lastError :: string
  ce_lastFailedAt :: time

definition emptyEntry :: cacheEntry where
  "emptyEntry = \<lparr>ce_payload = None, ce_storedAt = zeroTime, ce_lastError = [], ce_lastFailedAt = zeroTime\<rparr>"

datatype dirent = Directory | Unreadable | Bytes string
type_synonym disk = "string \<rightharpoonup> dirent"

record Cache =
  c_byName :: "(string \<times> cacheEntry) list"
  c_dir :: string
  c_disk :: disk

definition NewCache :: "string \<Rightarrow> disk \<Rightarrow> Cache" where
  "NewCache dir disk = \<lparr>c_byName = [], c_dir = dir, c_disk = disk\<rparr>"

abbreviation entry :: "Cache \<Rightarrow> string \<Rightarrow> cacheEntry option" where
  "entry c name \<equiv> map_of (c_byName c) name"

subsection \<open>Readers\<close>

definition Get :: "Cache \<Rightarrow> string \<Rightarrow> UpstreamCachedPayload option" where
  "Get c name = (case entry c name of
      None \<Rightarrow> None
    | Some e \<Rightarrow> (if ce_payload e = None then None else ce_payload e))"

definition State :: "time \<Rightarrow> Cache \<Rightarrow> string \<Rightarrow> int \<Rightarrow> CacheState" where
  "State now c name ttl = (case entry c name of
      None \<Rightarrow> StateMissing
    | Some e \<Rightarrow>
        if ce_payload e = None then StateMissing
        else if timeSub now (ce_storedAt e) < ttl then StateFresh else StateStale)"

definition Names :: "Cache \<Rightarrow> string list" where
  "Names c = sort (map fst (c_byName c))"

definition LastFailure :: "Cache \<Rightarrow> string \<Rightarrow> string \<times> time" where
  "LastFailure c name = (case entry c name of
      Some e \<Rightarrow> (ce_lastError e, ce_lastFailedAt e) | None \<Rightarrow> ([], zeroTime))"

subsection \<open>Persistence\<close>

datatype persist_fault = MkdirFails | TempFails | EncodeFails | CloseFails | RenameFails

text \<open>How the operating system behaves: the step that fails, if any, with its message; whether the
  clean-up after it fails too; and the random part of the temporary name.\<close>

record diskIO =
  io_fault :: "persist_fault option"
  io_message :: string
  io_leftover :: bool
  io_random :: string

definition diskPath :: "string \<Rightarrow> string" where
  "diskPath name = name @ ''.json''"

definition tempPath :: "string \<Rightarrow> string \<Rightarrow> string" where
  "tempPath name random = name @ ''.'' @ random @ ''.tmp''"

definition persistText :: "string \<Rightarrow> diskIO \<Rightarrow> persist_fault \<Rightarrow> string" where
  "persistText dir io f = ''cache: '' @ (case f of MkdirFails \<Rightarrow> ''mkdir '' @ dir | TempFails \<Rightarrow> ''temp file''
    | EncodeFails \<Rightarrow> ''encode'' | CloseFails \<Rightarrow> ''close'' | RenameFails \<Rightarrow> ''rename'') @ '': '' @ io_message io"

definition removeTemp :: "diskIO \<Rightarrow> string \<Rightarrow> disk \<Rightarrow> disk" where
  "removeTemp io tmp disk = (if io_leftover io then disk else disk(tmp := None))"

definition persist ::
  "(UpstreamCachedPayload option \<Rightarrow> string) \<Rightarrow> diskIO \<Rightarrow> string \<Rightarrow> string \<Rightarrow> UpstreamCachedPayload option \<Rightarrow> disk \<Rightarrow> string option \<times> disk" where
  "persist encode io dir name payload disk =
     (if io_fault io = Some MkdirFails then (Some (persistText dir io MkdirFails), disk)
      else if io_fault io = Some TempFails then (Some (persistText dir io TempFails), disk)
      else
        let tmp = tempPath name (io_random io); disk = disk(tmp \<mapsto> Bytes []) in
        if io_fault io = Some EncodeFails then (Some (persistText dir io EncodeFails), removeTemp io tmp disk)
        else
          let disk = disk(tmp \<mapsto> Bytes (encode payload)) in
          if io_fault io = Some CloseFails then (Some (persistText dir io CloseFails), removeTemp io tmp disk)
          else if io_fault io = Some RenameFails then (Some (persistText dir io RenameFails), removeTemp io tmp disk)
          else (None, disk(diskPath name := disk tmp, tmp := None)))"

subsection \<open>Writers\<close>

definition cacheSet ::
  "(UpstreamCachedPayload option \<Rightarrow> string) \<Rightarrow> diskIO \<Rightarrow> string \<Rightarrow> UpstreamCachedPayload option \<Rightarrow> time \<Rightarrow> Cache \<Rightarrow>
     string option \<times> Cache" where
  "cacheSet encode io name payload storedAt c =
     (let e = (case entry c name of None \<Rightarrow> emptyEntry | Some e \<Rightarrow> e);
          e = e\<lparr>ce_payload := payload, ce_storedAt := storedAt, ce_lastError := [], ce_lastFailedAt := zeroTime\<rparr>;
          c = c\<lparr>c_byName := AList.update name e (c_byName c)\<rparr>
      in if c_dir c = [] then (None, c)
         else let (err, disk) = persist encode io (c_dir c) name payload (c_disk c) in (err, c\<lparr>c_disk := disk\<rparr>))"

definition markFailed :: "time \<Rightarrow> string \<Rightarrow> string \<Rightarrow> Cache \<Rightarrow> Cache" where
  "markFailed now name err c =
     (let e = (case entry c name of None \<Rightarrow> emptyEntry | Some e \<Rightarrow> e);
          e = e\<lparr>ce_lastError := err, ce_lastFailedAt := now\<rparr>
      in c\<lparr>c_byName := AList.update name e (c_byName c)\<rparr>)"

text \<open>\<open>removed\<close> says whether \<open>os.Remove\<close>, whose error is ignored, succeeds.\<close>

definition Drop :: "bool \<Rightarrow> string \<Rightarrow> Cache \<Rightarrow> Cache" where
  "Drop removed name c =
     (let c = c\<lparr>c_byName := AList.delete name (c_byName c)\<rparr>
      in if c_dir c \<noteq> [] then c\<lparr>c_disk := (if removed then (c_disk c)(diskPath name := None) else c_disk c)\<rparr> else c)"

subsection \<open>Refresh\<close>

text \<open>The result of a fetch function (payload, result, text of the error) and the readings of the
  clock during one refresh, in the order they are taken.\<close>

type_synonym fetched = "UpstreamCachedPayload option \<times> FetchResult option \<times> string option"
type_synonym refresh_result = "UpstreamCachedPayload option \<times> bool \<times> string option"

record readings =
  rg_check :: time
  rg_recheck :: time
  rg_start :: time
  rg_failed :: time

text \<open>The function run under the single-flight gate.\<close>

definition refreshFlight ::
  "(UpstreamCachedPayload option \<Rightarrow> string) \<Rightarrow> diskIO \<Rightarrow> readings \<Rightarrow> fetched \<Rightarrow> string \<Rightarrow> int \<Rightarrow> Cache \<Rightarrow> refresh_result \<times> Cache" where
  "refreshFlight encode io rg fetchFn name ttl c =
     (if State (rg_recheck rg) c name ttl = StateFresh then ((Get c name, False, None), c)
      else case fetchFn of
        (p, _, Some ferr) \<Rightarrow>
          let c = markFailed (rg_failed rg) name ferr c in ((Get c name, True, Some ferr), c)
      | (p, _, None) \<Rightarrow>
          let (err, c) = cacheSet encode io name p (rg_start rg) c in ((p, True, err), c))"

text \<open>\<open>singleflight.Do\<close> either runs the function (\<open>joined = None\<close>) or waits for a call that is
  under way for the same name and shares its result.\<close>

definition RefreshIfStale ::
  "(UpstreamCachedPayload option \<Rightarrow> string) \<Rightarrow> diskIO \<Rightarrow> refresh_result option \<Rightarrow> readings \<Rightarrow> fetched \<Rightarrow> string \<Rightarrow> int \<Rightarrow> Cache \<Rightarrow>
     refresh_result \<times> Cache" where
  "RefreshIfStale encode io joined rg fetchFn name ttl c =
     (if State (rg_check rg) c name ttl = StateFresh then ((Get c name, False, None), c)
      else case joined of
        Some r \<Rightarrow> (r, c)
      | None \<Rightarrow> refreshFlight encode io rg fetchFn name ttl c)"

subsection \<open>Loading from disk\<close>

text \<open>\<open>filepath.Ext\<close> of a name without separators.\<close>

definition Ext :: "string \<Rightarrow> string" where
  "Ext s = (if CHR ''.'' \<in> set s then drop (nat (LastIndexByte s CHR ''.'')) s else [])"

datatype dirRead = DirMissing | DirFails string | Entries "(string \<times> dirent) list"

definition loadDiskEntry ::
  "(string \<Rightarrow> UpstreamCachedPayload option) \<Rightarrow> unmarshaller \<Rightarrow> string \<times> dirent \<Rightarrow> Cache \<Rightarrow> Cache" where
  "loadDiskEntry decode unmarshal ent c = (case ent of (fname, d) \<Rightarrow>
     if d = Directory \<or> Ext fname \<noteq> ''.json'' then c
     else
       let name = take (length fname - length ''.json'') fname in
       case d of
         Bytes b \<Rightarrow>
           (case decode b of
              None \<Rightarrow> c
            | Some payload \<Rightarrow>
                (case unmarshal (cp_BodyYAML payload) of
                   Inl _ \<Rightarrow> c
                 | Inr parsed \<Rightarrow>
                     c\<lparr>c_byName := AList.update name
                         (emptyEntry\<lparr>ce_payload := Some (SetParsed parsed payload), ce_storedAt := cp_FetchedAt payload\<rparr>)
                         (c_byName c)\<rparr>))
       | _ \<Rightarrow> c)"

definition LoadFromDisk ::
  "(string \<Rightarrow> UpstreamCachedPayload option) \<Rightarrow> unmarshaller \<Rightarrow> dirRead \<Rightarrow> Cache \<Rightarrow> string option \<times> Cache" where
  "LoadFromDisk decode unmarshal rd c =
     (if c_dir c = [] then (None, c)
      else case rd of
        DirMissing \<Rightarrow> (None, c)
      | DirFails msg \<Rightarrow> (Some (''cache: read dir '' @ c_dir c @ '': '' @ msg), c)
      | Entries es \<Rightarrow> (None, fold (loadDiskEntry decode unmarshal) es c))"

section \<open>Laws of the operations\<close>

lemma timeSub_self [simp]: "timeSub t t = 0"
  by (simp add: timeSub_def int64_min_def int64_max_def)

lemma tempPath_not_diskPath [simp]: "tempPath name r \<noteq> diskPath n" "diskPath n \<noteq> tempPath name r"
proof -
  have "last (diskPath n) \<noteq> last (tempPath name r)" by (simp add: diskPath_def tempPath_def)
  then show "tempPath name r \<noteq> diskPath n" "diskPath n \<noteq> tempPath name r" by metis+
qed

lemma diskPath_eq [simp]: "diskPath a = diskPath b \<longleftrightarrow> a = b"
  by (simp add: diskPath_def)

lemma persist_snapshots:
  "snd (persist encode io dir name payload disk) (diskPath n) =
     (if n = name \<and> fst (persist encode io dir name payload disk) = None then Some (Bytes (encode payload)) else disk (diskPath n))"
  "fst (persist encode io dir name payload disk) = None \<longleftrightarrow> io_fault io = None"
proof -
  show "snd (persist encode io dir name payload disk) (diskPath n) =
     (if n = name \<and> fst (persist encode io dir name payload disk) = None then Some (Bytes (encode payload)) else disk (diskPath n))"
    by (simp add: persist_def Let_def removeTemp_def fun_upd_def)
  show "fst (persist encode io dir name payload disk) = None \<longleftrightarrow> io_fault io = None"
    by (cases "io_fault io"; cases "the (io_fault io)") (simp_all add: persist_def Let_def)
qed

lemma cacheEntry_upd [simp]:
  "e\<lparr>ce_payload := p, ce_storedAt := t, ce_lastError := m, ce_lastFailedAt := u\<rparr> =
     \<lparr>ce_payload = p, ce_storedAt = t, ce_lastError = m, ce_lastFailedAt = u\<rparr>"
  by (cases e) simp

lemma cacheSet_sel [simp]:
  "c_dir (snd (cacheSet encode io name payload t c)) = c_dir c"
  "c_byName (snd (cacheSet encode io name payload t c)) = AList.update name
     \<lparr>ce_payload = payload, ce_storedAt = t, ce_lastError = [], ce_lastFailedAt = zeroTime\<rparr> (c_byName c)"
  "c_disk (snd (cacheSet encode io name payload t c)) =
     (if c_dir c = [] then c_disk c else snd (persist encode io (c_dir c) name payload (c_disk c)))"
  "fst (cacheSet encode io name payload t c) =
     (if c_dir c = [] then None else fst (persist encode io (c_dir c) name payload (c_disk c)))"
  by (simp_all add: cacheSet_def emptyEntry_def Let_def split: prod.splits option.splits)

lemma markFailed_sel [simp]:
  "c_dir (markFailed now name err c) = c_dir c" "c_disk (markFailed now name err c) = c_disk c"
  by (simp_all add: markFailed_def Let_def)

lemma Drop_sel [simp]:
  "c_dir (Drop removed name c) = c_dir c" "c_byName (Drop removed name c) = AList.delete name (c_byName c)"
  "c_disk (Drop removed name c) = (if c_dir c \<noteq> [] \<and> removed then (c_disk c)(diskPath name := None) else c_disk c)"
  by (simp_all add: Drop_def Let_def)

lemma Get_entry: "Get c name = Option.bind (entry c name) ce_payload"
  by (auto simp: Get_def split: option.splits)

lemma Get_cacheSet [simp]: "Get (snd (cacheSet encode io name payload t c)) n = (if n = name then payload else Get c n)"
  by (simp add: Get_entry update_conv')

lemma Get_markFailed [simp]: "Get (markFailed now name err c) n = Get c n"
  by (auto simp: Get_entry markFailed_def Let_def update_conv' emptyEntry_def split: option.splits)

lemma State_markFailed [simp]: "State t (markFailed now name err c) n ttl = State t c n ttl"
  by (auto simp: State_def markFailed_def Let_def update_conv' emptyEntry_def split: option.splits)

lemma Get_Drop [simp]: "Get (Drop removed name c) n = (if n = name then None else Get c n)"
  by (simp add: Get_entry delete_conv')

lemma LastFailure_markFailed:
  "LastFailure (markFailed now name err c) n = (if n = name then (err, now) else LastFailure c n)"
  by (auto simp: LastFailure_def markFailed_def Let_def update_conv' split: option.splits)

lemma LastFailure_cacheSet:
  "LastFailure (snd (cacheSet encode io name payload t c)) n = (if n = name then ([], zeroTime) else LastFailure c n)"
  by (simp add: LastFailure_def update_conv')

lemma State_cacheSet:
  "State now (snd (cacheSet encode io name payload t c)) n ttl =
     (if n = name then (if payload = None then StateMissing else if timeSub now t < ttl then StateFresh else StateStale)
      else State now c n ttl)"
  by (simp add: State_def update_conv')

lemma State_fresh_Get: "State now c name ttl = StateFresh \<Longrightarrow> Get c name \<noteq> None"
  by (auto simp: State_def Get_def split: option.splits if_splits)

section \<open>Refresh\<close>

text \<open>C28: what a refresh does.  It fetches exactly when neither reading finds the entry fresh.
  Without a fetch nothing changes and the cached payload is returned.  A failed fetch keeps the
  payload, its age and the snapshot on disk, returns that payload with the error and records the
  failure.  A successful one makes the new payload the cached one, as old as the reading before the
  fetch, clears the recorded failure, and reports an error only if the snapshot could not be
  written, in which case the previous snapshot is intact.  No other source is touched.\<close>

theorem RefreshIfStale_spec:
  assumes "RefreshIfStale encode io None rg (p, res, err) name ttl c = ((payload, refreshed, err'), c')"
  shows "refreshed = (State (rg_check rg) c name ttl \<noteq> StateFresh \<and> State (rg_recheck rg) c name ttl \<noteq> StateFresh) \<and>
    (if \<not> refreshed then c' = c \<and> payload = Get c name \<and> payload \<noteq> None \<and> err' = None
     else case err of
       Some e \<Rightarrow> payload = Get c name \<and> err' = Some e \<and> LastFailure c' name = (e, rg_failed rg) \<and>
         Get c' name = Get c name \<and> State t c' name ttl' = State t c name ttl' \<and> c_disk c' = c_disk c
     | None \<Rightarrow> payload = p \<and> Get c' name = p \<and> LastFailure c' name = ([], zeroTime) \<and>
         State t c' name ttl' = (if p = None then StateMissing
           else if timeSub t (rg_start rg) < ttl' then StateFresh else StateStale) \<and>
         (err' = None) = (c_dir c = [] \<or> io_fault io = None) \<and>
         (if c_dir c = [] then c_disk c' = c_disk c
          else c_disk c' (diskPath name) = (if err' = None then Some (Bytes (encode p)) else c_disk c (diskPath name)))) \<and>
    (if n = name then True
     else Get c' n = Get c n \<and> State t c' n ttl' = State t c n ttl' \<and> LastFailure c' n = LastFailure c n \<and>
       c_disk c' (diskPath n) = c_disk c (diskPath n))"
proof (cases "State (rg_check rg) c name ttl = StateFresh \<or> State (rg_recheck rg) c name ttl = StateFresh")
  case True
  then have "RefreshIfStale encode io None rg (p, res, err) name ttl c = ((Get c name, False, None), c)"
    by (auto simp: RefreshIfStale_def refreshFlight_def)
  moreover have "Get c name \<noteq> None" using True State_fresh_Get by metis
  ultimately show ?thesis using assms True by (simp del: not_None_eq)
next
  case False
  then have run: "RefreshIfStale encode io None rg (p, res, err) name ttl c = refreshFlight encode io rg (p, res, err) name ttl c"
    "State (rg_check rg) c name ttl \<noteq> StateFresh" "State (rg_recheck rg) c name ttl \<noteq> StateFresh"
    by (simp_all add: RefreshIfStale_def)
  show ?thesis
  proof (cases err)
    case (Some e)
    then have "c' = markFailed (rg_failed rg) name e c" "payload = Get c name" "err' = Some e" "refreshed"
      using assms run by (simp_all add: refreshFlight_def Let_def)
    then show ?thesis using run Some by (simp add: LastFailure_markFailed)
  next
    case None
    let ?r = "cacheSet encode io name p (rg_start rg) c"
    have "c' = snd ?r" "payload = p" "err' = fst ?r" "refreshed"
      using assms run None by (simp_all add: refreshFlight_def split_beta del: cacheSet_sel)
    then show ?thesis using run None
      by (simp add: LastFailure_cacheSet State_cacheSet persist_snapshots)
  qed
qed

section \<open>Runs\<close>

text \<open>A payload carries the document its body parses to.\<close>

definition parsedOk :: "unmarshaller \<Rightarrow> UpstreamCachedPayload \<Rightarrow> bool" where
  "parsedOk unmarshal p = (case cp_parsedConfig p of None \<Rightarrow> False | Some n \<Rightarrow> unmarshal (cp_BodyYAML p) = Inr n)"

definition fetchedOk :: "unmarshaller \<Rightarrow> fetched \<Rightarrow> bool" where
  "fetchedOk unmarshal f = (case f of
      (Some p, _, None) \<Rightarrow> parsedOk unmarshal p | (None, _, None) \<Rightarrow> False | (_, _, Some _) \<Rightarrow> True)"

text \<open>The operations the scheduler performs on the cache, and a restart of the process, which finds
  the directory as the previous one left it.  With \<open>faulty\<close> false the file system works.\<close>

inductive cache_step ::
  "(UpstreamCachedPayload option \<Rightarrow> string) \<Rightarrow> (string \<Rightarrow> UpstreamCachedPayload option) \<Rightarrow> unmarshaller \<Rightarrow> bool \<Rightarrow> Cache \<Rightarrow> Cache \<Rightarrow> bool"
  for encode decode unmarshal faulty where
  refresh: "fetchedOk unmarshal f \<Longrightarrow> faulty \<or> io_fault io = None \<Longrightarrow>
    cache_step encode decode unmarshal faulty c (snd (RefreshIfStale encode io joined rg f name ttl c))"
| store: "parsedOk unmarshal p \<Longrightarrow> faulty \<or> io_fault io = None \<Longrightarrow>
    cache_step encode decode unmarshal faulty c (snd (cacheSet encode io name (Some p) t c))"
| fail: "cache_step encode decode unmarshal faulty c (markFailed now name err c)"
| drop: "faulty \<or> removed \<Longrightarrow> cache_step encode decode unmarshal faulty c (Drop removed name c)"
| restart: "distinct (map fst es) \<Longrightarrow> map_of es = c_disk c \<Longrightarrow>
    cache_step encode decode unmarshal faulty c (snd (LoadFromDisk decode unmarshal (Entries es) (NewCache (c_dir c) (c_disk c))))"

inductive_cases cache_stepE [elim]: "cache_step encode decode unmarshal faulty c c'"

text \<open>A store of payloads as its readers see it: under an invariant that every step keeps, what a
  read returns has a property of its own.\<close>

locale payload_store =
  fixes inv :: "'s \<Rightarrow> bool" and step :: "'s \<Rightarrow> 's \<Rightarrow> bool" and get :: "'s \<Rightarrow> string \<Rightarrow> 'p option" and good :: "'p \<Rightarrow> bool"
  assumes inv_step: "inv s \<Longrightarrow> step s s' \<Longrightarrow> inv s'"
    and inv_get: "inv s \<Longrightarrow> get s name = Some p \<Longrightarrow> good p"
begin

lemma inv_run: "step\<^sup>*\<^sup>* s s' \<Longrightarrow> inv s \<Longrightarrow> inv s'"
  by (induction rule: rtranclp_induct) (auto dest: inv_step)

lemma run_get: "step\<^sup>*\<^sup>* s s' \<Longrightarrow> inv s \<Longrightarrow> get s' name = Some p \<Longrightarrow> good p"
  using inv_run inv_get by blast

end

definition cache_inv :: "unmarshaller \<Rightarrow> Cache \<Rightarrow> bool" where
  "cache_inv unmarshal c \<longleftrightarrow> distinct (map fst (c_byName c)) \<and> (\<forall>name p. Get c name = Some p \<longrightarrow> parsedOk unmarshal p)"

lemma cache_inv_new [simp]: "cache_inv unmarshal (NewCache dir disk)"
  by (simp add: cache_inv_def NewCache_def Get_def)

lemma cache_inv_cacheSet:
  "cache_inv unmarshal c \<Longrightarrow> parsedOk unmarshal p \<Longrightarrow>
     cache_inv unmarshal (snd (cacheSet encode io name (Some p) t c))"
  by (simp add: cache_inv_def distinct_update)

lemma cache_inv_markFailed: "cache_inv unmarshal c \<Longrightarrow> cache_inv unmarshal (markFailed now name err c)"
  by (simp add: cache_inv_def) (simp add: markFailed_def Let_def distinct_update)

lemma cache_inv_Drop: "cache_inv unmarshal c \<Longrightarrow> cache_inv unmarshal (Drop removed name c)"
  by (simp add: cache_inv_def distinct_delete)

text \<open>A refresh is nothing, a recorded failure or a store.\<close>

lemma RefreshIfStale_cases:
  assumes "fetchedOk unmarshal f"
  shows "snd (RefreshIfStale encode io joined rg f name ttl c) = c \<or>
    (\<exists>e. snd (RefreshIfStale encode io joined rg f name ttl c) = markFailed (rg_failed rg) name e c) \<or>
    (\<exists>p. parsedOk unmarshal p \<and>
      snd (RefreshIfStale encode io joined rg f name ttl c) = snd (cacheSet encode io name (Some p) (rg_start rg) c))"
proof -
  obtain p res err where f: "f = (p, res, err)" by (cases f rule: prod_cases3)
  show ?thesis
  proof (cases err)
    case (Some e)
    then show ?thesis by (auto simp: f RefreshIfStale_def refreshFlight_def Let_def split: option.splits)
  next
    case None
    then obtain q where "p = Some q" "parsedOk unmarshal q" using assms f by (cases p) (auto simp: fetchedOk_def)
    then show ?thesis using None
      by (auto simp: f RefreshIfStale_def refreshFlight_def split_beta simp del: cacheSet_sel split: option.splits)
  qed
qed

text \<open>What one file of the directory contributes.\<close>

definition loadedPayload ::
  "(string \<Rightarrow> UpstreamCachedPayload option) \<Rightarrow> unmarshaller \<Rightarrow> dirent \<Rightarrow> UpstreamCachedPayload option" where
  "loadedPayload decode unmarshal d = (case d of
      Bytes b \<Rightarrow> (case decode b of
          None \<Rightarrow> None
        | Some p \<Rightarrow> (case unmarshal (cp_BodyYAML p) of Inl _ \<Rightarrow> None | Inr n \<Rightarrow> Some (SetParsed n p)))
    | _ \<Rightarrow> None)"

lemma LastIndexByte_append: "x \<notin> set b \<Longrightarrow> LastIndexByte (a @ x # b) x = int (length a)"
proof -
  assume "x \<notin> set b"
  then have t: "takeWhile (\<lambda>y. y \<noteq> x) (rev b) = rev b" by (auto simp: takeWhile_eq_all_conv)
  show ?thesis by (simp add: LastIndexByte_def takeWhile_tail t)
qed

lemma Ext_json: "Ext fname = ''.json'' \<longleftrightarrow> fname = take (length fname - length ''.json'') fname @ ''.json''"
proof
  assume e: "Ext fname = ''.json''"
  then have "CHR ''.'' \<in> set fname" by (auto simp: Ext_def split: if_splits)
  then obtain a b where ab: "fname = a @ CHR ''.'' # b" "CHR ''.'' \<notin> set b" using split_list_last by metis
  then have "Ext fname = CHR ''.'' # b" by (simp add: Ext_def LastIndexByte_append)
  with e ab(1) show "fname = take (length fname - length ''.json'') fname @ ''.json''" by simp
next
  assume "fname = take (length fname - length ''.json'') fname @ ''.json''"
  then obtain a where "fname = a @ CHR ''.'' # ''json''" by blast
  then show "Ext fname = ''.json''" using LastIndexByte_append [of "CHR ''.''" "''json''" a] by (simp add: Ext_def)
qed

lemma parsedOk_SetParsed: "unmarshal (cp_BodyYAML p) = Inr n \<Longrightarrow> parsedOk unmarshal (SetParsed n p)"
  by (simp add: parsedOk_def SetParsed_def)

lemma loadDiskEntry_eq:
  "loadDiskEntry decode unmarshal (fname, d) c =
     (case (if Ext fname = ''.json'' then loadedPayload decode unmarshal d else None) of
        None \<Rightarrow> c
      | Some p \<Rightarrow> c\<lparr>c_byName := AList.update (take (length fname - length ''.json'') fname)
          (emptyEntry\<lparr>ce_payload := Some p, ce_storedAt := cp_FetchedAt p\<rparr>) (c_byName c)\<rparr>)"
  by (auto simp: loadDiskEntry_def loadedPayload_def Let_def SetParsed_def split: dirent.splits option.splits sum.splits)

lemma Get_loadDiskEntry:
  "Get (loadDiskEntry decode unmarshal (fname, d) c) name =
     (if fname = diskPath name then (case loadedPayload decode unmarshal d of None \<Rightarrow> Get c name | Some p \<Rightarrow> Some p)
      else Get c name)"
proof -
  have "fname = diskPath name \<longleftrightarrow> Ext fname = ''.json'' \<and> name = take (length fname - length ''.json'') fname"
    unfolding Ext_json diskPath_def by auto
  then show ?thesis
    by (auto simp: loadDiskEntry_eq Get_entry update_conv' split: option.splits)
qed

lemma Get_loadDisk:
  "distinct (map fst es) \<Longrightarrow> Get (fold (loadDiskEntry decode unmarshal) es c) name =
     (case Option.bind (map_of es (diskPath name)) (loadedPayload decode unmarshal) of None \<Rightarrow> Get c name | Some p \<Rightarrow> Some p)"
proof (induction es arbitrary: c)
  case (Cons e es)
  obtain fname d where e: "e = (fname, d)" by (cases e)
  have none: "fname \<notin> dom (map_of es)" using Cons.prems e by (simp add: dom_map_of_conv_image_fst)
  then show ?case using Cons e by (auto simp: Get_loadDiskEntry domIff split: option.splits)
qed simp

lemma loadedPayload_ok: "loadedPayload decode unmarshal d = Some p \<Longrightarrow> parsedOk unmarshal p"
  by (auto simp: loadedPayload_def parsedOk_SetParsed split: dirent.splits option.splits sum.splits)

lemma cache_inv_load: "cache_inv unmarshal c \<Longrightarrow> cache_inv unmarshal (fold (loadDiskEntry decode unmarshal) es c)"
proof (induction es arbitrary: c)
  case (Cons e es)
  obtain fname d where e: "e = (fname, d)" by (cases e)
  have "cache_inv unmarshal (loadDiskEntry decode unmarshal (fname, d) c)"
    using Cons.prems
    by (auto simp: cache_inv_def Get_loadDiskEntry loadedPayload_ok split: option.splits)
      (auto simp: loadDiskEntry_eq distinct_update split: option.splits)
  then show ?case using Cons.IH e by simp
qed simp

lemma cache_inv_step:
  assumes "cache_inv unmarshal c" and "cache_step encode decode unmarshal faulty c c'"
  shows "cache_inv unmarshal c'"
  using assms(2)
proof cases
  case (refresh f io joined rg name ttl)
  show ?thesis unfolding refresh(1) using RefreshIfStale_cases [OF refresh(2), of encode io joined rg name ttl c]
    by (elim disjE exE conjE)
      (simp_all only: assms(1) cache_inv_markFailed cache_inv_cacheSet)
next
  case (store p io name t)
  then show ?thesis using assms(1) by (simp add: cache_inv_cacheSet)
next
  case (fail now name err)
  then show ?thesis using assms(1) by (simp add: cache_inv_markFailed)
next
  case (drop removed name)
  then show ?thesis using assms(1) by (simp add: cache_inv_Drop)
next
  case (restart es)
  then show ?thesis by (simp add: LoadFromDisk_def cache_inv_load)
qed

interpretation cached: payload_store "cache_inv unmarshal" "cache_step encode decode unmarshal faulty" Get "parsedOk unmarshal"
  for unmarshal encode decode faulty
  by unfold_locales (fact cache_inv_step, simp add: cache_inv_def)

text \<open>A cached payload is always parsed.  Whatever sequence of refreshes, stores, failures,
  drops and restarts a cache goes through, faults of the file system included, a payload read from
  it carries the document of its body, so parsing it returns that document and changes nothing.\<close>

theorem cached_payloads_parsed:
  assumes "(cache_step encode decode unmarshal True)\<^sup>*\<^sup>* (NewCache dir disk) c" and "Get c name = Some p"
  shows "\<exists>n. unmarshal (cp_BodyYAML p) = Inr n \<and> Parse unmarshal p = (Inr n, p)"
  using cached.run_get [OF assms(1) cache_inv_new assms(2)]
  by (auto simp: parsedOk_def Parse_def split: option.splits)

section \<open>Restarts\<close>

text \<open>The directory mirrors the cache.\<close>

definition mirrored :: "(UpstreamCachedPayload option \<Rightarrow> string) \<Rightarrow> Cache \<Rightarrow> bool" where
  "mirrored encode c \<longleftrightarrow> c_dir c \<noteq> [] \<and>
     (\<forall>name. c_disk c (diskPath name) = map_option (\<lambda>p. Bytes (encode (Some p))) (Get c name))"

text \<open>The contract of package \<open>json\<close> on a payload: the exported fields survive.\<close>

definition json_roundtrip ::
  "(UpstreamCachedPayload option \<Rightarrow> string) \<Rightarrow> (string \<Rightarrow> UpstreamCachedPayload option) \<Rightarrow> bool" where
  "json_roundtrip encode decode \<longleftrightarrow> (\<forall>p. decode (encode (Some p)) = Some (p\<lparr>cp_parsedConfig := None\<rparr>))"

lemma mirrored_load:
  assumes "json_roundtrip encode decode" and "cache_inv unmarshal c" and "mirrored encode c"
    and "distinct (map fst es)" and "map_of es = c_disk c"
  shows "Get (snd (LoadFromDisk decode unmarshal (Entries es) (NewCache (c_dir c) (c_disk c)))) name = Get c name"
proof -
  have "Get (snd (LoadFromDisk decode unmarshal (Entries es) (NewCache (c_dir c) (c_disk c)))) name =
      Option.bind (c_disk c (diskPath name)) (loadedPayload decode unmarshal)"
    using assms(3,4,5) by (simp add: LoadFromDisk_def NewCache_def mirrored_def Get_loadDisk)
      (simp add: Get_def split: option.splits)
  also have "\<dots> = Get c name"
  proof (cases "Get c name")
    case None
    then show ?thesis using assms(3) by (simp add: mirrored_def)
  next
    case (Some p)
    then have "parsedOk unmarshal p" using assms(2) by (simp add: cache_inv_def)
    then obtain n where "cp_parsedConfig p = Some n" "unmarshal (cp_BodyYAML p) = Inr n"
      by (auto simp: parsedOk_def split: option.splits)
    then have "loadedPayload decode unmarshal (Bytes (encode (Some p))) = Some p"
      using assms(1) by (cases p) (simp add: loadedPayload_def json_roundtrip_def SetParsed_def)
    then show ?thesis using assms(3) Some by (simp add: mirrored_def)
  qed
  finally show ?thesis .
qed

lemma mirrored_cacheSet:
  "mirrored encode c \<Longrightarrow> io_fault io = None \<Longrightarrow> mirrored encode (snd (cacheSet encode io name (Some p) t c))"
  by (simp add: mirrored_def persist_snapshots)

lemma mirrored_step:
  assumes "json_roundtrip encode decode" and "cache_inv unmarshal c" and "mirrored encode c"
    and "cache_step encode decode unmarshal False c c'"
  shows "mirrored encode c'"
  using assms(4)
proof cases
  case (refresh f io joined rg name ttl)
  have m: "mirrored encode (markFailed now name err c)" for now name err using assms(3) by (simp add: mirrored_def)
  have "io_fault io = None" using refresh(3) by simp
  then show ?thesis unfolding refresh(1) using RefreshIfStale_cases [OF refresh(2), of encode io joined rg name ttl c]
    by (elim disjE exE conjE) (simp_all only: assms(3) m mirrored_cacheSet)
next
  case (store p io name t)
  then show ?thesis using assms(3) mirrored_cacheSet by simp
next
  case (fail now name err)
  then show ?thesis using assms(3) by (simp add: mirrored_def)
next
  case (drop removed name)
  then show ?thesis using assms(3) by (simp add: mirrored_def)
next
  case (restart es)
  have "c_disk (fold (loadDiskEntry decode unmarshal) es c0) = c_disk c0 \<and>
      c_dir (fold (loadDiskEntry decode unmarshal) es c0) = c_dir c0" for es c0
    by (induction es arbitrary: c0) (auto simp: loadDiskEntry_eq split: option.splits)
  then have "c_disk c' = c_disk c" "c_dir c' = c_dir c" using assms(3)
    by (simp_all add: restart(1) LoadFromDisk_def NewCache_def mirrored_def)
  then show ?thesis using mirrored_load [OF assms(1-3) restart(2,3)] assms(3) by (simp add: mirrored_def restart(1))
qed

text \<open>C30: a restart loses nothing.  As long as the file system works, a cache that began with a
  directory without snapshots and went through any sequence of operations and restarts reads back,
  after a restart, exactly the payloads it held.\<close>

theorem restart_keeps_payloads:
  assumes "json_roundtrip encode decode" and "dir \<noteq> []" and "\<And>name. disk (diskPath name) = None"
    and "(cache_step encode decode unmarshal False)\<^sup>*\<^sup>* (NewCache dir disk) c"
    and "distinct (map fst es)" and "map_of es = c_disk c"
  shows "Get (snd (LoadFromDisk decode unmarshal (Entries es) (NewCache (c_dir c) (c_disk c)))) = Get c"
proof -
  have "mirrored encode c \<and> cache_inv unmarshal c" using assms(4)
  proof (induction rule: rtranclp_induct)
    case base
    then show ?case using assms(2,3) by (simp add: mirrored_def) (simp add: NewCache_def Get_def)
  next
    case (step c c')
    then show ?case using mirrored_step [OF assms(1)] cache_inv_step by blast
  qed
  then show ?thesis using mirrored_load [OF assms(1)] assms(5,6) by blast
qed

end
