(* ===== verification/Scheduler.thy ===== *)
theory Scheduler
  imports Cache
begin

text \<open>
  \<open>internal/fetcher/scheduler.go\<close>: the coordinator that bootstraps every enabled source and keeps
  refreshing it.

  The methods are functions on the coordinator; the goroutines of \<open>Start\<close> are threads with a
  program counter, and a run is an interleaving of their steps (\<open>sched_step\<close>).  One attempt or
  one tick of a source is one step: everything it changes belongs to that source.  The outcome of
  the network, the readings of the clock and the faults of the disk are chosen freely at each step;
  the passing of a delay or of a ticker period is a step that may happen at any time.  Durations
  are 64-bit nanoseconds.
\<close>

section \<open>Definitions\<close>

subsection \<open>Configuration\<close>

definition neverRefreshTTL :: int where "neverRefreshTTL = int64_max"

definition refreshDisabled :: "SubscriptionRow \<Rightarrow> bool" where
  "refreshDisabled row \<longleftrightarrow> row_RefreshSeconds row < 0"

datatype BootstrapState = BootstrapPending | BootstrapSucceeded | BootstrapFailed

record SourceState =
  ss_Name :: string
  ss_Enabled :: bool
  ss_Bootstrap :: BootstrapState
  ss_LastFetchedAt :: "time option"
  ss_LastOutcome :: FetchOutcome
  ss_LastError :: string
  ss_ServingFromCache :: bool
  ss_Userinfo :: "SubscriptionUserinfo option"
  ss_PayloadBytes :: "nat option"

record SchedulerConfig =
  sc_DefaultTTL :: int
  sc_DefaultStaleOnError :: int
  sc_BootstrapMaxAttemptsPerSource :: int
  sc_BootstrapAttemptDelay :: int

record sourceCtx =
  sx_row :: SubscriptionRow
  sx_bootstrap :: BootstrapState
  sx_lastResult :: "FetchResult option"

text \<open>\<open>co_ready\<close>: the channel \<open>ready\<close> is closed.\<close>

record Coordinator =
  co_cache :: Cache
  co_cfg :: SchedulerConfig
  co_sources :: "(string \<times> sourceCtx) list"
  co_ready :: bool

definition NewCoordinator :: "Cache \<Rightarrow> SchedulerConfig \<Rightarrow> SubscriptionRow list \<Rightarrow> Coordinator" where
  "NewCoordinator cache cfg sources =
     \<lparr>co_cache = cache, co_cfg = cfg,
      co_sources = fold (\<lambda>row m.
        AList.update (row_Name row)
          \<lparr>sx_row = row, sx_bootstrap = (if row_Enable row then BootstrapPending else BootstrapSucceeded), sx_lastResult = None\<rparr> m)
        sources [],
      co_ready = False\<rparr>"

definition AllSucceeded :: "Coordinator \<Rightarrow> bool" where
  "AllSucceeded co = list_all (\<lambda>(_, s).
     if \<not> row_Enable (sx_row s) then True else sx_bootstrap s = BootstrapSucceeded) (co_sources co)"

definition enabledSources :: "Coordinator \<Rightarrow> SubscriptionRow list" where
  "enabledSources co = map (\<lambda>(_, s). sx_row s) (filter (\<lambda>(_, s). row_Enable (sx_row s)) (co_sources co))"

definition signalReady :: "Coordinator \<Rightarrow> Coordinator" where
  "signalReady co = co\<lparr>co_ready := True\<rparr>"

text \<open>\<open>time.Duration(n) * time.Second\<close>.\<close>

definition seconds :: "int \<Rightarrow> int" where
  "seconds n = wrap64 (n * 1000000000)"

definition ttlFor :: "SchedulerConfig \<Rightarrow> SubscriptionRow \<Rightarrow> int" where
  "ttlFor cfg row =
     (if refreshDisabled row then neverRefreshTTL
      else if row_RefreshSeconds row > 0 then seconds (row_RefreshSeconds row)
      else sc_DefaultTTL cfg)"

definition fetchTTLFor :: "SchedulerConfig \<Rightarrow> SubscriptionRow \<Rightarrow> int" where
  "fetchTTLFor cfg row = (if refreshDisabled row then sc_DefaultTTL cfg else ttlFor cfg row)"

definition staleWindowFor :: "SchedulerConfig \<Rightarrow> SubscriptionRow \<Rightarrow> int" where
  "staleWindowFor cfg row =
     (if row_StaleOnErrorSeconds row > 0 then seconds (row_StaleOnErrorSeconds row) else sc_DefaultStaleOnError cfg)"

subsection \<open>The health view\<close>

text \<open>The names are distinct keys of a map, so \<open>sort.Slice\<close> has one possible result.
  \<open>now name\<close> is the reading of the clock at that source.\<close>

definition sourceState :: "(string \<Rightarrow> time) \<Rightarrow> Coordinator \<Rightarrow> string \<times> sourceCtx \<Rightarrow> SourceState" where
  "sourceState now co ent = (case ent of (name, s) \<Rightarrow>
     let state = \<lparr>ss_Name = name, ss_Enabled = row_Enable (sx_row s), ss_Bootstrap = sx_bootstrap s,
           ss_LastFetchedAt = None, ss_LastOutcome = OutcomeNone, ss_LastError = [], ss_ServingFromCache = False,
           ss_Userinfo = None, ss_PayloadBytes = None\<rparr>;
         state = (case sx_lastResult s of
             None \<Rightarrow> state
           | Some res \<Rightarrow> state\<lparr>ss_LastFetchedAt := Some (fr_AttemptedAt res), ss_LastOutcome := fr_Outcome res,
               ss_LastError := fr_Error res\<rparr>)
     in case Get (co_cache co) name of
          None \<Rightarrow> state
        | Some payload \<Rightarrow>
            let ttl = ttlFor (co_cfg co) (sx_row s);
                state = (if State (now name) (co_cache co) name ttl = StateStale
                         then state\<lparr>ss_ServingFromCache := True\<rparr> else state)
            in state\<lparr>ss_Userinfo := uh_SubscriptionUserinfo (cp_Headers payload),
                 ss_PayloadBytes := Some (cp_PayloadBytes payload)\<rparr>)"

definition SourceStates :: "(string \<Rightarrow> time) \<Rightarrow> Coordinator \<Rightarrow> SourceState list" where
  "SourceStates now co = sort_key ss_Name (map (sourceState now co) (co_sources co))"

subsection \<open>Per-source state\<close>

definition updateSource :: "string \<Rightarrow> (sourceCtx \<Rightarrow> sourceCtx) \<Rightarrow> Coordinator \<Rightarrow> Coordinator" where
  "updateSource name f co = (case map_of (co_sources co) name of
      Some s \<Rightarrow> co\<lparr>co_sources := AList.update name (f s) (co_sources co)\<rparr>
    | None \<Rightarrow> co)"

definition recordResult :: "string \<Rightarrow> FetchResult option \<Rightarrow> Coordinator \<Rightarrow> Coordinator" where
  "recordResult name res co = (if res = None then co else updateSource name (\<lambda>s. s\<lparr>sx_lastResult := res\<rparr>) co)"

definition markBootstrap :: "string \<Rightarrow> BootstrapState \<Rightarrow> Coordinator \<Rightarrow> Coordinator" where
  "markBootstrap name state co = updateSource name (\<lambda>s. s\<lparr>sx_bootstrap := state\<rparr>) co"

definition maybePromoteBootstrap :: "string \<Rightarrow> Coordinator \<Rightarrow> Coordinator" where
  "maybePromoteBootstrap name co =
     updateSource name (\<lambda>s. if sx_bootstrap s = BootstrapFailed then s\<lparr>sx_bootstrap := BootstrapSucceeded\<rparr> else s) co"

definition shouldDrop :: "time \<Rightarrow> SubscriptionRow \<Rightarrow> Coordinator \<Rightarrow> bool" where
  "shouldDrop now row co =
     (if IsZero (snd (LastFailure (co_cache co) (row_Name row))) then False
      else case entry (co_cache co) (row_Name row) of
        None \<Rightarrow> False
      | Some e \<Rightarrow>
          if ce_payload e = None then False
          else timeSub now (ce_storedAt e) > staleWindowFor (co_cfg co) row)"

subsection \<open>Refreshing\<close>

text \<open>What the coordinator is built with, and what the world does during one attempt.\<close>

record deps =
  d_ulower :: "nat \<Rightarrow> nat"
  d_urlSplit :: "string \<Rightarrow> (string \<times> string \<times> string) option"
  d_unmarshal :: unmarshaller
  d_userAgent :: string
  d_encode :: "UpstreamCachedPayload option \<Rightarrow> string"

record attempt =
  at_network :: "string \<Rightarrow> exchange"
  at_start :: time
  at_stop :: time
  at_joined :: "refresh_result option"
  at_readings :: readings
  at_io :: diskIO
  at_dropNow :: time
  at_removed :: bool

definition fetchOf :: "deps \<Rightarrow> attempt \<Rightarrow> SubscriptionRow \<Rightarrow> fetched" where
  "fetchOf dp att row =
     (let (p, res, ferr) = Fetch (d_ulower dp) (d_urlSplit dp) (d_unmarshal dp) (at_network att) (d_userAgent dp)
            (at_start att) (at_stop att) row
      in (p, Some res, map_option (fetchErrorText (row_Name row)) ferr))"

text \<open>The closure that fetches and records runs exactly when this call holds the single-flight gate
  and the entry is not fresh, which is when \<open>RefreshIfStale\<close> reports a refresh of its own.\<close>

definition refresh :: "deps \<Rightarrow> attempt \<Rightarrow> SubscriptionRow \<Rightarrow> Coordinator \<Rightarrow> refresh_result \<times> Coordinator" where
  "refresh dp att row co =
     (let ttl = fetchTTLFor (co_cfg co) row;
          f = fetchOf dp att row;
          (r, cache) = RefreshIfStale (d_encode dp) (at_io att) (at_joined att) (at_readings att) f (row_Name row) ttl (co_cache co);
          ran = (at_joined att = None \<and> fst (snd r));
          co = (if ran then recordResult (row_Name row) (fst (snd f)) co else co)
      in (r, co\<lparr>co_cache := cache\<rparr>))"

definition steadyTick :: "deps \<Rightarrow> attempt \<Rightarrow> SubscriptionRow \<Rightarrow> Coordinator \<Rightarrow> Coordinator" where
  "steadyTick dp att row co =
     (let ((_, _, err), co) = refresh dp att row co in
      if err \<noteq> None then
        (if shouldDrop (at_dropNow att) row co
         then co\<lparr>co_cache := Drop (at_removed att) (row_Name row) (co_cache co)\<rparr> else co)
      else maybePromoteBootstrap (row_Name row) co)"

text \<open>\<open>ForceRefresh\<close>: the sources in the order in which their goroutines finish.\<close>

definition forceRefreshOne :: "deps \<Rightarrow> attempt \<Rightarrow> SubscriptionRow \<Rightarrow> Coordinator \<Rightarrow> Coordinator" where
  "forceRefreshOne dp att row co =
     (let (payload, res, err) = fetchOf dp att row;
          co = recordResult (row_Name row) res co
      in case err of
        Some e \<Rightarrow>
          let co = co\<lparr>co_cache := markFailed (rg_failed (at_readings att)) (row_Name row) e (co_cache co)\<rparr> in
          if shouldDrop (at_dropNow att) row co
          then co\<lparr>co_cache := Drop (at_removed att) (row_Name row) (co_cache co)\<rparr> else co
      | None \<Rightarrow>
          let co = co\<lparr>co_cache := snd (cacheSet (d_encode dp) (at_io att) (row_Name row) payload
                (rg_start (at_readings att)) (co_cache co))\<rparr>
          in maybePromoteBootstrap (row_Name row) co)"

definition ForceRefresh :: "deps \<Rightarrow> (SubscriptionRow \<times> attempt) list \<Rightarrow> Coordinator \<Rightarrow> Coordinator" where
  "ForceRefresh dp finished co = fold (\<lambda>(row, att). forceRefreshOne dp att row) finished co"

subsection \<open>The goroutines\<close>

definition maxAttempts :: "SchedulerConfig \<Rightarrow> int" where
  "maxAttempts cfg =
     (if sc_BootstrapMaxAttemptsPerSource cfg < 1 then 1 else sc_BootstrapMaxAttemptsPerSource cfg)"

text \<open>Where a goroutine of \<open>bootstrapAndRun\<close> is: at the head of the loop, in the delay after a
  failed attempt, about to mark the outcome, about to call \<open>Done\<close>, and in \<open>runSteady\<close>, where
  it ticks, or is parked, or has panicked because \<open>time.NewTicker\<close> got a period that is not
  positive.\<close>

datatype pc = BootAttempt int | BootSleep int | BootMark BootstrapState | BootDone
  | Steady | Parked | Panicked | Stopped

definition enterSteady :: "SchedulerConfig \<Rightarrow> SubscriptionRow \<Rightarrow> pc" where
  "enterSteady cfg row =
     (if refreshDisabled row then Parked else if ttlFor cfg row \<le> 0 then Panicked else Steady)"

text \<open>One step of the goroutine of \<open>row\<close>, on the coordinator, the counter of the wait group and
  its program counter.\<close>

inductive thread_step ::
  "deps \<Rightarrow> bool \<Rightarrow> SubscriptionRow \<Rightarrow> Coordinator \<times> int \<times> pc \<Rightarrow> Coordinator \<times> int \<times> pc \<Rightarrow> bool"
  for dp cancelled row where
  boot_cancelled: "cancelled \<Longrightarrow> thread_step dp cancelled row (co, wg, BootAttempt k) (co, wg - 1, Stopped)"
| boot_ok: "\<not> cancelled \<Longrightarrow> refresh dp att row co = ((p, b, None), co') \<Longrightarrow>
    thread_step dp cancelled row (co, wg, BootAttempt k) (co', wg, BootMark BootstrapSucceeded)"
| boot_retry: "\<not> cancelled \<Longrightarrow> refresh dp att row co = ((p, b, Some e), co') \<Longrightarrow> k \<noteq> maxAttempts (co_cfg co) \<Longrightarrow>
    thread_step dp cancelled row (co, wg, BootAttempt k) (co', wg, BootSleep k)"
| boot_failed: "\<not> cancelled \<Longrightarrow> refresh dp att row co = ((p, b, Some e), co') \<Longrightarrow> k = maxAttempts (co_cfg co) \<Longrightarrow>
    thread_step dp cancelled row (co, wg, BootAttempt k) (co', wg, BootMark BootstrapFailed)"
| sleep_cancelled: "cancelled \<Longrightarrow> thread_step dp cancelled row (co, wg, BootSleep k) (co, wg - 1, Stopped)"
| sleep_over: "thread_step dp cancelled row (co, wg, BootSleep k) (co, wg, BootAttempt (k + 1))"
| boot_mark: "thread_step dp cancelled row (co, wg, BootMark st) (markBootstrap (row_Name row) st co, wg, BootDone)"
| boot_done: "thread_step dp cancelled row (co, wg, BootDone) (co, wg - 1, enterSteady (co_cfg co) row)"
| tick: "thread_step dp cancelled row (co, wg, Steady) (steadyTick dp att row co, wg, Steady)"
| steady_stop: "cancelled \<Longrightarrow> thread_step dp cancelled row (co, wg, Steady) (co, wg, Stopped)"
| parked_stop: "cancelled \<Longrightarrow> thread_step dp cancelled row (co, wg, Parked) (co, wg, Stopped)"

inductive_cases thread_stepE: "thread_step dp cancelled row (co, wg, pc) (co', wg', pc')"

text \<open>The whole system: the threads, the wait group, whether the context is cancelled, and whether
  \<open>Start\<close> has returned.\<close>

record System =
  sy_co :: Coordinator
  sy_threads :: "(SubscriptionRow \<times> pc) list"
  sy_wg :: int
  sy_cancelled :: bool
  sy_returned :: bool

definition Start :: "Coordinator \<Rightarrow> System" where
  "Start co =
     (let enabled = enabledSources co in
      if length enabled = 0
      then \<lparr>sy_co = signalReady co, sy_threads = [], sy_wg = 0, sy_cancelled = False, sy_returned = True\<rparr>
      else \<lparr>sy_co = co, sy_threads = map (\<lambda>row. (row, BootAttempt 1)) enabled, sy_wg = int (length enabled),
            sy_cancelled = False, sy_returned = False\<rparr>)"

definition crashed :: "System \<Rightarrow> bool" where
  "crashed s = list_ex (\<lambda>(_, pc). pc = Panicked) (sy_threads s)"

fun booting :: "pc \<Rightarrow> bool" where
  "booting (BootAttempt _) = True"
| "booting (BootSleep _) = True"
| "booting (BootMark _) = True"
| "booting BootDone = True"
| "booting _ = False"

text \<open>A step of the system, labelled by whether it belongs to the bootstrap: a step of a booting
  thread or the return of \<open>Start\<close>, which waits for the wait group and then signals.  A panic
  ends the process.\<close>

inductive sched_step :: "deps \<Rightarrow> System \<Rightarrow> bool \<Rightarrow> System \<Rightarrow> bool" for dp where
  thread: "\<not> crashed s \<Longrightarrow> i < length (sy_threads s) \<Longrightarrow> sy_threads s ! i = (row, pc) \<Longrightarrow>
    thread_step dp (sy_cancelled s) row (sy_co s, sy_wg s, pc) (co, wg, pc') \<Longrightarrow>
    sched_step dp s (booting pc) (s\<lparr>sy_co := co, sy_wg := wg, sy_threads := (sy_threads s)[i := (row, pc')]\<rparr>)"
| return: "\<not> crashed s \<Longrightarrow> \<not> sy_returned s \<Longrightarrow> sy_wg s = 0 \<Longrightarrow>
    sched_step dp s True (s\<lparr>sy_co := signalReady (sy_co s), sy_returned := True\<rparr>)"
| cancel: "sched_step dp s False (s\<lparr>sy_cancelled := True\<rparr>)"

inductive_cases sched_stepE: "sched_step dp s boot s'"

text \<open>A run from \<open>s\<close>, with the labels of its steps.\<close>

inductive sched_run :: "deps \<Rightarrow> System \<Rightarrow> bool list \<Rightarrow> System \<Rightarrow> bool" for dp s where
  start: "sched_run dp s [] s"
| step: "sched_run dp s bs s' \<Longrightarrow> sched_step dp s' b s'' \<Longrightarrow> sched_run dp s (bs @ [b]) s''"

section \<open>What one step changes\<close>

text \<open>A change of the coordinator that concerns one source only, and its bootstrap state by \<open>g\<close>.\<close>

definition evolves :: "string \<Rightarrow> (BootstrapState \<Rightarrow> BootstrapState) \<Rightarrow> Coordinator \<Rightarrow> Coordinator \<Rightarrow> bool" where
  "evolves name g co co' \<longleftrightarrow> co_cfg co' = co_cfg co \<and> co_ready co' = co_ready co \<and>
     map fst (co_sources co') = map fst (co_sources co) \<and>
     (\<forall>n. n \<noteq> name \<longrightarrow> map_of (co_sources co') n = map_of (co_sources co) n) \<and>
     (\<forall>sx. map_of (co_sources co) name = Some sx \<longrightarrow>
        (\<exists>sx'. map_of (co_sources co') name = Some sx' \<and> sx_row sx' = sx_row sx \<and> sx_bootstrap sx' = g (sx_bootstrap sx)))"

definition promote :: "BootstrapState \<Rightarrow> BootstrapState" where
  "promote st = (if st = BootstrapFailed then BootstrapSucceeded else st)"

lemma evolves_refl: "evolves name id co co"
  by (simp add: evolves_def)

lemma evolves_trans: "evolves name g co co1 \<Longrightarrow> evolves name h co1 co2 \<Longrightarrow> evolves name (h \<circ> g) co co2"
  unfolding evolves_def by fastforce

lemma evolves_cache [simp]: "evolves name g co (co'\<lparr>co_cache := c\<rparr>) = evolves name g co co'"
  by (simp add: evolves_def)

lemma keys_update: "map_of al k = Some v \<Longrightarrow> map fst (AList.update k w al) = map fst al"
  by (induction al) auto

lemma evolves_updateSource:
  assumes "\<And>sx. sx_row (f sx) = sx_row sx \<and> sx_bootstrap (f sx) = g (sx_bootstrap sx)"
  shows "evolves name g co (updateSource name f co)"
  using assms by (auto simp: evolves_def updateSource_def update_conv' keys_update split: option.splits)

lemma evolves_ops:
  "evolves name id co (recordResult name res co)"
  "evolves name (\<lambda>_. st) co (markBootstrap name st co)"
  "evolves name promote co (maybePromoteBootstrap name co)"
  by (auto simp: recordResult_def markBootstrap_def maybePromoteBootstrap_def promote_def evolves_refl
      intro!: evolves_updateSource)

lemma evolves_refresh: "refresh dp att row co = (r, co') \<Longrightarrow> evolves (row_Name row) id co co'"
  by (auto simp: refresh_def Let_def evolves_ops evolves_refl split: prod.splits if_splits)

lemma evolves_steadyTick:
  obtains g where "g \<in> {id, promote}" "evolves (row_Name row) g co (steadyTick dp att row co)"
proof -
  obtain p b err co1 where r: "refresh dp att row co = ((p, b, err), co1)"
    by (cases "refresh dp att row co", cases "fst (refresh dp att row co)" rule: prod_cases3) auto
  note e = evolves_refresh [OF r]
  show thesis
  proof (cases err)
    case None
    then show ?thesis using r evolves_trans [OF e evolves_ops(3)] by (intro that [of promote]) (simp_all add: steadyTick_def)
  next
    case (Some x)
    then show ?thesis using r e by (intro that [of id]) (simp_all add: steadyTick_def)
  qed
qed

section \<open>The invariant of a run\<close>

abbreviation bootstrapOf :: "Coordinator \<Rightarrow> string \<Rightarrow> BootstrapState option" where
  "bootstrapOf co name \<equiv> map_option sx_bootstrap (map_of (co_sources co) name)"

fun pcOk :: "int \<Rightarrow> bool \<Rightarrow> pc \<Rightarrow> BootstrapState \<Rightarrow> bool" where
  "pcOk m cancelled (BootAttempt k) st \<longleftrightarrow> st = BootstrapPending \<and> 1 \<le> k \<and> k \<le> m"
| "pcOk m cancelled (BootSleep k) st \<longleftrightarrow> st = BootstrapPending \<and> 1 \<le> k \<and> k < m"
| "pcOk m cancelled (BootMark st') st \<longleftrightarrow> st = BootstrapPending \<and> st' \<noteq> BootstrapPending"
| "pcOk m cancelled Stopped st \<longleftrightarrow> (st = BootstrapPending \<longrightarrow> cancelled)"
| "pcOk m cancelled _ st \<longleftrightarrow> st \<noteq> BootstrapPending"

definition threadOk :: "Coordinator \<Rightarrow> bool \<Rightarrow> SubscriptionRow \<times> pc \<Rightarrow> bool" where
  "threadOk co cancelled t \<longleftrightarrow> (\<exists>sx. map_of (co_sources co) (row_Name (fst t)) = Some sx \<and> sx_row sx = fst t \<and>
     row_Enable (fst t) \<and> pcOk (maxAttempts (co_cfg co)) cancelled (snd t) (sx_bootstrap sx))"

definition sourcesOk :: "Coordinator \<Rightarrow> SubscriptionRow set \<Rightarrow> bool" where
  "sourcesOk co rows \<longleftrightarrow> distinct (map fst (co_sources co)) \<and>
     (\<forall>name sx. map_of (co_sources co) name = Some sx \<longrightarrow> row_Name (sx_row sx) = name \<and>
        (if row_Enable (sx_row sx) then sx_row sx \<in> rows else sx_bootstrap sx = BootstrapSucceeded))"

definition sys_inv :: "System \<Rightarrow> bool" where
  "sys_inv s \<longleftrightarrow> distinct (map (\<lambda>t. row_Name (fst t)) (sy_threads s)) \<and>
     (\<forall>t\<in>set (sy_threads s). threadOk (sy_co s) (sy_cancelled s) t) \<and>
     sourcesOk (sy_co s) (fst ` set (sy_threads s)) \<and>
     sy_wg s = int (length (filter (\<lambda>t. booting (snd t)) (sy_threads s))) \<and>
     co_ready (sy_co s) = sy_returned s \<and> (sy_returned s \<longrightarrow> sy_wg s = 0)"

lemma enterSteady_cases: "enterSteady cfg row \<in> {Steady, Parked, Panicked}"
  by (simp add: enterSteady_def)

text \<open>One step of a thread: what it does to its own source, its counter and the wait group.\<close>

lemma thread_step_own:
  assumes "thread_step dp cancelled row (co, wg, pc) (co', wg', pc')"
    and "map_of (co_sources co) (row_Name row) = Some sx"
    and "pcOk (maxAttempts (co_cfg co)) cancelled pc (sx_bootstrap sx)"
  obtains g where "evolves (row_Name row) g co co'" "pcOk (maxAttempts (co_cfg co)) cancelled pc' (g (sx_bootstrap sx))"
    "wg' = wg + (if booting pc' then 1 else 0) - (if booting pc then 1 else 0)" "booting pc' \<longrightarrow> booting pc"
    "sx_bootstrap sx = BootstrapPending \<or> g \<in> {id, promote}"
  using assms(1)
proof cases
  case (sleep_over k)
  then show ?thesis using assms(3) by (intro that [of id]) (simp_all add: evolves_refl)
next
  case (boot_mark st)
  then show ?thesis using assms(3) by (intro that [of "\<lambda>_. st"]) (simp_all add: evolves_ops)
next
  case boot_done
  then show ?thesis using assms(3) enterSteady_cases [of "co_cfg co" row]
    by (intro that [of id]) (auto simp: evolves_refl)
next
  case (tick att)
  obtain g where g: "g \<in> {id, promote}" "evolves (row_Name row) g co (steadyTick dp att row co)"
    by (rule evolves_steadyTick)
  then show ?thesis using tick assms(3) by (intro that [of g]) (auto simp: promote_def split: if_splits)
next
  case (boot_ok att p b k)
  then show ?thesis using assms(3) evolves_refresh by (intro that [of id]) auto
next
  case (boot_retry att p b e k)
  then show ?thesis using assms(3) evolves_refresh by (intro that [of id]) auto
next
  case (boot_failed att p b e k)
  then show ?thesis using assms(3) evolves_refresh by (intro that [of id]) auto
qed (use assms(3) in \<open>intro that [of id]; auto simp: evolves_refl\<close>)+

lemma length_filter_update:
  "i < length xs \<Longrightarrow> int (length (filter P (xs[i := x]))) =
     int (length (filter P xs)) + (if P x then 1 else 0) - (if P (xs ! i) then 1 else 0)"
proof -
  assume i: "i < length xs"
  then have "xs[i := x] = take i xs @ x # drop (Suc i) xs" by (rule upd_conv_take_nth_drop)
  moreover have "length (filter P xs) = length (filter P (take i xs @ xs ! i # drop (Suc i) xs))"
    using id_take_nth_drop [OF i] by simp
  ultimately show ?thesis by simp
qed

lemma evolves_sourcesOk:
  assumes "evolves (row_Name row) g co co'" and "map_of (co_sources co) (row_Name row) = Some sx" and "row_Enable (sx_row sx)"
    and "sourcesOk co rows"
  shows "sourcesOk co' rows"
proof -
  obtain sx' where sx': "map_of (co_sources co') (row_Name row) = Some sx'" "sx_row sx' = sx_row sx"
    using assms(1,2) by (auto simp: evolves_def)
  have "row_Name (sx_row y) = n \<and> (if row_Enable (sx_row y) then sx_row y \<in> rows else sx_bootstrap y = BootstrapSucceeded)"
    if "map_of (co_sources co') n = Some y" for n y
  proof (cases "n = row_Name row")
    case True
    then show ?thesis using that sx' assms(2,3,4) by (auto simp: sourcesOk_def)
  next
    case False
    then show ?thesis using that assms(1,4) by (simp add: evolves_def sourcesOk_def)
  qed
  then show ?thesis using assms(1,4) by (simp add: evolves_def sourcesOk_def)
qed

lemma signalReady_ok [simp]:
  "threadOk (signalReady co) = threadOk co" "sourcesOk (signalReady co) = sourcesOk co" "co_ready (signalReady co)"
  by (simp_all add: fun_eq_iff threadOk_def sourcesOk_def signalReady_def)

lemma returned_not_booting: "sys_inv s \<Longrightarrow> sy_returned s \<Longrightarrow> t \<in> set (sy_threads s) \<Longrightarrow> \<not> booting (snd t)"
  by (auto simp: sys_inv_def filter_empty_conv)

lemma sys_inv_thread:
  assumes inv: "sys_inv s" and i: "i < length (sy_threads s)" and t: "sy_threads s ! i = (row, pc)"
    and st: "thread_step dp (sy_cancelled s) row (sy_co s, sy_wg s, pc) (co, wg, pc')"
  shows "sys_inv (s\<lparr>sy_co := co, sy_wg := wg, sy_threads := (sy_threads s)[i := (row, pc')]\<rparr>)"
proof -
  let ?ts = "sy_threads s" and ?ts' = "(sy_threads s)[i := (row, pc')]"
  have "threadOk (sy_co s) (sy_cancelled s) (row, pc)" using inv i t by (metis nth_mem sys_inv_def)
  then obtain sx where sx: "map_of (co_sources (sy_co s)) (row_Name row) = Some sx" "sx_row sx = row" "row_Enable row"
    "pcOk (maxAttempts (co_cfg (sy_co s))) (sy_cancelled s) pc (sx_bootstrap sx)" by (auto simp: threadOk_def)
  obtain g where g: "evolves (row_Name row) g (sy_co s) co"
    "pcOk (maxAttempts (co_cfg (sy_co s))) (sy_cancelled s) pc' (g (sx_bootstrap sx))"
    "wg = sy_wg s + (if booting pc' then 1 else 0) - (if booting pc then 1 else 0)" "booting pc' \<longrightarrow> booting pc"
    by (rule thread_step_own [OF st sx(1,4)])
  have "map fst ?ts ! i = row" using i t by simp
  then have "(map fst ?ts)[i := row] = map fst ?ts" by (metis list_update_id)
  then have rows: "map fst ?ts' = map fst ?ts" by (simp add: map_update)
  have "map (\<lambda>t. row_Name (fst t)) xs = map row_Name (map fst xs)" for xs :: "(SubscriptionRow \<times> pc) list" by simp
  then have names: "map (\<lambda>t. row_Name (fst t)) ?ts' = map (\<lambda>t. row_Name (fst t)) ?ts" by (simp only: rows)
  have cfg: "co_cfg co = co_cfg (sy_co s)" "co_ready co = co_ready (sy_co s)" using g(1) by (simp_all add: evolves_def)
  have "threadOk co (sy_cancelled s) u" if mem: "u \<in> set ?ts'" for u
  proof -
    obtain j where j: "j < length ?ts" "u = ?ts' ! j" using mem unfolding in_set_conv_nth by auto
    show ?thesis
    proof (cases "j = i")
      case True
      then show ?thesis using j i sx g(1,2) cfg by (auto simp: threadOk_def evolves_def)
    next
      case False
      then have u: "u = ?ts ! j" using j by simp
      have "distinct (map (\<lambda>t. row_Name (fst t)) ?ts)" using inv by (simp add: sys_inv_def)
      then have "map (\<lambda>t. row_Name (fst t)) ?ts ! j \<noteq> map (\<lambda>t. row_Name (fst t)) ?ts ! i"
        using False i j(1) nth_eq_iff_index_eq by fastforce
      then have "row_Name (fst u) \<noteq> row_Name row" using i j(1) u t by simp
      moreover have "threadOk (sy_co s) (sy_cancelled s) u" using inv u j(1) by (metis nth_mem sys_inv_def)
      ultimately show ?thesis using g(1) cfg by (simp add: threadOk_def evolves_def)
    qed
  qed
  moreover have "sourcesOk co (fst ` set ?ts')"
    using evolves_sourcesOk [OF g(1) sx(1)] sx(2,3) inv rows by (metis image_set sys_inv_def)
  moreover have "wg = int (length (filter (\<lambda>t. booting (snd t)) ?ts'))"
    using inv i t g(3) length_filter_update [OF i, of "\<lambda>t. booting (snd t)" "(row, pc')"] by (simp add: sys_inv_def)
  moreover have "wg = 0" if "sy_returned s"
  proof -
    have "\<not> booting pc" using returned_not_booting [OF inv that nth_mem [OF i]] t by simp
    then show ?thesis using g(3,4) inv that by (auto simp: sys_inv_def)
  qed
  ultimately show ?thesis using inv names cfg by (simp add: sys_inv_def)
qed

lemma pcOk_cancel: "pcOk m c pc st \<Longrightarrow> pcOk m True pc st"
  by (cases pc) auto

lemma sys_inv_step:
  assumes "sys_inv s" and "sched_step dp s b s'"
  shows "sys_inv s'"
  using assms(2)
proof cases
  case (thread i row pc co wg pc')
  then show ?thesis using sys_inv_thread [OF assms(1)] by simp
next
  case return
  then show ?thesis using assms(1) by (simp add: sys_inv_def)
next
  case cancel
  then show ?thesis using assms(1) pcOk_cancel by (auto simp: sys_inv_def threadOk_def)
qed

definition freshSources :: "(string \<times> sourceCtx) list \<Rightarrow> bool" where
  "freshSources m \<longleftrightarrow> distinct (map fst m) \<and>
     (\<forall>name sx. map_of m name = Some sx \<longrightarrow> row_Name (sx_row sx) = name \<and>
        sx_bootstrap sx = (if row_Enable (sx_row sx) then BootstrapPending else BootstrapSucceeded))"

lemma NewCoordinator_sources: "freshSources (co_sources (NewCoordinator cache cfg rows))"
proof -
  let ?f = "\<lambda>row m. AList.update (row_Name row)
    \<lparr>sx_row = row, sx_bootstrap = (if row_Enable row then BootstrapPending else BootstrapSucceeded), sx_lastResult = None\<rparr> m"
  have upd: "freshSources (?f row m)" if "freshSources m" for row m
    using that by (simp add: freshSources_def distinct_update update_conv' del: map_of_eq_Some_iff)
  have "freshSources (fold ?f rows m)" if "freshSources m" for m
    using that by (induction rows arbitrary: m) (simp_all add: upd)
  from this [of "[]"] show ?thesis by (simp add: NewCoordinator_def freshSources_def)
qed

lemma maxAttempts_pos [simp]: "1 \<le> maxAttempts cfg"
  by (simp add: maxAttempts_def)

lemma sys_inv_Start: "sys_inv (Start (NewCoordinator cache cfg rows))"
proof -
  define co where "co = NewCoordinator cache cfg rows"
  have fresh: "freshSources (co_sources co)" and nr: "\<not> co_ready co"
    using NewCoordinator_sources by (simp_all add: co_def) (simp add: NewCoordinator_def)
  then have d: "distinct (map fst (co_sources co))" by (simp add: freshSources_def)
  have src: "row_Name (sx_row sx) = name \<and> map_of (co_sources co) name = Some sx \<and>
      sx_bootstrap sx = (if row_Enable (sx_row sx) then BootstrapPending else BootstrapSucceeded)"
    if "(name, sx) \<in> set (co_sources co)" for name sx
    using that fresh map_of_is_SomeI [OF d that] unfolding freshSources_def by blast
  let ?en = "filter (\<lambda>(_, s). row_Enable (sx_row s)) (co_sources co)"
  have names: "map row_Name (enabledSources co) = map fst ?en" using src by (auto simp: enabledSources_def)
  have dn: "distinct (map row_Name (enabledSources co))" unfolding names using d by (simp add: distinct_map_filter)
  have en: "sx_row sx \<in> set (enabledSources co)" if "(name, sx) \<in> set (co_sources co)" "row_Enable (sx_row sx)" for name sx
    using that by (force simp: enabledSources_def)
  have so: "sourcesOk co (set (enabledSources co))"
    unfolding sourcesOk_def using d src en map_of_SomeD by (metis (no_types, lifting))
  have ok: "threadOk co False (row, BootAttempt 1)" if mem: "row \<in> set (enabledSources co)" for row
  proof -
    obtain name sx where "(name, sx) \<in> set (co_sources co)" "row_Enable (sx_row sx)" "row = sx_row sx"
      using mem by (auto simp: enabledSources_def)
    then show ?thesis using src [of name sx] by (auto simp: threadOk_def)
  qed
  have "sys_inv (Start co)"
  proof (cases "enabledSources co = []")
    case True
    then show ?thesis using so by (simp add: Start_def sys_inv_def)
  next
    case False
    then show ?thesis using so ok dn nr by (simp add: Start_def Let_def sys_inv_def o_def image_image)
  qed
  then show ?thesis by (simp add: co_def)
qed

lemma sys_inv_run: "sched_run dp (Start (NewCoordinator cache cfg rows)) bs s \<Longrightarrow> sys_inv s"
  by (induction rule: sched_run.induct) (auto intro: sys_inv_Start sys_inv_step)

section \<open>Readiness\<close>

lemma list_all_sources:
  "distinct (map fst m) \<Longrightarrow> list_all (\<lambda>(_, sx). P sx) m \<longleftrightarrow> (\<forall>name sx. map_of m name = Some sx \<longrightarrow> P sx)"
  by (auto simp: list_all_iff)

lemma ready_terminal:
  assumes "sys_inv s" and "co_ready (sy_co s)" and "\<not> sy_cancelled s" and "map_of (co_sources (sy_co s)) name = Some sx"
  shows "sx_bootstrap sx \<noteq> BootstrapPending"
proof (cases "row_Enable (sx_row sx)")
  case True
  then obtain t where t: "t \<in> set (sy_threads s)" "fst t = sx_row sx" "row_Name (fst t) = name"
    using assms(1,4) by (fastforce simp: sys_inv_def sourcesOk_def)
  have "\<not> booting (snd t)" using returned_not_booting [OF assms(1) _ t(1)] assms(1,2) by (simp add: sys_inv_def)
  moreover have "threadOk (sy_co s) (sy_cancelled s) t" using assms(1) t(1) by (simp add: sys_inv_def)
  ultimately show ?thesis using t(3) assms(3,4) by (cases "snd t") (auto simp: threadOk_def)
next
  case False
  then show ?thesis using assms(1,4) by (simp add: sys_inv_def sourcesOk_def)
qed

text \<open>C14: the ready channel closes only after the bootstrap.  In every state of every interleaving in
  which it is closed and the context has not been cancelled, no source is pending; the server then
  fails closed exactly when some enabled source is marked failed.\<close>

theorem ready_means_bootstrapped:
  assumes "sched_run dp (Start (NewCoordinator cache cfg rows)) bs s" and "co_ready (sy_co s)" and "\<not> sy_cancelled s"
  shows "list_all (\<lambda>(_, sx). sx_bootstrap sx \<noteq> BootstrapPending) (co_sources (sy_co s)) \<and>
    AllSucceeded (sy_co s) = (\<not> list_ex (\<lambda>(_, sx). row_Enable (sx_row sx) \<and> sx_bootstrap sx = BootstrapFailed) (co_sources (sy_co s)))"
proof -
  have inv: "sys_inv s" using assms(1) by (rule sys_inv_run)
  then have d: "distinct (map fst (co_sources (sy_co s)))" by (simp add: sys_inv_def sourcesOk_def)
  have np: "list_all (\<lambda>(_, sx). sx_bootstrap sx \<noteq> BootstrapPending) (co_sources (sy_co s))"
    unfolding list_all_sources [OF d] using ready_terminal [OF inv assms(2,3)] by blast
  have "(case x of (_, sx) \<Rightarrow> if \<not> row_Enable (sx_row sx) then True else sx_bootstrap sx = BootstrapSucceeded) =
      (\<not> (case x of (_, sx) \<Rightarrow> row_Enable (sx_row sx) \<and> sx_bootstrap sx = BootstrapFailed))"
    if "x \<in> set (co_sources (sy_co s))" for x
    using np that by (cases "sx_bootstrap (snd x)") (auto simp: list_all_iff)
  then have "AllSucceeded (sy_co s) = (\<forall>x\<in>set (co_sources (sy_co s)).
      \<not> (case x of (_, sx) \<Rightarrow> row_Enable (sx_row sx) \<and> sx_bootstrap sx = BootstrapFailed))"
    unfolding AllSucceeded_def list_all_iff by (rule ball_cong [OF refl])
  with np show ?thesis by (simp add: list_ex_iff)
qed

section \<open>The bootstrap ends\<close>

fun effort :: "int \<Rightarrow> pc \<Rightarrow> nat" where
  "effort m (BootAttempt k) = 2 * nat (m - k) + 4"
| "effort m (BootSleep k) = 2 * nat (m - k) + 3"
| "effort m (BootMark _) = 2"
| "effort m BootDone = 1"
| "effort m _ = 0"

definition remaining :: "System \<Rightarrow> nat" where
  "remaining s = (\<Sum>t\<leftarrow>sy_threads s. effort (maxAttempts (co_cfg (sy_co s))) (snd t)) + (if sy_returned s then 0 else 1)"

lemma sum_list_map_update:
  "i < length xs \<Longrightarrow> sum_list (map f (xs[i := x])) + f (xs ! i) = sum_list (map f xs) + (f x :: nat)"
proof -
  assume i: "i < length xs"
  then have "xs[i := x] = take i xs @ x # drop (Suc i) xs" by (rule upd_conv_take_nth_drop)
  moreover have "sum_list (map f xs) = sum_list (map f (take i xs @ xs ! i # drop (Suc i) xs))"
    using id_take_nth_drop [OF i] by simp
  ultimately show ?thesis by simp
qed

lemma effort_step:
  assumes "thread_step dp cancelled row (co, wg, pc) (co', wg', pc')" and "pcOk (maxAttempts (co_cfg co)) cancelled pc st"
  shows "effort (maxAttempts (co_cfg co)) pc' + (if booting pc then 1 else 0) \<le> effort (maxAttempts (co_cfg co)) pc"
  using assms(1)
proof cases
  case boot_done
  then show ?thesis using enterSteady_cases [of "co_cfg co" row] by auto
next
  case (sleep_over k)
  then have "nat (maxAttempts (co_cfg co) - k) = Suc (nat (maxAttempts (co_cfg co) - (k + 1)))"
    using assms(2) by simp arith
  then show ?thesis using sleep_over by simp
qed simp_all

lemma thread_step_cfg: "thread_step dp cancelled row (co, wg, pc) (co', wg', pc') \<Longrightarrow>
    map_of (co_sources co) (row_Name row) = Some sx \<Longrightarrow> pcOk (maxAttempts (co_cfg co)) cancelled pc (sx_bootstrap sx) \<Longrightarrow>
    co_cfg co' = co_cfg co"
  by (erule thread_step_own) (auto simp: evolves_def)

lemma remaining_step:
  assumes "sys_inv s" and "sched_step dp s b s'"
  shows "remaining s' + (if b then 1 else 0) \<le> remaining s \<and> co_cfg (sy_co s') = co_cfg (sy_co s)"
  using assms(2)
proof cases
  case (thread i row pc co wg pc')
  then have "threadOk (sy_co s) (sy_cancelled s) (row, pc)" using assms(1) by (metis nth_mem sys_inv_def)
  then obtain sx where sx: "map_of (co_sources (sy_co s)) (row_Name row) = Some sx"
    "pcOk (maxAttempts (co_cfg (sy_co s))) (sy_cancelled s) pc (sx_bootstrap sx)" by (auto simp: threadOk_def)
  let ?m = "maxAttempts (co_cfg (sy_co s))"
  have cfg: "co_cfg co = co_cfg (sy_co s)" using thread_step_cfg [OF thread(6) sx] .
  show ?thesis
    using sum_list_map_update [OF thread(4), of "\<lambda>t. effort ?m (snd t)" "(row, pc')"] effort_step [OF thread(6) sx(2)] thread(5)
    by (simp add: remaining_def thread(1,2) cfg)
qed (simp_all add: remaining_def signalReady_def)

lemma remaining_Start:
  "remaining (Start (NewCoordinator cache cfg rows)) \<le>
     length (filter row_Enable rows) * (2 * nat (maxAttempts cfg) + 2) + 1"
proof -
  let ?co = "NewCoordinator cache cfg rows"
  let ?f = "\<lambda>row m. AList.update (row_Name row)
    \<lparr>sx_row = row, sx_bootstrap = (if row_Enable row then BootstrapPending else BootstrapSucceeded), sx_lastResult = None\<rparr> m"
  have upd: "length (filter (\<lambda>(_, s). row_Enable (sx_row s)) (AList.update k v m)) \<le>
      length (filter (\<lambda>(_, s). row_Enable (sx_row s)) m) + (if row_Enable (sx_row v) then 1 else 0)" for k v m
    by (induction m) auto
  have "length (filter (\<lambda>(_, s). row_Enable (sx_row s)) (fold ?f rows m)) \<le>
      length (filter (\<lambda>(_, s). row_Enable (sx_row s)) m) + length (filter row_Enable rows)" for m
  proof (induction rows arbitrary: m)
    case (Cons row rows)
    show ?case using Cons.IH [of "?f row m"]
        upd [of "row_Name row" "\<lparr>sx_row = row, sx_bootstrap = (if row_Enable row then BootstrapPending else BootstrapSucceeded), sx_lastResult = None\<rparr>" m]
      by (simp split: if_splits)
  qed simp
  from this [of "[]"] have le: "length (enabledSources ?co) \<le> length (filter row_Enable rows)"
    by (simp add: enabledSources_def NewCoordinator_def)
  have "2 * nat (maxAttempts cfg - 1) + 4 = 2 * nat (maxAttempts cfg) + 2" using maxAttempts_pos [of cfg] by arith
  moreover have "co_cfg ?co = cfg" by (simp add: NewCoordinator_def)
  moreover have "remaining (Start co) \<le> length (enabledSources co) * (2 * nat (maxAttempts (co_cfg co) - 1) + 4) + 1" for co
    by (simp add: Start_def Let_def remaining_def o_def sum_list_triv)
  ultimately have "remaining (Start ?co) \<le> length (enabledSources ?co) * (2 * nat (maxAttempts cfg) + 2) + 1" by metis
  also have "\<dots> \<le> length (filter row_Enable rows) * (2 * nat (maxAttempts cfg) + 2) + 1"
    by (intro add_mono mult_le_mono le le_refl)
  finally show ?thesis .
qed

text \<open>C15: the bootstrap is bounded.  However the goroutines interleave, and whatever ticks and
  cancellations come in between, a run has at most \<open>2 * max + 2\<close> bootstrap steps for each enabled
  source and one for the return of \<open>Start\<close>.\<close>

theorem bootstrap_bounded:
  assumes "sched_run dp (Start (NewCoordinator cache cfg rows)) bs s"
  shows "length (filter id bs) \<le> length (filter row_Enable rows) * (2 * nat (maxAttempts cfg) + 2) + 1"
proof -
  have "length (filter id bs) + remaining s \<le> remaining (Start (NewCoordinator cache cfg rows))" using assms
  proof (induction rule: sched_run.induct)
    case (step bs s b s')
    then show ?case using remaining_step [OF sys_inv_run] by fastforce
  qed simp
  then show ?thesis using remaining_Start [of cache cfg rows] by linarith
qed

lemma bootstrap_progress:
  assumes "sys_inv s" and "\<not> crashed s" and "\<not> co_ready (sy_co s)"
  shows "\<exists>s'. sched_step dp s True s'"
proof (cases "sy_wg s = 0")
  case True
  then show ?thesis using assms sched_step.return [of s dp] by (auto simp: sys_inv_def)
next
  case False
  then have "filter (\<lambda>t. booting (snd t)) (sy_threads s) \<noteq> []" using assms(1) by (auto simp: sys_inv_def)
  then obtain i row pc where i: "i < length (sy_threads s)" "sy_threads s ! i = (row, pc)" "booting pc"
    by (metis (no_types, lifting) filter_empty_conv in_set_conv_nth prod.collapse)
  have "\<exists>c. thread_step dp (sy_cancelled s) row (sy_co s, sy_wg s, pc) c"
  proof (cases pc)
    case (BootAttempt k)
    obtain p b err co' where r: "refresh dp undefined row (sy_co s) = ((p, b, err), co')"
      by (cases "refresh dp undefined row (sy_co s)", cases "fst (refresh dp undefined row (sy_co s))" rule: prod_cases3) auto
    show ?thesis unfolding BootAttempt using r
      by (cases "sy_cancelled s"; cases err; cases "k = maxAttempts (co_cfg (sy_co s))")
        (metis thread_step.boot_cancelled thread_step.boot_ok thread_step.boot_retry thread_step.boot_failed)+
  qed (use i(3) in \<open>auto intro: thread_step.intros\<close>)
  then show ?thesis using sched_step.thread [OF assms(2) i(1,2)] i(3) by (metis prod_cases3)
qed

text \<open>C16: \<open>Start\<close> returns.  From every state of every run, bootstrap steps alone, at most as many as
  the bound allows, lead to a state in which the ready channel is closed, unless a ticker period
  that is not positive crashes the process.\<close>

theorem bootstrap_completes:
  assumes "sched_run dp (Start (NewCoordinator cache cfg rows)) bs s"
  shows "\<exists>n s'. n \<le> length (filter row_Enable rows) * (2 * nat (maxAttempts cfg) + 2) + 1 \<and>
    sched_run dp s (replicate n True) s' \<and> (co_ready (sy_co s') \<or> crashed s')"
proof -
  have "\<exists>n s'. n \<le> remaining s \<and> sched_run dp s (replicate n True) s' \<and> (co_ready (sy_co s') \<or> crashed s')" if "sys_inv s" for s
    using that
  proof (induction "remaining s" arbitrary: s rule: less_induct)
    case less
    show ?case
    proof (cases "co_ready (sy_co s) \<or> crashed s")
      case True
      then show ?thesis using sched_run.start [of dp s] by (intro exI [of _ 0] exI [of _ s]) simp
    next
      case False
      then obtain s1 where s1: "sched_step dp s True s1" using bootstrap_progress [OF less.prems] by blast
      have lt: "remaining s1 < remaining s" using remaining_step [OF less.prems s1] by simp
      obtain n s' where n: "n \<le> remaining s1" "sched_run dp s1 (replicate n True) s'" "co_ready (sy_co s') \<or> crashed s'"
        using less.hyps [OF lt sys_inv_step [OF less.prems s1]] by blast
      have "sched_run dp s (True # bs) s'" if "sched_run dp s1 bs s'" for bs s'
        using that
      proof (induction rule: sched_run.induct)
        case start
        then show ?case using sched_run.step [OF sched_run.start s1] by simp
      next
        case (step bs s' b s'')
        then show ?case using sched_run.step [of dp s "True # bs" s' b s''] by simp
      qed
      from this [OF n(2)] have "sched_run dp s (replicate (Suc n) True) s'" by simp
      then show ?thesis using n lt by (intro exI [of _ "Suc n"] exI [of _ s']) simp
    qed
  qed
  from this [OF sys_inv_run [OF assms]] obtain n s' where
    "n \<le> remaining s" "sched_run dp s (replicate n True) s'" "co_ready (sy_co s') \<or> crashed s'" by blast
  moreover have "remaining s \<le> remaining (Start (NewCoordinator cache cfg rows))" using assms
  proof (induction rule: sched_run.induct)
    case (step bs s b s')
    then show ?case using remaining_step [OF sys_inv_run] by fastforce
  qed simp
  ultimately show ?thesis using remaining_Start [of cache cfg rows] by (meson le_trans)
qed

section \<open>Tickers\<close>

lemma seconds_pos: "0 < n \<Longrightarrow> n \<le> 9223372036 \<Longrightarrow> seconds n = n * 1000000000"
  by (simp add: seconds_def in_int64_def int64_min_def int64_max_def)

text \<open>The process does not crash on a ticker.  If the default interval is positive and no row asks
  for more than 9223372036 seconds (292 years), no goroutine ever creates a ticker with a period
  that is not positive.\<close>

lemma tickers_positive:
  assumes "sched_run dp (Start (NewCoordinator cache cfg rows)) bs s"
    and "0 < sc_DefaultTTL cfg" and "list_all (\<lambda>row. row_RefreshSeconds row \<le> 9223372036) rows"
  shows "\<not> crashed s"
proof -
  let ?ok = "\<lambda>s. co_cfg (sy_co s) = cfg \<and> (\<forall>t\<in>set (sy_threads s). row_RefreshSeconds (fst t) \<le> 9223372036 \<and> snd t \<noteq> Panicked)"
  have enter: "enterSteady cfg row \<noteq> Panicked" if "row_RefreshSeconds row \<le> 9223372036" for row
    using that assms(2) by (simp add: enterSteady_def ttlFor_def refreshDisabled_def seconds_pos)
  have "?ok s" using assms(1)
  proof (induction rule: sched_run.induct)
    case start
    have sub: "sx_row sx \<in> set rs \<union> (\<lambda>e. sx_row (snd e)) ` set m" if "(name, sx) \<in> set (fold (\<lambda>row m. AList.update (row_Name row)
        \<lparr>sx_row = row, sx_bootstrap = (if row_Enable row then BootstrapPending else BootstrapSucceeded), sx_lastResult = None\<rparr> m) rs m)"
      for name sx rs m
      using that
    proof (induction rs arbitrary: m)
      case (Cons r rs)
      have "set (AList.update k v m) \<subseteq> insert (k, v) (set m)" for k and v :: sourceCtx and m by (induction m) auto
      then show ?case using Cons by fastforce
    qed force
    have "row \<in> set rows" if mem: "row \<in> set (enabledSources (NewCoordinator cache cfg rows))" for row
    proof -
      obtain name sx where "(name, sx) \<in> set (co_sources (NewCoordinator cache cfg rows))" "row = sx_row sx"
        using mem by (auto simp: enabledSources_def)
      then show ?thesis using sub [of name sx rows "[]"] by (simp add: NewCoordinator_def)
    qed
    then show ?case using assms(3)
      by (auto simp: Start_def Let_def list_all_iff) (simp_all add: NewCoordinator_def signalReady_def)
  next
    case (step bs s b s')
    note inv = sys_inv_run [OF step(1)]
    have cfg: "co_cfg (sy_co s') = cfg" using remaining_step [OF inv step(2)] step.IH by simp
    from step(2) show ?case
    proof cases
      case (thread i row pc co wg pc')
      have r: "row_RefreshSeconds row \<le> 9223372036" "pc \<noteq> Panicked" using step.IH thread(4,5) by (metis nth_mem fst_conv, metis nth_mem snd_conv)
      have "pc' \<noteq> Panicked" using thread(6) enter [OF r(1)] step.IH by cases auto
      moreover have "t \<in> set (sy_threads s) \<or> t = (row, pc')" if "t \<in> set (sy_threads s')" for t
        using that thread(2) set_update_subset_insert [of "sy_threads s" i "(row, pc')"] by auto
      ultimately show ?thesis using cfg step.IH r(1) by fastforce
    qed (use step.IH cfg in \<open>simp_all add: signalReady_def\<close>)
  qed
  then show ?thesis by (auto simp: crashed_def list_ex_iff)
qed

text \<open>The bound is needed: one second more and the period is negative.\<close>

lemma refresh_overflow:
  "row_RefreshSeconds row = 9223372037 \<Longrightarrow> ttlFor cfg row < 0 \<and> enterSteady cfg row = Panicked"
  by (simp add: ttlFor_def refreshDisabled_def enterSteady_def seconds_def wrap64_def)

section \<open>The state of a source\<close>

definition rank :: "BootstrapState \<Rightarrow> nat" where
  "rank st = (case st of BootstrapPending \<Rightarrow> 0 | BootstrapFailed \<Rightarrow> 1 | BootstrapSucceeded \<Rightarrow> 2)"

definition forward :: "Coordinator \<Rightarrow> Coordinator \<Rightarrow> bool" where
  "forward co co' \<longleftrightarrow> map fst (co_sources co') = map fst (co_sources co) \<and>
     (\<forall>name sx. map_of (co_sources co) name = Some sx \<longrightarrow>
        (\<exists>sx'. map_of (co_sources co') name = Some sx' \<and> sx_row sx' = sx_row sx \<and> rank (sx_bootstrap sx) \<le> rank (sx_bootstrap sx')))"

lemma forward_refl: "forward co co"
  by (simp add: forward_def)

lemma forward_trans:
  assumes "forward co co1" and "forward co1 co2"
  shows "forward co co2"
proof -
  have "\<exists>sx2. map_of (co_sources co2) name = Some sx2 \<and> sx_row sx2 = sx_row sx \<and> rank (sx_bootstrap sx) \<le> rank (sx_bootstrap sx2)"
    if sx: "map_of (co_sources co) name = Some sx" for name sx
  proof -
    obtain sx1 where "map_of (co_sources co1) name = Some sx1" "sx_row sx1 = sx_row sx" "rank (sx_bootstrap sx) \<le> rank (sx_bootstrap sx1)"
      using assms(1) sx unfolding forward_def by blast
    moreover from this(1) obtain sx2 where "map_of (co_sources co2) name = Some sx2" "sx_row sx2 = sx_row sx1"
      "rank (sx_bootstrap sx1) \<le> rank (sx_bootstrap sx2)" using assms(2) unfolding forward_def by blast
    ultimately show ?thesis using order_trans by auto
  qed
  then show ?thesis using assms by (simp add: forward_def)
qed

lemma forward_evolves:
  assumes "evolves name g co co'" and "map_of (co_sources co) name = Some sx"
    and "sx_bootstrap sx = BootstrapPending \<or> g \<in> {id, promote}"
  shows "forward co co'"
proof -
  have "rank (sx_bootstrap sx) \<le> rank (g (sx_bootstrap sx))"
    using assms(3) by (cases "sx_bootstrap sx") (auto simp: rank_def promote_def)
  moreover obtain sx' where "map_of (co_sources co') name = Some sx'" "sx_row sx' = sx_row sx" "sx_bootstrap sx' = g (sx_bootstrap sx)"
    using assms(1,2) by (auto simp: evolves_def)
  ultimately show ?thesis using assms(1,2) unfolding forward_def evolves_def by (metis option.inject order_refl)
qed

lemma forward_step:
  assumes "sys_inv s" and "sched_step dp s b s'"
  shows "forward (sy_co s) (sy_co s')"
  using assms(2)
proof cases
  case (thread i row pc co wg pc')
  then have "threadOk (sy_co s) (sy_cancelled s) (row, pc)" using assms(1) by (metis nth_mem sys_inv_def)
  then obtain sx where sx: "map_of (co_sources (sy_co s)) (row_Name row) = Some sx"
    "pcOk (maxAttempts (co_cfg (sy_co s))) (sy_cancelled s) pc (sx_bootstrap sx)" by (auto simp: threadOk_def)
  have "forward (sy_co s) co" by (rule thread_step_own [OF thread(6) sx]) (auto intro: forward_evolves [OF _ sx(1)])
  then show ?thesis by (simp add: thread(2))
qed (simp_all add: forward_def signalReady_def)

lemma forward_AllSucceeded:
  assumes "forward co co'" and "distinct (map fst (co_sources co))" and "AllSucceeded co"
  shows "AllSucceeded co'"
proof -
  have d: "distinct (map fst (co_sources co'))" using assms(1,2) by (simp add: forward_def)
  have "if \<not> row_Enable (sx_row sx') then True else sx_bootstrap sx' = BootstrapSucceeded"
    if m: "map_of (co_sources co') name = Some sx'" for name sx'
  proof -
    have "name \<in> set (map fst (co_sources co'))" using map_of_SomeD [OF m] by force
    moreover have "map fst (co_sources co') = map fst (co_sources co)" using assms(1) by (simp add: forward_def)
    ultimately have "name \<in> fst ` set (co_sources co)" by (simp only: list.set_map)
    then obtain sx where sx: "map_of (co_sources co) name = Some sx" using map_of_eq_None_iff [of "co_sources co" name] by auto
    then have "sx_row sx' = sx_row sx" "rank (sx_bootstrap sx) \<le> rank (sx_bootstrap sx')"
      using assms(1) m unfolding forward_def by (metis option.inject)+
    moreover have "if \<not> row_Enable (sx_row sx) then True else sx_bootstrap sx = BootstrapSucceeded"
      using assms(3) sx unfolding AllSucceeded_def list_all_sources [OF assms(2)] by blast
    ultimately show ?thesis by (cases "sx_bootstrap sx'") (auto simp: rank_def split: if_splits)
  qed
  then show ?thesis unfolding AllSucceeded_def list_all_sources [OF d] by blast
qed

text \<open>Bootstrap states only move forward, from pending to failed or succeeded and from failed to
  succeeded, in every interleaving; so once every enabled source has succeeded, and the server
  serves, it does not fail closed again.\<close>

theorem bootstrap_forward:
  assumes "sched_run dp (Start (NewCoordinator cache cfg rows)) bs s" and "sched_run dp s bs' s'"
  shows "forward (sy_co s) (sy_co s') \<and> (if AllSucceeded (sy_co s) then AllSucceeded (sy_co s') else True)"
proof -
  have inv: "sys_inv s" using assms(1) by (rule sys_inv_run)
  have "sys_inv s' \<and> forward (sy_co s) (sy_co s')" using assms(2)
  proof (induction rule: sched_run.induct)
    case start
    then show ?case using inv forward_refl by simp
  next
    case (step bs s' b s'')
    then show ?case using sys_inv_step forward_step forward_trans by blast
  qed
  moreover have "distinct (map fst (co_sources (sy_co s)))" using inv by (simp add: sys_inv_def sourcesOk_def)
  ultimately show ?thesis using forward_AllSucceeded by auto
qed

section \<open>Stale on error\<close>

lemma fetchOf_ok: "fetchedOk (d_unmarshal dp) (fetchOf dp att row)"
  by (cases "at_network att (requestUserAgent (d_userAgent dp))")
    (auto simp: fetchOf_def Fetch_def fetchedOk_def parsedOk_def SetParsed_def Let_def split: sum.splits option.splits)

lemma refresh_cache:
  "co_cache (snd (refresh dp att row co)) = snd (RefreshIfStale (d_encode dp) (at_io att) (at_joined att) (at_readings att)
     (fetchOf dp att row) (row_Name row) (fetchTTLFor (co_cfg co) row) (co_cache co))"
  "fst (refresh dp att row co) = fst (RefreshIfStale (d_encode dp) (at_io att) (at_joined att) (at_readings att)
     (fetchOf dp att row) (row_Name row) (fetchTTLFor (co_cfg co) row) (co_cache co))"
  by (simp_all add: refresh_def Let_def split_beta)

lemma shouldDrop_failed:
  assumes "LastFailure (co_cache co) (row_Name row) = (err, now)" and "\<not> IsZero now"
    and "entry (co_cache co) (row_Name row) = Some e" and "ce_payload e = Some pl"
  shows "shouldDrop t row co = (timeSub t (ce_storedAt e) > staleWindowFor (co_cfg co) row)"
  using assms by (simp add: shouldDrop_def)

text \<open>C29: the stale-on-error window.  A tick that fetches and succeeds replaces the payload.  One that
  fetches and fails leaves the cached payload in place while it is no older than the window of its
  source, and removes it once it is older.  Other sources keep theirs either way.\<close>

theorem steadyTick_stale_on_error:
  assumes "entry (co_cache co) (row_Name row) = Some e" and "ce_payload e = Some pl" and "at_joined att = None"
    and "State (rg_check (at_readings att)) (co_cache co) (row_Name row) (fetchTTLFor (co_cfg co) row) \<noteq> StateFresh"
    and "State (rg_recheck (at_readings att)) (co_cache co) (row_Name row) (fetchTTLFor (co_cfg co) row) \<noteq> StateFresh"
    and "\<not> IsZero (rg_failed (at_readings att))"
    and "fetchOf dp att row = (p, res, err)" and "c' = co_cache (steadyTick dp att row co)"
  shows "Get c' (row_Name row) = (case err of
       None \<Rightarrow> p
     | Some _ \<Rightarrow> if timeSub (at_dropNow att) (ce_storedAt e) > staleWindowFor (co_cfg co) row then None else Some pl) \<and>
    (if n = row_Name row then True else Get c' n = Get (co_cache co) n)"
proof -
  let ?c = "co_cache co" and ?name = "row_Name row" and ?rg = "at_readings att"
  obtain r co1 where r: "refresh dp att row co = (r, co1)" by (cases "refresh dp att row co")
  note rc = refresh_cache [of dp att row co, unfolded r snd_conv fst_conv]
  have cfg: "co_cfg co1 = co_cfg co" using evolves_refresh [OF r] by (simp add: evolves_def)
  have promote_cache: "co_cache (maybePromoteBootstrap nm co') = co_cache co'" for nm co'
    by (simp add: maybePromoteBootstrap_def updateSource_def split: option.splits)
  show ?thesis
  proof (cases err)
    case (Some x)
    have r': "r = (Get ?c ?name, True, Some x)" "co_cache co1 = markFailed (rg_failed ?rg) ?name x ?c"
      using rc assms(3,4,5,7) Some by (simp_all add: RefreshIfStale_def refreshFlight_def Let_def)
    have "entry (co_cache co1) ?name = Some (e\<lparr>ce_lastError := x, ce_lastFailedAt := rg_failed ?rg\<rparr>)"
      using assms(1) by (simp add: r' markFailed_def Let_def update_conv')
    then have "shouldDrop (at_dropNow att) row co1 = (timeSub (at_dropNow att) (ce_storedAt e) > staleWindowFor (co_cfg co) row)"
      using shouldDrop_failed [of co1 row x "rg_failed ?rg" _ pl] assms(2,6) cfg by (simp add: r' LastFailure_markFailed)
    moreover have "Get ?c ?name = Some pl" using assms(1,2) by (simp add: Get_entry)
    ultimately show ?thesis using r r' Some by (simp add: assms(8) steadyTick_def)
  next
    case None
    let ?set = "cacheSet (d_encode dp) (at_io att) ?name p (rg_start ?rg) ?c"
    have r': "r = (p, True, fst ?set)" "co_cache co1 = snd ?set"
      using rc assms(3,4,5,7) None by (simp_all add: RefreshIfStale_def refreshFlight_def split_beta del: cacheSet_sel)
    have "\<not> shouldDrop (at_dropNow att) row co1"
      by (simp add: shouldDrop_def r' LastFailure_cacheSet IsZero_def del: cacheSet_sel)
    then have "c' = snd ?set" using r r' by (simp add: assms(8) steadyTick_def promote_cache del: cacheSet_sel)
    then show ?thesis using None by (simp del: cacheSet_sel)
  qed
qed

section \<open>The cache of a run\<close>

lemma refresh_cache_step:
  "cache_step (d_encode dp) decode (d_unmarshal dp) True (co_cache co) (co_cache (snd (refresh dp att row co)))"
  unfolding refresh_cache by (intro cache_step.refresh fetchOf_ok) simp

lemma refresh_cache_step':
  "refresh dp att row co = (r, co') \<Longrightarrow> cache_step (d_encode dp) decode (d_unmarshal dp) True (co_cache co) (co_cache co')"
  using refresh_cache_step [of dp decode co att row] by simp

lemma steadyTick_cache_steps:
  "(cache_step (d_encode dp) decode (d_unmarshal dp) True)\<^sup>*\<^sup>* (co_cache co) (co_cache (steadyTick dp att row co))"
proof -
  obtain r co1 where r: "refresh dp att row co = (r, co1)" by (cases "refresh dp att row co")
  have s1: "cache_step (d_encode dp) decode (d_unmarshal dp) True (co_cache co) (co_cache co1)"
    using r by (rule refresh_cache_step')
  have s2: "cache_step (d_encode dp) decode (d_unmarshal dp) True (co_cache co1) (Drop (at_removed att) (row_Name row) (co_cache co1))"
    by (rule cache_step.drop) simp
  have promote_cache: "co_cache (maybePromoteBootstrap nm co') = co_cache co'" for nm co'
    by (simp add: maybePromoteBootstrap_def updateSource_def split: option.splits)
  show ?thesis using s1 s2 by (cases r rule: prod_cases3) (auto simp: steadyTick_def r promote_cache)
qed

lemma markBootstrap_cache [simp]: "co_cache (markBootstrap nm st co) = co_cache co"
  by (simp add: markBootstrap_def updateSource_def split: option.splits)

lemma thread_cache_steps:
  "thread_step dp cancelled row (co, wg, pc) (co', wg', pc') \<Longrightarrow>
     (cache_step (d_encode dp) decode (d_unmarshal dp) True)\<^sup>*\<^sup>* (co_cache co) (co_cache co')"
  by (erule thread_stepE) (auto simp: steadyTick_cache_steps intro!: r_into_rtranclp intro: refresh_cache_step')

lemma sched_cache_steps:
  assumes "sched_run dp s bs s'"
  shows "(cache_step (d_encode dp) decode (d_unmarshal dp) True)\<^sup>*\<^sup>* (co_cache (sy_co s)) (co_cache (sy_co s'))"
  using assms
proof (induction rule: sched_run.induct)
  case (step bs s' b s'')
  from step(2) have "(cache_step (d_encode dp) decode (d_unmarshal dp) True)\<^sup>*\<^sup>* (co_cache (sy_co s')) (co_cache (sy_co s''))"
    by cases (auto simp: signalReady_def dest: thread_cache_steps)
  then show ?case using step.IH by simp
qed simp

text \<open>The health view lists every source once, by name.\<close>

lemma SourceStates_names:
  "sorted (map ss_Name (SourceStates now co)) \<and> mset (map ss_Name (SourceStates now co)) = mset (map fst (co_sources co))"
proof -
  have "ss_Name (sourceState now co ent) = fst ent" for ent
    by (cases ent) (simp add: sourceState_def Let_def split: option.splits)
  then have names: "map (\<lambda>x. ss_Name (sourceState now co x)) xs = map fst xs" for xs by simp
  have "mset (map ss_Name (SourceStates now co)) = mset (map (\<lambda>x. ss_Name (sourceState now co x)) (co_sources co))"
    by (simp add: SourceStates_def multiset.map_comp o_def)
  then show ?thesis unfolding names by (simp add: SourceStates_def)
qed

end
