(* ===== verification/Witnesses_Serving.thy ===== *)
theory Witnesses_Serving
  imports Witnesses Output Scheduler "HOL-Library.Countable"
begin

text \<open>
  Instances of the theorems about fetching, caching, scheduling and serving on sample data.
\<close>

section \<open>Output\<close>

definition sampleAutoGroup :: node where
  "sampleAutoGroup = Node (hdr (mkNode MappingNode [] ''!!map''))
     [mkNode ScalarNode ''url'' ''!!str'', mkNode ScalarNode ''https://t.example'' ''!!str'',
      mkNode ScalarNode ''name'' ''!!str'', mkNode ScalarNode ''auto'' ''!!str'',
      mkNode ScalarNode ''proxies'' ''!!str'', sampleSeq [mkNode ScalarNode ''DIRECT'' ''!!str''],
      mkNode ScalarNode ''type'' ''!!str'', mkNode ScalarNode ''url-test'' ''!!str'']"

theorem reorderProxyGroupFields_order_witness:
  "take 4 (fieldKeys (reorderProxyGroupFields sampleAutoGroup)) = [''name'', ''type'', ''proxies'', ''url'']"
proof -
  have k: "[''name'', ''type'', ''proxies'', ''url''] = take 4 (wireOrder (getMappingField sampleAutoGroup ''type''))"
    by (simp add: sampleAutoGroup_def getMappingField_def wireOrder_def)
  have keys: "fieldKeys sampleAutoGroup = [''url'', ''name'', ''proxies'', ''type'']" by (simp add: sampleAutoGroup_def fieldKeys_def)
  have m: "is_mapping sampleAutoGroup" by (simp add: sampleAutoGroup_def is_mapping_def)
  have "take (length [''name'', ''type'', ''proxies'', ''url'']) (fieldKeys (reorderProxyGroupFields sampleAutoGroup)) =
      [''name'', ''type'', ''proxies'', ''url'']"
    by (rule reorderProxyGroupFields_order [OF m _ _ k, THEN conjunct2]) (simp_all add: keys)
  then show ?thesis by (simp add: numeral_eq_Suc)
qed

definition sampleServed :: ServedTrafficHeader where
  "sampleServed = \<lparr>th_DailyAllowanceBytes = 100, th_ExpireUnix = 1700000000, th_UsedTodayBytes = 30, th_TotalBytes = 130,
     th_UploadBytes = 10, th_DownloadBytes = 20, th_SnapshotLocalDate = ''2025-01-01'', th_RolloverFired = False\<rparr>"

definition sampleMerged :: MergedConfig where
  "sampleMerged = \<lparr>mc_Proxies = [sampleProxy ''HK 01''], mc_ProxyGroups = [sampleAutoGroup], mc_RuleProviders = None,
     mc_Rules = [''MATCH,auto''], mc_RulePriorities = [0], mc_RuleContributors = [[]], mc_ContributingSources = [''alpha''],
     mc_Collisions = [], mc_GroupConflicts = [], mc_AggregatedSubscriptionUserinfo = sampleInfo,
     mc_AggregatedProfileUpdateIntervalHours = 24, mc_ServedTrafficHeader = Some sampleServed\<rparr>"

definition sampleTemplate :: unmarshaller where
  "sampleTemplate = (\<lambda>_. Inr (sampleDoc [] [] []))"

definition sampleEncode :: "node \<Rightarrow> string + string" where
  "sampleEncode = (\<lambda>n. Inr (concat (map nvalue (content n))))"

definition sampleRendered :: Rendered where
  "sampleRendered = projr (Render sampleTemplate sampleEncode [] (Some sampleMerged))"

lemma sampleRendered: "Render sampleTemplate sampleEncode [] (Some sampleMerged) = Inr sampleRendered"
  by (simp add: sampleRendered_def Render_def sampleTemplate_def sampleEncode_def sampleDoc_def docRoot_def)

theorem Render_document_witness:
  "\<exists>out. list_all2 sameFields (entries (docRoot out) ''proxies'') [sampleProxy ''HK 01''] \<and> ruleLines (docRoot out) = [''MATCH,auto'']"
proof -
  have t: "sampleTemplate [] = Inr (sampleDoc [] [] [])" by (simp add: sampleTemplate_def)
  have d: "is_mapping (docRoot (sampleDoc [] [] []))" by (simp add: sampleDoc_def docRoot_def is_mapping_def)
  have g: "is_mapping sampleAutoGroup" by (simp add: sampleAutoGroup_def is_mapping_def)
  have m: "mc_Proxies sampleMerged = [sampleProxy ''HK 01'']" "mc_ProxyGroups sampleMerged = [sampleAutoGroup]"
    "mc_Rules sampleMerged = [''MATCH,auto'']" by (simp_all add: sampleMerged_def)
  have "list_all is_mapping (mc_Proxies sampleMerged)" "list_all is_mapping (mc_ProxyGroups sampleMerged)" by (simp_all add: m g)
  from Render_document [OF t d this sampleRendered] show ?thesis unfolding m by blast
qed

theorem unescapeSupplementaryPlane_segments_witness:
  "unescapeSupplementaryPlane (concat (map (segmentBytes emitToken) [Unquoted ''name: '', Quoted [Uni 0x1F600, Esc (CHR ''n''), Raw (CHR ''x'')]])) =
     ''name: '' @ [dquote] @ EncodeRune 0x1F600 @ [backslash, CHR ''n'', CHR ''x'', dquote]"
  using unescapeSupplementaryPlane_segments [of "[Unquoted ''name: '', Quoted [Uni 0x1F600, Esc (CHR ''n''), Raw (CHR ''x'')]]"]
  by simp

theorem Render_headers_witness:
  "map_option (ParseSubscriptionUserinfo id) (rd_Headers sampleRendered ''Subscription-Userinfo'') =
     Some (Inr (\<lparr>ui_Upload = 10, ui_Download = 20, ui_Total = 130, ui_Expire = 1700000000\<rparr>, []))"
  using Render_headers [OF sampleRendered, of id]
  by (simp add: sampleMerged_def sampleServed_def served64_def servedUserinfo_def userinfo64_def in_int64_def
      int64_min_def int64_max_def)

section \<open>Cache\<close>

definition sampleIO :: diskIO where
  "sampleIO = \<lparr>io_fault = None, io_message = [], io_leftover = False, io_random = ''1''\<rparr>"

definition sampleReadings :: readings where
  "sampleReadings = \<lparr>rg_check = 10, rg_recheck = 11, rg_start = 12, rg_failed = 13\<rparr>"

definition sampleParsed :: UpstreamCachedPayload where
  "sampleParsed = SetParsed (projr (sampleUnmarshal [])) samplePayload"

lemma sampleParsed_ok: "parsedOk sampleUnmarshal sampleParsed"
  by (simp add: sampleParsed_def parsedOk_def SetParsed_def sampleUnmarshal_def samplePayload_def)

definition sampleCache :: Cache where
  "sampleCache = \<lparr>c_byName = [(''alpha'', emptyEntry\<lparr>ce_payload := Some sampleParsed, ce_storedAt := 2\<rparr>)],
     c_dir = ''/cache'', c_disk = Map.empty\<rparr>"

theorem RefreshIfStale_spec_witness:
  "let (r, c') = RefreshIfStale (\<lambda>_. ''json'') sampleIO None sampleReadings (None, None, Some ''timeout'') ''alpha'' 5 sampleCache
   in r = (Some sampleParsed, True, Some ''timeout'') \<and> Get c' ''alpha'' = Some sampleParsed \<and> LastFailure c' ''alpha'' = (''timeout'', 13)"
proof -
  obtain p b err c' where r: "RefreshIfStale (\<lambda>_. ''json'') sampleIO None sampleReadings (None, None, Some ''timeout'') ''alpha'' 5 sampleCache
      = ((p, b, err), c')" by (metis surj_pair)
  have st: "State t sampleCache ''alpha'' 5 = (if t < 7 then StateFresh else StateStale)" if "2 \<le> t" "t < 100" for t
    using that by (simp add: State_def sampleCache_def timeSub_def int64_min_def int64_max_def)
  have "Get sampleCache ''alpha'' = Some sampleParsed" by (simp add: Get_def sampleCache_def)
  moreover note spec = RefreshIfStale_spec [OF r, where t = 0 and ttl' = 0 and n = "''alpha''"]
  moreover have b unfolding spec [THEN conjunct1] by (simp add: sampleReadings_def st)
  ultimately show ?thesis using r by (simp add: sampleReadings_def)
qed

definition sampleStored :: "(UpstreamCachedPayload option \<Rightarrow> string) \<Rightarrow> Cache" where
  "sampleStored enc = snd (cacheSet enc sampleIO ''alpha'' (Some sampleParsed) 12 (NewCache ''/cache'' Map.empty))"

lemma sampleStored_run:
  "(cache_step enc dec sampleUnmarshal b)\<^sup>*\<^sup>* (NewCache ''/cache'' Map.empty) (sampleStored enc)"
  unfolding sampleStored_def by (intro r_into_rtranclp cache_step.store sampleParsed_ok) (simp add: sampleIO_def)

lemma sampleStored_get: "Get (sampleStored enc) ''alpha'' = Some sampleParsed"
  by (simp add: sampleStored_def del: cacheSet_sel)

theorem cached_payloads_parsed_witness: "\<exists>n. Parse sampleUnmarshal sampleParsed = (Inr n, sampleParsed)"
  using cached_payloads_parsed [OF sampleStored_run [of "\<lambda>_. []" "\<lambda>_. None"] sampleStored_get] by blast

text \<open>An injective encoding of payloads as strings.\<close>

definition countEncode :: "UpstreamCachedPayload option \<Rightarrow> string" where
  "countEncode po = (case po of None \<Rightarrow> [] | Some p \<Rightarrow> replicate (to_nat (cp_SourceName p, cp_FetchedAt p, cp_BodyYAML p,
     map_option (\<lambda>u. (ui_Upload u, ui_Download u, ui_Total u, ui_Expire u)) (uh_SubscriptionUserinfo (cp_Headers p)),
     uh_ProfileUpdateIntervalHours (cp_Headers p), cp_PayloadBytes p)) CHR ''x'')"

definition countDecode :: "string \<Rightarrow> UpstreamCachedPayload option" where
  "countDecode s = (case from_nat (length s) of (name, t, body, ui, hours, n) \<Rightarrow>
     Some \<lparr>cp_SourceName = name, cp_FetchedAt = t, cp_BodyYAML = body,
       cp_Headers = \<lparr>uh_SubscriptionUserinfo = map_option (\<lambda>(a, b, c, d).
           \<lparr>ui_Upload = a, ui_Download = b, ui_Total = c, ui_Expire = d\<rparr>) ui, uh_ProfileUpdateIntervalHours = hours\<rparr>,
       cp_PayloadBytes = n, cp_parsedConfig = None\<rparr>)"

lemma countEncode_roundtrip: "json_roundtrip countEncode countDecode"
proof -
  have "map_option (\<lambda>x. \<lparr>ui_Upload = ui_Upload x, ui_Download = ui_Download x, ui_Total = ui_Total x, ui_Expire = ui_Expire x\<rparr>) ui = ui"
    for ui :: "SubscriptionUserinfo option" by (cases ui) simp_all
  then have "countDecode (countEncode (Some p)) = Some (p\<lparr>cp_parsedConfig := None\<rparr>)" for p
    by (cases p, cases "cp_Headers p") (simp add: countEncode_def countDecode_def option.map_comp o_def)
  then show ?thesis by (simp add: json_roundtrip_def)
qed

theorem restart_keeps_payloads_witness:
  "Get (snd (LoadFromDisk countDecode sampleUnmarshal (Entries [(diskPath ''alpha'', Bytes (countEncode (Some sampleParsed)))])
     (NewCache ''/cache'' [diskPath ''alpha'' \<mapsto> Bytes (countEncode (Some sampleParsed))]))) ''alpha'' = Some sampleParsed"
proof -
  have d: "c_disk (sampleStored countEncode) = [diskPath ''alpha'' \<mapsto> Bytes (countEncode (Some sampleParsed))]"
    by (auto simp: sampleStored_def persist_def sampleIO_def NewCache_def Let_def tempPath_def diskPath_def)
  have dir: "c_dir (sampleStored countEncode) = ''/cache''" by (simp add: sampleStored_def NewCache_def)
  show ?thesis
    using restart_keeps_payloads [OF countEncode_roundtrip _ _ sampleStored_run,
        of "[(diskPath ''alpha'', Bytes (countEncode (Some sampleParsed)))]"] sampleStored_get
    by (simp add: d dir)
qed

section \<open>Scheduler\<close>

definition sampleDeps :: deps where
  "sampleDeps = \<lparr>d_ulower = id, d_urlSplit = (\<lambda>_. None), d_unmarshal = sampleUnmarshal, d_userAgent = [], d_encode = (\<lambda>_. [])\<rparr>"

definition sampleAttempt :: attempt where
  "sampleAttempt = \<lparr>at_network = (\<lambda>_. DoFails False ''connection refused''), at_start = 12, at_stop = 13, at_joined = None,
     at_readings = sampleReadings, at_io = sampleIO, at_dropNow = 14, at_removed = True\<rparr>"

definition sampleConfig :: SchedulerConfig where
  "sampleConfig = \<lparr>sc_DefaultTTL = 5, sc_DefaultStaleOnError = 10, sc_BootstrapMaxAttemptsPerSource = 1, sc_BootstrapAttemptDelay = 1\<rparr>"

definition sampleCoordinator :: Coordinator where
  "sampleCoordinator = NewCoordinator sampleCache sampleConfig [sampleRow]"

text \<open>One source whose only attempt fails: the goroutine tries, marks, counts down and ticks, and
  \<open>Start\<close> returns.\<close>

definition sampleTried :: Coordinator where
  "sampleTried = snd (refresh sampleDeps sampleAttempt sampleRow sampleCoordinator)"

definition sampleReady :: System where
  "sampleReady = \<lparr>sy_co = signalReady (markBootstrap ''alpha'' BootstrapFailed sampleTried), sy_threads = [(sampleRow, Steady)],
     sy_wg = 0, sy_cancelled = False, sy_returned = True\<rparr>"

lemma sample_fetch: "\<exists>res. fetchOf sampleDeps sampleAttempt sampleRow = (None, Some res, Some (fetchErrorText ''alpha'' (Transport ''connection refused'')))"
  by (simp add: fetchOf_def Fetch_def sampleDeps_def sampleAttempt_def sampleRow_def Let_def)

lemma sample_stale:
  "State (rg_check (at_readings sampleAttempt)) (co_cache sampleCoordinator) ''alpha'' (fetchTTLFor (co_cfg sampleCoordinator) sampleRow) \<noteq> StateFresh"
  "State (rg_recheck (at_readings sampleAttempt)) (co_cache sampleCoordinator) ''alpha'' (fetchTTLFor (co_cfg sampleCoordinator) sampleRow) \<noteq> StateFresh"
  by (simp_all add: State_def sampleCache_def timeSub_def int64_min_def int64_max_def sampleAttempt_def sampleReadings_def
      sampleCoordinator_def NewCoordinator_def sampleConfig_def fetchTTLFor_def ttlFor_def refreshDisabled_def sampleRow_def)

lemma sample_refresh: "\<exists>p e. refresh sampleDeps sampleAttempt sampleRow sampleCoordinator = ((p, True, Some e), sampleTried)"
proof -
  obtain res where f: "fetchOf sampleDeps sampleAttempt sampleRow = (None, Some res, Some (fetchErrorText ''alpha'' (Transport ''connection refused'')))"
    using sample_fetch by blast
  have "at_joined sampleAttempt = None" by (simp add: sampleAttempt_def)
  then have "\<exists>p e. fst (refresh sampleDeps sampleAttempt sampleRow sampleCoordinator) = (p, True, Some e)"
    using sample_stale by (simp add: refresh_cache f RefreshIfStale_def refreshFlight_def Let_def)
  then show ?thesis unfolding sampleTried_def by (metis prod.collapse)
qed

lemma sampleTried_cfg: "co_cfg sampleTried = sampleConfig" "co_ready sampleTried = False"
  using sample_refresh evolves_refresh [of sampleDeps sampleAttempt sampleRow sampleCoordinator _ sampleTried]
  by (auto simp: evolves_def) (simp_all add: sampleCoordinator_def NewCoordinator_def)

lemma sample_start:
  "Start sampleCoordinator = \<lparr>sy_co = sampleCoordinator, sy_threads = [(sampleRow, BootAttempt 1)], sy_wg = 1, sy_cancelled = False, sy_returned = False\<rparr>"
  by (simp add: Start_def sampleCoordinator_def NewCoordinator_def enabledSources_def sampleRow_def Let_def)

lemma sample_run: "sched_run sampleDeps (Start sampleCoordinator) [True, True, True, True] sampleReady"
proof -
  obtain p e where r: "refresh sampleDeps sampleAttempt sampleRow sampleCoordinator = ((p, True, Some e), sampleTried)"
    using sample_refresh by blast
  have max: "maxAttempts sampleConfig = 1" "co_cfg sampleCoordinator = sampleConfig" "row_Name sampleRow = ''alpha''"
    by (simp_all add: maxAttempts_def sampleConfig_def sampleCoordinator_def NewCoordinator_def sampleRow_def)
  have t1: "thread_step sampleDeps False sampleRow (sampleCoordinator, 1, BootAttempt 1) (sampleTried, 1, BootMark BootstrapFailed)"
    by (rule thread_step.boot_failed [OF _ r]) (simp_all add: max)
  have t2: "thread_step sampleDeps False sampleRow (sampleTried, 1, BootMark BootstrapFailed) (markBootstrap ''alpha'' BootstrapFailed sampleTried, 1, BootDone)"
    using thread_step.boot_mark [of sampleDeps False sampleRow sampleTried 1] by (simp add: max)
  have cfg: "co_cfg (markBootstrap ''alpha'' BootstrapFailed sampleTried) = sampleConfig"
    using evolves_ops(2) [of "''alpha''" BootstrapFailed sampleTried] by (simp add: evolves_def sampleTried_cfg)
  have "enterSteady sampleConfig sampleRow = Steady"
    by (simp add: enterSteady_def refreshDisabled_def sampleRow_def ttlFor_def sampleConfig_def)
  then have t3: "thread_step sampleDeps False sampleRow (markBootstrap ''alpha'' BootstrapFailed sampleTried, 1, BootDone)
      (markBootstrap ''alpha'' BootstrapFailed sampleTried, 0, Steady)"
    using thread_step.boot_done [of sampleDeps False sampleRow "markBootstrap ''alpha'' BootstrapFailed sampleTried" 1] by (simp add: cfg)
  have s1: "sched_run sampleDeps (Start sampleCoordinator) [True] \<lparr>sy_co = sampleTried, sy_threads = [(sampleRow, BootMark BootstrapFailed)],
      sy_wg = 1, sy_cancelled = False, sy_returned = False\<rparr>"
    using sched_run.step [OF sched_run.start sched_step.thread [of "Start sampleCoordinator" 0 sampleRow "BootAttempt 1" sampleDeps]] t1
    by (simp add: sample_start crashed_def)
  have s2: "sched_run sampleDeps (Start sampleCoordinator) [True, True] \<lparr>sy_co = markBootstrap ''alpha'' BootstrapFailed sampleTried,
      sy_threads = [(sampleRow, BootDone)], sy_wg = 1, sy_cancelled = False, sy_returned = False\<rparr>"
    using sched_run.step [OF s1 sched_step.thread [of _ 0 sampleRow "BootMark BootstrapFailed"]] t2 by (simp add: crashed_def)
  have s3: "sched_run sampleDeps (Start sampleCoordinator) [True, True, True] \<lparr>sy_co = markBootstrap ''alpha'' BootstrapFailed sampleTried,
      sy_threads = [(sampleRow, Steady)], sy_wg = 0, sy_cancelled = False, sy_returned = False\<rparr>"
    using sched_run.step [OF s2 sched_step.thread [of _ 0 sampleRow BootDone]] t3 by (simp add: crashed_def)
  show ?thesis using sched_run.step [OF s3 sched_step.return] by (simp add: crashed_def sampleReady_def)
qed

theorem ready_means_bootstrapped_witness:
  "list_all (\<lambda>(_, sx). sx_bootstrap sx \<noteq> BootstrapPending) (co_sources (sy_co sampleReady))"
  using ready_means_bootstrapped [OF sample_run [unfolded sampleCoordinator_def]] by (simp add: sampleReady_def)

theorem bootstrap_bounded_witness:
  "length (filter id [True, True, True, True]) \<le> length (filter row_Enable [sampleRow]) * (2 * nat (maxAttempts sampleConfig) + 2) + 1"
  using bootstrap_bounded [OF sample_run [unfolded sampleCoordinator_def]] .

theorem bootstrap_completes_witness:
  "\<exists>n s'. n \<le> length (filter row_Enable [sampleRow]) * (2 * nat (maxAttempts sampleConfig) + 2) + 1 \<and>
     sched_run sampleDeps (Start (NewCoordinator sampleCache sampleConfig [sampleRow])) (replicate n True) s' \<and>
     (co_ready (sy_co s') \<or> crashed s')"
  using bootstrap_completes [OF sched_run.start [of sampleDeps "Start (NewCoordinator sampleCache sampleConfig [sampleRow])"]] .

theorem bootstrap_forward_witness: "forward sampleCoordinator (sy_co sampleReady)"
  using bootstrap_forward [OF sched_run.start [of sampleDeps "Start sampleCoordinator", unfolded sampleCoordinator_def] sample_run [unfolded sampleCoordinator_def]]
  by (simp add: sample_start [unfolded sampleCoordinator_def] sampleCoordinator_def)

theorem steadyTick_stale_on_error_witness:
  "Get (co_cache (steadyTick sampleDeps sampleAttempt sampleRow sampleCoordinator)) ''alpha'' = None"
proof -
  obtain res where f: "fetchOf sampleDeps sampleAttempt sampleRow = (None, Some res, Some (fetchErrorText ''alpha'' (Transport ''connection refused'')))"
    using sample_fetch by blast
  have n: "row_Name sampleRow = ''alpha''" by (simp add: sampleRow_def)
  have e: "entry (co_cache sampleCoordinator) (row_Name sampleRow) = Some (emptyEntry\<lparr>ce_payload := Some sampleParsed, ce_storedAt := 2\<rparr>)"
    by (simp add: sampleCoordinator_def NewCoordinator_def sampleCache_def n)
  have w: "staleWindowFor (co_cfg sampleCoordinator) sampleRow = 10" "at_joined sampleAttempt = None" "at_dropNow sampleAttempt = 14"
    "\<not> IsZero (rg_failed (at_readings sampleAttempt))"
    by (simp_all add: staleWindowFor_def sampleCoordinator_def NewCoordinator_def sampleConfig_def sampleRow_def sampleAttempt_def
        sampleReadings_def IsZero_def zeroTime_def)
  show ?thesis using steadyTick_stale_on_error [OF e _ w(2) _ _ w(4) f refl] sample_stale
    by (simp add: w n timeSub_def int64_min_def int64_max_def)
qed

end
