(* ===== verification/Token_Store.thy ===== *)
theory Token_Store
  imports Go_Time "HOL-Library.AList"
begin

text \<open>
  \<open>internal/config/tokens.go\<close>: the token store, its file and the watcher that reloads it.

  The map from tokens to records is an association list with distinct keys.  What
  \<open>json.Unmarshal\<close> makes of the bytes of the file is an argument: an error, or the list
  \<open>tokens\<close>, in which a JSON \<open>null\<close> is a nil pointer (\<open>None\<close>).  Dereferencing one panics.
  The watcher is a step relation over the file, the queue of file-system events, the debounce timer
  and the store; that a write to the file queues an event for it is what fsnotify promises.
\<close>

section \<open>Definitions\<close>

record TokenRecord =
  tr_Token :: string
  tr_Label :: string
  tr_IssuedAt :: time
  tr_Revoked :: bool
  tr_ExpiresAt :: "time option"

type_synonym tokens = "(string \<times> TokenRecord) list"

definition NewTokenStore :: tokens where
  "NewTokenStore = []"

datatype token_error = TokensUnreadable string | TokensUnparseable string | EmptyToken | DuplicateToken string

datatype 'a panicking = Panic | Returns 'a

fun loadRecords :: "TokenRecord option list \<Rightarrow> tokens \<Rightarrow> (token_error + tokens) panicking" where
  "loadRecords [] nxt = Returns (Inr nxt)"
| "loadRecords (None # recs) nxt = Panic"
| "loadRecords (Some rec # recs) nxt =
     (if tr_Token rec = [] then Returns (Inl EmptyToken)
      else if map_of nxt (tr_Token rec) \<noteq> None then Returns (Inl (DuplicateToken (tr_Label rec)))
      else loadRecords recs (AList.update (tr_Token rec) rec nxt))"

text \<open>Reading the file: an error, or its bytes.\<close>

definition LoadTokens ::
  "(string \<Rightarrow> string + TokenRecord option list) \<Rightarrow> string + string \<Rightarrow> tokens \<Rightarrow> (token_error option \<times> tokens) panicking" where
  "LoadTokens decode file s = (case file of
      Inl e \<Rightarrow> Returns (Some (TokensUnreadable e), s)
    | Inr b \<Rightarrow> (case decode b of
        Inl e \<Rightarrow> Returns (Some (TokensUnparseable e), s)
      | Inr recs \<Rightarrow> (case loadRecords recs [] of
          Panic \<Rightarrow> Panic
        | Returns (Inl e) \<Rightarrow> Returns (Some e, s)
        | Returns (Inr nxt) \<Rightarrow> Returns (None, nxt))))"

definition expired :: "time \<Rightarrow> TokenRecord \<Rightarrow> bool" where
  "expired now rec = (case tr_ExpiresAt rec of None \<Rightarrow> False | Some t \<Rightarrow> t < now)"

definition Lookup :: "time \<Rightarrow> tokens \<Rightarrow> string \<Rightarrow> TokenRecord option" where
  "Lookup now s token = (case map_of s token of
      None \<Rightarrow> None
    | Some rec \<Rightarrow> if tr_Revoked rec then None else if expired now rec then None else Some rec)"

definition ActiveCount :: "time \<Rightarrow> tokens \<Rightarrow> nat" where
  "ActiveCount now s = fold (\<lambda>(_, rec) n. if tr_Revoked rec then n else if expired now rec then n else n + 1) s 0"

definition RevokedCount :: "tokens \<Rightarrow> nat" where
  "RevokedCount s = fold (\<lambda>(_, rec) n. if tr_Revoked rec then n + 1 else n) s 0"

subsection \<open>The watcher\<close>

definition tokenReloadDebounce :: int where "tokenReloadDebounce = 250 * 1000000"

text \<open>An event of the watched directory: the base name of the file it concerns and whether it is a
  write or a creation; or an error of the watcher.\<close>

datatype watch_event = FsEvent string bool | WatcherError string

text \<open>When the debounce timer fires, \<open>Load\<close> runs in a goroutine of its own, which stopping the timer does not
  stop: it reads the file, and later takes the lock and replaces the store.  A load under way has
  started, or has read the file.\<close>

datatype load = Started | HasRead "string + string"

record Watcher =
  w_file :: "string + string"
  w_queue :: "watch_event list"
  w_timer :: "time option"
  w_loads :: "load list"
  w_running :: bool
  w_crashed :: bool
  w_store :: tokens

definition Watch :: "string + string \<Rightarrow> tokens \<Rightarrow> Watcher" where
  "Watch file s = \<lparr>w_file = file, w_queue = [], w_timer = None, w_loads = [], w_running = True, w_crashed = False, w_store = s\<rparr>"

definition triggerReload :: "time \<Rightarrow> Watcher \<Rightarrow> Watcher" where
  "triggerReload now w = w\<lparr>w_timer := Some (now + tokenReloadDebounce)\<rparr>"

definition handleEvent :: "string \<Rightarrow> time \<Rightarrow> watch_event \<Rightarrow> Watcher \<Rightarrow> Watcher" where
  "handleEvent wantBase now ev w = (case ev of
      FsEvent base writeOrCreate \<Rightarrow>
        if base \<noteq> wantBase then w else if \<not> writeOrCreate then w else triggerReload now w
    | WatcherError _ \<Rightarrow> w)"

definition reload :: "(string \<Rightarrow> string + TokenRecord option list) \<Rightarrow> string + string \<Rightarrow> Watcher \<Rightarrow> Watcher" where
  "reload decode file w = (case LoadTokens decode file (w_store w) of
      Panic \<Rightarrow> w\<lparr>w_crashed := True\<rparr>
    | Returns (_, s) \<Rightarrow> w\<lparr>w_store := s\<rparr>)"

inductive watch_step :: "(string \<Rightarrow> string + TokenRecord option list) \<Rightarrow> string \<Rightarrow> Watcher \<Rightarrow> Watcher \<Rightarrow> bool"
  for decode wantBase where
  edit: "watch_step decode wantBase w (w\<lparr>w_file := file, w_queue := w_queue w @ [FsEvent wantBase True]\<rparr>)"
| other: "watch_step decode wantBase w (w\<lparr>w_queue := w_queue w @ [ev]\<rparr>)"
| event: "w_running w \<Longrightarrow> \<not> w_crashed w \<Longrightarrow> w_queue w = ev # q \<Longrightarrow>
    watch_step decode wantBase w (handleEvent wantBase now ev (w\<lparr>w_queue := q\<rparr>))"
| fire: "\<not> w_crashed w \<Longrightarrow> w_timer w = Some t \<Longrightarrow> t \<le> now \<Longrightarrow>
    watch_step decode wantBase w (w\<lparr>w_timer := None, w_loads := w_loads w @ [Started]\<rparr>)"
| read: "\<not> w_crashed w \<Longrightarrow> i < length (w_loads w) \<Longrightarrow> w_loads w ! i = Started \<Longrightarrow>
    watch_step decode wantBase w (w\<lparr>w_loads := (w_loads w)[i := HasRead (w_file w)]\<rparr>)"
| swap: "\<not> w_crashed w \<Longrightarrow> i < length (w_loads w) \<Longrightarrow> w_loads w ! i = HasRead file \<Longrightarrow>
    watch_step decode wantBase w (reload decode file (w\<lparr>w_loads := take i (w_loads w) @ drop (Suc i) (w_loads w)\<rparr>))"
| cancel: "watch_step decode wantBase w (w\<lparr>w_running := False, w_timer := None\<rparr>)"
| closed: "watch_step decode wantBase w (w\<lparr>w_running := False\<rparr>)"

inductive_cases watch_stepE: "watch_step decode wantBase w w'"

section \<open>Loading and looking up\<close>

definition tokensOk :: "TokenRecord option list \<Rightarrow> bool" where
  "tokensOk recs \<longleftrightarrow> None \<notin> set recs \<and> list_all (\<lambda>rec. tr_Token (the rec) \<noteq> []) recs \<and> distinct (map (\<lambda>rec. tr_Token (the rec)) recs)"

lemma alist_update_new: "map_of al k = None \<Longrightarrow> AList.update k v al = al @ [(k, v)]"
  by (induction al) auto

lemma loadRecords_ok:
  "loadRecords recs nxt = Returns (Inr s) \<Longrightarrow>
     None \<notin> set recs \<and> s = nxt @ map (\<lambda>rec. (tr_Token (the rec), the rec)) recs \<and> list_all (\<lambda>rec. tr_Token (the rec) \<noteq> []) recs \<and>
     (distinct (map fst nxt) \<longrightarrow> distinct (map fst nxt @ map (\<lambda>rec. tr_Token (the rec)) recs))"
proof (induction recs nxt rule: loadRecords.induct)
  case (3 rec recs nxt)
  then have n: "tr_Token rec \<noteq> []" "map_of nxt (tr_Token rec) = None" by (auto split: if_splits)
  then have "tr_Token rec \<notin> fst ` set nxt" by (simp add: map_of_eq_None_iff)
  then show ?case using 3 n by (auto simp: alist_update_new)
qed simp_all

lemma loadRecords_complete:
  "None \<notin> set recs \<Longrightarrow> list_all (\<lambda>rec. tr_Token (the rec) \<noteq> []) recs \<Longrightarrow>
     distinct (map fst nxt @ map (\<lambda>rec. tr_Token (the rec)) recs) \<Longrightarrow>
     loadRecords recs nxt = Returns (Inr (nxt @ map (\<lambda>rec. (tr_Token (the rec), the rec)) recs))"
proof (induction recs nxt rule: loadRecords.induct)
  case (3 rec recs nxt)
  have n: "map_of nxt (tr_Token rec) = None" using 3(4) by (auto simp: map_of_eq_None_iff)
  show ?case using 3(2,3,4) 3(1) n by (auto simp: alist_update_new)
qed simp_all

lemma loadRecords_iff:
  "loadRecords recs [] = Returns (Inr s) \<longleftrightarrow> tokensOk recs \<and> s = map (\<lambda>rec. (tr_Token (the rec), the rec)) recs"
  using loadRecords_ok [of recs "[]" s] loadRecords_complete [of recs "[]"] by (auto simp: tokensOk_def)

lemma loadRecords_panic: "loadRecords recs nxt = Panic \<Longrightarrow> None \<in> set recs"
  by (induction recs nxt rule: loadRecords.induct) (auto split: if_splits)

lemma LoadTokens_live:
  assumes "decode b = Inr recs" and "None \<notin> set recs"
  shows "case LoadTokens decode (Inr b) s of
      Panic \<Rightarrow> False
    | Returns (err, s') \<Rightarrow> (err = None) = tokensOk recs \<and>
        (if err = None
         then Lookup now s' token = Some rec \<longleftrightarrow>
           Some rec \<in> set recs \<and> tr_Token rec = token \<and> \<not> tr_Revoked rec \<and> \<not> expired now rec
         else s' = s)"
proof (cases "loadRecords recs []")
  case Panic
  then show ?thesis using assms(2) loadRecords_panic by blast
next
  case (Returns r)
  show ?thesis
  proof (cases r)
    case (Inl e)
    have "\<not> tokensOk recs" using loadRecords_iff [of recs] Returns Inl by auto
    then show ?thesis using Returns Inl assms(1) by (simp add: LoadTokens_def)
  next
    case (Inr s')
    then have ok: "tokensOk recs" and s': "s' = map (\<lambda>rec. (tr_Token (the rec), the rec)) recs"
      using loadRecords_iff Returns by auto
    have d: "distinct (map fst s')" using ok by (simp add: s' tokensOk_def o_def)
    have "(token, rec) \<in> set s' \<longleftrightarrow> Some rec \<in> set recs \<and> tr_Token rec = token" for rec
    proof
      assume "(token, rec) \<in> set s'"
      then obtain r where "r \<in> set recs" "token = tr_Token (the r)" "rec = the r" by (auto simp: s')
      moreover have "r \<noteq> None" using assms(2) calculation(1) by (cases r) auto
      ultimately show "Some rec \<in> set recs \<and> tr_Token rec = token" by auto
    qed (auto simp: s' intro!: image_eqI [of _ _ "Some rec"])
    then have "map_of s' token = Some rec \<longleftrightarrow> Some rec \<in> set recs \<and> tr_Token rec = token" for rec
      unfolding map_of_eq_Some_iff [OF d] .
    moreover have "Lookup now s' token = Some rec \<longleftrightarrow> map_of s' token = Some rec \<and> \<not> tr_Revoked rec \<and> \<not> expired now rec"
      by (auto simp: Lookup_def split: option.splits if_splits)
    ultimately have "Lookup now s' token = Some rec \<longleftrightarrow>
        Some rec \<in> set recs \<and> tr_Token rec = token \<and> \<not> tr_Revoked rec \<and> \<not> expired now rec" by simp
    then show ?thesis using Returns Inr ok assms(1) by (simp add: LoadTokens_def)
  qed
qed

lemma not_expired: "\<not> expired now rec \<longleftrightarrow> (\<forall>t. tr_ExpiresAt rec = Some t \<longrightarrow> now \<le> t)"
  by (auto simp: expired_def split: option.splits)

text \<open>C17: loading is all or nothing, and a lookup answers for exactly the live tokens of the file.  Take a
  file that can be read and decoded and has no null entry.  Loading it returns; it succeeds exactly when
  every token is non-empty and none occurs twice, and otherwise the store is what it was.  After a
  success a token is accepted exactly when the file has a record for it that is not revoked and has no
  expiry before the time of the lookup, and the record returned is that one.\<close>

theorem LoadTokens_lookup:
  assumes "decode b = Inr (map Some recs)"
  shows "case LoadTokens decode (Inr b) s of
      Panic \<Rightarrow> False
    | Returns (err, s') \<Rightarrow>
        (err = None) = (list_all (\<lambda>rec. tr_Token rec \<noteq> '''') recs \<and> distinct (map tr_Token recs)) \<and>
        (if err = None
         then Lookup now s' token = Some rec \<longleftrightarrow> rec \<in> set recs \<and> tr_Token rec = token \<and>
           \<not> tr_Revoked rec \<and> (\<forall>t. tr_ExpiresAt rec = Some t \<longrightarrow> now \<le> t)
         else s' = s)"
proof -
  have ok: "tokensOk (map Some recs) = (list_all (\<lambda>rec. tr_Token rec \<noteq> '''') recs \<and> distinct (map tr_Token recs))"
    by (auto simp: tokensOk_def list_all_iff o_def)
  have member: "Some rec \<in> set (map Some recs) \<longleftrightarrow> rec \<in> set recs" by auto
  have "None \<notin> set (map Some recs)" by auto
  with assms show ?thesis
    using LoadTokens_live [where decode = decode and b = b and recs = "map Some recs" and s = s and now = now
        and token = token and rec = rec]
    unfolding not_expired ok member by blast
qed

lemma fold_counts:
  "fold (\<lambda>(_, rec) n. if tr_Revoked rec then n else if expired now rec then n else n + 1) s k =
     k + length (filter (\<lambda>(_, rec). \<not> tr_Revoked rec \<and> \<not> expired now rec) s)"
  "fold (\<lambda>(_, rec) n. if tr_Revoked rec then n + 1 else n) s k = k + length (filter (\<lambda>(_, rec). tr_Revoked rec) s)"
  for k :: nat
  by (induction s arbitrary: k) (auto split: if_splits)

text \<open>The counts of the log line are what they say: the active tokens are those a lookup accepts.\<close>

theorem token_counts:
  assumes "distinct (map fst s)"
  shows "ActiveCount now s = length (filter (\<lambda>(token, _). Lookup now s token \<noteq> None) s) \<and>
    RevokedCount s = length (filter (\<lambda>(_, rec). tr_Revoked rec) s) \<and> ActiveCount now s + RevokedCount s \<le> length s"
proof -
  let ?act = "\<lambda>(_, rec). \<not> tr_Revoked rec \<and> \<not> expired now rec"
  have a: "ActiveCount now s = length (filter ?act s)" and r: "RevokedCount s = length (filter (\<lambda>(_, rec). tr_Revoked rec) s)"
    by (simp_all add: ActiveCount_def RevokedCount_def fold_counts)
  have "filter ?act s = filter (\<lambda>(token, _). Lookup now s token \<noteq> None) s"
    by (rule filter_cong) (auto simp: Lookup_def map_of_is_SomeI [OF assms] split: if_splits)
  moreover have "length (filter ?act s) + length (filter (\<lambda>(_, rec). tr_Revoked rec) s) \<le> length s"
    by (induction s) auto
  ultimately show ?thesis using a r by simp
qed

section \<open>The watcher keeps the store in step with the file\<close>

definition relevant :: "string \<Rightarrow> watch_event \<Rightarrow> bool" where
  "relevant wantBase ev = (case ev of FsEvent base wc \<Rightarrow> base = wantBase \<and> wc | WatcherError _ \<Rightarrow> False)"

text \<open>The store is what loading the file as it is now gives, if that succeeds.\<close>

definition inStep :: "(string \<Rightarrow> string + TokenRecord option list) \<Rightarrow> string + string \<Rightarrow> tokens \<Rightarrow> bool" where
  "inStep decode file store = (case LoadTokens decode file store of
      Panic \<Rightarrow> True | Returns (err, s) \<Rightarrow> if err = None then store = s else True)"

text \<open>Loads are alone when at most one is under way at any time.\<close>

definition lone_step :: "(string \<Rightarrow> string + TokenRecord option list) \<Rightarrow> string \<Rightarrow> Watcher \<Rightarrow> Watcher \<Rightarrow> bool" where
  "lone_step decode wantBase w w' \<longleftrightarrow> watch_step decode wantBase w w' \<and> length (w_loads w') \<le> 1"

definition watch_inv :: "(string \<Rightarrow> string + TokenRecord option list) \<Rightarrow> string \<Rightarrow> Watcher \<Rightarrow> bool" where
  "watch_inv decode wantBase w \<longleftrightarrow> length (w_loads w) \<le> 1 \<and>
     (w_running w \<and> \<not> w_crashed w \<longrightarrow> list_ex (relevant wantBase) (w_queue w) \<or> w_timer w \<noteq> None \<or>
       w_loads w = [Started] \<or> w_loads w = [HasRead (w_file w)] \<or> w_loads w = [] \<and> inStep decode (w_file w) (w_store w))"

lemma LoadTokens_again:
  "LoadTokens decode file s = Returns (None, s') \<Longrightarrow> LoadTokens decode file s0 = Returns (None, s')"
  by (auto simp: LoadTokens_def split: sum.splits panicking.splits)

lemma LoadTokens_failed:
  "LoadTokens decode file s = Returns (Some e, s') \<Longrightarrow> s' = s \<and> LoadTokens decode file s0 = Returns (Some e, s0)"
  by (auto simp: LoadTokens_def split: sum.splits panicking.splits)

lemma reload_sel [simp]:
  "w_file (reload decode file w) = w_file w" "w_queue (reload decode file w) = w_queue w"
  "w_timer (reload decode file w) = w_timer w" "w_loads (reload decode file w) = w_loads w"
  "w_running (reload decode file w) = w_running w"
  by (simp_all add: reload_def split: panicking.split prod.split)

lemma reload_store:
  "\<not> w_crashed (reload decode file w) \<Longrightarrow>
     w_store (reload decode file w) = (case LoadTokens decode file (w_store w) of Returns (_, s) \<Rightarrow> s | Panic \<Rightarrow> w_store w)"
  by (simp add: reload_def split: panicking.splits prod.split)

lemma reload_inStep:
  assumes "\<not> w_crashed (reload decode file w)"
  shows "inStep decode file (w_store (reload decode file w))"
proof (cases "LoadTokens decode file (w_store w)")
  case Panic
  then show ?thesis using assms by (simp add: reload_def)
next
  case (Returns r)
  obtain err s where r: "r = (err, s)" by (cases r)
  have store: "w_store (reload decode file w) = s" using Returns r reload_store [OF assms] by simp
  show ?thesis
  proof (cases err)
    case None
    then show ?thesis using Returns r LoadTokens_again [of decode "file" "w_store w" s] unfolding store by (simp add: inStep_def)
  next
    case (Some e)
    then show ?thesis using Returns r LoadTokens_failed [of decode "file" "w_store w" e s s] unfolding store by (simp add: inStep_def)
  qed
qed

lemma watch_inv_step:
  assumes "watch_inv decode wantBase w" and "lone_step decode wantBase w w'"
  shows "watch_inv decode wantBase w'"
proof -
  from assms(2) have st: "watch_step decode wantBase w w'" and le: "length (w_loads w') \<le> 1" by (simp_all add: lone_step_def)
  have one: "length (w_loads w) \<le> 1" using assms(1) by (simp add: watch_inv_def)
  from st show ?thesis
  proof cases
    case (event ev q now)
    show ?thesis
    proof (cases "relevant wantBase ev")
      case True
      then show ?thesis using le by (auto simp: watch_inv_def event(1) relevant_def handleEvent_def triggerReload_def split: watch_event.splits)
    next
      case False
      then have "handleEvent wantBase now ev (w\<lparr>w_queue := q\<rparr>) = w\<lparr>w_queue := q\<rparr>"
        by (auto simp: relevant_def handleEvent_def split: watch_event.splits)
      then show ?thesis using assms(1) event False by (simp add: watch_inv_def)
    qed
  next
    case (fire t now)
    then have "w_loads w = []" using le by (cases "w_loads w") auto
    then show ?thesis using fire by (simp add: watch_inv_def)
  next
    case (read i)
    then have "w_loads w = [Started]" "i = 0" using one by (cases "w_loads w"; auto)+
    then show ?thesis using read by (simp add: watch_inv_def)
  next
    case (swap i f)
    then have loads: "w_loads w = [HasRead f]" "i = 0" using one by (cases "w_loads w"; auto)+
    have "inStep decode f (w_store w')" if "\<not> w_crashed w'"
      using that reload_inStep unfolding swap(1) by blast
    then show ?thesis using assms(1) loads le swap by (auto simp: watch_inv_def)
  qed (use assms(1) one in \<open>auto simp: watch_inv_def relevant_def\<close>)
qed

lemma loaded_step:
  assumes "watch_step decode wantBase w w'" and "LoadTokens decode file NewTokenStore = Returns (None, w_store w)"
  shows "\<exists>file'. LoadTokens decode file' NewTokenStore = Returns (None, w_store w')"
  using assms(1)
proof cases
  case (event ev q now)
  then have "w_store w' = w_store w" by (simp add: handleEvent_def triggerReload_def split: watch_event.splits)
  then show ?thesis using assms(2) by auto
next
  case (swap i f)
  show ?thesis
  proof (cases "LoadTokens decode f (w_store w)")
    case Panic
    then show ?thesis using assms(2) by (auto simp: swap(1) reload_def)
  next
    case (Returns r)
    obtain err s where r: "r = (err, s)" by (cases r)
    then have "err = None \<or> s = w_store w" using Returns by (auto simp: LoadTokens_def split: sum.splits panicking.splits)
    then show ?thesis using Returns r assms(2) LoadTokens_again [of decode f "w_store w" s] by (auto simp: swap(1) reload_def)
  qed
qed (use assms(2) in auto)

lemma Watch_inv:
  "LoadTokens decode file NewTokenStore = Returns (None, s) \<Longrightarrow> watch_inv decode wantBase (Watch file s)"
  using LoadTokens_again [of decode "file" NewTokenStore s s] by (simp add: watch_inv_def Watch_def inStep_def)

lemma lone_run_inv:
  assumes "LoadTokens decode file NewTokenStore = Returns (None, s)" and "(lone_step decode wantBase)\<^sup>*\<^sup>* (Watch file s) w"
  shows "watch_inv decode wantBase w \<and> (\<exists>file'. LoadTokens decode file' NewTokenStore = Returns (None, w_store w))"
  using assms(2)
proof (induction rule: rtranclp_induct)
  case base
  then show ?case using assms(1) Watch_inv by (auto simp: Watch_def)
next
  case (step w w')
  then show ?case using watch_inv_step loaded_step unfolding lone_step_def by blast
qed

lemma inStep_NewTokenStore:
  "inStep decode file store \<Longrightarrow> LoadTokens decode file NewTokenStore = Returns (None, s) \<Longrightarrow> store = s"
  using LoadTokens_again [of decode "file" NewTokenStore s store] by (simp add: inStep_def)

text \<open>What the watcher ever has in hand are versions of its file: \<open>versionOf\<close> are the contents the file has
  had between the start and now.\<close>

definition versionOf :: "(Watcher \<Rightarrow> Watcher \<Rightarrow> bool) \<Rightarrow> Watcher \<Rightarrow> Watcher \<Rightarrow> string + string \<Rightarrow> bool" where
  "versionOf R start w file \<longleftrightarrow> (\<exists>w0. R\<^sup>*\<^sup>* start w0 \<and> R\<^sup>*\<^sup>* w0 w \<and> w_file w0 = file)"

lemma versionOf_now: "R\<^sup>*\<^sup>* start w \<Longrightarrow> versionOf R start w (w_file w)"
  unfolding versionOf_def by blast

lemma versionOf_step: "versionOf R start w file \<Longrightarrow> R w w' \<Longrightarrow> versionOf R start w' file"
  unfolding versionOf_def using rtranclp.rtrancl_into_rtrancl [of R _ w w'] by blast

definition held :: "(string \<Rightarrow> string + TokenRecord option list) \<Rightarrow> (string + string \<Rightarrow> bool) \<Rightarrow> Watcher \<Rightarrow> bool" where
  "held decode V w \<longleftrightarrow> (\<forall>f. HasRead f \<in> set (w_loads w) \<longrightarrow> V f) \<and>
     (\<exists>f. V f \<and> LoadTokens decode f NewTokenStore = Returns (None, w_store w))"

lemma held_step:
  assumes "watch_step decode wantBase w w'" and "held decode V w" and "V (w_file w)"
  shows "held decode V w'"
  using assms(1)
proof cases
  case (event ev q now)
  then have "w_store w' = w_store w" "w_loads w' = w_loads w"
    by (simp_all add: handleEvent_def triggerReload_def split: watch_event.splits)
  then show ?thesis using assms(2) by (simp add: held_def)
next
  case (read i)
  then show ?thesis using assms(2,3) set_update_subset_insert [of "w_loads w" i "HasRead (w_file w)"] by (auto simp: held_def)
next
  case (swap i f)
  have f: "V f" using swap assms(2) nth_mem [of i "w_loads w"] by (auto simp: held_def)
  have loads: "set (w_loads w') \<subseteq> set (w_loads w)" by (auto simp: swap(1) dest: in_set_takeD in_set_dropD)
  have "w_store w' = w_store w \<or> LoadTokens decode f (w_store w) = Returns (None, w_store w')"
    by (auto simp: swap(1) reload_def LoadTokens_def split: panicking.splits sum.splits)
  then have "w_store w' = w_store w \<or> LoadTokens decode f NewTokenStore = Returns (None, w_store w')"
    using LoadTokens_again by blast
  then show ?thesis using assms(2) f loads by (auto simp: held_def)
qed (use assms(2) in \<open>auto simp: held_def\<close>)

lemma held_mono: "held decode V w \<Longrightarrow> (\<And>f. V f \<Longrightarrow> V' f) \<Longrightarrow> held decode V' w"
  unfolding held_def by blast

lemma held_run:
  assumes "LoadTokens decode file NewTokenStore = Returns (None, s)" and "(lone_step decode wantBase)\<^sup>*\<^sup>* (Watch file s) w"
  shows "held decode (versionOf (lone_step decode wantBase) (Watch file s) w) w"
  using assms(2)
proof (induction rule: rtranclp_induct)
  case base
  have "versionOf (lone_step decode wantBase) (Watch file s) (Watch file s) file"
    using versionOf_now [of "lone_step decode wantBase" "Watch file s" "Watch file s"] by (simp add: Watch_def)
  then show ?case using assms(1) by (auto simp: held_def Watch_def)
next
  case (step w w')
  let ?V = "versionOf (lone_step decode wantBase) (Watch file s)"
  have "held decode (?V w) w'"
    using held_step [OF _ step(3) versionOf_now [OF step(1)]] step(2) unfolding lone_step_def by blast
  then show ?case by (rule held_mono) (rule versionOf_step [where R = "lone_step decode wantBase", OF _ step(2)])
qed


text \<open>Overlapping loads can lose an edit.  A load that has read the file and is then delayed past the
  next edit, its event, the debounce interval and the load for that event puts its older tokens
  back; the watcher is idle then, and stays so until the file is written again.\<close>

theorem overlapping_loads_lose_edit:
  assumes "LoadTokens decode f1 NewTokenStore = Returns (None, s1)" and "LoadTokens decode f2 NewTokenStore = Returns (None, s2)"
  shows "\<exists>w. (watch_step decode wantBase)\<^sup>*\<^sup>* (Watch f1 s1) w \<and> w_running w \<and> \<not> w_crashed w \<and>
    w_queue w = [] \<and> w_timer w = None \<and> w_loads w = [] \<and> w_file w = f2 \<and> w_store w = s1"
proof -
  let ?ev = "FsEvent wantBase True" and ?d = tokenReloadDebounce
  let ?w = "\<lambda>file q tm loads store. \<lparr>w_file = file, w_queue = q, w_timer = tm, w_loads = loads,
    w_running = True, w_crashed = False, w_store = store\<rparr>"
  let ?R = "(watch_step decode wantBase)\<^sup>*\<^sup>*"
  have edit: "watch_step decode wantBase (?w f q tm l st) (?w f' (q @ [?ev]) tm l st)" for f f' q tm l st
    using watch_step.edit [of decode wantBase "?w f q tm l st" f'] by simp
  have event: "watch_step decode wantBase (?w f [?ev] tm l st) (?w f [] (Some ?d) l st)" for f tm l st
    using watch_step.event [of "?w f [?ev] tm l st" ?ev "[]" decode wantBase 0] by (simp add: handleEvent_def triggerReload_def)
  have fire: "watch_step decode wantBase (?w f q (Some ?d) l st) (?w f q None (l @ [Started]) st)" for f q l st
    using watch_step.fire [of "?w f q (Some ?d) l st" ?d ?d] by simp
  have read1: "watch_step decode wantBase (?w f q tm [Started] st) (?w f q tm [HasRead f] st)" for f q tm st
    using watch_step.read [of "?w f q tm [Started] st" 0] by simp
  have read2: "watch_step decode wantBase (?w f q tm [l, Started] st) (?w f q tm [l, HasRead f] st)" for f q tm l st
    using watch_step.read [of "?w f q tm [l, Started] st" 1] by simp
  have swap2: "watch_step decode wantBase (?w f q tm [l, HasRead f2] st) (?w f q tm [l] s2)" for f q tm l st
    using watch_step.swap [of "?w f q tm [l, HasRead f2] st" 1 f2 decode wantBase] LoadTokens_again [OF assms(2), of st] by (simp add: reload_def)
  have swap1: "watch_step decode wantBase (?w f q tm [HasRead f1] st) (?w f q tm [] s1)" for f q tm st
    using watch_step.swap [of "?w f q tm [HasRead f1] st" 0 f1 decode wantBase] LoadTokens_again [OF assms(1), of st] by (simp add: reload_def)
  have "?R (?w f1 [] None [] s1) (?w f1 [] None [HasRead f1] s1)"
    using edit [of f1 "[]" None "[]" s1 f1] event [of f1 None "[]" s1] fire [of f1 "[]" "[]" s1] read1 [of f1 "[]" None s1]
    unfolding append_Nil append_Cons by (meson converse_rtranclp_into_rtranclp rtranclp.rtrancl_refl)
  also have "?R \<dots> (?w f2 [] None [HasRead f1, Started] s1)"
    using edit [of f1 "[]" None "[HasRead f1]" s1 f2] event [of f2 None "[HasRead f1]" s1] fire [of f2 "[]" "[HasRead f1]" s1]
    unfolding append_Nil append_Cons by (meson converse_rtranclp_into_rtranclp rtranclp.rtrancl_refl)
  also have "?R \<dots> (?w f2 [] None [] s1)"
    using read2 [of f2 "[]" None "HasRead f1" s1] swap2 [of f2 "[]" None "HasRead f1" s1] swap1 [of f2 "[]" None s2]
    by (meson converse_rtranclp_into_rtranclp rtranclp.rtrancl_refl)
  finally show ?thesis by (intro exI [of _ "?w f2 [] None [] s1"]) (simp add: Watch_def)
qed

end
