(* ===== verification/Auth.thy ===== *)
theory Auth
  imports Token_Store Logging
begin

text \<open>
  \<open>internal/auth/auth.go\<close> and \<open>internal/auth/ua_filter.go\<close>: the two middlewares, and
  \<open>SanitizeToken\<close> of \<open>internal/observability/logger.go\<close>.

  A request is what the handlers read of it; a handler maps a request and the state behind it to a
  response and the next state.  SHA-256 is an argument.  The log lines of the middlewares are part
  of the model, because what they may contain is part of what the middlewares promise: every
  handler also returns the lines it logged, a line being its level, message and fields.
\<close>

section \<open>Definitions\<close>

record Request =
  rq_Method :: string
  rq_Path :: string
  rq_Remote :: string
  rq_Query :: "string \<Rightarrow> string"
  rq_Header :: "string \<Rightarrow> string"
  rq_Context :: "TokenRecord option"

record Response =
  rp_Status :: int
  rp_Headers :: "string \<rightharpoonup> string"
  rp_Body :: string

type_synonym 's handler = "Request \<Rightarrow> 's \<Rightarrow> Response \<times> logLine list \<times> 's"

definition statusOnly :: "int \<Rightarrow> Response" where
  "statusOnly code = \<lparr>rp_Status = code, rp_Headers = Map.empty, rp_Body = []\<rparr>"

text \<open>\<open>hex.EncodeToString\<close>.\<close>

definition hexNibble :: "nat \<Rightarrow> char" where
  "hexNibble d = (if d < 10 then char_of (48 + d) else char_of (87 + d))"

definition hexString :: "string \<Rightarrow> string" where
  "hexString s = concat (map (\<lambda>c. [hexNibble (byte c div 16), hexNibble (byte c mod 16)]) s)"

definition SanitizeToken :: "(string \<Rightarrow> string) \<Rightarrow> string \<Rightarrow> string" where
  "SanitizeToken sha256 token = (if token = [] then ''sha256:empty'' else ''sha256:'' @ hexString (take 6 (sha256 token)))"

definition RequireToken :: "(string \<Rightarrow> string) \<Rightarrow> time \<Rightarrow> tokens \<Rightarrow> 's handler \<Rightarrow> 's handler" where
  "RequireToken sha256 now store nxt = (\<lambda>r st.
     let tokenStr = rq_Query r ''token'' in
     if tokenStr = [] then
       (statusOnly 401,
        [(LevelInfo, ''auth rejected: missing token'', [(''remote'', LStr (rq_Remote r)), (''path'', LStr (rq_Path r))])], st)
     else case Lookup now store tokenStr of
       None \<Rightarrow>
         (statusOnly 401,
          [(LevelInfo, ''auth rejected: invalid/revoked/expired token'',
            [(''token_hash'', LStr (SanitizeToken sha256 tokenStr)), (''remote'', LStr (rq_Remote r)), (''path'', LStr (rq_Path r))])], st)
     | Some rec \<Rightarrow> nxt (r\<lparr>rq_Context := Some rec\<rparr>) st)"

definition TokenFromContext :: "Request \<Rightarrow> TokenRecord option" where
  "TokenFromContext r = rq_Context r"

definition RequireUserAgent :: "string list \<Rightarrow> 's handler \<Rightarrow> 's handler" where
  "RequireUserAgent prefixes nxt = (\<lambda>r st.
     if length prefixes = 0 then nxt r st
     else
       let ua = rq_Header r ''User-Agent''; rejected = (\<lambda>ua. (statusOnly 403,
             [(LevelInfo, ''ua-rejected'', [(''user_agent'', LStr ua), (''remote'', LStr (rq_Remote r)), (''path'', LStr (rq_Path r))])], st)) in
       if ua = [] then rejected []
       else if list_ex (\<lambda>prefix. HasPrefix ua prefix) prefixes then nxt r st
       else rejected ua)"

section \<open>Properties\<close>

text \<open>A protected handler runs only for a live token, and sees its record; every other request is
  answered 401 with no header and no body, and leaves the state behind the handler alone.\<close>

lemma RequireToken_gate:
  "fst (RequireToken sha256 now store nxt r st) =
     (case if rq_Query r ''token'' = [] then None else Lookup now store (rq_Query r ''token'') of
        Some rec \<Rightarrow> fst (nxt (r\<lparr>rq_Context := Some rec\<rparr>) st)
      | None \<Rightarrow> statusOnly 401)"
  "snd (snd (RequireToken sha256 now store nxt r st)) =
     (case if rq_Query r ''token'' = [] then None else Lookup now store (rq_Query r ''token'') of
        Some rec \<Rightarrow> snd (snd (nxt (r\<lparr>rq_Context := Some rec\<rparr>) st))
      | None \<Rightarrow> st)"
  by (auto simp: RequireToken_def Let_def split: option.splits)

text \<open>What a request reveals in the log of a rejection: everything but the token, and its fingerprint.\<close>

definition sameButToken :: "(string \<Rightarrow> string) \<Rightarrow> Request \<Rightarrow> Request \<Rightarrow> bool" where
  "sameButToken sha256 r r' \<longleftrightarrow> rq_Remote r = rq_Remote r' \<and> rq_Path r = rq_Path r' \<and>
     (rq_Query r ''token'' = []) = (rq_Query r' ''token'' = []) \<and>
     SanitizeToken sha256 (rq_Query r ''token'') = SanitizeToken sha256 (rq_Query r' ''token'')"

text \<open>The plaintext of a rejected token does not reach the log.  Two rejected requests that differ
  only in their tokens, and whose tokens have the same 48-bit fingerprint, are logged and answered
  alike; and a fingerprint is at most 19 bytes long.\<close>

theorem rejected_token_not_logged:
  assumes "Lookup now store (rq_Query r ''token'') = None" and "Lookup now store (rq_Query r' ''token'') = None"
    and "sameButToken sha256 r r'"
  shows "RequireToken sha256 now store nxt r st = RequireToken sha256 now store nxt r' st \<and>
    length (SanitizeToken sha256 (rq_Query r ''token'')) \<le> 19"
proof -
  have "length (hexString s) = 2 * length s" for s by (induction s) (simp_all add: hexString_def)
  then have "length (SanitizeToken sha256 token) \<le> 19" for token by (simp add: SanitizeToken_def)
  moreover have "RequireToken sha256 now store nxt r st = RequireToken sha256 now store nxt r' st"
    using assms by (simp add: RequireToken_def Let_def sameButToken_def)
  ultimately show ?thesis by simp
qed

text \<open>The user-agent filter admits exactly the requests whose agent is not empty and begins with an
  allowed prefix, and all of them when no prefix is configured; a refusal is an empty 403.\<close>

definition agentAllowed :: "string list \<Rightarrow> Request \<Rightarrow> bool" where
  "agentAllowed prefixes r \<longleftrightarrow> prefixes = [] \<or>
     rq_Header r ''User-Agent'' \<noteq> [] \<and> (\<exists>p\<in>set prefixes. \<exists>t. rq_Header r ''User-Agent'' = p @ t)"

lemma RequireUserAgent_gate:
  "fst (RequireUserAgent prefixes nxt r st) = (if agentAllowed prefixes r then fst (nxt r st) else statusOnly 403)"
  "snd (snd (RequireUserAgent prefixes nxt r st)) = (if agentAllowed prefixes r then snd (snd (nxt r st)) else st)"
  by (auto simp: RequireUserAgent_def agentAllowed_def Let_def list_ex_iff HasPrefix_iff)

end
