(* ===== verification/Server_Config.thy ===== *)
theory Server_Config
  imports Region Go_Time Logging
begin

text \<open>
  \<open>internal/config/server.go\<close>: the configuration from the environment.

  The environment is a function from names to values, the empty value standing for an unset name,
  as for \<open>os.Getenv\<close>.  \<open>time.LoadLocation\<close> is an argument.  An error keeps the name and the value
  it reports instead of its rendered text.  The parameter structs are copied field by field into
  those of package \<open>merge\<close> and are the same records here.
\<close>

section \<open>Definitions\<close>

type_synonym env = "string \<Rightarrow> string"

record ServerConfig =
  cfg_SubscriptionsCSVPath :: string
  cfg_OwnProxiesYAMLPath :: string
  cfg_TokensPath :: string
  cfg_ServedConfigTemplatePath :: string
  cfg_CacheDir :: string
  cfg_DefaultTTLSeconds :: int
  cfg_DefaultStaleOnErrorSeconds :: int
  cfg_DefaultProfileUpdateIntervalHours :: int
  cfg_BootstrapMaxAttemptsPerSource :: int
  cfg_BootstrapAttemptDelaySeconds :: int
  cfg_Port :: int
  cfg_LogLevel :: logLevel
  cfg_ProxiesGroupName :: string
  cfg_FallbackRuleTarget :: string
  cfg_UpstreamUserAgent :: string
  cfg_CustomRulesPath :: string
  cfg_AllowedUserAgentPrefixes :: "string list"
  cfg_URLPathPrefix :: string
  cfg_TodayZeroPath :: string
  cfg_DailyBudgetTimezone :: string
  cfg_BudgetLocation :: "location option"
  cfg_URLTestParams :: URLTestParams
  cfg_LoadBalanceParams :: LoadBalanceParams

datatype param_error = NotAPositiveInteger string string | LessThanOne string int | NotABool string string | BadStrategy string

datatype server_config_error = RequiredUnset string | NotAnInteger string string | NotPositive string int
  | BadLogLevel string | URLTestInvalid "param_error list" | LoadBalanceInvalid "param_error list" | BadTimezone string

definition defaultURLTestParams :: URLTestParams where
  "defaultURLTestParams = \<lparr>ut_URL = ''https://www.gstatic.com/generate_204'', ut_IntervalSeconds = 10,
     ut_TimeoutMS = 3000, ut_MaxFailedTimes = 3, ut_Lazy = True\<rparr>"

definition defaultLoadBalanceParams :: LoadBalanceParams where
  "defaultLoadBalanceParams = \<lparr>lb_URL = ''https://www.gstatic.com/generate_204'', lb_IntervalSeconds = 300,
     lb_TimeoutMS = 1500, lb_MaxFailedTimes = 3, lb_Lazy = True, lb_Strategy = ''round-robin''\<rparr>"

definition defaultConfig :: ServerConfig where
  "defaultConfig = \<lparr>cfg_SubscriptionsCSVPath = [], cfg_OwnProxiesYAMLPath = [], cfg_TokensPath = [],
     cfg_ServedConfigTemplatePath = [], cfg_CacheDir = [], cfg_DefaultTTLSeconds = 3600,
     cfg_DefaultStaleOnErrorSeconds = 86400, cfg_DefaultProfileUpdateIntervalHours = 12,
     cfg_BootstrapMaxAttemptsPerSource = 3, cfg_BootstrapAttemptDelaySeconds = 5, cfg_Port = 8080,
     cfg_LogLevel = LevelInfo, cfg_ProxiesGroupName = ''Proxies'', cfg_FallbackRuleTarget = ''auto'',
     cfg_UpstreamUserAgent = [], cfg_CustomRulesPath = [], cfg_AllowedUserAgentPrefixes = [], cfg_URLPathPrefix = [],
     cfg_TodayZeroPath = ''/data/today-zero.json'', cfg_DailyBudgetTimezone = ''America/Toronto'',
     cfg_BudgetLocation = None, cfg_URLTestParams = defaultURLTestParams, cfg_LoadBalanceParams = defaultLoadBalanceParams\<rparr>"

definition validLoadBalanceStrategies :: "string set" where
  "validLoadBalanceStrategies = {''round-robin'', ''consistent-hashing'', ''sticky-sessions''}"

definition parseLevel :: "(nat \<Rightarrow> nat) \<Rightarrow> string \<Rightarrow> logLevel option" where
  "parseLevel ulower s =
     (let l = ToLower ulower (TrimSpace s) in
      if l = ''debug'' then Some LevelDebug
      else if l = ''info'' then Some LevelInfo
      else if l = ''warn'' \<or> l = ''warning'' then Some LevelWarn
      else if l = ''error'' then Some LevelError
      else None)"

text \<open>The two loops over tables of names and destinations.\<close>

fun loadRequired :: "env \<Rightarrow> (string \<times> (string \<Rightarrow> ServerConfig \<Rightarrow> ServerConfig)) list \<Rightarrow> ServerConfig \<Rightarrow>
    server_config_error + ServerConfig" where
  "loadRequired env [] cfg = Inr cfg"
| "loadRequired env ((key, dst) # r) cfg =
     (let v = env key in if v = [] then Inl (RequiredUnset key) else loadRequired env r (dst v cfg))"

fun loadInts :: "env \<Rightarrow> (string \<times> (int \<Rightarrow> ServerConfig \<Rightarrow> ServerConfig)) list \<Rightarrow> ServerConfig \<Rightarrow>
    server_config_error + ServerConfig" where
  "loadInts env [] cfg = Inr cfg"
| "loadInts env ((key, dst) # r) cfg =
     (let v = env key in
      if v = [] then loadInts env r cfg
      else case ParseInt v of
        None \<Rightarrow> Inl (NotAnInteger key v)
      | Some n \<Rightarrow> if n \<le> 0 then Inl (NotPositive key n) else loadInts env r (dst n cfg))"

definition requiredVars :: "(string \<times> (string \<Rightarrow> ServerConfig \<Rightarrow> ServerConfig)) list" where
  "requiredVars =
     [(''SUBSCRIPTIONS_CSV_PATH'', \<lambda>v cfg. cfg\<lparr>cfg_SubscriptionsCSVPath := v\<rparr>),
      (''OWN_PROXIES_YAML_PATH'', \<lambda>v cfg. cfg\<lparr>cfg_OwnProxiesYAMLPath := v\<rparr>),
      (''TOKENS_PATH'', \<lambda>v cfg. cfg\<lparr>cfg_TokensPath := v\<rparr>),
      (''SERVED_CONFIG_TEMPLATE_PATH'', \<lambda>v cfg. cfg\<lparr>cfg_ServedConfigTemplatePath := v\<rparr>),
      (''CACHE_DIR'', \<lambda>v cfg. cfg\<lparr>cfg_CacheDir := v\<rparr>)]"

definition intVars :: "(string \<times> (int \<Rightarrow> ServerConfig \<Rightarrow> ServerConfig)) list" where
  "intVars =
     [(''DEFAULT_TTL_SECONDS'', \<lambda>n cfg. cfg\<lparr>cfg_DefaultTTLSeconds := n\<rparr>),
      (''DEFAULT_STALE_ON_ERROR_SECONDS'', \<lambda>n cfg. cfg\<lparr>cfg_DefaultStaleOnErrorSeconds := n\<rparr>),
      (''DEFAULT_PROFILE_UPDATE_INTERVAL_HOURS'', \<lambda>n cfg. cfg\<lparr>cfg_DefaultProfileUpdateIntervalHours := n\<rparr>),
      (''BOOTSTRAP_MAX_ATTEMPTS_PER_SOURCE'', \<lambda>n cfg. cfg\<lparr>cfg_BootstrapMaxAttemptsPerSource := n\<rparr>),
      (''BOOTSTRAP_ATTEMPT_DELAY_SECONDS'', \<lambda>n cfg. cfg\<lparr>cfg_BootstrapAttemptDelaySeconds := n\<rparr>),
      (''PORT'', \<lambda>n cfg. cfg\<lparr>cfg_Port := n\<rparr>)]"

text \<open>\<open>strings.TrimRight(s, "/")\<close>.\<close>

definition TrimRightSlash :: "string \<Rightarrow> string" where
  "TrimRightSlash s = rev (dropWhile (\<lambda>c. c = CHR ''/'') (rev s))"

definition normalizePrefix :: "string \<Rightarrow> string" where
  "normalizePrefix v = TrimRightSlash (if \<not> HasPrefix v ''/'' then ''/'' @ v else v)"

text \<open>The closures \<open>parsePositiveInt\<close> and \<open>parseLBPositiveInt\<close>: the value to store, if any, and the
  errors so far.\<close>

definition parsePositiveInt :: "env \<Rightarrow> string \<Rightarrow> (int \<Rightarrow> 'p \<Rightarrow> 'p) \<Rightarrow> 'p \<times> param_error list \<Rightarrow> 'p \<times> param_error list" where
  "parsePositiveInt env key dst pe = (case pe of (p, errs) \<Rightarrow>
     let v = env key in
     if v = [] then (p, errs)
     else case ParseInt v of
       None \<Rightarrow> (p, errs @ [NotAPositiveInteger key v])
     | Some n \<Rightarrow> if n < 1 then (p, errs @ [LessThanOne key n]) else (dst n p, errs))"

definition parseLazy :: "env \<Rightarrow> string \<Rightarrow> (bool \<Rightarrow> 'p \<Rightarrow> 'p) \<Rightarrow> 'p \<times> param_error list \<Rightarrow> 'p \<times> param_error list" where
  "parseLazy env key dst pe = (case pe of (p, errs) \<Rightarrow>
     let v = env key in
     if v \<noteq> [] then
       (case ParseBool v of None \<Rightarrow> (p, errs @ [NotABool key v]) | Some b \<Rightarrow> (dst b p, errs))
     else (p, errs))"

definition loadURLTest :: "env \<Rightarrow> URLTestParams \<Rightarrow> URLTestParams \<times> param_error list" where
  "loadURLTest env p =
     (let p = (if env ''URL_TEST_URL'' \<noteq> [] then p\<lparr>ut_URL := env ''URL_TEST_URL''\<rparr> else p);
          pe = (p, []);
          pe = parsePositiveInt env ''URL_TEST_INTERVAL_SECONDS'' (\<lambda>n p. p\<lparr>ut_IntervalSeconds := n\<rparr>) pe;
          pe = parsePositiveInt env ''URL_TEST_TIMEOUT_MS'' (\<lambda>n p. p\<lparr>ut_TimeoutMS := n\<rparr>) pe;
          pe = parsePositiveInt env ''URL_TEST_MAX_FAILED_TIMES'' (\<lambda>n p. p\<lparr>ut_MaxFailedTimes := n\<rparr>) pe
      in parseLazy env ''URL_TEST_LAZY'' (\<lambda>b p. p\<lparr>ut_Lazy := b\<rparr>) pe)"

definition loadLoadBalance :: "env \<Rightarrow> LoadBalanceParams \<Rightarrow> LoadBalanceParams \<times> param_error list" where
  "loadLoadBalance env p =
     (let p = (if env ''LOAD_BALANCE_URL'' \<noteq> [] then p\<lparr>lb_URL := env ''LOAD_BALANCE_URL''\<rparr> else p);
          pe = (p, []);
          pe = parsePositiveInt env ''LOAD_BALANCE_INTERVAL_SECONDS'' (\<lambda>n p. p\<lparr>lb_IntervalSeconds := n\<rparr>) pe;
          pe = parsePositiveInt env ''LOAD_BALANCE_TIMEOUT_MS'' (\<lambda>n p. p\<lparr>lb_TimeoutMS := n\<rparr>) pe;
          pe = parsePositiveInt env ''LOAD_BALANCE_MAX_FAILED_TIMES'' (\<lambda>n p. p\<lparr>lb_MaxFailedTimes := n\<rparr>) pe;
          pe = parseLazy env ''LOAD_BALANCE_LAZY'' (\<lambda>b p. p\<lparr>lb_Lazy := b\<rparr>) pe;
          v = env ''LOAD_BALANCE_STRATEGY''
      in case pe of (p, errs) \<Rightarrow>
        if v \<noteq> [] then
          (if v \<notin> validLoadBalanceStrategies then (p, errs @ [BadStrategy v]) else (p\<lparr>lb_Strategy := v\<rparr>, errs))
        else (p, errs))"

definition parsePrefixes :: "string \<Rightarrow> string list" where
  "parsePrefixes v = filter (\<lambda>p. p \<noteq> []) (map TrimSpace (Split v CHR '',''))"

definition orEnv :: "env \<Rightarrow> string \<Rightarrow> string \<Rightarrow> string" where
  "orEnv env key dflt = (if env key \<noteq> [] then env key else dflt)"

definition loadNames :: "env \<Rightarrow> ServerConfig \<Rightarrow> ServerConfig" where
  "loadNames env cfg = cfg\<lparr>
     cfg_ProxiesGroupName := orEnv env ''PROXIES_GROUP_NAME'' (cfg_ProxiesGroupName cfg),
     cfg_UpstreamUserAgent := orEnv env ''UPSTREAM_USER_AGENT'' (cfg_UpstreamUserAgent cfg),
     cfg_FallbackRuleTarget := orEnv env ''FALLBACK_RULE_TARGET'' (cfg_FallbackRuleTarget cfg),
     cfg_CustomRulesPath := orEnv env ''CUSTOM_RULES_PATH'' ''./custom-rules/'',
     cfg_URLPathPrefix := (if env ''URL_PATH_PREFIX'' \<noteq> [] then normalizePrefix (env ''URL_PATH_PREFIX'') else cfg_URLPathPrefix cfg)\<rparr>"

definition loadBudget :: "(string \<Rightarrow> location option) \<Rightarrow> env \<Rightarrow> ServerConfig \<Rightarrow> server_config_error + ServerConfig" where
  "loadBudget loadLocation env cfg =
     (let tz = orEnv env ''DAILY_BUDGET_TIMEZONE'' (cfg_DailyBudgetTimezone cfg) in
      case loadLocation tz of
        None \<Rightarrow> Inl (BadTimezone tz)
      | Some loc \<Rightarrow>
          let v = env ''HONKAI_RULE_CLIENT_UA'';
              prefixes = (if v \<noteq> [] \<and> length (parsePrefixes v) > 0 then parsePrefixes v else cfg_AllowedUserAgentPrefixes cfg)
          in Inr (cfg\<lparr>cfg_TodayZeroPath := orEnv env ''TODAY_ZERO_PATH'' (cfg_TodayZeroPath cfg), cfg_DailyBudgetTimezone := tz,
               cfg_BudgetLocation := Some loc, cfg_AllowedUserAgentPrefixes := prefixes\<rparr>))"

definition loadRest :: "(string \<Rightarrow> location option) \<Rightarrow> env \<Rightarrow> ServerConfig \<Rightarrow> server_config_error + ServerConfig" where
  "loadRest loadLocation env cfg =
     (let cfg = loadNames env cfg; (ut, urlTestErrs) = loadURLTest env (cfg_URLTestParams cfg) in
      if length urlTestErrs > 0 then Inl (URLTestInvalid urlTestErrs)
      else
        let cfg = cfg\<lparr>cfg_URLTestParams := ut\<rparr>; (lb, loadBalanceErrs) = loadLoadBalance env (cfg_LoadBalanceParams cfg) in
        if length loadBalanceErrs > 0 then Inl (LoadBalanceInvalid loadBalanceErrs)
        else loadBudget loadLocation env (cfg\<lparr>cfg_LoadBalanceParams := lb\<rparr>))"

definition LoadConfig :: "(nat \<Rightarrow> nat) \<Rightarrow> (string \<Rightarrow> location option) \<Rightarrow> env \<Rightarrow> server_config_error + ServerConfig" where
  "LoadConfig ulower loadLocation env = (case loadRequired env requiredVars defaultConfig of
      Inl e \<Rightarrow> Inl e
    | Inr cfg \<Rightarrow> (case loadInts env intVars cfg of
        Inl e \<Rightarrow> Inl e
      | Inr cfg \<Rightarrow>
          if env ''LOG_LEVEL'' \<noteq> [] then
            (case parseLevel ulower (env ''LOG_LEVEL'') of
               None \<Rightarrow> Inl (BadLogLevel (env ''LOG_LEVEL''))
             | Some lvl \<Rightarrow> loadRest loadLocation env (cfg\<lparr>cfg_LogLevel := lvl\<rparr>))
          else loadRest loadLocation env cfg))"

section \<open>Accepted configurations\<close>

text \<open>What the rest of the server may rely on.\<close>

definition intsOk :: "ServerConfig \<Rightarrow> bool" where
  "intsOk cfg \<longleftrightarrow> list_all (\<lambda>n. 0 < n \<and> n \<le> int64_max)
     [cfg_DefaultTTLSeconds cfg, cfg_DefaultStaleOnErrorSeconds cfg, cfg_DefaultProfileUpdateIntervalHours cfg,
      cfg_BootstrapMaxAttemptsPerSource cfg, cfg_BootstrapAttemptDelaySeconds cfg, cfg_Port cfg]"

definition pathsOk :: "ServerConfig \<Rightarrow> bool" where
  "pathsOk cfg \<longleftrightarrow> [] \<notin> set [cfg_SubscriptionsCSVPath cfg, cfg_OwnProxiesYAMLPath cfg, cfg_TokensPath cfg,
      cfg_ServedConfigTemplatePath cfg, cfg_CacheDir cfg]"

definition prefixOk :: "string \<Rightarrow> bool" where
  "prefixOk p \<longleftrightarrow> p = [] \<or> hd p = CHR ''/'' \<and> last p \<noteq> CHR ''/''"

definition probesOk :: "ServerConfig \<Rightarrow> bool" where
  "probesOk cfg \<longleftrightarrow> list_all (\<lambda>n. 1 \<le> n)
      [ut_IntervalSeconds (cfg_URLTestParams cfg), ut_TimeoutMS (cfg_URLTestParams cfg), ut_MaxFailedTimes (cfg_URLTestParams cfg),
       lb_IntervalSeconds (cfg_LoadBalanceParams cfg), lb_TimeoutMS (cfg_LoadBalanceParams cfg), lb_MaxFailedTimes (cfg_LoadBalanceParams cfg)] \<and>
     lb_Strategy (cfg_LoadBalanceParams cfg) \<in> validLoadBalanceStrategies"

lemma loadInts_inv:
  assumes "loadInts env vars cfg = Inr cfg'" and "P cfg"
    and "\<forall>(key, dst)\<in>set vars. \<forall>n c. 0 < n \<longrightarrow> n \<le> int64_max \<longrightarrow> P c \<longrightarrow> P (dst n c)"
  shows "P cfg'"
  using assms
proof (induction vars arbitrary: cfg)
  case (Cons kd vars)
  obtain key dst where kd: "kd = (key, dst)" by (cases kd)
  show ?case
  proof (cases "env key = []")
    case True
    then show ?thesis using Cons.IH [of cfg] Cons.prems kd by simp
  next
    case False
    then obtain n where n: "ParseInt (env key) = Some n" "0 < n" "loadInts env vars (dst n cfg) = Inr cfg'"
      using Cons.prems(1) kd by (auto simp: Let_def split: option.splits if_splits)
    then have "n \<le> int64_max" using ParseInt_range by (auto simp: in_int64_def)
    then have "P (dst n cfg)" using Cons.prems(2,3) n(2) kd by simp
    then show ?thesis using Cons.IH [OF n(3)] Cons.prems(3) by simp
  qed
qed simp

text \<open>What the loaders of the other fields leave alone.\<close>

definition sameProbes :: "ServerConfig \<Rightarrow> ServerConfig \<Rightarrow> bool" where
  "sameProbes c c' \<longleftrightarrow> cfg_URLTestParams c' = cfg_URLTestParams c \<and> cfg_LoadBalanceParams c' = cfg_LoadBalanceParams c \<and>
     cfg_URLPathPrefix c' = cfg_URLPathPrefix c \<and> cfg_AllowedUserAgentPrefixes c' = cfg_AllowedUserAgentPrefixes c"

lemma loadRequired_paths:
  assumes "loadRequired env requiredVars cfg = Inr cfg'"
  shows "pathsOk cfg' \<and> intsOk cfg' = intsOk cfg \<and> sameProbes cfg cfg'"
proof -
  have ne: "env ''SUBSCRIPTIONS_CSV_PATH'' \<noteq> []" "env ''OWN_PROXIES_YAML_PATH'' \<noteq> []" "env ''TOKENS_PATH'' \<noteq> []"
    "env ''SERVED_CONFIG_TEMPLATE_PATH'' \<noteq> []" "env ''CACHE_DIR'' \<noteq> []"
    using assms by (simp_all add: requiredVars_def Let_def split: if_splits)
  then have "cfg' = cfg\<lparr>cfg_SubscriptionsCSVPath := env ''SUBSCRIPTIONS_CSV_PATH'', cfg_OwnProxiesYAMLPath := env ''OWN_PROXIES_YAML_PATH'',
      cfg_TokensPath := env ''TOKENS_PATH'', cfg_ServedConfigTemplatePath := env ''SERVED_CONFIG_TEMPLATE_PATH'', cfg_CacheDir := env ''CACHE_DIR''\<rparr>"
    using assms by (simp add: requiredVars_def Let_def)
  then show ?thesis using ne by (simp add: pathsOk_def intsOk_def sameProbes_def)
qed

lemma loadInts_keeps:
  assumes "loadInts env intVars cfg = Inr cfg'" and "intsOk cfg" and "pathsOk cfg"
  shows "intsOk cfg' \<and> pathsOk cfg' \<and> sameProbes cfg cfg'"
proof -
  have "sameProbes cfg cfg" by (simp add: sameProbes_def)
  then show ?thesis
    using loadInts_inv [where P = "\<lambda>c. intsOk c \<and> pathsOk c \<and> sameProbes cfg c", OF assms(1)] assms(2,3)
    by (simp add: intVars_def) (simp add: intsOk_def pathsOk_def sameProbes_def)
qed

lemma loadBudget_keeps:
  assumes "loadBudget loadLocation env cfg = Inr cfg'"
  shows "intsOk cfg' = intsOk cfg \<and> pathsOk cfg' = pathsOk cfg \<and> probesOk cfg' = probesOk cfg \<and>
    cfg_URLPathPrefix cfg' = cfg_URLPathPrefix cfg \<and> ([] \<in> set (cfg_AllowedUserAgentPrefixes cfg') \<longrightarrow> [] \<in> set (cfg_AllowedUserAgentPrefixes cfg)) \<and>
    cfg_BudgetLocation cfg' = loadLocation (cfg_DailyBudgetTimezone cfg') \<and> cfg_BudgetLocation cfg' \<noteq> None"
proof -
  obtain loc where loc: "loadLocation (orEnv env ''DAILY_BUDGET_TIMEZONE'' (cfg_DailyBudgetTimezone cfg)) = Some loc"
    using assms by (auto simp: loadBudget_def Let_def split: option.splits)
  define ps where "ps = (if env ''HONKAI_RULE_CLIENT_UA'' \<noteq> [] \<and> length (parsePrefixes (env ''HONKAI_RULE_CLIENT_UA'')) > 0
      then parsePrefixes (env ''HONKAI_RULE_CLIENT_UA'') else cfg_AllowedUserAgentPrefixes cfg)"
  have "cfg' = cfg\<lparr>cfg_TodayZeroPath := orEnv env ''TODAY_ZERO_PATH'' (cfg_TodayZeroPath cfg),
      cfg_DailyBudgetTimezone := orEnv env ''DAILY_BUDGET_TIMEZONE'' (cfg_DailyBudgetTimezone cfg),
      cfg_BudgetLocation := Some loc, cfg_AllowedUserAgentPrefixes := ps\<rparr>"
    using assms loc by (simp add: loadBudget_def Let_def ps_def)
  moreover have "[] \<in> set ps \<longrightarrow> [] \<in> set (cfg_AllowedUserAgentPrefixes cfg)" by (simp add: ps_def parsePrefixes_def)
  ultimately show ?thesis using loc by (simp add: intsOk_def pathsOk_def probesOk_def)
qed

lemma TrimRightSlash_last: "TrimRightSlash s = [] \<or> last (TrimRightSlash s) \<noteq> CHR ''/''"
proof (cases "dropWhile (\<lambda>c. c = CHR ''/'') (rev s)")
  case (Cons c cs)
  then have "c \<noteq> CHR ''/''" using hd_dropWhile [of "\<lambda>c. c = CHR ''/''" "rev s"] by simp
  then show ?thesis by (simp add: TrimRightSlash_def Cons)
qed (simp add: TrimRightSlash_def)

lemma TrimRightSlash_prefix: "\<exists>t. s = TrimRightSlash s @ t"
proof -
  have "s = rev (takeWhile (\<lambda>c. c = CHR ''/'') (rev s) @ dropWhile (\<lambda>c. c = CHR ''/'') (rev s))" by simp
  then show ?thesis unfolding TrimRightSlash_def rev_append by blast
qed

lemma normalizePrefix_ok: "prefixOk (normalizePrefix v)"
proof -
  let ?u = "if \<not> HasPrefix v ''/'' then ''/'' @ v else v"
  obtain r where u: "?u = CHR ''/'' # r" by (cases "HasPrefix v ''/''") (auto simp: HasPrefix_iff)
  obtain t where "?u = TrimRightSlash ?u @ t" using TrimRightSlash_prefix by blast
  then have "TrimRightSlash ?u = [] \<or> hd (TrimRightSlash ?u) = CHR ''/''" using u by (metis hd_append2 list.sel(1))
  then show ?thesis using TrimRightSlash_last [of ?u] by (auto simp: normalizePrefix_def prefixOk_def)
qed

text \<open>A parameter step keeps what a positive value keeps.\<close>

lemma parsePositiveInt_inv: "P (fst pe) \<Longrightarrow> (\<And>n p. 1 \<le> n \<Longrightarrow> P p \<Longrightarrow> P (dst n p)) \<Longrightarrow> P (fst (parsePositiveInt env key dst pe))"
  by (cases pe) (auto simp: parsePositiveInt_def Let_def split: option.splits)

lemma parseLazy_inv: "P (fst pe) \<Longrightarrow> (\<And>b p. P p \<Longrightarrow> P (dst b p)) \<Longrightarrow> P (fst (parseLazy env key dst pe))"
  by (cases pe) (auto simp: parseLazy_def Let_def split: option.splits)

definition utOk :: "URLTestParams \<Rightarrow> bool" where
  "utOk p \<longleftrightarrow> 1 \<le> ut_IntervalSeconds p \<and> 1 \<le> ut_TimeoutMS p \<and> 1 \<le> ut_MaxFailedTimes p"

definition lbOk :: "LoadBalanceParams \<Rightarrow> bool" where
  "lbOk p \<longleftrightarrow> 1 \<le> lb_IntervalSeconds p \<and> 1 \<le> lb_TimeoutMS p \<and> 1 \<le> lb_MaxFailedTimes p \<and> lb_Strategy p \<in> validLoadBalanceStrategies"

lemma loadURLTest_ok: "utOk p \<Longrightarrow> utOk (fst (loadURLTest env p))"
  unfolding loadURLTest_def Let_def
  by (intro parseLazy_inv [where P = utOk] parsePositiveInt_inv [where P = utOk]) (simp_all add: utOk_def)

lemma loadLoadBalance_ok:
  assumes "lbOk p"
  shows "lbOk (fst (loadLoadBalance env p))"
proof -
  define pe where "pe = parseLazy env ''LOAD_BALANCE_LAZY'' (\<lambda>b p. p\<lparr>lb_Lazy := b\<rparr>)
    (parsePositiveInt env ''LOAD_BALANCE_MAX_FAILED_TIMES'' (\<lambda>n p. p\<lparr>lb_MaxFailedTimes := n\<rparr>)
    (parsePositiveInt env ''LOAD_BALANCE_TIMEOUT_MS'' (\<lambda>n p. p\<lparr>lb_TimeoutMS := n\<rparr>)
    (parsePositiveInt env ''LOAD_BALANCE_INTERVAL_SECONDS'' (\<lambda>n p. p\<lparr>lb_IntervalSeconds := n\<rparr>)
    (if env ''LOAD_BALANCE_URL'' \<noteq> [] then p\<lparr>lb_URL := env ''LOAD_BALANCE_URL''\<rparr> else p, []))))"
  have "lbOk (fst pe)" unfolding pe_def
    by (intro parseLazy_inv [where P = lbOk] parsePositiveInt_inv [where P = lbOk]) (use assms in \<open>simp_all add: lbOk_def\<close>)
  then show ?thesis unfolding loadLoadBalance_def Let_def pe_def [symmetric]
    by (cases pe) (simp add: lbOk_def)
qed

lemma LoadConfig_accepted:
  assumes "LoadConfig ulower loadLocation env = Inr cfg"
  shows "pathsOk cfg \<and> intsOk cfg \<and> probesOk cfg \<and> prefixOk (cfg_URLPathPrefix cfg) \<and>
    [] \<notin> set (cfg_AllowedUserAgentPrefixes cfg) \<and> cfg_BudgetLocation cfg = loadLocation (cfg_DailyBudgetTimezone cfg) \<and>
    cfg_BudgetLocation cfg \<noteq> None"
proof -
  obtain cfg1 cfg2 where c1: "loadRequired env requiredVars defaultConfig = Inr cfg1" and c2: "loadInts env intVars cfg1 = Inr cfg2"
    and lv: "(if env ''LOG_LEVEL'' \<noteq> [] then
            (case parseLevel ulower (env ''LOG_LEVEL'') of
               None \<Rightarrow> Inl (BadLogLevel (env ''LOG_LEVEL''))
             | Some lvl \<Rightarrow> loadRest loadLocation env (cfg2\<lparr>cfg_LogLevel := lvl\<rparr>))
          else loadRest loadLocation env cfg2) = Inr cfg"
    using assms by (auto simp: LoadConfig_def split: sum.splits)
  have "\<exists>lvl. loadRest loadLocation env (cfg2\<lparr>cfg_LogLevel := lvl\<rparr>) = Inr cfg"
  proof (cases "env ''LOG_LEVEL'' = []")
    case True
    then show ?thesis using lv by (intro exI [of _ "cfg_LogLevel cfg2"]) simp
  next
    case False
    then show ?thesis using lv by (auto split: option.splits)
  qed
  then obtain lvl where c3: "loadRest loadLocation env (cfg2\<lparr>cfg_LogLevel := lvl\<rparr>) = Inr cfg" by blast
  define c where "c = loadNames env (cfg2\<lparr>cfg_LogLevel := lvl\<rparr>)"
  have "intsOk defaultConfig" by (simp add: intsOk_def defaultConfig_def int64_max_def)
  then have k2: "intsOk cfg2" "pathsOk cfg2" "sameProbes defaultConfig cfg2"
    using loadRequired_paths [OF c1] loadInts_keeps [OF c2] by (simp_all add: sameProbes_def)
  have k: "intsOk c" "pathsOk c" using k2(1,2) by (simp_all add: c_def loadNames_def intsOk_def pathsOk_def)
  have p: "cfg_URLTestParams c = defaultURLTestParams" "cfg_LoadBalanceParams c = defaultLoadBalanceParams" "cfg_AllowedUserAgentPrefixes c = []"
    "prefixOk (cfg_URLPathPrefix c)"
    using k2(3) by (simp_all add: c_def loadNames_def sameProbes_def normalizePrefix_ok) (simp_all add: defaultConfig_def prefixOk_def)
  obtain ut es1 where ut: "loadURLTest env defaultURLTestParams = (ut, es1)" by (cases "loadURLTest env defaultURLTestParams")
  obtain lb es2 where lb: "loadLoadBalance env defaultLoadBalanceParams = (lb, es2)"
    by (cases "loadLoadBalance env defaultLoadBalanceParams")
  let ?c' = "c\<lparr>cfg_URLTestParams := ut, cfg_LoadBalanceParams := lb\<rparr>"
  have c4: "loadBudget loadLocation env ?c' = Inr cfg"
    using c3 unfolding loadRest_def Let_def c_def [symmetric] p(1) ut by (simp add: p(2) lb split: if_splits)
  have "probesOk ?c'"
    using loadURLTest_ok [of defaultURLTestParams env] loadLoadBalance_ok [of defaultLoadBalanceParams env]
    by (simp add: probesOk_def utOk_def lbOk_def ut lb)
      (simp add: defaultURLTestParams_def defaultLoadBalanceParams_def validLoadBalanceStrategies_def)
  moreover have "intsOk ?c'" "pathsOk ?c'" using k by (simp_all add: intsOk_def pathsOk_def)
  ultimately show ?thesis using loadBudget_keeps [OF c4] p(3,4) by (simp del: not_None_eq) (metis option.exhaust)
qed

text \<open>C35: what an accepted configuration guarantees.  The five required paths are set; every interval,
  attempt count and the port are positive 64-bit integers; the probe parameters are at least one and
  the strategy is one Mihomo knows; the URL prefix is empty or starts with a slash and does not end
  with one; the user-agent prefixes are not empty; and the budget time zone has been resolved.\<close>

theorem LoadConfig_wf:
  assumes "LoadConfig ulower loadLocation env = Inr cfg"
  shows "pathsOk cfg \<and> intsOk cfg \<and> probesOk cfg \<and> prefixOk (cfg_URLPathPrefix cfg) \<and>
    [] \<notin> set (cfg_AllowedUserAgentPrefixes cfg) \<and> cfg_BudgetLocation cfg = loadLocation (cfg_DailyBudgetTimezone cfg) \<and>
    cfg_BudgetLocation cfg \<noteq> None"
  using assms by (rule LoadConfig_accepted)

section \<open>Reported problems\<close>

definition positiveProblem :: "env \<Rightarrow> string \<Rightarrow> param_error list" where
  "positiveProblem env key = (if env key = [] then [] else case ParseInt (env key) of
      None \<Rightarrow> [NotAPositiveInteger key (env key)] | Some n \<Rightarrow> if n < 1 then [LessThanOne key n] else [])"

definition lazyProblem :: "env \<Rightarrow> string \<Rightarrow> param_error list" where
  "lazyProblem env key = (if env key \<noteq> [] \<and> ParseBool (env key) = None then [NotABool key (env key)] else [])"

lemma parsePositiveInt_errs: "snd (parsePositiveInt env key dst pe) = snd pe @ positiveProblem env key"
  by (cases pe) (auto simp: parsePositiveInt_def positiveProblem_def Let_def split: option.splits)

lemma parseLazy_errs: "snd (parseLazy env key dst pe) = snd pe @ lazyProblem env key"
  by (cases pe) (auto simp: parseLazy_def lazyProblem_def Let_def split: option.splits)

text \<open>An error names a variable and says what is wrong with it; the error of a parameter group lists
  every invalid variable of the group, in the order of the variables, and nothing else.\<close>

definition accurate :: "(nat \<Rightarrow> nat) \<Rightarrow> (string \<Rightarrow> location option) \<Rightarrow> env \<Rightarrow> server_config_error \<Rightarrow> bool" where
  "accurate ulower loadLocation env e = (case e of
      URLTestInvalid errs \<Rightarrow> errs = concat (map (positiveProblem env)
          [''URL_TEST_INTERVAL_SECONDS'', ''URL_TEST_TIMEOUT_MS'', ''URL_TEST_MAX_FAILED_TIMES'']) @ lazyProblem env ''URL_TEST_LAZY'' \<and> errs \<noteq> []
    | LoadBalanceInvalid errs \<Rightarrow> errs = concat (map (positiveProblem env)
          [''LOAD_BALANCE_INTERVAL_SECONDS'', ''LOAD_BALANCE_TIMEOUT_MS'', ''LOAD_BALANCE_MAX_FAILED_TIMES'']) @
        lazyProblem env ''LOAD_BALANCE_LAZY'' @
        (let v = env ''LOAD_BALANCE_STRATEGY'' in if v \<noteq> [] \<and> v \<notin> validLoadBalanceStrategies then [BadStrategy v] else []) \<and> errs \<noteq> []
    | RequiredUnset key \<Rightarrow> env key = [] \<and> key \<in> set (map fst requiredVars)
    | NotAnInteger key v \<Rightarrow> v = env key \<and> v \<noteq> [] \<and> ParseInt v = None \<and> key \<in> set (map fst intVars)
    | NotPositive key n \<Rightarrow> ParseInt (env key) = Some n \<and> n \<le> 0 \<and> key \<in> set (map fst intVars)
    | BadLogLevel v \<Rightarrow> v = env ''LOG_LEVEL'' \<and> v \<noteq> [] \<and> parseLevel ulower v = None
    | BadTimezone tz \<Rightarrow> loadLocation tz = None)"

lemma loadRequired_error:
  "loadRequired env vars cfg = Inl e \<Longrightarrow> \<exists>key. e = RequiredUnset key \<and> env key = [] \<and> key \<in> set (map fst vars)"
  by (induction env vars cfg rule: loadRequired.induct) (auto simp: Let_def split: if_splits)

lemma loadInts_error:
  "loadInts env vars cfg = Inl e \<Longrightarrow> (\<exists>key n. key \<in> set (map fst vars) \<and>
     (e = NotAnInteger key (env key) \<and> env key \<noteq> [] \<and> ParseInt (env key) = None \<or> e = NotPositive key n \<and> ParseInt (env key) = Some n \<and> n \<le> 0))"
proof (induction vars arbitrary: cfg)
  case (Cons kd vars)
  obtain key dst where kd: "kd = (key, dst)" by (cases kd)
  show ?case
  proof (cases "\<exists>c. loadInts env vars c = Inl e")
    case True
    then obtain c where "loadInts env vars c = Inl e" by blast
    from Cons.IH [OF this] obtain key' n where "key' \<in> set (map fst vars)"
      "e = NotAnInteger key' (env key') \<and> env key' \<noteq> [] \<and> ParseInt (env key') = None \<or> e = NotPositive key' n \<and> ParseInt (env key') = Some n \<and> n \<le> 0"
      by blast
    then show ?thesis by (intro exI [of _ key'] exI [of _ n]) simp
  next
    case False
    then show ?thesis using Cons.prems kd by (auto simp: Let_def split: if_splits option.splits)
  qed
qed simp

lemma loadRest_error:
  assumes "loadRest loadLocation env cfg = Inl e"
  shows "accurate ulower loadLocation env e"
proof -
  have ut: "snd (loadURLTest env p) = concat (map (positiveProblem env)
      [''URL_TEST_INTERVAL_SECONDS'', ''URL_TEST_TIMEOUT_MS'', ''URL_TEST_MAX_FAILED_TIMES'']) @ lazyProblem env ''URL_TEST_LAZY''" for p
    by (simp add: loadURLTest_def Let_def parseLazy_errs parsePositiveInt_errs)
  have lb: "snd (loadLoadBalance env p) = concat (map (positiveProblem env)
      [''LOAD_BALANCE_INTERVAL_SECONDS'', ''LOAD_BALANCE_TIMEOUT_MS'', ''LOAD_BALANCE_MAX_FAILED_TIMES'']) @ lazyProblem env ''LOAD_BALANCE_LAZY'' @
      (let v = env ''LOAD_BALANCE_STRATEGY'' in if v \<noteq> [] \<and> v \<notin> validLoadBalanceStrategies then [BadStrategy v] else [])" for p
    by (simp add: loadLoadBalance_def Let_def split_beta parseLazy_errs parsePositiveInt_errs)
  obtain ut' es1 where u: "loadURLTest env (cfg_URLTestParams (loadNames env cfg)) = (ut', es1)" by (rule prod.exhaust)
  let ?c = "(loadNames env cfg)\<lparr>cfg_URLTestParams := ut'\<rparr>"
  obtain lb' es2 where l: "loadLoadBalance env (cfg_LoadBalanceParams ?c) = (lb', es2)" by (rule prod.exhaust)
  consider (url) "e = URLTestInvalid es1" "es1 \<noteq> []" | (balance) "e = LoadBalanceInvalid es2" "es2 \<noteq> []"
    | (budget) "loadBudget loadLocation env (?c\<lparr>cfg_LoadBalanceParams := lb'\<rparr>) = Inl e"
  proof -
    have "(if length es1 > 0 then Inl (URLTestInvalid es1) else if length es2 > 0 then Inl (LoadBalanceInvalid es2)
        else loadBudget loadLocation env (?c\<lparr>cfg_LoadBalanceParams := lb'\<rparr>)) = Inl e"
      using assms by (simp only: loadRest_def Let_def u prod.case l)
    then show thesis using that by (cases "es1 = []"; cases "es2 = []") simp_all
  qed
  then show ?thesis
  proof cases
    case url
    then show ?thesis using ut [of "cfg_URLTestParams (loadNames env cfg)"]
      by (simp only: u snd_conv accurate_def server_config_error.case simp_thms)
  next
    case balance
    then show ?thesis using lb [of "cfg_LoadBalanceParams ?c"]
      by (simp only: l snd_conv accurate_def server_config_error.case simp_thms)
  next
    case budget
    then show ?thesis by (auto simp: loadBudget_def Let_def accurate_def split: option.splits)
  qed
qed

text \<open>A refused configuration is refused for the reason given, and all problems of a parameter group
  are reported at once.\<close>

theorem LoadConfig_reports:
  assumes "LoadConfig ulower loadLocation env = Inl e"
  shows "accurate ulower loadLocation env e"
proof (cases "loadRequired env requiredVars defaultConfig")
  case (Inl e')
  then have "e = e'" using assms by (simp add: LoadConfig_def)
  moreover obtain key where "e' = RequiredUnset key" "env key = []" "key \<in> set (map fst requiredVars)"
    using loadRequired_error [OF Inl] by blast
  ultimately show ?thesis by (simp only: accurate_def server_config_error.case simp_thms)
next
  case required: (Inr cfg1)
  show ?thesis
  proof (cases "loadInts env intVars cfg1")
    case (Inl e')
    then have "e = e'" using assms required by (simp add: LoadConfig_def)
    moreover obtain key n where "key \<in> set (map fst intVars)"
      "e' = NotAnInteger key (env key) \<and> env key \<noteq> [] \<and> ParseInt (env key) = None \<or> e' = NotPositive key n \<and> ParseInt (env key) = Some n \<and> n \<le> 0"
      using loadInts_error [OF Inl] by blast
    ultimately show ?thesis by (elim disjE conjE) (simp_all only: accurate_def server_config_error.case simp_thms)
  next
    case (Inr cfg2)
    have lvl: "(if env ''LOG_LEVEL'' \<noteq> [] then
            (case parseLevel ulower (env ''LOG_LEVEL'') of
               None \<Rightarrow> Inl (BadLogLevel (env ''LOG_LEVEL''))
             | Some lvl \<Rightarrow> loadRest loadLocation env (cfg2\<lparr>cfg_LogLevel := lvl\<rparr>))
          else loadRest loadLocation env cfg2) = Inl e"
      using assms required Inr by (simp only: LoadConfig_def sum.case)
    show ?thesis
    proof (cases "env ''LOG_LEVEL'' = [] \<or> parseLevel ulower (env ''LOG_LEVEL'') \<noteq> None")
      case True
      then show ?thesis using lvl loadRest_error by (cases "env ''LOG_LEVEL'' = []") (auto split: option.splits)
    next
      case False
      then have "e = BadLogLevel (env ''LOG_LEVEL'')" using lvl by simp
      then show ?thesis using False by (simp add: accurate_def)
    qed
  qed
qed

end
