(* ===== verification/Routes.thy ===== *)
theory Routes
  imports Output Scheduler Auth Server_Config
begin

text \<open>
  \<open>internal/server/routes/subscription.go\<close>, \<open>internal/server/routes/health.go\<close> and
  \<open>NewApp\<close> and \<open>buildMux\<close> of \<open>internal/server/app.go\<close>: the handlers and how they are mounted.

  A handler runs while the goroutines of the coordinator do: it looks at the coordinator several
  times, at the cache once per source and reading, and every look is a coordinator of its own
  (\<open>looks\<close>), together with the readings of the clock and whether the body could be written.  The state behind the handlers is the snapshot store
  of the traffic header.  The JSON encoder of the health view is a parameter.

  \<open>buildMux\<close> is the list of the calls of \<open>mux.Handle\<close>, in their order.  \<open>ServeMux\<close> is modelled for
  the patterns the source writes, \<open>GET\<close> and a path without wildcards that may end in the marker of an
  exact match, and for requests whose path is clean and has no escapes (the others are
  redirected before any handler runs).
\<close>

section \<open>Definitions\<close>

subsection \<open>The subscription handler\<close>

definition servedTrafficLogFields :: "ServedTrafficHeader option \<Rightarrow> int \<times> int" where
  "servedTrafficLogFields h = (case h of None \<Rightarrow> (-1, -1) | Some h \<Rightarrow> (th_DailyAllowanceBytes h, th_ExpireUnix h))"

definition servedSpendLogFields :: "ServedTrafficHeader option \<Rightarrow> int \<times> int \<times> string \<times> bool" where
  "servedSpendLogFields h = (case h of
      None \<Rightarrow> (-1, -1, [], False)
    | Some h \<Rightarrow> (th_UsedTodayBytes h, th_TotalBytes h, th_SnapshotLocalDate h, th_RolloverFired h))"

record 'st SubscriptionDeps =
  sd_ulower :: "nat \<Rightarrow> nat"
  sd_cvt :: "rat \<Rightarrow> int"
  sd_unmarshal :: unmarshaller
  sd_encode :: "node \<Rightarrow> string + string"
  sd_snapshotter :: "'st snapshotOps option"
  sd_Pipeline :: Pipeline
  sd_Adapter :: string
  sd_Logger :: Logger

text \<open>The snapshot store is kept beside the pipeline, so \<open>WithSnapshotter\<close> sets it in the dependencies.\<close>

definition WithSnapshotter :: "'st snapshotOps option \<Rightarrow> 'a SubscriptionDeps \<Rightarrow> 'st SubscriptionDeps" where
  "WithSnapshotter s d =
     \<lparr>sd_ulower = sd_ulower d, sd_cvt = sd_cvt d, sd_unmarshal = sd_unmarshal d, sd_encode = sd_encode d, sd_snapshotter = s,
      sd_Pipeline = sd_Pipeline d, sd_Adapter = sd_Adapter d, sd_Logger = sd_Logger d\<rparr>"

lemma WithSnapshotter_sel [simp]:
  "sd_ulower (WithSnapshotter s d) = sd_ulower d" "sd_cvt (WithSnapshotter s d) = sd_cvt d"
  "sd_unmarshal (WithSnapshotter s d) = sd_unmarshal d" "sd_encode (WithSnapshotter s d) = sd_encode d"
  "sd_snapshotter (WithSnapshotter s d) = s" "sd_Pipeline (WithSnapshotter s d) = sd_Pipeline d"
  "sd_Adapter (WithSnapshotter s d) = sd_Adapter d" "sd_Logger (WithSnapshotter s d) = sd_Logger d"
  by (simp_all add: WithSnapshotter_def)

record looks =
  lk_ready :: Coordinator
  lk_succeeded :: Coordinator
  lk_cache :: "string \<Rightarrow> Coordinator"
  lk_headers :: "string \<Rightarrow> Coordinator"
  lk_clk1 :: time
  lk_clk2 :: time
  lk_written :: bool
  lk_states :: Coordinator
  lk_after :: "string \<Rightarrow> Coordinator"
  lk_afterClk :: time

text \<open>The loops of the pipeline ask the cache once per source, each time anew.\<close>

definition readerAt :: "(string \<Rightarrow> Coordinator) \<Rightarrow> cacheReader" where
  "readerAt look = (\<lambda>name. Get (co_cache (look name)) name)"

definition http_Error :: "string \<Rightarrow> int \<Rightarrow> Response" where
  "http_Error msg code =
     \<lparr>rp_Status = code, rp_Headers = [''Content-Type'' \<mapsto> ''text/plain; charset=utf-8'', ''X-Content-Type-Options'' \<mapsto> ''nosniff''],
      rp_Body = msg @ [CHR 0x0A]\<rparr>"

definition servedFields :: "Request \<Rightarrow> MergedConfig \<Rightarrow> Rendered \<Rightarrow> (string \<times> logValue) list" where
  "servedFields r merged rendered =
     (let (allowance, expireUnix) = servedTrafficLogFields (mc_ServedTrafficHeader merged);
          (usedToday, totalBytes, snapDate, rolloverFired) = servedSpendLogFields (mc_ServedTrafficHeader merged);
          fields = [(''path'', LStr (rq_Path r)),
            (''contributingSources'', LStrs (mc_ContributingSources merged)),
            (''proxies'', LInt (int (length (mc_Proxies merged)))),
            (''groups'', LInt (int (length (mc_ProxyGroups merged)))),
            (''rules'', LInt (int (length (mc_Rules merged)))),
            (''bytes'', LInt (int (length (rd_Body rendered)))),
            (''served_daily_allowance_bytes'', LInt allowance),
            (''served_expire_unix'', LInt expireUnix),
            (''served_used_today_bytes'', LInt usedToday),
            (''served_total_bytes'', LInt totalBytes),
            (''snapshot_local_date'', LStr snapDate),
            (''rollover_fired'', LBool rolloverFired)]
      in case TokenFromContext r of
           Some rec \<Rightarrow> fields @ [(''token_label'', LStr (tr_Label rec))]
         | None \<Rightarrow> fields)"

definition debugLines :: "'st SubscriptionDeps \<Rightarrow> looks \<Rightarrow> logLine list" where
  "debugLines dp lk =
     (if Enabled (sd_Logger dp) LevelDebug then
        let da = PipelineDailyAllowance (sd_cvt dp) (readerAt (lk_after lk)) (sd_Pipeline dp) (lk_afterClk lk) in
        [(LevelDebug, ''served daily allowance breakdown'',
          [(''per_day_rate_bytes'', LInt (da_PerDayRateBytes da)),
           (''no_expiry_remaining_bytes'', LInt (da_NoExpiryRemainingBytes da)),
           (''expired_source_flags'', LStrs (da_ExpiredSourceFlags da))])]
      else [])"

text \<open>The texts of the errors that are only logged are left out.\<close>

definition Subscription :: "'st SubscriptionDeps \<Rightarrow> looks \<Rightarrow> 'st handler" where
  "Subscription dp lk = (\<lambda>r st.
     if \<not> co_ready (lk_ready lk) then
       (\<lparr>rp_Status = 503, rp_Headers = [''Content-Type'' \<mapsto> ''application/json'', ''Retry-After'' \<mapsto> ''5''],
         rp_Body = ''{\"error\":\"warming_up\"}''\<rparr>, [], st)
     else if \<not> AllSucceeded (lk_succeeded lk) then
       (\<lparr>rp_Status = 503, rp_Headers = [''Content-Type'' \<mapsto> ''application/json''],
         rp_Body = ''{\"error\":\"bootstrap_failed\"}''\<rparr>, [], st)
     else case BuildLogged (sd_ulower dp) (sd_cvt dp) (sd_unmarshal dp) (readerAt (lk_cache lk))
         (readerAt (lk_headers lk)) (sd_snapshotter dp) (sd_Pipeline dp) (lk_clk1 lk) (lk_clk2 lk) st of
       (Inl _, st, lines) \<Rightarrow>
         (http_Error ''internal server error'' 500, lines @ [(LevelError, ''pipeline build failed'', [])], st)
     | (Inr merged, st, lines) \<Rightarrow>
         (case Render (sd_unmarshal dp) (sd_encode dp) (sd_Adapter dp) (Some merged) of
            Inl _ \<Rightarrow> (http_Error ''internal server error'' 500, lines @ [(LevelError, ''output render failed'', [])], st)
          | Inr rendered \<Rightarrow>
              (\<lparr>rp_Status = 200, rp_Headers = rd_Headers rendered, rp_Body = rd_Body rendered\<rparr>,
               lines @ (if \<not> lk_written lk then [(LevelWarn, ''write body failed'', [])]
                else (LevelInfo, ''served subscription'', servedFields r merged rendered) # debugLines dp lk), st)))"

subsection \<open>The health handler\<close>

record HealthResponse =
  hr_Bootstrap :: string
  hr_Sources :: "SourceState list"
  hr_DailyAllowance :: DailyAllowance

text \<open>The health view looks at the coordinator through \<open>Ready\<close>, \<open>AllSucceeded\<close>, \<open>SourceStates\<close> and the
  cache; \<open>now\<close> gives the readings of the clock in \<open>SourceStates\<close>.  An encoder error leaves the
  body empty.\<close>

definition healthBody :: "(rat \<Rightarrow> int) \<Rightarrow> Pipeline \<Rightarrow> (string \<Rightarrow> time) \<Rightarrow> looks \<Rightarrow> HealthResponse" where
  "healthBody cvt pipeline now lk =
     (let bootstrap = (if co_ready (lk_ready lk) then (if AllSucceeded (lk_succeeded lk) then ''succeeded'' else ''failed'')
            else ''warming_up'')
      in \<lparr>hr_Bootstrap = bootstrap, hr_Sources = SourceStates now (lk_states lk),
          hr_DailyAllowance = PipelineDailyAllowance cvt (readerAt (lk_after lk)) pipeline (lk_afterClk lk)\<rparr>)"

definition Health ::
  "(HealthResponse \<Rightarrow> string option) \<Rightarrow> (rat \<Rightarrow> int) \<Rightarrow> Pipeline \<Rightarrow> (string \<Rightarrow> time) \<Rightarrow> looks \<Rightarrow> 's handler" where
  "Health encodeJSON cvt pipeline now lk = (\<lambda>r st.
     let body = healthBody cvt pipeline now lk;
         status = (if hr_Bootstrap body \<noteq> ''succeeded'' then 503 else 200)
     in (\<lparr>rp_Status = status, rp_Headers = [''Content-Type'' \<mapsto> ''application/json''],
           rp_Body = (case encodeJSON body of Some b \<Rightarrow> b | None \<Rightarrow> [])\<rparr>,
         (case encodeJSON body of Some _ \<Rightarrow> [] | None \<Rightarrow> [(LevelWarn, ''encode /health body failed'', [])]), st))"

subsection \<open>Routes\<close>

definition NotFound :: Response where
  "NotFound = http_Error ''404 page not found'' 404"

definition StripPrefix :: "string \<Rightarrow> 's handler \<Rightarrow> 's handler" where
  "StripPrefix prefix h = (if prefix = [] then h else (\<lambda>r st.
     if HasPrefix (rq_Path r) prefix then h (r\<lparr>rq_Path := drop (length prefix) (rq_Path r)\<rparr>) st else (NotFound, [], st)))"

record 'st App =
  ap_cfg :: ServerConfig
  ap_sha256 :: "string \<Rightarrow> string"
  ap_tokens :: tokens
  ap_deps :: "'st SubscriptionDeps"
  ap_encodeJSON :: "HealthResponse \<Rightarrow> string option"

text \<open>The record groups the arguments of \<open>NewApp\<close> the way the handlers use them; the coordinator and the
  cache are looked at through \<open>looks\<close>.\<close>

definition NewApp :: "ServerConfig \<Rightarrow> (string \<Rightarrow> string) \<Rightarrow> tokens \<Rightarrow> 'st SubscriptionDeps \<Rightarrow>
    (HealthResponse \<Rightarrow> string option) \<Rightarrow> 'st App" where
  "NewApp cfg sha256 tokens deps encodeJSON =
     \<lparr>ap_cfg = cfg, ap_sha256 = sha256, ap_tokens = tokens, ap_deps = deps, ap_encodeJSON = encodeJSON\<rparr>"

text \<open>\<open>tokenNow\<close> and \<open>now\<close> are the readings of the clock in \<open>Lookup\<close> and in the health view.\<close>

definition subHandler :: "'st App \<Rightarrow> time \<Rightarrow> looks \<Rightarrow> 'st handler" where
  "subHandler a tokenNow lk =
     (let h = RequireToken (ap_sha256 a) tokenNow (ap_tokens a) (Subscription (ap_deps a) lk) in
      if length (cfg_AllowedUserAgentPrefixes (ap_cfg a)) > 0
      then RequireUserAgent (cfg_AllowedUserAgentPrefixes (ap_cfg a)) h else h)"

definition buildMux :: "'st App \<Rightarrow> time \<Rightarrow> (string \<Rightarrow> time) \<Rightarrow> looks \<Rightarrow> (string \<times> 'st handler) list" where
  "buildMux a tokenNow now lk =
     (let h = subHandler a tokenNow lk; p = cfg_URLPathPrefix (ap_cfg a) in
      (if p \<noteq> [] then [(''GET '' @ p, StripPrefix p h), (''GET '' @ p @ ''/{$}'', StripPrefix p h)]
       else [(''GET /{$}'', h)]) @
      [(''GET /health'', Health (ap_encodeJSON a) (sd_cvt (ap_deps a)) (sd_Pipeline (ap_deps a)) now lk)])"

text \<open>The path a pattern \<open>GET path\<close> matches.\<close>

definition patternPath :: "string \<Rightarrow> string" where
  "patternPath pat = (let path = drop 4 pat in if HasSuffix path ''/{$}'' then take (length path - 3) path else path)"

text \<open>Registering two patterns that match the same requests panics.\<close>

definition registers :: "(string \<times> 's handler) list \<Rightarrow> bool" where
  "registers mux = distinct (map (patternPath \<circ> fst) mux)"

definition methodNotAllowed :: Response where
  "methodNotAllowed =
     (let e = http_Error ''Method Not Allowed'' 405 in e\<lparr>rp_Headers := (rp_Headers e)(''Allow'' \<mapsto> ''GET, HEAD'')\<rparr>)"

definition ServeHTTP :: "(string \<times> 's handler) list \<Rightarrow> 's handler" where
  "ServeHTTP mux = (\<lambda>r st. case find (\<lambda>(pat, _). patternPath pat = rq_Path r) mux of
      None \<Rightarrow> (NotFound, [], st)
    | Some (_, h) \<Rightarrow> if rq_Method r = ''GET'' \<or> rq_Method r = ''HEAD'' then h r st else (methodNotAllowed, [], st))"

section \<open>Dispatch\<close>

definition plainPrefix :: "string \<Rightarrow> bool" where
  "plainPrefix p \<longleftrightarrow> prefixOk p \<and> list_all (\<lambda>c. c \<notin> {CHR ''{'', CHR ''}'', CHR ''%''}) p"

lemma patternPath_plain:
  assumes "plainPrefix p"
  shows "patternPath (''GET '' @ p) = p" "patternPath (''GET '' @ p @ ''/{$}'') = p @ ''/''"
proof -
  have "CHR ''{'' \<notin> set p" using assms unfolding plainPrefix_def list_all_iff by blast
  then have "\<not> HasSuffix p ''/{$}''" unfolding HasSuffix_iff by (intro notI) (elim exE, simp)
  then show "patternPath (''GET '' @ p) = p" by (simp add: patternPath_def)
  show "patternPath (''GET '' @ p @ ''/{$}'') = p @ ''/''" by (simp add: patternPath_def HasSuffix_iff)
qed

lemma patternPath_fixed [simp]: "patternPath ''GET /{$}'' = ''/''" "patternPath ''GET /health'' = ''/health''"
  by (simp_all add: patternPath_def HasSuffix_def HasPrefix_def)

text \<open>Mounting the handlers panics for exactly one prefix, that of the health route.\<close>

theorem buildMux_registers:
  assumes "plainPrefix (cfg_URLPathPrefix (ap_cfg a))"
  shows "registers (buildMux a tokenNow now lk) \<longleftrightarrow> cfg_URLPathPrefix (ap_cfg a) \<noteq> ''/health''"
proof -
  have "p @ ''/'' \<noteq> ''/health''" for p
  proof
    assume "p @ ''/'' = ''/health''"
    from arg_cong [OF this, of last] show False by simp
  qed
  then show ?thesis using assms
    by (cases "cfg_URLPathPrefix (ap_cfg a) = ''/health''")
      (simp_all add: buildMux_def Let_def registers_def patternPath_plain [simplified] eq_commute [of "''/health''"])
qed

text \<open>The paths of the subscription handler, and a request that reaches it.\<close>

definition subscriptionPath :: "string \<Rightarrow> string \<Rightarrow> bool" where
  "subscriptionPath p path \<longleftrightarrow> (if p = [] then path = ''/'' else path = p \<or> path = p @ ''/'')"

definition readMethod :: "Request \<Rightarrow> bool" where
  "readMethod r \<longleftrightarrow> rq_Method r = ''GET'' \<or> rq_Method r = ''HEAD''"

lemma Request_same_path: "rq_Path r = x \<Longrightarrow> r\<lparr>rq_Path := x\<rparr> = r"
  by (cases r) simp

lemma serve_subscription:
  assumes "plainPrefix (cfg_URLPathPrefix (ap_cfg a))" and "rq_Path r \<noteq> ''/health''"
  shows "ServeHTTP (buildMux a tokenNow now lk) r st =
    (if \<not> subscriptionPath (cfg_URLPathPrefix (ap_cfg a)) (rq_Path r) then (NotFound, [], st)
     else if \<not> readMethod r then (methodNotAllowed, [], st)
     else subHandler a tokenNow lk (r\<lparr>rq_Path := drop (length (cfg_URLPathPrefix (ap_cfg a))) (rq_Path r)\<rparr>) st)"
proof (cases "cfg_URLPathPrefix (ap_cfg a) = []")
  case True
  then show ?thesis using assms
    by (simp add: ServeHTTP_def buildMux_def Let_def subscriptionPath_def readMethod_def Request_same_path eq_commute [of "''/''"])
next
  case False
  then show ?thesis using assms
    by (simp add: ServeHTTP_def buildMux_def Let_def subscriptionPath_def readMethod_def patternPath_plain [simplified]
        StripPrefix_def HasPrefix_iff eq_commute [of _ "rq_Path r"])
qed

section \<open>Who is served\<close>

definition authorised :: "'st App \<Rightarrow> time \<Rightarrow> Request \<Rightarrow> bool" where
  "authorised a tokenNow r \<longleftrightarrow> agentAllowed (cfg_AllowedUserAgentPrefixes (ap_cfg a)) r \<and>
     rq_Query r ''token'' \<noteq> [] \<and> Lookup tokenNow (ap_tokens a) (rq_Query r ''token'') \<noteq> None"

definition liveRequest :: "'st App \<Rightarrow> time \<Rightarrow> Request \<Rightarrow> Request" where
  "liveRequest a tokenNow r = r\<lparr>rq_Path := drop (length (cfg_URLPathPrefix (ap_cfg a))) (rq_Path r),
     rq_Context := Lookup tokenNow (ap_tokens a) (rq_Query r ''token'')\<rparr>"

lemma agentAllowed_path [simp]: "agentAllowed ps (r\<lparr>rq_Path := x\<rparr>) = agentAllowed ps r"
  by (simp add: agentAllowed_def)

lemma RequireUserAgent_none [simp]: "RequireUserAgent [] h = h"
  by (simp add: RequireUserAgent_def)

lemma subHandler_authorised:
  "authorised a tokenNow r \<Longrightarrow>
   subHandler a tokenNow lk (r\<lparr>rq_Path := drop (length (cfg_URLPathPrefix (ap_cfg a))) (rq_Path r)\<rparr>) st =
     Subscription (ap_deps a) lk (liveRequest a tokenNow r) st"
  by (auto simp: authorised_def subHandler_def RequireToken_def RequireUserAgent_def agentAllowed_def liveRequest_def
      Let_def list_ex_iff HasPrefix_iff split: option.splits)

text \<open>A rejection is empty and depends on nothing behind the gate.\<close>

lemma subHandler_rejected:
  assumes "\<not> authorised a tokenNow r"
  shows "fst (subHandler (a\<lparr>ap_deps := dp\<rparr>) tokenNow lk (r\<lparr>rq_Path := path\<rparr>) st) =
      (if agentAllowed (cfg_AllowedUserAgentPrefixes (ap_cfg a)) r then statusOnly 401 else statusOnly 403)"
    and "snd (snd (subHandler (a\<lparr>ap_deps := dp\<rparr>) tokenNow lk (r\<lparr>rq_Path := path\<rparr>) st)) = st"
    and "fst (snd (subHandler (a\<lparr>ap_deps := dp\<rparr>) tokenNow lk (r\<lparr>rq_Path := path\<rparr>) st)) =
      fst (snd (subHandler (a\<lparr>ap_deps := dp'\<rparr>) tokenNow lk' (r\<lparr>rq_Path := path\<rparr>) st'))"
proof -
  let ?ps = "cfg_AllowedUserAgentPrefixes (ap_cfg a)" and ?r = "r\<lparr>rq_Path := path\<rparr>"
  let ?h = "\<lambda>dp lk. RequireToken (ap_sha256 a) tokenNow (ap_tokens a) (Subscription dp lk)"
  have sub: "subHandler (a\<lparr>ap_deps := dp\<rparr>) tokenNow lk = RequireUserAgent ?ps (?h dp lk)" for dp lk
    by (simp add: subHandler_def Let_def)
  have none: "(if rq_Query ?r ''token'' = [] then None else Lookup tokenNow (ap_tokens a) (rq_Query ?r ''token'')) = None"
    if "agentAllowed ?ps r"
    using assms that by (auto simp: authorised_def)
  show "fst (subHandler (a\<lparr>ap_deps := dp\<rparr>) tokenNow lk ?r st) = (if agentAllowed ?ps r then statusOnly 401 else statusOnly 403)"
    using none by (simp add: sub RequireUserAgent_gate RequireToken_gate)
  show "snd (snd (subHandler (a\<lparr>ap_deps := dp\<rparr>) tokenNow lk ?r st)) = st"
    using none by (simp add: sub RequireUserAgent_gate RequireToken_gate)
  have tok: "fst (snd (?h dp lk ?r st)) = fst (snd (?h dp' lk' ?r st'))" if "agentAllowed ?ps r"
    using none [OF that] by (simp add: RequireToken_def split: if_splits)
  show "fst (snd (subHandler (a\<lparr>ap_deps := dp\<rparr>) tokenNow lk ?r st)) = fst (snd (subHandler (a\<lparr>ap_deps := dp'\<rparr>) tokenNow lk' ?r st'))"
    using tok unfolding sub by (auto simp: RequireUserAgent_def agentAllowed_def Let_def list_ex_iff HasPrefix_iff)
qed

lemma served_authorised:
  assumes "plainPrefix (cfg_URLPathPrefix (ap_cfg a))" and "rq_Path r \<noteq> ''/health''"
    and "ServeHTTP (buildMux a tokenNow now lk) r st = (resp, logs, st')" and "rp_Status resp = 200 \<or> st' \<noteq> st"
  shows "authorised a tokenNow r \<and> subscriptionPath (cfg_URLPathPrefix (ap_cfg a)) (rq_Path r) \<and> readMethod r"
proof -
  let ?path = "drop (length (cfg_URLPathPrefix (ap_cfg a))) (rq_Path r)"
  note serve = assms(3) [unfolded serve_subscription [OF assms(1,2)]]
  have errs: "rp_Status NotFound \<noteq> 200" "rp_Status methodNotAllowed \<noteq> 200"
    by (simp_all add: NotFound_def methodNotAllowed_def http_Error_def)
  have path: "subscriptionPath (cfg_URLPathPrefix (ap_cfg a)) (rq_Path r)" and meth: "readMethod r"
    using serve assms(4) errs by (auto split: if_splits)
  then have sub: "subHandler a tokenNow lk (r\<lparr>rq_Path := ?path\<rparr>) st = (resp, logs, st')" using serve by simp
  have "authorised a tokenNow r"
  proof (rule ccontr)
    assume no: "\<not> authorised a tokenNow r"
    have "a\<lparr>ap_deps := ap_deps a\<rparr> = a" by (cases a) simp
    then show False
      using subHandler_rejected(1,2) [OF no, of "ap_deps a" lk ?path st] sub assms(4) by (auto simp: statusOnly_def split: if_splits)
  qed
  then show ?thesis using path meth by blast
qed

lemma serve_authorised:
  assumes "plainPrefix (cfg_URLPathPrefix (ap_cfg a))" and "rq_Path r \<noteq> ''/health''" and "authorised a tokenNow r"
    and "subscriptionPath (cfg_URLPathPrefix (ap_cfg a)) (rq_Path r)" and "readMethod r"
  shows "ServeHTTP (buildMux a tokenNow now lk) r st = Subscription (ap_deps a) lk (liveRequest a tokenNow r) st"
  unfolding serve_subscription [OF assms(1,2)] using assms(3-5) by (simp add: subHandler_authorised)

text \<open>Outside the health route a request is answered 200, or changes the traffic snapshot, only if
  it is a read of a subscription path with a live token and an allowed user agent, and only once the
  bootstrap is over and all its sources have succeeded.  Then the build succeeded, and the response
  is the rendered configuration, or an error without content if it could not be rendered.\<close>

theorem served_only_to_authorised:
  assumes "plainPrefix (cfg_URLPathPrefix (ap_cfg a))" and "rq_Path r \<noteq> ''/health''"
    and "ServeHTTP (buildMux a tokenNow now lk) r st = (resp, logs, st')" and "rp_Status resp = 200 \<or> st' \<noteq> st"
  shows "authorised a tokenNow r \<and> subscriptionPath (cfg_URLPathPrefix (ap_cfg a)) (rq_Path r) \<and> readMethod r \<and>
    co_ready (lk_ready lk) \<and> AllSucceeded (lk_succeeded lk) \<and>
    (\<exists>merged. Build (sd_ulower (ap_deps a)) (sd_cvt (ap_deps a)) (sd_unmarshal (ap_deps a)) (readerAt (lk_cache lk))
        (readerAt (lk_headers lk)) (sd_snapshotter (ap_deps a)) (sd_Pipeline (ap_deps a)) (lk_clk1 lk) (lk_clk2 lk) st = (Inr merged, st') \<and>
      (case Render (sd_unmarshal (ap_deps a)) (sd_encode (ap_deps a)) (sd_Adapter (ap_deps a)) (Some merged) of
         Inl _ \<Rightarrow> resp = http_Error ''internal server error'' 500
       | Inr rendered \<Rightarrow> resp = \<lparr>rp_Status = 200, rp_Headers = rd_Headers rendered, rp_Body = rd_Body rendered\<rparr>))"
proof -
  note auth = served_authorised [OF assms]
  then have h: "Subscription (ap_deps a) lk (liveRequest a tokenNow r) st = (resp, logs, st')"
    using assms(3) serve_authorised [OF assms(1,2)] by simp
  have gate: "co_ready (lk_ready lk)" "AllSucceeded (lk_succeeded lk)"
    using h assms(4) by (auto simp: Subscription_def split: if_splits)
  obtain b st1 where build: "Build (sd_ulower (ap_deps a)) (sd_cvt (ap_deps a)) (sd_unmarshal (ap_deps a)) (readerAt (lk_cache lk))
        (readerAt (lk_headers lk)) (sd_snapshotter (ap_deps a)) (sd_Pipeline (ap_deps a)) (lk_clk1 lk) (lk_clk2 lk) st = (b, st1)" by (metis surj_pair)
  show ?thesis
  proof (cases b)
    case (Inl e)
    then show ?thesis using h gate build Build_failure [OF build [unfolded Inl]] assms(4)
      by (auto simp: Subscription_def BuildLogged_split http_Error_def)
  next
    case (Inr merged)
    then show ?thesis using h gate build auth by (auto simp: Subscription_def BuildLogged_split split: sum.splits)
  qed
qed

text \<open>C10: outside \<open>/health\<close>, and for a path prefix without braces and percent signs, a request without a
  live token, or with a user agent that is not allowed, learns nothing and
  changes nothing: its response and the lines logged are the same whatever the coordinator, the
  caches, the pipeline, the template, the snapshot store and the clock readings behind the gate
  are, and it is a 401 or 403 without header and body or one of the mux's own 404 and 405.  The
  route \<open>/health\<close> is excluded: it shows the state of the coordinator and of the sources to anyone.\<close>

theorem unauthorised_learns_nothing:
  assumes "plainPrefix (cfg_URLPathPrefix (ap_cfg a))" and "rq_Path r \<noteq> ''/health''" and "\<not> authorised a tokenNow r"
    and "ServeHTTP (buildMux (a\<lparr>ap_deps := dp\<rparr>) tokenNow now lk) r st = (resp, logs, st1)"
  shows "st1 = st \<and> resp \<in> {statusOnly 401, statusOnly 403, NotFound, methodNotAllowed} \<and>
    ServeHTTP (buildMux (a\<lparr>ap_deps := dp'\<rparr>) tokenNow now' lk') r st' = (resp, logs, st')"
proof -
  let ?path = "drop (length (cfg_URLPathPrefix (ap_cfg a))) (rq_Path r)"
  have serve: "ServeHTTP (buildMux (a\<lparr>ap_deps := dp\<rparr>) tokenNow now lk) r st =
    (if \<not> subscriptionPath (cfg_URLPathPrefix (ap_cfg a)) (rq_Path r) then (NotFound, [], st)
     else if \<not> readMethod r then (methodNotAllowed, [], st)
     else subHandler (a\<lparr>ap_deps := dp\<rparr>) tokenNow lk (r\<lparr>rq_Path := ?path\<rparr>) st)" for dp now lk st
    using serve_subscription [of "a\<lparr>ap_deps := dp\<rparr>" r tokenNow now lk st] assms(1,2) by simp
  note rej = subHandler_rejected [OF assms(3)]
  have same: "subHandler (a\<lparr>ap_deps := dp'\<rparr>) tokenNow lk' (r\<lparr>rq_Path := ?path\<rparr>) st' = (resp, logs, st')"
    if "subHandler (a\<lparr>ap_deps := dp\<rparr>) tokenNow lk (r\<lparr>rq_Path := ?path\<rparr>) st = (resp, logs, st1)"
    using rej(1) [of dp lk ?path st] rej(1) [of dp' lk' ?path st'] rej(2) [of dp' lk' ?path st']
      rej(3) [of dp lk ?path st dp' lk' st'] that by (simp add: prod_eq_iff)
  have "st1 = st \<and> resp \<in> {statusOnly 401, statusOnly 403}"
    if "subHandler (a\<lparr>ap_deps := dp\<rparr>) tokenNow lk (r\<lparr>rq_Path := ?path\<rparr>) st = (resp, logs, st1)"
    using rej(1) [of dp lk ?path st] rej(2) [of dp lk ?path st] that by (auto split: if_splits)
  then show ?thesis using assms(4) same unfolding serve by (auto split: if_splits)
qed

section \<open>Health\<close>

text \<open>The health route and the subscription handler agree.  Looking at the same coordinators, the
  health route answers 503 exactly when the subscription handler turns an authorised request away
  with 503, and otherwise 200; the route never changes the state, and it lists every source once,
  in the order of the names.\<close>

theorem health_agrees:
  "let (resp, _, st') = Health encodeJSON cvt pipeline now lk r st; sources = hr_Sources (healthBody cvt pipeline now lk) in
     st' = st \<and> rp_Status resp = (if rp_Status (fst (Subscription dp lk r' st2)) = 503 then 503 else 200) \<and>
     sorted (map ss_Name sources) \<and> mset (map ss_Name sources) = mset (map fst (co_sources (lk_states lk)))"
proof -
  have "rp_Status (fst (Subscription dp lk r' st2)) = 503 \<longleftrightarrow> \<not> (co_ready (lk_ready lk) \<and> AllSucceeded (lk_succeeded lk))"
    by (auto simp: Subscription_def http_Error_def split: prod.splits sum.splits)
  then show ?thesis using SourceStates_names [of now "lk_states lk"]
    by (simp add: Health_def healthBody_def Let_def)
qed

section \<open>A ready server serves\<close>

lemma sched_run_trans:
  assumes "sched_run dp s2 bs2 s3" and "sched_run dp s1 bs1 s2"
  shows "\<exists>bs. sched_run dp s1 bs s3"
  using assms by (induction rule: sched_run.induct) (blast intro: sched_run.step)+

text \<open>A cache as the server starts with it, and every cache a run of the scheduler makes of it.\<close>

lemma served_cache_inv:
  assumes "sched_run dp (Start (NewCoordinator (snd (LoadFromDisk decode (d_unmarshal dp) rd (NewCache dir disk))) cfg rows)) bs s"
  shows "cache_inv (d_unmarshal dp) (co_cache (sy_co s))"
proof -
  let ?c = "snd (LoadFromDisk decode (d_unmarshal dp) rd (NewCache dir disk))"
  have "cache_inv (d_unmarshal dp) ?c"
    by (simp add: LoadFromDisk_def cache_inv_load split: dirRead.splits)
  moreover have "co_cache (sy_co (Start (NewCoordinator ?c cfg rows))) = ?c"
    by (simp add: Start_def signalReady_def NewCoordinator_def Let_def)
  ultimately show ?thesis using cached.inv_run [OF sched_cache_steps [OF assms, where decode = decode]] by simp
qed

lemma parsedOk_parseable:
  assumes "\<And>row p. row \<in> set rows \<Longrightarrow> get (row_Name row) = Some p \<Longrightarrow> parsedOk unmarshal p"
  shows "parseable unmarshal get rows"
proof -
  have "parsedOk unmarshal p \<Longrightarrow> (case fst (Parse unmarshal p) of Inl _ \<Rightarrow> False | Inr _ \<Rightarrow> True)" for p
    by (auto simp: parsedOk_def Parse_def split: option.splits)
  then show ?thesis using assms by (auto simp: parseable_def list_all_iff split: option.splits)
qed

text \<open>A server whose bootstrap has succeeded serves every authorised request: if every cache the
  build looks at holds parsed payloads only, the template is a mapping and the encoder accepts the
  document, the response is a 200 with the rendered configuration, to which exactly the enabled
  sources that had a payload when they were looked at contribute.\<close>

lemma ready_server_answers:
  assumes "\<And>row. row \<in> set (p_subscriptions (sd_Pipeline (ap_deps a))) \<Longrightarrow>
      cache_inv (sd_unmarshal (ap_deps a)) (co_cache (lk_cache lk (row_Name row)))"
    and "co_ready (lk_ready lk)" and "AllSucceeded (lk_succeeded lk)"
    and "plainPrefix (cfg_URLPathPrefix (ap_cfg a))" and "rq_Path r \<noteq> ''/health''"
    and "authorised a tokenNow r" and "subscriptionPath (cfg_URLPathPrefix (ap_cfg a)) (rq_Path r)" and "readMethod r"
  shows "\<exists>merged st'.
    Build (sd_ulower (ap_deps a)) (sd_cvt (ap_deps a)) (sd_unmarshal (ap_deps a)) (readerAt (lk_cache lk)) (readerAt (lk_headers lk))
      (sd_snapshotter (ap_deps a)) (sd_Pipeline (ap_deps a)) (lk_clk1 lk) (lk_clk2 lk) st = (Inr merged, st') \<and>
    fst (ServeHTTP (buildMux a tokenNow now lk) r st) =
      (case Render (sd_unmarshal (ap_deps a)) (sd_encode (ap_deps a)) (sd_Adapter (ap_deps a)) (Some merged) of
         Inl _ \<Rightarrow> http_Error ''internal server error'' 500
       | Inr rendered \<Rightarrow> \<lparr>rp_Status = 200, rp_Headers = rd_Headers rendered, rp_Body = rd_Body rendered\<rparr>)"
proof -
  let ?u = "sd_unmarshal (ap_deps a)"
  have ok: "parseable ?u (readerAt (lk_cache lk)) (p_subscriptions (sd_Pipeline (ap_deps a)))"
    using assms(1) by (intro parsedOk_parseable) (auto simp: cache_inv_def readerAt_def)
  obtain merged st' where build: "Build (sd_ulower (ap_deps a)) (sd_cvt (ap_deps a)) ?u (readerAt (lk_cache lk)) (readerAt (lk_headers lk))
      (sd_snapshotter (ap_deps a)) (sd_Pipeline (ap_deps a)) (lk_clk1 lk) (lk_clk2 lk) st = (Inr merged, st')"
    using Build_total [of "sd_ulower (ap_deps a)" "sd_cvt (ap_deps a)" ?u "readerAt (lk_cache lk)"] ok by metis
  then have "fst (Subscription (ap_deps a) lk (liveRequest a tokenNow r) st) =
      (case Render ?u (sd_encode (ap_deps a)) (sd_Adapter (ap_deps a)) (Some merged) of
         Inl _ \<Rightarrow> http_Error ''internal server error'' 500
       | Inr rendered \<Rightarrow> \<lparr>rp_Status = 200, rp_Headers = rd_Headers rendered, rp_Body = rd_Body rendered\<rparr>)"
    using assms(2,3) by (simp add: Subscription_def BuildLogged_split split: sum.split)
  moreover have "ServeHTTP (buildMux a tokenNow now lk) r st = Subscription (ap_deps a) lk (liveRequest a tokenNow r) st"
    by (rule serve_authorised [OF assms(4-8)])
  ultimately show ?thesis using build by auto
qed

text \<open>With a template that is a mapping and an encoder that accepts every document the answer is 200.\<close>

lemma ready_server_serves:
  assumes "\<And>row. row \<in> set (p_subscriptions (sd_Pipeline (ap_deps a))) \<Longrightarrow>
      cache_inv (sd_unmarshal (ap_deps a)) (co_cache (lk_cache lk (row_Name row)))"
    and "co_ready (lk_ready lk)" and "AllSucceeded (lk_succeeded lk)"
    and "sd_unmarshal (ap_deps a) (sd_Adapter (ap_deps a)) = Inr doc" and "nkind (docRoot doc) = MappingNode"
    and "\<And>n. \<exists>bytes. sd_encode (ap_deps a) n = Inr bytes"
    and "plainPrefix (cfg_URLPathPrefix (ap_cfg a))" and "rq_Path r \<noteq> ''/health''"
    and "authorised a tokenNow r" and "subscriptionPath (cfg_URLPathPrefix (ap_cfg a)) (rq_Path r)" and "readMethod r"
  shows "\<exists>merged rendered st'. fst (ServeHTTP (buildMux a tokenNow now lk) r st) =
      \<lparr>rp_Status = 200, rp_Headers = rd_Headers rendered, rp_Body = rd_Body rendered\<rparr> \<and>
    Build (sd_ulower (ap_deps a)) (sd_cvt (ap_deps a)) (sd_unmarshal (ap_deps a)) (readerAt (lk_cache lk)) (readerAt (lk_headers lk))
      (sd_snapshotter (ap_deps a)) (sd_Pipeline (ap_deps a)) (lk_clk1 lk) (lk_clk2 lk) st = (Inr merged, st') \<and>
    Render (sd_unmarshal (ap_deps a)) (sd_encode (ap_deps a)) (sd_Adapter (ap_deps a)) (Some merged) = Inr rendered"
proof -
  obtain merged st' where build: "Build (sd_ulower (ap_deps a)) (sd_cvt (ap_deps a)) (sd_unmarshal (ap_deps a)) (readerAt (lk_cache lk))
      (readerAt (lk_headers lk)) (sd_snapshotter (ap_deps a)) (sd_Pipeline (ap_deps a)) (lk_clk1 lk) (lk_clk2 lk) st = (Inr merged, st')"
    and resp: "fst (ServeHTTP (buildMux a tokenNow now lk) r st) =
      (case Render (sd_unmarshal (ap_deps a)) (sd_encode (ap_deps a)) (sd_Adapter (ap_deps a)) (Some merged) of
         Inl _ \<Rightarrow> http_Error ''internal server error'' 500
       | Inr rendered \<Rightarrow> \<lparr>rp_Status = 200, rp_Headers = rd_Headers rendered, rp_Body = rd_Body rendered\<rparr>)"
    using ready_server_answers [OF assms(1-3,7-11)] by blast
  obtain rendered where "Render (sd_unmarshal (ap_deps a)) (sd_encode (ap_deps a)) (sd_Adapter (ap_deps a)) (Some merged) = Inr rendered"
    using assms(4,5) assms(6) [of "renderDoc merged doc"] by (auto simp: Render_def)
  then show ?thesis using build resp by auto
qed

end
