(* ===== verification/Own_Proxies.thy ===== *)
theory Own_Proxies
  imports Yaml_Node Go_Text
begin

text \<open>
  \<open>internal/config/own_proxies.go\<close>: the operator's own proxies and groups.

  \<open>yaml.Unmarshal\<close> and the two uses of \<open>Node.Decode\<close> are arguments: decoding a node gives an
  error message or the fields of the anonymous struct it is decoded into.
\<close>

section \<open>Definitions\<close>

record proxyMeta =
  pm_Name :: string
  pm_Type :: string
  pm_Server :: string
  pm_Port :: int

record groupMeta =
  gm_Name :: string
  gm_Type :: string
  gm_Proxies :: "string list"

record OwnProxiesFile =
  op_Proxies :: "node list"
  op_ProxyGroups :: "node list"

datatype own_reason = ODecode string | OEmpty | ODuplicate | OOutOfRange int | OEmptyReference

record OwnProxyValidationError =
  oe_Entry :: string
  oe_Field :: string
  oe_Reason :: own_reason

datatype own_error = OwnUnreadable string | OwnUnparseable string | OwnInvalid OwnProxyValidationError

definition ownInvalid :: "string \<Rightarrow> string \<Rightarrow> own_reason \<Rightarrow> OwnProxyValidationError" where
  "ownInvalid entry field reason = \<lparr>oe_Entry = entry, oe_Field = field, oe_Reason = reason\<rparr>"

fun findSequence :: "string \<Rightarrow> node list \<Rightarrow> node list" where
  "findSequence key (k # v # r) = (if nvalue k = key \<and> nkind v = SequenceNode then content v else findSequence key r)"
| "findSequence key _ = []"

definition extractSequence :: "node \<Rightarrow> string \<Rightarrow> node list" where
  "extractSequence root key = (if nkind root \<noteq> MappingNode then [] else findSequence key (content root))"

definition entryLabel :: "string \<Rightarrow> nat \<Rightarrow> string" where
  "entryLabel list i = list @ ''['' @ Itoa (int i) @ '']''"

text \<open>The body of the loop over the proxies: the names so far, or the error.\<close>

definition validateProxy :: "(node \<Rightarrow> string + proxyMeta) \<Rightarrow> nat \<Rightarrow> node \<Rightarrow> string set \<Rightarrow> OwnProxyValidationError + string set" where
  "validateProxy decode i p proxyNames = (case decode p of
      Inl e \<Rightarrow> Inl (ownInvalid (entryLabel ''proxies'' i) [] (ODecode e))
    | Inr meta \<Rightarrow>
        if pm_Name meta = [] then Inl (ownInvalid (entryLabel ''proxies'' i) ''name'' OEmpty)
        else if pm_Name meta \<in> proxyNames then Inl (ownInvalid (pm_Name meta) ''name'' ODuplicate)
        else if pm_Type meta = [] then Inl (ownInvalid (pm_Name meta) ''type'' OEmpty)
        else if pm_Server meta = [] then Inl (ownInvalid (pm_Name meta) ''server'' OEmpty)
        else if pm_Port meta < 1 \<or> pm_Port meta > 65535 then Inl (ownInvalid (pm_Name meta) ''port'' (OOutOfRange (pm_Port meta)))
        else Inr (insert (pm_Name meta) proxyNames))"

definition validateGroup :: "(node \<Rightarrow> string + groupMeta) \<Rightarrow> nat \<Rightarrow> node \<Rightarrow> string set \<Rightarrow> OwnProxyValidationError + string set" where
  "validateGroup decode i g groupNames = (case decode g of
      Inl e \<Rightarrow> Inl (ownInvalid (entryLabel ''proxy-groups'' i) [] (ODecode e))
    | Inr meta \<Rightarrow>
        if gm_Name meta = [] then Inl (ownInvalid (entryLabel ''proxy-groups'' i) ''name'' OEmpty)
        else if gm_Name meta \<in> groupNames then Inl (ownInvalid (gm_Name meta) ''name'' ODuplicate)
        else if gm_Type meta = [] then Inl (ownInvalid (gm_Name meta) ''type'' OEmpty)
        else if [] \<in> set (gm_Proxies meta) then Inl (ownInvalid (gm_Name meta) ''proxies'' OEmptyReference)
        else Inr (insert (gm_Name meta) groupNames))"

fun validateAll :: "(nat \<Rightarrow> node \<Rightarrow> string set \<Rightarrow> OwnProxyValidationError + string set) \<Rightarrow> nat \<Rightarrow> node list \<Rightarrow> string set \<Rightarrow>
    OwnProxyValidationError option" where
  "validateAll check i [] seen = None"
| "validateAll check i (n # ns) seen = (case check i n seen of
      Inl e \<Rightarrow> Some e | Inr seen' \<Rightarrow> validateAll check (i + 1) ns seen')"

definition validateOwnProxies ::
  "(node \<Rightarrow> string + proxyMeta) \<Rightarrow> (node \<Rightarrow> string + groupMeta) \<Rightarrow> OwnProxiesFile \<Rightarrow> OwnProxyValidationError option" where
  "validateOwnProxies decodeProxy decodeGroup doc =
     (case validateAll (validateProxy decodeProxy) 0 (op_Proxies doc) {} of
        Some e \<Rightarrow> Some e
      | None \<Rightarrow> validateAll (validateGroup decodeGroup) 0 (op_ProxyGroups doc) {})"

definition LoadOwnProxies ::
  "(string \<Rightarrow> string + node) \<Rightarrow> (node \<Rightarrow> string + proxyMeta) \<Rightarrow> (node \<Rightarrow> string + groupMeta) \<Rightarrow> string + string \<Rightarrow>
     own_error + OwnProxiesFile" where
  "LoadOwnProxies unmarshal decodeProxy decodeGroup file = (case file of
      Inl e \<Rightarrow> Inl (OwnUnreadable e)
    | Inr b \<Rightarrow> (case unmarshal b of
        Inl e \<Rightarrow> Inl (OwnUnparseable e)
      | Inr doc \<Rightarrow>
          let root = (if nkind doc = DocumentNode \<and> length (content doc) > 0 then content doc ! 0 else doc);
              out = \<lparr>op_Proxies = extractSequence root ''proxies'', op_ProxyGroups = extractSequence root ''proxy-groups''\<rparr>
          in case validateOwnProxies decodeProxy decodeGroup out of
               Some e \<Rightarrow> Inl (OwnInvalid e)
             | None \<Rightarrow> Inr out))"

section \<open>Accepted files\<close>

definition proxyOk :: "(node \<Rightarrow> string + proxyMeta) \<Rightarrow> node \<Rightarrow> bool" where
  "proxyOk decode p = (case decode p of Inl _ \<Rightarrow> False | Inr m \<Rightarrow>
     pm_Name m \<noteq> [] \<and> pm_Type m \<noteq> [] \<and> pm_Server m \<noteq> [] \<and> 1 \<le> pm_Port m \<and> pm_Port m \<le> 65535)"

definition groupOk :: "(node \<Rightarrow> string + groupMeta) \<Rightarrow> node \<Rightarrow> bool" where
  "groupOk decode g = (case decode g of Inl _ \<Rightarrow> False | Inr m \<Rightarrow>
     gm_Name m \<noteq> [] \<and> gm_Type m \<noteq> [] \<and> [] \<notin> set (gm_Proxies m))"

text \<open>A check that refuses bad entries and repeated names, as the loop over a list sees it.\<close>

locale name_check =
  fixes check :: "nat \<Rightarrow> node \<Rightarrow> string set \<Rightarrow> OwnProxyValidationError + string set" and ok :: "node \<Rightarrow> bool" and name :: "node \<Rightarrow> string"
  assumes check_ok: "ok n \<Longrightarrow> name n \<notin> seen \<Longrightarrow> check i n seen = Inr (insert (name n) seen)"
    and check_bad: "\<not> ok n \<or> name n \<in> seen \<Longrightarrow> \<exists>e. check i n seen = Inl e"
begin

lemma validateAll_iff:
  "validateAll check i ns seen = None \<longleftrightarrow> list_all ok ns \<and> distinct (map name ns) \<and> set (map name ns) \<inter> seen = {}"
proof (induction ns arbitrary: i seen)
  case (Cons n ns)
  show ?case
  proof (cases "ok n \<and> name n \<notin> seen")
    case True
    then show ?thesis using Cons check_ok by auto
  next
    case False
    then obtain e where "check i n seen = Inl e" using check_bad by blast
    then show ?thesis using False by auto
  qed
qed simp

end

definition proxyNameOf :: "(node \<Rightarrow> string + proxyMeta) \<Rightarrow> node \<Rightarrow> string" where
  "proxyNameOf decode p = (case decode p of Inl _ \<Rightarrow> [] | Inr m \<Rightarrow> pm_Name m)"

definition groupNameOf :: "(node \<Rightarrow> string + groupMeta) \<Rightarrow> node \<Rightarrow> string" where
  "groupNameOf decode g = (case decode g of Inl _ \<Rightarrow> [] | Inr m \<Rightarrow> gm_Name m)"

interpretation proxies: name_check "validateProxy decode" "proxyOk decode" "proxyNameOf decode" for decode
  by unfold_locales (auto simp: validateProxy_def proxyOk_def proxyNameOf_def split: sum.splits)

interpretation groups: name_check "validateGroup decode" "groupOk decode" "groupNameOf decode" for decode
  by unfold_locales (auto simp: validateGroup_def groupOk_def groupNameOf_def split: sum.splits)

text \<open>Which own-proxies files are accepted.  A file that parses is accepted exactly when every proxy
  decodes with a name, a type, a server and a port from 1 to 65535, every group decodes with a name
  and a type and without empty members, and neither list repeats a name; the result is then the two
  sequences of the document.\<close>

theorem LoadOwnProxies_iff:
  assumes "unmarshal b = Inr doc" and "root = (if nkind doc = DocumentNode \<and> content doc \<noteq> [] then hd (content doc) else doc)"
    and "ps = extractSequence root ''proxies''" and "gs = extractSequence root ''proxy-groups''"
  shows "(LoadOwnProxies unmarshal decodeProxy decodeGroup (Inr b) = Inr \<lparr>op_Proxies = ps, op_ProxyGroups = gs\<rparr>) =
      (list_all (proxyOk decodeProxy) ps \<and> distinct (map (proxyNameOf decodeProxy) ps) \<and>
       list_all (groupOk decodeGroup) gs \<and> distinct (map (groupNameOf decodeGroup) gs)) \<and>
    (case LoadOwnProxies unmarshal decodeProxy decodeGroup (Inr b) of
       Inr out \<Rightarrow> out = \<lparr>op_Proxies = ps, op_ProxyGroups = gs\<rparr> | Inl e \<Rightarrow> (case e of OwnInvalid _ \<Rightarrow> True | _ \<Rightarrow> False))"
proof -
  let ?out = "\<lparr>op_Proxies = ps, op_ProxyGroups = gs\<rparr>"
  have r: "root = (if nkind doc = DocumentNode \<and> length (content doc) > 0 then content doc ! 0 else doc)"
    using assms(2) by (simp add: hd_conv_nth)
  have load: "LoadOwnProxies unmarshal decodeProxy decodeGroup (Inr b) =
      (case validateOwnProxies decodeProxy decodeGroup ?out of Some e \<Rightarrow> Inl (OwnInvalid e) | None \<Rightarrow> Inr ?out)"
    by (simp only: LoadOwnProxies_def sum.case assms(1) Let_def r [symmetric] assms(3,4) [symmetric])
  have "validateOwnProxies decodeProxy decodeGroup ?out = None \<longleftrightarrow>
      list_all (proxyOk decodeProxy) ps \<and> distinct (map (proxyNameOf decodeProxy) ps) \<and>
      list_all (groupOk decodeGroup) gs \<and> distinct (map (groupNameOf decodeGroup) gs)"
    using proxies.validateAll_iff [of decodeProxy 0 ps "{}"] groups.validateAll_iff [of decodeGroup 0 gs "{}"]
    by (auto simp: validateOwnProxies_def split: option.splits)
  then show ?thesis unfolding load by (auto split: option.splits)
qed

end
