(* ===== verification/Startup.thy ===== *)
theory Startup
  imports Routes Own_Proxies Custom_Rules Daily_Spend
begin

text \<open>
  \<open>cmd/server/main.go\<close>: the wiring of the server, from the environment to the application whose
  listener is opened.  The record \<open>world\<close> holds what the operating system and the libraries
  contribute: the variables, the files as they are read (the token file once more as it is when the
  watcher starts), the parsers and encoders.

  The coordinator is started in the background while the rest is loaded; its state when it starts is
  \<open>srv_system\<close>, and its runs are those of \<open>sched_run\<close>.  The lines \<open>run\<close> logs are in \<open>Startup_Log\<close>.
\<close>

section \<open>Definitions\<close>

datatype waitOutcome = BootstrapSettled | DeadlineElapsed | SignalReceived

record world =
  wd_env :: env
  wd_ulower :: "nat \<Rightarrow> nat"
  wd_loadLocation :: "string \<Rightarrow> location option"
  wd_urlParse :: url_parser
  wd_csv :: "string + csv_reads"
  wd_decodeTokens :: "string \<Rightarrow> string + TokenRecord option list"
  wd_tokensFile :: "string + string"
  wd_watchError :: "string option"
  wd_watchedFile :: "string + string"
  wd_decodePayload :: "string \<Rightarrow> UpstreamCachedPayload option"
  wd_encodePayload :: "UpstreamCachedPayload option \<Rightarrow> string"
  wd_cacheEntries :: dirRead
  wd_cacheDisk :: "string \<rightharpoonup> dirent"
  wd_unmarshal :: unmarshaller
  wd_encode :: "node \<Rightarrow> string + string"
  wd_decodeProxy :: "node \<Rightarrow> string + proxyMeta"
  wd_decodeGroup :: "node \<Rightarrow> string + groupMeta"
  wd_ownFile :: "string + string"
  wd_customDir :: "dirEntry list option"
  wd_sortSlice :: "CustomRuleSet list \<Rightarrow> CustomRuleSet list"
  wd_template :: "string + string"
  wd_urlSplit :: "string \<Rightarrow> (string \<times> string \<times> string) option"
  wd_cvt :: "rat \<Rightarrow> int"
  wd_sha256 :: "string \<Rightarrow> string"
  wd_encodeJSON :: "HealthResponse \<Rightarrow> string option"
  wd_saveFault :: "save_error option"
  wd_wait :: waitOutcome

datatype startup_error = ConfigRejected server_config_error | CSVRejected config_error
  | TokensRejected token_error | WatcherFailed string | OwnRejected own_error
  | TemplateRejected output_error | Interrupted

record Server =
  srv_system :: System
  srv_deps :: deps
  srv_watcher :: Watcher
  srv_app :: "filesystem App"

definition splitEnabled :: "SubscriptionRow list \<Rightarrow> SubscriptionRow list \<times> SubscriptionRow list" where
  "splitEnabled rows = fold (\<lambda>r (enabled, disabled).
     if row_Enable r then (enabled @ [r], disabled) else (enabled, disabled @ [r])) rows ([], [])"

definition rowNames :: "SubscriptionRow list \<Rightarrow> string list" where
  "rowNames rows = map row_Name rows"

definition configuredFetcher :: "ServerConfig \<Rightarrow> UpstreamFetcher" where
  "configuredFetcher cfg =
     (let httpFetcher = NewUpstreamFetcher (seconds 30) in
      if cfg_UpstreamUserAgent cfg \<noteq> [] then httpFetcher\<lparr>uf_UserAgent := cfg_UpstreamUserAgent cfg\<rparr> else httpFetcher)"

definition schedulerConfig :: "ServerConfig \<Rightarrow> SchedulerConfig" where
  "schedulerConfig cfg =
     \<lparr>sc_DefaultTTL = seconds (cfg_DefaultTTLSeconds cfg),
      sc_DefaultStaleOnError = seconds (cfg_DefaultStaleOnErrorSeconds cfg),
      sc_BootstrapMaxAttemptsPerSource = cfg_BootstrapMaxAttemptsPerSource cfg,
      sc_BootstrapAttemptDelay = seconds (cfg_BootstrapAttemptDelaySeconds cfg)\<rparr>"

definition wirePipeline :: "ServerConfig \<Rightarrow> SubscriptionRow list \<Rightarrow> OwnProxiesFile \<Rightarrow> CustomRuleSet list \<Rightarrow> Pipeline" where
  "wirePipeline cfg subs own customRules =
     (let p = NewPipeline subs (op_Proxies own) (op_ProxyGroups own) (cfg_DefaultProfileUpdateIntervalHours cfg);
          p = WithProxiesGroupName (cfg_ProxiesGroupName cfg) p;
          p = WithFallbackRuleTarget (cfg_FallbackRuleTarget cfg) p;
          p = WithURLTestParams (cfg_URLTestParams cfg) p;
          p = WithLoadBalanceParams (cfg_LoadBalanceParams cfg) p;
          p = WithBudgetLocation (cfg_BudgetLocation cfg) p
      in WithCustomRules customRules p)"

text \<open>How long the listener waits for the bootstrap, in nanoseconds.\<close>

definition bootstrapWait :: "ServerConfig \<Rightarrow> int" where
  "bootstrapWait cfg =
     seconds (wrap64 (wrap64 (cfg_BootstrapMaxAttemptsPerSource cfg * cfg_BootstrapAttemptDelaySeconds cfg) + 30))"

text \<open>The part of \<open>run\<close> after the files have been loaded.\<close>

definition assemble :: "world \<Rightarrow> ServerConfig \<Rightarrow> SubscriptionRow list \<Rightarrow> tokens \<Rightarrow> OwnProxiesFile \<Rightarrow> string \<Rightarrow> Server" where
  "assemble w cfg subs tokens own adapter =
     (let cache = snd (LoadFromDisk (wd_decodePayload w) (wd_unmarshal w) (wd_cacheEntries w)
            (NewCache (cfg_CacheDir cfg) (wd_cacheDisk w)));
          customRules = LoadCustomRules (wd_sortSlice w) (wd_customDir w);
          coord = NewCoordinator cache (schedulerConfig cfg) subs;
          path = fsn_Path (NewFileSnapshotter (cfg_TodayZeroPath cfg))
      in \<lparr>srv_system = Start coord,
          srv_deps = \<lparr>d_ulower = wd_ulower w, d_urlSplit = wd_urlSplit w, d_unmarshal = wd_unmarshal w,
            d_userAgent = uf_UserAgent (configuredFetcher cfg), d_encode = wd_encodePayload w\<rparr>,
          srv_watcher = Watch (wd_watchedFile w) tokens,
          srv_app = NewApp cfg (wd_sha256 w) tokens
            (WithSnapshotter (Some (FileLoad path, FileSave path (wd_saveFault w)))
              \<lparr>sd_ulower = wd_ulower w, sd_cvt = wd_cvt w, sd_unmarshal = wd_unmarshal w, sd_encode = wd_encode w,
               sd_snapshotter = (None :: unit snapshotOps option), sd_Pipeline = wirePipeline cfg subs own customRules,
               sd_Adapter = adapter, sd_Logger = New (cfg_LogLevel cfg) (Some Stdout)\<rparr>)
            (wd_encodeJSON w)\<rparr>)"

definition run :: "world \<Rightarrow> (startup_error + Server) panicking" where
  "run w = (case LoadConfig (wd_ulower w) (wd_loadLocation w) (wd_env w) of
      Inl e \<Rightarrow> Returns (Inl (ConfigRejected e))
    | Inr cfg \<Rightarrow> (case LoadSubscriptions (wd_ulower w) (wd_urlParse w) (cfg_SubscriptionsCSVPath cfg) (wd_csv w) of
      Inl e \<Rightarrow> Returns (Inl (CSVRejected e))
    | Inr subs \<Rightarrow> (case LoadTokens (wd_decodeTokens w) (wd_tokensFile w) NewTokenStore of
      Panic \<Rightarrow> Panic
    | Returns (Some e, _) \<Rightarrow> Returns (Inl (TokensRejected e))
    | Returns (None, tokens) \<Rightarrow> (case wd_watchError w of
      Some e \<Rightarrow> Returns (Inl (WatcherFailed e))
    | None \<Rightarrow> (case LoadOwnProxies (wd_unmarshal w) (wd_decodeProxy w) (wd_decodeGroup w) (wd_ownFile w) of
      Inl e \<Rightarrow> Returns (Inl (OwnRejected e))
    | Inr own \<Rightarrow> (case NewSubscriptionMode (wd_unmarshal w) (wd_template w) of
      Inl e \<Rightarrow> Returns (Inl (TemplateRejected e))
    | Inr adapter \<Rightarrow>
        if wd_wait w = SignalReceived then Returns (Inl Interrupted)
        else Returns (Inr (assemble w cfg subs tokens own adapter))))))))"

section \<open>A started server\<close>

lemma splitEnabled_filter: "splitEnabled rows = (filter row_Enable rows, filter (\<lambda>r. \<not> row_Enable r) rows)"
proof -
  have "fold (\<lambda>r (enabled, disabled). if row_Enable r then (enabled @ [r], disabled) else (enabled, disabled @ [r])) rows (a, b) =
      (a @ filter row_Enable rows, b @ filter (\<lambda>r. \<not> row_Enable r) rows)" for a b
    by (induction rows arbitrary: a b) simp_all
  then show ?thesis by (simp add: splitEnabled_def)
qed

lemma run_ok:
  assumes "run w = Returns (Inr srv)"
  obtains cfg reads subs tokens own adapter where
    "LoadConfig (wd_ulower w) (wd_loadLocation w) (wd_env w) = Inr cfg" and "wd_csv w = Inr reads"
    and "parseSubscriptions (wd_ulower w) (wd_urlParse w) reads = Inr subs"
    and "LoadTokens (wd_decodeTokens w) (wd_tokensFile w) NewTokenStore = Returns (None, tokens)"
    and "LoadOwnProxies (wd_unmarshal w) (wd_decodeProxy w) (wd_decodeGroup w) (wd_ownFile w) = Inr own"
    and "wd_template w = Inr adapter" and "\<exists>doc. wd_unmarshal w adapter = Inr doc"
    and "srv = assemble w cfg subs tokens own adapter"
  using assms that
  by (auto simp: run_def NewSubscriptionMode_def LoadSubscriptions_def split: sum.splits panicking.splits option.splits if_splits)

definition startRows :: "Server \<Rightarrow> SubscriptionRow list" where
  "startRows srv = p_subscriptions (sd_Pipeline (ap_deps (srv_app srv)))"

lemma wirePipeline_subscriptions [simp]: "p_subscriptions (wirePipeline cfg subs own rules) = subs"
  by (simp add: wirePipeline_def Let_def NewPipeline_def WithProxiesGroupName_def WithFallbackRuleTarget_def
      WithURLTestParams_def WithLoadBalanceParams_def WithBudgetLocation_def WithCustomRules_def)

lemma assemble_sel [simp]:
  "srv_system (assemble w cfg subs tokens own adapter) =
     Start (NewCoordinator (snd (LoadFromDisk (wd_decodePayload w) (wd_unmarshal w) (wd_cacheEntries w)
       (NewCache (cfg_CacheDir cfg) (wd_cacheDisk w)))) (schedulerConfig cfg) subs)"
  "d_unmarshal (srv_deps (assemble w cfg subs tokens own adapter)) = wd_unmarshal w"
  "ap_cfg (srv_app (assemble w cfg subs tokens own adapter)) = cfg"
  "ap_tokens (srv_app (assemble w cfg subs tokens own adapter)) = tokens"
  "sd_unmarshal (ap_deps (srv_app (assemble w cfg subs tokens own adapter))) = wd_unmarshal w"
  "sd_encode (ap_deps (srv_app (assemble w cfg subs tokens own adapter))) = wd_encode w"
  "sd_Adapter (ap_deps (srv_app (assemble w cfg subs tokens own adapter))) = adapter"
  "startRows (assemble w cfg subs tokens own adapter) = subs"
  by (simp_all add: assemble_def NewApp_def Let_def startRows_def)

text \<open>What a start guarantees: the adapter is a parsed template, the prefix is one the mux accepts, and
  every cache a run of the scheduler reaches holds parsed payloads only.\<close>

lemma started_template:
  assumes "run w = Returns (Inr srv)" and "wd_template w = Inr tmpl"
  shows "sd_unmarshal (ap_deps (srv_app srv)) = wd_unmarshal w" and "sd_encode (ap_deps (srv_app srv)) = wd_encode w"
    and "sd_Adapter (ap_deps (srv_app srv)) = tmpl" and "\<exists>doc. wd_unmarshal w tmpl = Inr doc"
proof -
  from assms(1) have "sd_unmarshal (ap_deps (srv_app srv)) = wd_unmarshal w \<and> sd_encode (ap_deps (srv_app srv)) = wd_encode w \<and>
      sd_Adapter (ap_deps (srv_app srv)) = tmpl \<and> (\<exists>doc. wd_unmarshal w tmpl = Inr doc)"
    by (rule run_ok) (use assms(2) in simp)
  then show "sd_unmarshal (ap_deps (srv_app srv)) = wd_unmarshal w" "sd_encode (ap_deps (srv_app srv)) = wd_encode w"
    "sd_Adapter (ap_deps (srv_app srv)) = tmpl" "\<exists>doc. wd_unmarshal w tmpl = Inr doc" by blast+
qed

lemma started_prefix:
  assumes "run w = Returns (Inr srv)"
    and "list_all (\<lambda>c. c \<notin> {CHR ''{'', CHR ''}'', CHR ''%''}) (cfg_URLPathPrefix (ap_cfg (srv_app srv)))"
  shows "plainPrefix (cfg_URLPathPrefix (ap_cfg (srv_app srv)))"
  using assms(1)
proof (rule run_ok)
  fix cfg reads subs tokens own adapter
  assume cfg: "LoadConfig (wd_ulower w) (wd_loadLocation w) (wd_env w) = Inr cfg" and srv: "srv = assemble w cfg subs tokens own adapter"
  show ?thesis using LoadConfig_accepted [OF cfg] assms(2) by (simp add: srv plainPrefix_def)
qed

lemma started_cache_inv:
  assumes "run w = Returns (Inr srv)" and "sched_run (srv_deps srv) (srv_system srv) bs s"
  shows "cache_inv (wd_unmarshal w) (co_cache (sy_co s))"
  using assms(1)
proof (rule run_ok)
  fix cfg reads subs tokens own adapter
  assume srv: "srv = assemble w cfg subs tokens own adapter"
  have u: "d_unmarshal (srv_deps srv) = wd_unmarshal w" by (simp add: srv)
  have "sched_run (srv_deps srv) (Start (NewCoordinator (snd (LoadFromDisk (wd_decodePayload w) (d_unmarshal (srv_deps srv))
      (wd_cacheEntries w) (NewCache (cfg_CacheDir cfg) (wd_cacheDisk w)))) (schedulerConfig cfg) subs)) bs s"
    using assms(2) unfolding u srv assemble_sel .
  from served_cache_inv [OF this] show ?thesis unfolding u .
qed

text \<open>C27: a server that started does not crash on a ticker.  As long as the default interval and the
  intervals of the rows are at most 9223372036 seconds, no goroutine of any run of its scheduler
  panics: the configuration has made the default interval positive.\<close>

theorem started_never_panics:
  assumes "run w = Returns (Inr srv)" and "cfg_DefaultTTLSeconds (ap_cfg (srv_app srv)) \<le> 9223372036"
    and "list_all (\<lambda>row. row_RefreshSeconds row \<le> 9223372036) (startRows srv)"
    and "sched_run (srv_deps srv) (srv_system srv) bs s"
  shows "\<not> crashed s"
  using assms(1)
proof (rule run_ok)
  fix cfg reads subs tokens own adapter
  assume cfg: "LoadConfig (wd_ulower w) (wd_loadLocation w) (wd_env w) = Inr cfg" and srv: "srv = assemble w cfg subs tokens own adapter"
  have "0 < cfg_DefaultTTLSeconds cfg" using LoadConfig_accepted [OF cfg] by (simp add: intsOk_def)
  then have "0 < sc_DefaultTTL (schedulerConfig cfg)" using assms(2) by (simp add: srv schedulerConfig_def seconds_pos)
  then show ?thesis using tickers_positive assms(3,4) unfolding srv assemble_sel by blast
qed

text \<open>From the environment to the response.  Take a server that started, in any state its scheduler
  can reach from there in which the bootstrap is over and all sources have succeeded, and a request
  for a subscription path with a live token and an allowed user agent.  If the path prefix has no wildcard, the template
  is a mapping and the YAML encoder does not fail, the response is a 200 with the rendered
  configuration, and the sources that contribute to it are exactly the enabled rows of the CSV file
  that have a payload.\<close>

theorem started_server_serves:
  assumes "run w = Returns (Inr srv)"
    and "sched_run (srv_deps srv) (srv_system srv) bs1 s1" and "sched_run (srv_deps srv) s1 bs2 s2"
    and "\<And>name. sched_run (srv_deps srv) s2 (bs3 name) (s3 name)"
    and "lk_ready lk = sy_co s1" and "lk_succeeded lk = sy_co s2" and "lk_cache lk = sy_co \<circ> s3"
    and "co_ready (sy_co s1)" and "AllSucceeded (sy_co s2)"
    and "\<And>doc. wd_unmarshal w tmpl = Inr doc \<Longrightarrow> nkind (docRoot doc) = MappingNode"
    and "wd_template w = Inr tmpl" and "\<And>n. \<exists>bytes. wd_encode w n = Inr bytes"
    and "list_all (\<lambda>c. c \<notin> {CHR ''{'', CHR ''}'', CHR ''%''}) (cfg_URLPathPrefix (ap_cfg (srv_app srv)))"
    and "authorised (srv_app srv) tokenNow r" and "readMethod r" and "rq_Path r \<noteq> ''/health''"
    and "subscriptionPath (cfg_URLPathPrefix (ap_cfg (srv_app srv))) (rq_Path r)"
  shows "\<exists>merged rendered. fst (ServeHTTP (buildMux (srv_app srv) tokenNow now lk) r fs) =
      \<lparr>rp_Status = 200, rp_Headers = rd_Headers rendered, rp_Body = rd_Body rendered\<rparr> \<and>
    Render (wd_unmarshal w) (wd_encode w) tmpl (Some merged) = Inr rendered \<and>
    mset (mc_ContributingSources merged) =
      mset (map row_Name (filter (\<lambda>row. row_Enable row \<and> Get (co_cache (sy_co (s3 (row_Name row)))) (row_Name row) \<noteq> None) (startRows srv)))"
proof -
  note t = started_template [OF assms(1,11)]
  obtain doc where doc: "wd_unmarshal w tmpl = Inr doc" using t by blast
  have "cache_inv (wd_unmarshal w) (co_cache (lk_cache lk name))" for name
    using started_cache_inv [OF assms(1)] sched_run_trans [OF assms(4) [of name]] sched_run_trans [OF assms(3,2)]
    by (metis assms(7) comp_apply)
  then have "\<exists>merged rendered st'. fst (ServeHTTP (buildMux (srv_app srv) tokenNow now lk) r fs) =
      \<lparr>rp_Status = 200, rp_Headers = rd_Headers rendered, rp_Body = rd_Body rendered\<rparr> \<and>
      Build (sd_ulower (ap_deps (srv_app srv))) (sd_cvt (ap_deps (srv_app srv))) (wd_unmarshal w) (readerAt (lk_cache lk)) (readerAt (lk_headers lk))
        (sd_snapshotter (ap_deps (srv_app srv))) (sd_Pipeline (ap_deps (srv_app srv))) (lk_clk1 lk) (lk_clk2 lk) fs = (Inr merged, st') \<and>
      Render (wd_unmarshal w) (wd_encode w) tmpl (Some merged) = Inr rendered"
    using ready_server_serves [of "srv_app srv" lk doc r tokenNow now fs] assms(5-9) t doc assms(10) [OF doc] assms(12)
      started_prefix [OF assms(1,13)] assms(14-17) by simp
  then obtain merged rendered st' where r: "fst (ServeHTTP (buildMux (srv_app srv) tokenNow now lk) r fs) =
      \<lparr>rp_Status = 200, rp_Headers = rd_Headers rendered, rp_Body = rd_Body rendered\<rparr>"
      "Render (wd_unmarshal w) (wd_encode w) tmpl (Some merged) = Inr rendered"
    and b: "Build (sd_ulower (ap_deps (srv_app srv))) (sd_cvt (ap_deps (srv_app srv))) (wd_unmarshal w) (readerAt (lk_cache lk)) (readerAt (lk_headers lk))
        (sd_snapshotter (ap_deps (srv_app srv))) (sd_Pipeline (ap_deps (srv_app srv))) (lk_clk1 lk) (lk_clk2 lk) fs = (Inr merged, st')" by blast
  have "mset (mc_ContributingSources merged) =
      mset (map row_Name (filter (\<lambda>row. row_Enable row \<and> Get (co_cache (sy_co (s3 (row_Name row)))) (row_Name row) \<noteq> None) (startRows srv)))"
    using Build_contributing [OF b] by (simp add: startRows_def readerAt_def assms(7))
  with r show ?thesis by blast
qed

end
