(* ===== verification/Witnesses_Startup.thy ===== *)
theory Witnesses_Startup
  imports Witnesses_Serving Startup
begin

text \<open>
  Concrete instances of the theorems about configuration, tokens, routes and startup: a complete
  environment for one source whose payload is on disk.
\<close>

section \<open>Tokens\<close>

definition sampleToken :: TokenRecord where
  "sampleToken = \<lparr>tr_Token = ''s3cret'', tr_Label = ''phone'', tr_IssuedAt = 0, tr_Revoked = False, tr_ExpiresAt = Some 1000\<rparr>"

definition revokedToken :: TokenRecord where
  "revokedToken = \<lparr>tr_Token = ''old'', tr_Label = ''tablet'', tr_IssuedAt = 0, tr_Revoked = True, tr_ExpiresAt = None\<rparr>"

definition sampleDecode :: "string \<Rightarrow> string + TokenRecord option list" where
  "sampleDecode b = (if b = ''bad'' then Inl ''invalid character'' else Inr [Some sampleToken, Some revokedToken])"

definition sampleStore :: tokens where
  "sampleStore = [(''s3cret'', sampleToken), (''old'', revokedToken)]"

lemma sampleStore_loaded: "LoadTokens sampleDecode (Inr ''json'') NewTokenStore = Returns (None, sampleStore)"
  by (simp add: LoadTokens_def sampleDecode_def sampleToken_def revokedToken_def sampleStore_def)

theorem LoadTokens_lookup_witness:
  "case LoadTokens sampleDecode (Inr ''json'') [] of
      Panic \<Rightarrow> False
    | Returns (err, s') \<Rightarrow> err = None \<and> Lookup 5 s' ''s3cret'' = Some sampleToken"
  using LoadTokens_lookup [where decode = sampleDecode and b = "''json''" and recs = "[sampleToken, revokedToken]" and s = "[]"
      and now = 5 and token = "''s3cret''" and rec = sampleToken]
  by (auto simp: sampleDecode_def tokensOk_def sampleToken_def revokedToken_def expired_def split: panicking.splits)

theorem token_counts_witness: "ActiveCount 5 sampleStore = 1 \<and> RevokedCount sampleStore = 1"
  using token_counts [of sampleStore 5] by (simp add: sampleStore_def Lookup_def sampleToken_def revokedToken_def expired_def)

text \<open>An edit that breaks the file, the event, the timer: the store stays as it was.\<close>

definition sampleWatcher :: Watcher where
  "sampleWatcher = Watch (Inr ''bad'') sampleStore"

lemma sample_watch: "(lone_step sampleDecode ''tokens.json'')\<^sup>*\<^sup>* (Watch (Inr ''json'') sampleStore) sampleWatcher"
proof -
  let ?w = "\<lambda>file q tm loads. \<lparr>w_file = file, w_queue = q, w_timer = tm, w_loads = loads, w_running = True, w_crashed = False,
    w_store = sampleStore\<rparr>"
  let ?ev = "FsEvent ''tokens.json'' True" and ?bad = "Inr ''bad''" and ?r = "lone_step sampleDecode ''tokens.json''"
  have s1: "?r (?w (Inr ''json'') [] None []) (?w ?bad [?ev] None [])"
    using watch_step.edit [of sampleDecode "''tokens.json''" "?w (Inr ''json'') [] None []" ?bad] by (simp add: lone_step_def)
  have s2: "?r (?w ?bad [?ev] None []) (?w ?bad [] (Some tokenReloadDebounce) [])"
    using watch_step.event [of "?w ?bad [?ev] None []" ?ev "[]" sampleDecode "''tokens.json''" 0]
    by (simp add: lone_step_def handleEvent_def triggerReload_def)
  have s3: "?r (?w ?bad [] (Some tokenReloadDebounce) []) (?w ?bad [] None [Started])"
    using watch_step.fire [of "?w ?bad [] (Some tokenReloadDebounce) []" tokenReloadDebounce tokenReloadDebounce]
    by (simp add: lone_step_def)
  have s4: "?r (?w ?bad [] None [Started]) (?w ?bad [] None [HasRead ?bad])"
    using watch_step.read [of "?w ?bad [] None [Started]" 0] by (simp add: lone_step_def)
  have s5: "?r (?w ?bad [] None [HasRead ?bad]) (?w ?bad [] None [])"
    using watch_step.swap [of "?w ?bad [] None [HasRead ?bad]" 0 ?bad sampleDecode "''tokens.json''"]
    by (simp add: lone_step_def reload_def LoadTokens_def sampleDecode_def)
  have "?r\<^sup>*\<^sup>* (?w (Inr ''json'') [] None []) (?w ?bad [] None [])"
    using s1 s2 s3 s4 s5 by (meson converse_rtranclp_into_rtranclp rtranclp.rtrancl_refl)
  then show ?thesis by (simp add: Watch_def sampleWatcher_def)
qed


section \<open>Authentication\<close>

definition sampleRequest :: Request where
  "sampleRequest = \<lparr>rq_Method = ''GET'', rq_Path = ''/'', rq_Remote = ''10.0.0.1:5000'',
     rq_Query = (\<lambda>k. if k = ''token'' then ''s3cret'' else []), rq_Header = (\<lambda>k. if k = ''User-Agent'' then ''clash/1'' else []),
     rq_Context = None\<rparr>"

definition sampleHash :: "string \<Rightarrow> string" where
  "sampleHash _ = replicate 32 (CHR ''x'')"

definition sampleHandler :: "unit handler" where
  "sampleHandler = (\<lambda>r st. (statusOnly 200, [], st))"

theorem rejected_token_not_logged_witness:
  "RequireToken sampleHash 5 [] sampleHandler (sampleRequest\<lparr>rq_Query := (\<lambda>_. ''guess1'')\<rparr>) () =
   RequireToken sampleHash 5 [] sampleHandler (sampleRequest\<lparr>rq_Query := (\<lambda>_. ''guess2'')\<rparr>) ()"
  using rejected_token_not_logged [where now = 5 and store = "[]" and r = "sampleRequest\<lparr>rq_Query := (\<lambda>_. ''guess1'')\<rparr>"
      and r' = "sampleRequest\<lparr>rq_Query := (\<lambda>_. ''guess2'')\<rparr>" and ?sha256.0 = sampleHash and nxt = sampleHandler and st = "()"]
  by (simp add: Lookup_def sameButToken_def SanitizeToken_def sampleHash_def)

section \<open>Configuration\<close>

definition sampleEnv :: env where
  "sampleEnv = (\<lambda>_. [])(''SUBSCRIPTIONS_CSV_PATH'' := ''/d/s.csv'', ''OWN_PROXIES_YAML_PATH'' := ''/d/own.yaml'', ''TOKENS_PATH'' := ''/d/t.json'',
     ''SERVED_CONFIG_TEMPLATE_PATH'' := ''/d/t.yaml'', ''CACHE_DIR'' := ''/d/cache'', ''HONKAI_RULE_CLIENT_UA'' := ''clash'')"

definition sampleLocation :: "string \<Rightarrow> location option" where
  "sampleLocation _ = Some (\<lambda>t. (2024, 1, 1))"

definition sampleServerConfig :: ServerConfig where
  "sampleServerConfig = defaultConfig\<lparr>cfg_SubscriptionsCSVPath := ''/d/s.csv'', cfg_OwnProxiesYAMLPath := ''/d/own.yaml'', cfg_TokensPath := ''/d/t.json'',
     cfg_ServedConfigTemplatePath := ''/d/t.yaml'', cfg_CacheDir := ''/d/cache'', cfg_CustomRulesPath := ''./custom-rules/'',
     cfg_BudgetLocation := sampleLocation [], cfg_AllowedUserAgentPrefixes := [''clash'']\<rparr>"

lemma sample_loadRequired:
  "loadRequired sampleEnv requiredVars defaultConfig = Inr (defaultConfig\<lparr>cfg_SubscriptionsCSVPath := ''/d/s.csv'',
     cfg_OwnProxiesYAMLPath := ''/d/own.yaml'', cfg_TokensPath := ''/d/t.json'', cfg_ServedConfigTemplatePath := ''/d/t.yaml'', cfg_CacheDir := ''/d/cache''\<rparr>)"
  by (simp add: requiredVars_def sampleEnv_def Let_def)

lemma sample_loadInts: "loadInts sampleEnv intVars cfg = Inr cfg"
  by (simp add: intVars_def sampleEnv_def Let_def)

lemma sample_probes: "loadURLTest sampleEnv ut = (ut, [])" "loadLoadBalance sampleEnv lb = (lb, [])"
  by (simp_all add: loadURLTest_def loadLoadBalance_def parsePositiveInt_def parseLazy_def sampleEnv_def Let_def)

lemma sample_prefixes: "parsePrefixes ''clash'' = [''clash'']"
  by (simp add: parsePrefixes_def Prelude.Split_def solid_def)

lemma sample_loadBudget:
  "loadBudget sampleLocation sampleEnv cfg = Inr (cfg\<lparr>cfg_BudgetLocation := sampleLocation [], cfg_AllowedUserAgentPrefixes := [''clash'']\<rparr>)"
  by (simp add: loadBudget_def orEnv_def sampleEnv_def sampleLocation_def sample_prefixes Let_def)

lemma sample_loadNames: "loadNames sampleEnv cfg = cfg\<lparr>cfg_CustomRulesPath := ''./custom-rules/''\<rparr>"
  by (simp add: loadNames_def orEnv_def sampleEnv_def)

lemma sampleServerConfig_loaded: "LoadConfig id sampleLocation sampleEnv = Inr sampleServerConfig"
proof -
  have "sampleEnv ''LOG_LEVEL'' = []" by (simp add: sampleEnv_def)
  then show ?thesis
    by (simp add: LoadConfig_def sample_loadRequired sample_loadInts loadRest_def sample_loadNames sample_probes sample_loadBudget sampleServerConfig_def Let_def)
qed

theorem LoadConfig_wf_witness: "intsOk sampleServerConfig \<and> prefixOk (cfg_URLPathPrefix sampleServerConfig)"
  using LoadConfig_wf [OF sampleServerConfig_loaded] by simp

theorem LoadConfig_reports_witness:
  "accurate id sampleLocation (sampleEnv(''PORT'' := ''0'')) (NotPositive ''PORT'' 0)"
proof -
  let ?env = "sampleEnv(''PORT'' := ''0'')"
  have req: "loadRequired ?env requiredVars defaultConfig = loadRequired sampleEnv requiredVars defaultConfig"
    by (simp add: requiredVars_def sampleEnv_def Let_def)
  have "ParseInt ''0'' = Some 0" by (simp add: ParseInt_def ParseUint_def is_digit_def)
  then have "loadInts ?env intVars cfg = Inl (NotPositive ''PORT'' 0)" for cfg
    by (simp add: intVars_def sampleEnv_def Let_def)
  then have "LoadConfig id sampleLocation ?env = Inl (NotPositive ''PORT'' 0)"
    by (simp add: LoadConfig_def req sample_loadRequired)
  then show ?thesis by (rule LoadConfig_reports)
qed

section \<open>Own proxies\<close>

definition sampleProxyMeta :: "node \<Rightarrow> string + proxyMeta" where
  "sampleProxyMeta n = Inr \<lparr>pm_Name = getMappingField n ''name'', pm_Type = ''ss'', pm_Server = ''h'', pm_Port = 443\<rparr>"

definition sampleGroupMeta :: "node \<Rightarrow> string + groupMeta" where
  "sampleGroupMeta n = Inr \<lparr>gm_Name = getMappingField n ''name'', gm_Type = ''select'', gm_Proxies = mappingMembers n ''proxies''\<rparr>"

theorem LoadOwnProxies_iff_witness:
  "LoadOwnProxies sampleUnmarshal sampleProxyMeta sampleGroupMeta (Inr ''yaml'') =
     Inr \<lparr>op_Proxies = [sampleProxy ''HK 01''], op_ProxyGroups = [sampleGroup ''Pick'' [''HK 01'', ''DIRECT'']]\<rparr>"
proof -
  let ?doc = "projr (sampleUnmarshal [])"
  let ?root = "if nkind ?doc = DocumentNode \<and> content ?doc \<noteq> [] then hd (content ?doc) else ?doc"
  have u: "sampleUnmarshal ''yaml'' = Inr ?doc" by (simp add: sampleUnmarshal_def)
  have ps: "[sampleProxy ''HK 01''] = extractSequence ?root ''proxies''" by (simp only: sampleUnmarshal_def) code_simp
  have gs: "[sampleGroup ''Pick'' [''HK 01'', ''DIRECT'']] = extractSequence ?root ''proxy-groups''" by (simp only: sampleUnmarshal_def) code_simp
  have "proxyOk sampleProxyMeta (sampleProxy ''HK 01'')" "groupOk sampleGroupMeta (sampleGroup ''Pick'' [''HK 01'', ''DIRECT''])" by code_simp+
  then show ?thesis using LoadOwnProxies_iff [where unmarshal = sampleUnmarshal and b = "''yaml''" and doc = ?doc and ?root = ?root and decodeProxy = sampleProxyMeta and decodeGroup = sampleGroupMeta, OF u refl ps gs] by simp
qed

section \<open>A whole server\<close>

text \<open>One enabled source whose cached payload is fresh: the first attempt finds it, the goroutine marks
  the source, counts down and starts ticking, and \<open>Start\<close> returns.\<close>

definition bootedCo :: "SubscriptionRow \<Rightarrow> Coordinator \<Rightarrow> Coordinator" where
  "bootedCo row co = markBootstrap (row_Name row) BootstrapSucceeded co"

definition bootedSystem :: "SubscriptionRow \<Rightarrow> Coordinator \<Rightarrow> System" where
  "bootedSystem row co = \<lparr>sy_co = signalReady (bootedCo row co), sy_threads = [(row, enterSteady (co_cfg co) row)],
     sy_wg = 0, sy_cancelled = False, sy_returned = True\<rparr>"

lemma fresh_refresh:
  assumes "State (rg_check (at_readings att)) (co_cache co) (row_Name row) (fetchTTLFor (co_cfg co) row) = StateFresh"
    and "at_joined att = None"
  shows "\<exists>p. refresh dp att row co = ((p, False, None), co)"
proof -
  have "co\<lparr>co_cache := co_cache co\<rparr> = co" by (cases co) simp
  then show ?thesis using assms by (simp add: refresh_def RefreshIfStale_def Let_def split: prod.split)
qed

lemma fresh_bootstrap:
  fixes att :: attempt
  assumes "enabledSources co = [row]" and "enterSteady (co_cfg co) row \<noteq> Panicked"
    and "State (rg_check (at_readings att)) (co_cache co) (row_Name row) (fetchTTLFor (co_cfg co) row) = StateFresh"
    and "at_joined att = None"
  shows "sched_run dp (Start co) [True, True, True, True] (bootedSystem row co)"
proof -
  obtain p where r: "refresh dp att row co = ((p, False, None), co)" using fresh_refresh [OF assms(3,4)] by blast
  let ?s = "\<lambda>co pc wg. \<lparr>sy_co = co, sy_threads = [(row, pc)], sy_wg = wg, sy_cancelled = False, sy_returned = False\<rparr>"
  let ?steady = "enterSteady (co_cfg co) row"
  have start: "Start co = ?s co (BootAttempt 1) 1" using assms(1) by (simp add: Start_def)
  have cfg: "co_cfg (bootedCo row co) = co_cfg co"
    using evolves_ops(2) [of "row_Name row" BootstrapSucceeded co] by (simp add: evolves_def bootedCo_def)
  have t1: "thread_step dp False row (co, 1, BootAttempt 1) (co, 1, BootMark BootstrapSucceeded)"
    by (rule thread_step.boot_ok [OF _ r]) simp
  have t2: "thread_step dp False row (co, 1, BootMark BootstrapSucceeded) (bootedCo row co, 1, BootDone)"
    unfolding bootedCo_def by (rule thread_step.boot_mark)
  have t3: "thread_step dp False row (bootedCo row co, 1, BootDone) (bootedCo row co, 0, ?steady)"
    using thread_step.boot_done [of dp False row "bootedCo row co" 1] by (simp add: cfg)
  have s1: "sched_run dp (Start co) [True] (?s co (BootMark BootstrapSucceeded) 1)"
    using sched_run.step [OF sched_run.start sched_step.thread [of "Start co" 0 row "BootAttempt 1" dp]] t1 by (simp add: start crashed_def)
  have s2: "sched_run dp (Start co) [True, True] (?s (bootedCo row co) BootDone 1)"
    using sched_run.step [OF s1 sched_step.thread [of _ 0 row "BootMark BootstrapSucceeded"]] t2 by (simp add: crashed_def)
  have s3: "sched_run dp (Start co) [True, True, True] (?s (bootedCo row co) ?steady 0)"
    using sched_run.step [OF s2 sched_step.thread [of _ 0 row BootDone]] t3 by (simp add: crashed_def)
  show ?thesis using sched_run.step [OF s3 sched_step.return] assms(2) by (simp add: crashed_def bootedSystem_def)
qed

definition sampleWorld :: world where
  "sampleWorld = \<lparr>wd_env = sampleEnv, wd_ulower = id, wd_loadLocation = sampleLocation, wd_urlParse = sampleURL, wd_csv = Inr sampleReads,
     wd_decodeTokens = sampleDecode, wd_tokensFile = Inr ''json'', wd_watchError = None, wd_watchedFile = Inr ''json'',
     wd_decodePayload = (\<lambda>_. Some samplePayload), wd_encodePayload = (\<lambda>_. ''json''),
     wd_cacheEntries = Entries [(''alpha.json'', Bytes ''json'')], wd_cacheDisk = Map.empty,
     wd_unmarshal = sampleUnmarshal, wd_encode = sampleEncode, wd_decodeProxy = sampleProxyMeta, wd_decodeGroup = sampleGroupMeta,
     wd_ownFile = Inr ''yaml'', wd_customDir = None, wd_sortSlice = sort_key crs_key, wd_template = Inr ''template'',
     wd_urlSplit = (\<lambda>_. None), wd_cvt = (\<lambda>_. 0), wd_sha256 = sampleHash, wd_encodeJSON = (\<lambda>_. None), wd_saveFault = None,
     wd_wait = BootstrapSettled\<rparr>"

definition sampleRows :: "SubscriptionRow list" where
  "sampleRows = [sampleRow, sampleRow\<lparr>row_Name := ''beta'', row_Link := ''https://b.example/s'', row_Priority := 5, row_Enable := False\<rparr>]"

definition sampleOwn :: OwnProxiesFile where
  "sampleOwn = \<lparr>op_Proxies = [sampleProxy ''HK 01''], op_ProxyGroups = [sampleGroup ''Pick'' [''HK 01'', ''DIRECT'']]\<rparr>"

definition sampleServer :: Server where
  "sampleServer = assemble sampleWorld sampleServerConfig sampleRows sampleStore sampleOwn ''template''"

lemma sampleOwn_loaded: "LoadOwnProxies sampleUnmarshal sampleProxyMeta sampleGroupMeta (Inr ''yaml'') = Inr sampleOwn"
  by code_simp

lemma sample_started: "run sampleWorld = Returns (Inr sampleServer)"
proof -
  have "LoadSubscriptions id sampleURL path (Inr sampleReads) = Inr sampleRows" for path
    by (simp add: LoadSubscriptions_def sampleReads_parsed sampleRows_def sampleRow_def)
  moreover have "NewSubscriptionMode sampleUnmarshal (Inr ''template'') = Inr ''template''"
    by (simp add: NewSubscriptionMode_def sampleUnmarshal_def)
  ultimately show ?thesis
    by (simp add: run_def sampleServerConfig_loaded sampleStore_loaded sampleOwn_loaded sampleServer_def sampleWorld_def)
qed

definition sampleStartCo :: Coordinator where
  "sampleStartCo = NewCoordinator (snd (LoadFromDisk (\<lambda>_. Some samplePayload) sampleUnmarshal (Entries [(''alpha.json'', Bytes ''json'')])
     (NewCache ''/d/cache'' Map.empty))) (schedulerConfig sampleServerConfig) sampleRows"

lemma sample_booted: "sched_run dp (Start sampleStartCo) [True, True, True, True] (bootedSystem sampleRow sampleStartCo)"
proof (rule fresh_bootstrap [where att = "sampleAttempt\<lparr>at_readings := sampleReadings\<lparr>rg_check := 0\<rparr>\<rparr>"])
  show "enabledSources sampleStartCo = [sampleRow]"
    by (simp add: sampleStartCo_def NewCoordinator_def enabledSources_def sampleRows_def sampleRow_def)
  have ttl: "ttlFor (co_cfg sampleStartCo) sampleRow = 3600000000000"
    by (simp add: ttlFor_def refreshDisabled_def sampleRow_def sampleStartCo_def NewCoordinator_def schedulerConfig_def
        sampleServerConfig_def defaultConfig_def seconds_def wrap64_def)
  then show "enterSteady (co_cfg sampleStartCo) sampleRow \<noteq> Panicked" by (simp add: enterSteady_def)
  show "at_joined (sampleAttempt\<lparr>at_readings := sampleReadings\<lparr>rg_check := 0\<rparr>\<rparr>) = None" by (simp add: sampleAttempt_def)
  have "entry (co_cache sampleStartCo) ''alpha'' = Some (emptyEntry\<lparr>ce_payload := Some sampleParsed, ce_storedAt := 0\<rparr>)"
  proof -
    have "Ext ''alpha.json'' = ''.json''" by (simp add: Ext_json)
    then show ?thesis
      by (simp add: sampleStartCo_def NewCoordinator_def NewCache_def LoadFromDisk_def loadDiskEntry_eq loadedPayload_def sampleParsed_def
          sampleUnmarshal_def samplePayload_def SetParsed_def emptyEntry_def)
  qed
  then show "State (rg_check (at_readings (sampleAttempt\<lparr>at_readings := sampleReadings\<lparr>rg_check := 0\<rparr>\<rparr>))) (co_cache sampleStartCo) (row_Name sampleRow)
      (fetchTTLFor (co_cfg sampleStartCo) sampleRow) = StateFresh"
    using ttl by (simp add: State_def fetchTTLFor_def timeSub_def refreshDisabled_def sampleRow_def)
qed

definition sampleLooks :: looks where
  "sampleLooks = \<lparr>lk_ready = sy_co (bootedSystem sampleRow sampleStartCo), lk_succeeded = sy_co (bootedSystem sampleRow sampleStartCo),
     lk_cache = (\<lambda>_. sy_co (bootedSystem sampleRow sampleStartCo)), lk_headers = (\<lambda>_. sy_co (bootedSystem sampleRow sampleStartCo)),
     lk_clk1 = 0, lk_clk2 = 0, lk_written = True, lk_states = sy_co (bootedSystem sampleRow sampleStartCo),
     lk_after = (\<lambda>_. sy_co (bootedSystem sampleRow sampleStartCo)), lk_afterClk = 0\<rparr>"

lemma sampleServer_sel:
  "srv_system sampleServer = Start sampleStartCo" "cfg_DefaultTTLSeconds (ap_cfg (srv_app sampleServer)) = 3600"
  "startRows sampleServer = sampleRows" "cfg_URLPathPrefix (ap_cfg (srv_app sampleServer)) = []"
  by (simp_all add: sampleServer_def sampleStartCo_def sampleWorld_def sampleServerConfig_def defaultConfig_def)

lemma sample_authorised: "authorised (srv_app sampleServer) 5 sampleRequest"
  by (simp add: authorised_def agentAllowed_def sampleServer_def sampleServerConfig_def sampleRequest_def sampleStore_def Lookup_def
      sampleToken_def expired_def)

theorem started_never_panics_witness: "\<not> crashed (bootedSystem sampleRow sampleStartCo)"
proof -
  have "list_all (\<lambda>row. row_RefreshSeconds row \<le> 9223372036) (startRows sampleServer)"
    by (simp add: sampleServer_sel sampleRows_def sampleRow_def)
  then show ?thesis
    using started_never_panics [OF sample_started, of "[True, True, True, True]" "bootedSystem sampleRow sampleStartCo"] sample_booted
    by (simp add: sampleServer_sel)
qed

lemma sample_all: "AllSucceeded (sy_co (bootedSystem sampleRow sampleStartCo))" "co_ready (sy_co (bootedSystem sampleRow sampleStartCo))"
  by (simp_all add: bootedSystem_def bootedCo_def signalReady_def AllSucceeded_def markBootstrap_def updateSource_def sampleStartCo_def
      NewCoordinator_def sampleRows_def sampleRow_def)

lemma sample_run_booted: "sched_run (srv_deps sampleServer) (srv_system sampleServer) [True, True, True, True] (bootedSystem sampleRow sampleStartCo)"
  unfolding sampleServer_sel by (rule sample_booted)

lemma sample_template: "sampleUnmarshal tmpl = Inr doc \<Longrightarrow> nkind (docRoot doc) = MappingNode"
  by (auto simp: sampleUnmarshal_def sampleDoc_def docRoot_def)

lemma sample_request:
  "readMethod sampleRequest" "rq_Path sampleRequest \<noteq> ''/health''" "plainPrefix (cfg_URLPathPrefix (ap_cfg (srv_app sampleServer)))"
  "subscriptionPath (cfg_URLPathPrefix (ap_cfg (srv_app sampleServer))) (rq_Path sampleRequest)"
  by (simp_all add: sampleServer_sel readMethod_def sampleRequest_def subscriptionPath_def plainPrefix_def prefixOk_def)

lemma sample_world: "wd_template sampleWorld = Inr ''template''" "wd_unmarshal sampleWorld = sampleUnmarshal" "\<exists>bytes. wd_encode sampleWorld n = Inr bytes"
  by (simp_all add: sampleWorld_def sampleEncode_def)

lemma sampleLooks_sel:
  "lk_ready sampleLooks = sy_co (bootedSystem sampleRow sampleStartCo)" "lk_succeeded sampleLooks = sy_co (bootedSystem sampleRow sampleStartCo)"
  "lk_cache sampleLooks = sy_co \<circ> (\<lambda>_. bootedSystem sampleRow sampleStartCo)"
  by (simp_all add: sampleLooks_def o_def)

theorem started_server_serves_witness:
  "rp_Status (fst (ServeHTTP (buildMux (srv_app sampleServer) 5 (\<lambda>_. 0) sampleLooks) sampleRequest (\<lambda>_. Missing))) = 200"
proof -
  have t: "\<And>doc. wd_unmarshal sampleWorld ''template'' = Inr doc \<Longrightarrow> nkind (docRoot doc) = MappingNode"
    unfolding sample_world by (rule sample_template)
  have p: "list_all (\<lambda>c. c \<notin> {CHR ''{'', CHR ''}'', CHR ''%''}) (cfg_URLPathPrefix (ap_cfg (srv_app sampleServer)))"
    by (simp add: sampleServer_sel)
  obtain rendered :: Rendered where "fst (ServeHTTP (buildMux (srv_app sampleServer) 5 (\<lambda>_. 0) sampleLooks) sampleRequest (\<lambda>_. Missing)) =
      \<lparr>rp_Status = 200, rp_Headers = rd_Headers rendered, rp_Body = rd_Body rendered\<rparr>"
    using started_server_serves [OF sample_started sample_run_booted sched_run.start sched_run.start sampleLooks_sel sample_all(2,1) t
        sample_world(1) sample_world(3) p sample_authorised sample_request(1,2,4), of "\<lambda>_. 0" "\<lambda>_. Missing"] by blast
  then show ?thesis by simp
qed

lemma sample_served:
  "rp_Status (fst (ServeHTTP (buildMux (srv_app sampleServer) 5 (\<lambda>_. 0) sampleLooks) sampleRequest (\<lambda>_. Missing))) = 200"
proof -
  have sel: "sd_unmarshal (ap_deps (srv_app sampleServer)) = sampleUnmarshal" "sd_encode (ap_deps (srv_app sampleServer)) = wd_encode sampleWorld"
    by (simp_all add: sampleServer_def sample_world)
  obtain doc where doc: "sd_unmarshal (ap_deps (srv_app sampleServer)) (sd_Adapter (ap_deps (srv_app sampleServer))) = Inr doc"
      "nkind (docRoot doc) = MappingNode"
    using sample_template unfolding sel by (auto simp: sampleUnmarshal_def)
  have c: "cache_inv (sd_unmarshal (ap_deps (srv_app sampleServer))) (co_cache (lk_cache sampleLooks nm))" for nm
    using started_cache_inv [OF sample_started sample_run_booted] unfolding sel sampleLooks_sel comp_apply sample_world .
  have g: "co_ready (lk_ready sampleLooks)" "AllSucceeded (lk_succeeded sampleLooks)" unfolding sampleLooks_sel by (rule sample_all)+
  have e: "\<exists>bytes. sd_encode (ap_deps (srv_app sampleServer)) n = Inr bytes" for n unfolding sel by (rule sample_world(3))
  obtain rendered :: Rendered where "fst (ServeHTTP (buildMux (srv_app sampleServer) 5 (\<lambda>_. 0) sampleLooks) sampleRequest (\<lambda>_. Missing)) =
      \<lparr>rp_Status = 200, rp_Headers = rd_Headers rendered, rp_Body = rd_Body rendered\<rparr>"
    using ready_server_serves [where a = "srv_app sampleServer", OF c g doc e sample_request(3,2) sample_authorised sample_request(4,1),
        of "\<lambda>_. 0" "\<lambda>_. Missing"] by blast
  then show ?thesis by simp
qed

section \<open>Routes\<close>

theorem buildMux_registers_witness:
  "registers (buildMux (srv_app sampleServer) 5 (\<lambda>_. 0) sampleLooks)"
  using buildMux_registers [OF sample_request(3)] by (simp add: sampleServer_sel)

text \<open>A request with a revoked token: 401 from the running server, and the same from a server that is
  still warming up.\<close>

theorem unauthorised_learns_nothing_witness:
  "let r = sampleRequest\<lparr>rq_Query := (\<lambda>_. ''old'')\<rparr>; cold = sampleLooks\<lparr>lk_ready := sampleStartCo\<rparr> in
   fst (ServeHTTP (buildMux (srv_app sampleServer) 5 (\<lambda>_. 0) sampleLooks) r (\<lambda>_. Missing)) =
   fst (ServeHTTP (buildMux (srv_app sampleServer) 5 (\<lambda>_. 0) cold) r (\<lambda>_. fileState.Unreadable))"
proof -
  let ?r = "sampleRequest\<lparr>rq_Query := (\<lambda>_. ''old'')\<rparr>" and ?a = "srv_app sampleServer"
  have same: "?a\<lparr>ap_deps := ap_deps ?a\<rparr> = ?a" by simp
  have "\<not> authorised ?a 5 ?r"
    by (simp add: authorised_def sampleServer_def sampleStore_def Lookup_def revokedToken_def)
  moreover have "rq_Path ?r \<noteq> ''/health''" by (simp add: sampleRequest_def)
  ultimately show ?thesis
    using unauthorised_learns_nothing [OF sample_request(3), of ?r 5 "ap_deps ?a" "\<lambda>_. 0" sampleLooks "\<lambda>_. Missing" _ _ _ "ap_deps ?a" "\<lambda>_. 0"
        "sampleLooks\<lparr>lk_ready := sampleStartCo\<rparr>" "\<lambda>_. fileState.Unreadable", unfolded same]
    unfolding Let_def by (metis fst_conv prod_cases3)
qed

theorem served_only_to_authorised_witness:
  "\<exists>resp logs st'. ServeHTTP (buildMux (srv_app sampleServer) 5 (\<lambda>_. 0) sampleLooks) sampleRequest (\<lambda>_. Missing) = (resp, logs, st') \<and>
     rp_Status resp = 200 \<and> authorised (srv_app sampleServer) 5 sampleRequest"
proof -
  obtain resp logs st' where r: "ServeHTTP (buildMux (srv_app sampleServer) 5 (\<lambda>_. 0) sampleLooks) sampleRequest (\<lambda>_. Missing) = (resp, logs, st')"
    by (metis prod_cases3)
  moreover have "rp_Status resp = 200" using sample_served r by simp
  ultimately show ?thesis using served_only_to_authorised [OF sample_request(3,2) r] by auto
qed

end
