(* ===== verification/Startup_Log.thy ===== *)
theory Startup_Log
  imports Startup
begin

text \<open>
  The lines \<open>run\<close> of \<open>cmd/server/main.go\<close> logs on its way from the environment to the listener, and
  what they may give away.  They stop where \<open>run\<close> returns an error; the lines of the functions it calls
  are those functions' own.
\<close>

section \<open>Definitions\<close>

definition csvLine :: "SubscriptionRow list \<Rightarrow> logLine" where
  "csvLine subs = (let (enabled, disabled) = splitEnabled subs in
     (LevelInfo, ''loaded subscriptions CSV'', [(''sources'', LStrs (rowNames enabled)), (''disabled'', LStrs (rowNames disabled))]))"

definition tokensLine :: "time \<Rightarrow> tokens \<Rightarrow> logLine" where
  "tokensLine now tokens = (LevelInfo, ''loaded token store'',
     [(''active_tokens'', LInt (int (ActiveCount now tokens))), (''revoked_tokens'', LInt (int (RevokedCount tokens)))])"

definition rehydrateLines :: "string option \<Rightarrow> logLine list" where
  "rehydrateLines err = (case err of None \<Rightarrow> []
     | Some e \<Rightarrow> [(LevelWarn, ''cache rehydrate failed (cold start will refetch)'', [(''err'', LStr e)])])"

definition fetcherLine :: "ServerConfig \<Rightarrow> logLine" where
  "fetcherLine cfg = (LevelInfo, ''upstream fetcher configured'', [(''user_agent'', LStr (uf_UserAgent (configuredFetcher cfg)))])"

definition urlTestLine :: "URLTestParams \<Rightarrow> logLine" where
  "urlTestLine ut = (LevelInfo, ''url_test_params resolved'',
     [(''url'', LStr (ut_URL ut)), (''interval_seconds'', LInt (ut_IntervalSeconds ut)), (''timeout_ms'', LInt (ut_TimeoutMS ut)),
      (''max_failed_times'', LInt (ut_MaxFailedTimes ut)), (''lazy'', LBool (ut_Lazy ut))])"

definition loadBalanceLine :: "LoadBalanceParams \<Rightarrow> logLine" where
  "loadBalanceLine lb = (LevelInfo, ''load_balance_params resolved'',
     [(''url'', LStr (lb_URL lb)), (''interval_seconds'', LInt (lb_IntervalSeconds lb)), (''timeout_ms'', LInt (lb_TimeoutMS lb)),
      (''max_failed_times'', LInt (lb_MaxFailedTimes lb)), (''lazy'', LBool (lb_Lazy lb)), (''strategy'', LStr (lb_Strategy lb))])"

definition ownLine :: "OwnProxiesFile \<Rightarrow> logLine" where
  "ownLine own = (LevelInfo, ''loaded own-proxies'',
     [(''proxies'', LInt (int (length (op_Proxies own)))), (''groups'', LInt (int (length (op_ProxyGroups own))))])"

definition customLine :: "ServerConfig \<Rightarrow> CustomRuleSet list \<Rightarrow> logLine" where
  "customLine cfg customRules = (LevelInfo, ''loaded custom rules'',
     [(''sets'', LInt (int (length customRules))), (''path'', LStr (cfg_CustomRulesPath cfg))])"

text \<open>The three branches of the select, with what \<open>AllSucceeded\<close> answers in the first.\<close>

definition waitLines :: "waitOutcome \<Rightarrow> bool \<Rightarrow> logLine list" where
  "waitLines outcome allSucceeded = (case outcome of
      BootstrapSettled \<Rightarrow> if \<not> allSucceeded
        then [(LevelWarn, ''bootstrap completed with at least one failed source '' @ [CHR 0xE2, CHR 0x80, CHR 0x94] @
          '' server will return 503 until reload'', [])] else []
    | DeadlineElapsed \<Rightarrow> [(LevelWarn, ''bootstrap deadline elapsed; opening HTTP listener anyway (handler will return 503)'', [])]
    | SignalReceived \<Rightarrow> [])"

definition startupLog :: "time \<Rightarrow> bool \<Rightarrow> world \<Rightarrow> logLine list" where
  "startupLog now allSucceeded w = (case LoadConfig (wd_ulower w) (wd_loadLocation w) (wd_env w) of
      Inl _ \<Rightarrow> []
    | Inr cfg \<Rightarrow> (case LoadSubscriptions (wd_ulower w) (wd_urlParse w) (cfg_SubscriptionsCSVPath cfg) (wd_csv w) of
      Inl _ \<Rightarrow> []
    | Inr subs \<Rightarrow> csvLine subs # (case LoadTokens (wd_decodeTokens w) (wd_tokensFile w) NewTokenStore of
      Panic \<Rightarrow> []
    | Returns (Some _, _) \<Rightarrow> []
    | Returns (None, tokens) \<Rightarrow> tokensLine now tokens # (case wd_watchError w of
      Some _ \<Rightarrow> []
    | None \<Rightarrow> rehydrateLines (fst (LoadFromDisk (wd_decodePayload w) (wd_unmarshal w) (wd_cacheEntries w)
          (NewCache (cfg_CacheDir cfg) (wd_cacheDisk w)))) @
        [fetcherLine cfg, urlTestLine (cfg_URLTestParams cfg), loadBalanceLine (cfg_LoadBalanceParams cfg)] @
        (case LoadOwnProxies (wd_unmarshal w) (wd_decodeProxy w) (wd_decodeGroup w) (wd_ownFile w) of
      Inl _ \<Rightarrow> []
    | Inr own \<Rightarrow> [ownLine own, customLine cfg (LoadCustomRules (wd_sortSlice w) (wd_customDir w))] @
        (case NewSubscriptionMode (wd_unmarshal w) (wd_template w) of
      Inl _ \<Rightarrow> []
    | Inr _ \<Rightarrow> waitLines (wd_wait w) allSucceeded))))))"

section \<open>The tokens stay secret\<close>

definition renamed :: "(string \<Rightarrow> string) \<Rightarrow> TokenRecord \<Rightarrow> TokenRecord" where
  "renamed f rec = rec\<lparr>tr_Token := f (tr_Token rec)\<rparr>"

definition renamedStore :: "(string \<Rightarrow> string) \<Rightarrow> tokens \<Rightarrow> tokens" where
  "renamedStore f = map (\<lambda>(k, rec). (f k, renamed f rec))"

text \<open>The same token file with other tokens in it.\<close>

definition renamedFile ::
  "(string \<Rightarrow> string) \<Rightarrow> (string \<Rightarrow> string + TokenRecord option list) \<Rightarrow> string \<Rightarrow> string + TokenRecord option list" where
  "renamedFile f decode b = map_sum id (map (map_option (renamed f))) (decode b)"

lemma renamed_sel [simp]:
  "tr_Token (renamed f rec) = f (tr_Token rec)" "tr_Label (renamed f rec) = tr_Label rec" "tr_Revoked (renamed f rec) = tr_Revoked rec"
  "expired now (renamed f rec) = expired now rec"
  by (simp_all add: renamed_def expired_def)

lemma map_of_renamedStore: "inj f \<Longrightarrow> map_of (renamedStore f s) (f k) = map_option (renamed f) (map_of s k)"
  by (induction s) (auto simp: renamedStore_def inj_eq)

lemma renamedStore_counts: "ActiveCount now (renamedStore f s) = ActiveCount now s" "RevokedCount (renamedStore f s) = RevokedCount s"
proof -
  have "length (filter P (renamedStore f s)) = length (filter Q s)" if "\<And>k rec. P (f k, renamed f rec) = Q (k, rec)" for P Q
    using that by (induction s) (auto simp: renamedStore_def)
  then show "ActiveCount now (renamedStore f s) = ActiveCount now s" "RevokedCount (renamedStore f s) = RevokedCount s"
    unfolding ActiveCount_def RevokedCount_def fold_counts by simp_all
qed

lemma loadRecords_renamed:
  assumes "inj f" and "f [] = []"
  shows "loadRecords (map (map_option (renamed f)) recs) (renamedStore f nxt) =
    (case loadRecords recs nxt of Panic \<Rightarrow> Panic | Returns r \<Rightarrow> Returns (map_sum id (renamedStore f) r))"
proof (induction recs nxt rule: loadRecords.induct)
  case (3 rec recs nxt)
  have e: "f (tr_Token rec) = [] \<longleftrightarrow> tr_Token rec = []" using assms by (metis injD)
  show ?case
  proof (cases "tr_Token rec = [] \<or> map_of nxt (tr_Token rec) \<noteq> None")
    case True
    then show ?thesis using e assms(1) by (auto simp: map_of_renamedStore)
  next
    case False
    then have new: "map_of nxt (tr_Token rec) = None" "map_of (renamedStore f nxt) (f (tr_Token rec)) = None"
      using assms(1) by (simp_all add: map_of_renamedStore)
    have "renamedStore f (AList.update (tr_Token rec) rec nxt) = AList.update (f (tr_Token rec)) (renamed f rec) (renamedStore f nxt)"
      unfolding alist_update_new [OF new(1)] alist_update_new [OF new(2)] by (simp add: renamedStore_def)
    then show ?thesis using 3 False new e by simp
  qed
qed (simp_all add: renamedStore_def)

lemma LoadTokens_renamed:
  assumes "inj f" and "f [] = []"
  shows "LoadTokens (renamedFile f decode) file NewTokenStore =
    (case LoadTokens decode file NewTokenStore of Panic \<Rightarrow> Panic | Returns (err, s) \<Rightarrow> Returns (err, renamedStore f s))"
proof -
  have nil: "renamedStore f [] = []" by (simp add: renamedStore_def)
  show ?thesis
    using loadRecords_renamed [OF assms, of _ "[]"]
    by (auto simp: LoadTokens_def NewTokenStore_def renamedFile_def nil split: sum.splits panicking.splits)
qed

text \<open>C39: a start gives no token away.  Replace every token of the token file by another, so that equal
  ones stay equal and none becomes empty: then the server logs the same lines on its way up and, if it
  does not come up, fails with the same error; if it does, it knows the new tokens.\<close>

theorem startup_keeps_tokens_secret:
  assumes "inj f" and "f [] = []" and "w' = w\<lparr>wd_decodeTokens := renamedFile f (wd_decodeTokens w)\<rparr>"
  shows "startupLog now allSucceeded w' = startupLog now allSucceeded w \<and>
    (case run w of
       Panic \<Rightarrow> run w' = Panic
     | Returns (Inl e) \<Rightarrow> run w' = Returns (Inl e)
     | Returns (Inr srv) \<Rightarrow> \<exists>srv'. run w' = Returns (Inr srv') \<and> ap_cfg (srv_app srv') = ap_cfg (srv_app srv) \<and>
         ap_tokens (srv_app srv') = renamedStore f (ap_tokens (srv_app srv)))"
proof -
  have w': "wd_decodeTokens w' = renamedFile f (wd_decodeTokens w)" "wd_ulower w' = wd_ulower w" "wd_loadLocation w' = wd_loadLocation w"
    "wd_env w' = wd_env w" "wd_urlParse w' = wd_urlParse w" "wd_csv w' = wd_csv w" "wd_tokensFile w' = wd_tokensFile w"
    "wd_watchError w' = wd_watchError w" "wd_unmarshal w' = wd_unmarshal w" "wd_decodeProxy w' = wd_decodeProxy w"
    "wd_decodeGroup w' = wd_decodeGroup w" "wd_ownFile w' = wd_ownFile w" "wd_template w' = wd_template w" "wd_wait w' = wd_wait w"
    "wd_decodePayload w' = wd_decodePayload w" "wd_cacheEntries w' = wd_cacheEntries w" "wd_cacheDisk w' = wd_cacheDisk w"
    "wd_sortSlice w' = wd_sortSlice w" "wd_customDir w' = wd_customDir w"
    by (simp_all add: assms(3))
  note load = LoadTokens_renamed [OF assms(1,2), of "wd_decodeTokens w" "wd_tokensFile w"]
  have "tokensLine now (renamedStore f s) = tokensLine now s" for s by (simp add: tokensLine_def renamedStore_counts)
  then have "startupLog now allSucceeded w' = startupLog now allSucceeded w"
    unfolding startupLog_def w' load by (auto split: sum.split panicking.split option.split)
  moreover have "case run w of
       Panic \<Rightarrow> run w' = Panic
     | Returns (Inl e) \<Rightarrow> run w' = Returns (Inl e)
     | Returns (Inr srv) \<Rightarrow> \<exists>srv'. run w' = Returns (Inr srv') \<and> ap_cfg (srv_app srv') = ap_cfg (srv_app srv) \<and>
         ap_tokens (srv_app srv') = renamedStore f (ap_tokens (srv_app srv))"
    unfolding run_def w' load by (auto split: sum.split panicking.split option.split)
  ultimately show ?thesis by blast
qed

end
