(* ===== verification/Snapshot_Saves.thy ===== *)
theory Snapshot_Saves
  imports Daily_Spend
begin

text \<open>
  \<open>FileSnapshotter.Save\<close> (\<open>internal/dailyspend/snapshot.go\<close>) as the sequence of system calls it
  makes, for any number of callers at once.

  Every call opens the same temporary file \<open>path.tmp\<close> with \<open>O_TRUNC\<close>, and no lock keeps two
  requests apart, so names and contents have to be told apart: a directory maps names to inodes, an
  open file is a handle on an inode, and \<open>os.Rename\<close> and \<open>os.Remove\<close> act on names.
  \<open>json.Encoder.Encode\<close> makes one \<open>Write\<close> at the start of the file: over an empty file it leaves the
  snapshot, over the bytes of another save it leaves the snapshot or, when those were longer,
  something that does not decode.
\<close>

section \<open>The disk\<close>

datatype inode = Denied | Empty | Holds content

record Disk =
  dk_entry :: "string \<rightharpoonup> nat"
  dk_data :: "nat \<Rightarrow> inode"
  dk_next :: nat

fun inodeView :: "inode \<Rightarrow> fileState" where
  "inodeView Denied = Unreadable"
| "inodeView Empty = File Undecodable"
| "inodeView (Holds c) = File c"

lemma inodeView_present [simp]: "inodeView x \<noteq> Missing"
  by (cases x) simp_all

definition view :: "Disk \<Rightarrow> filesystem" where
  "view d name = (case dk_entry d name of None \<Rightarrow> Missing | Some i \<Rightarrow> inodeView (dk_data d i))"

text \<open>Two names never share an inode, and the next inode is a new one.\<close>

definition disk_ok :: "Disk \<Rightarrow> bool" where
  "disk_ok d \<longleftrightarrow> (\<forall>m n i. dk_entry d m = Some i \<longrightarrow> dk_entry d n = Some i \<longrightarrow> m = n) \<and>
     (\<forall>n i. dk_entry d n = Some i \<longrightarrow> i < dk_next d)"

definition tmpOf :: "string \<Rightarrow> string" where
  "tmpOf path = path @ ''.tmp''"

section \<open>One save\<close>

datatype savePc = Opening | Writing nat | Syncing | Closing | Renaming | Removing save_error | Finished "save_error option"

inductive save_step :: "string \<Rightarrow> Snapshot \<Rightarrow> savePc \<times> Disk \<Rightarrow> savePc \<times> Disk \<Rightarrow> bool" for path s where
  open_new: "dk_entry d (tmpOf path) = None \<Longrightarrow>
    save_step path s (Opening, d)
      (Writing (dk_next d), d\<lparr>dk_entry := (dk_entry d)(tmpOf path \<mapsto> dk_next d), dk_data := (dk_data d)(dk_next d := Empty), dk_next := Suc (dk_next d)\<rparr>)"
| open_old: "dk_entry d (tmpOf path) = Some i \<Longrightarrow>
    save_step path s (Opening, d) (Writing i, d\<lparr>dk_data := (dk_data d)(i := Empty)\<rparr>)"
| open_failed: "save_step path s (Opening, d) (Finished (Some OpenFailed), d)"
| encode: "save_step path s (Writing i, d) (Syncing, d\<lparr>dk_data := (dk_data d)(i := Holds (Encoded s))\<rparr>)"
| encode_over: "dk_data d i \<noteq> Empty \<Longrightarrow>
    save_step path s (Writing i, d) (Syncing, d\<lparr>dk_data := (dk_data d)(i := Holds Undecodable)\<rparr>)"
| encode_failed: "c \<in> {dk_data d i, Holds Undecodable} \<Longrightarrow>
    save_step path s (Writing i, d) (Removing EncodeFailed, d\<lparr>dk_data := (dk_data d)(i := c)\<rparr>)"
| sync: "save_step path s (Syncing, d) (Closing, d)"
| sync_failed: "save_step path s (Syncing, d) (Removing SyncFailed, d)"
| close: "save_step path s (Closing, d) (Renaming, d)"
| close_failed: "save_step path s (Closing, d) (Removing CloseFailed, d)"
| rename: "dk_entry d (tmpOf path) = Some i \<Longrightarrow>
    save_step path s (Renaming, d) (Finished None, d\<lparr>dk_entry := (dk_entry d)(path \<mapsto> i, tmpOf path := None)\<rparr>)"
| rename_failed: "save_step path s (Renaming, d) (Removing RenameFailed, d)"
| remove: "save_step path s (Removing e, d) (Finished (Some e), d\<lparr>dk_entry := (dk_entry d)(tmpOf path := None)\<rparr>)"
| remove_failed: "save_step path s (Removing e, d) (Finished (Some e), d)"

inductive_cases save_stepE: "save_step path s (pc, d) (pc', d')"

inductive_simps save_finished [simp]: "save_step path s (Finished e, d) x"

text \<open>The steps left to a save.\<close>

fun stepsLeft :: "savePc \<Rightarrow> nat" where
  "stepsLeft Opening = 6"
| "stepsLeft (Writing i) = 5"
| "stepsLeft Syncing = 4"
| "stepsLeft Closing = 3"
| "stepsLeft Renaming = 2"
| "stepsLeft (Removing e) = 1"
| "stepsLeft (Finished e) = 0"

lemma save_step_less: "save_step path s (pc, d) (pc', d') \<Longrightarrow> stepsLeft pc' < stepsLeft pc"
  by (erule save_stepE) simp_all

lemma save_step_enabled: "\<nexists>e. pc = Finished e \<Longrightarrow> \<exists>pc' d'. save_step path s (pc, d) (pc', d')"
  by (cases pc) (blast intro: save_step.intros)+

lemma save_completes: "\<exists>err d'. (save_step path s)\<^sup>*\<^sup>* (pc, d) (Finished err, d')"
proof (induction "stepsLeft pc" arbitrary: pc d rule: less_induct)
  case less
  show ?case
  proof (cases "\<exists>e. pc = Finished e")
    case False
    then obtain pc' d' where st: "save_step path s (pc, d) (pc', d')" using save_step_enabled by blast
    then show ?thesis using less [OF save_step_less [OF st]] by (meson converse_rtranclp_into_rtranclp)
  qed blast
qed

section \<open>Alone\<close>

text \<open>A save that has got to \<open>pc\<close> on its own: the file is as before up to the rename, and holds the
  snapshot from then on.\<close>

definition saving :: "string \<Rightarrow> Snapshot \<Rightarrow> filesystem \<Rightarrow> savePc \<Rightarrow> Disk \<Rightarrow> bool" where
  "saving path s fs pc d \<longleftrightarrow> disk_ok d \<and>
     view d path = (if pc = Finished None then File (Encoded s) else fs path) \<and>
     (\<forall>name. name \<notin> {path, tmpOf path} \<longrightarrow> view d name = fs name) \<and>
     (case pc of
        Opening \<Rightarrow> True
      | Writing i \<Rightarrow> dk_entry d (tmpOf path) = Some i \<and> dk_data d i = Empty
      | Removing e \<Rightarrow> e \<noteq> NilSnapshot
      | Finished None \<Rightarrow> view d (tmpOf path) = Missing
      | Finished (Some e) \<Rightarrow> e \<noteq> NilSnapshot
      | _ \<Rightarrow> view d (tmpOf path) = File (Encoded s))"

lemma tmpOf_neq [simp]: "tmpOf path \<noteq> path" "path \<noteq> tmpOf path"
  by (simp_all add: tmpOf_def)

lemma view_data:
  "view (d\<lparr>dk_data := (dk_data d)(i := c)\<rparr>) name = (if dk_entry d name = Some i then inodeView c else view d name)"
  by (auto simp: view_def split: option.splits)

lemma view_unlink: "view (d\<lparr>dk_entry := (dk_entry d)(tmp := None)\<rparr>) name = (if name = tmp then Missing else view d name)"
  by (simp add: view_def split: option.split)

lemma view_rename:
  "dk_entry d tmp = Some i \<Longrightarrow> tmp \<noteq> path \<Longrightarrow>
   view (d\<lparr>dk_entry := (dk_entry d)(path \<mapsto> i, tmp := None)\<rparr>) name =
     (if name = path then view d tmp else if name = tmp then Missing else view d name)"
  by (simp add: view_def split: option.split)

lemma view_create:
  assumes "disk_ok d"
  shows "view (d\<lparr>dk_entry := (dk_entry d)(tmp \<mapsto> dk_next d), dk_data := (dk_data d)(dk_next d := c), dk_next := n\<rparr>) name =
    (if name = tmp then inodeView c else view d name)"
  using assms by (auto simp: view_def disk_ok_def split: option.splits)

lemma disk_ok_other: "disk_ok d \<Longrightarrow> dk_entry d tmp = Some i \<Longrightarrow> name \<noteq> tmp \<Longrightarrow> dk_entry d name \<noteq> Some i"
  unfolding disk_ok_def by blast

lemma disk_ok_save:
  assumes "save_step path s (pc, d) (pc', d')" and "disk_ok d"
  shows "disk_ok d'"
  using assms(1) by (rule save_stepE) (use assms(2) in \<open>auto simp: disk_ok_def less_Suc_eq split: if_splits\<close>)

lemma saving_step:
  assumes "save_step path s (pc, d) (pc', d')" and "saving path s fs pc d"
  shows "saving path s fs pc' d'"
proof -
  have ok: "disk_ok d" "disk_ok d'" using assms disk_ok_save by (auto simp: saving_def)
  note other = disk_ok_other [OF ok(1)]
  show ?thesis using assms(1)
    by (rule save_stepE)
      (use assms(2) ok other in \<open>auto simp: saving_def view_data view_unlink view_rename view_create split: option.splits\<close>)
qed

lemma FileSave_elsewhere:
  assumes "err \<noteq> Some NilSnapshot" and "name \<noteq> tmpOf path"
  shows "fst (FileSave path err (Some s) fs) name = (if err = None \<and> name = path then File (Encoded s) else fs name)"
proof (cases err)
  case None
  then show ?thesis using assms(2) by (simp add: FileSave_def tmpOf_def)
next
  case (Some e)
  then show ?thesis using assms by (cases e) (simp_all add: FileSave_def tmpOf_def)
qed

lemma save_run_bound: "(save_step path s ^^ n) (pc, d) (pc', d') \<Longrightarrow> n + stepsLeft pc' \<le> stepsLeft pc"
proof (induction n arbitrary: pc' d')
  case (Suc n)
  from Suc.prems obtain pc1 d1 where "(save_step path s ^^ n) (pc, d) (pc1, d1)" "save_step path s (pc1, d1) (pc', d')"
    by (metis relpowp_Suc_E surj_pair)
  then show ?case using Suc.IH [of pc1 d1] save_step_less [of path s pc1 d1 pc' d'] by linarith
qed simp

text \<open>C38: a save with no other save under way is atomic, whenever it stops.  After any number of its own
  system calls, with any of them failing, every file but the temporary one is as before, or, when the
  save has ended, as \<open>FileSave\<close> leaves it for the error it returns; so a crash at that point loses
  neither the old snapshot nor the new one.  No run makes more than six calls, and every unfinished
  one can go on to an end.\<close>

theorem lone_save_atomic:
  assumes "disk_ok d" and "(save_step path s ^^ n) (Opening, d) (pc, d')" and "name \<noteq> tmpOf path"
  shows "view d' name = (case pc of Finished err \<Rightarrow> fst (FileSave path err (Some s) (view d)) name | _ \<Rightarrow> view d name) \<and>
    n \<le> 6 \<and> (\<exists>err d''. (save_step path s)\<^sup>*\<^sup>* (pc, d') (Finished err, d''))"
proof -
  have "(save_step path s)\<^sup>*\<^sup>* (Opening, d) (pc, d')" using assms(2) by (rule relpowp_imp_rtranclp)
  then have run: "saving path s (view d) pc d'"
  proof (induction "(pc, d')" arbitrary: pc d' rule: rtranclp_induct)
    case base
    then show ?case using assms(1) by (simp add: saving_def)
  next
    case (step y)
    then show ?case using saving_step by (cases y) blast
  qed
  have "view d' name = (case pc of Finished err \<Rightarrow> fst (FileSave path err (Some s) (view d)) name | _ \<Rightarrow> view d name)"
    using run assms(3) by (cases pc) (auto simp: saving_def FileSave_elsewhere split: option.splits)
  moreover have "n \<le> 6" using save_run_bound [OF assms(2)] by simp
  ultimately show ?thesis using save_completes by blast
qed

section \<open>Several at once\<close>

text \<open>Requests begin to save snapshots of their own while others are still at it.\<close>

inductive saves_step :: "string \<Rightarrow> (Snapshot \<times> savePc) list \<times> Disk \<Rightarrow> (Snapshot \<times> savePc) list \<times> Disk \<Rightarrow> bool" for path where
  begin_save: "saves_step path (ss, d) (ss @ [(s, Opening)], d)"
| advance: "i < length ss \<Longrightarrow> ss ! i = (s, pc) \<Longrightarrow> save_step path s (pc, d) (pc', d') \<Longrightarrow>
    saves_step path (ss, d) (ss[i := (s, pc')], d')"

fun midway :: "savePc \<Rightarrow> bool" where
  "midway Opening = False"
| "midway (Finished e) = False"
| "midway _ = True"

definition genuine :: "Snapshot set \<Rightarrow> fileState set" where
  "genuine X = insert (File Undecodable) ((\<lambda>s. File (Encoded s)) ` X)"

text \<open>The file is as at first or genuine, and so is the temporary file while a save is under way.\<close>

definition saves_inv :: "string \<Rightarrow> filesystem \<Rightarrow> Snapshot set \<Rightarrow> savePc set \<Rightarrow> Disk \<Rightarrow> bool" where
  "saves_inv path fs X pcs d \<longleftrightarrow> disk_ok d \<and> (view d path = fs path \<or> view d path \<in> genuine X) \<and>
     ((\<exists>pc\<in>pcs. midway pc) \<longrightarrow> view d (tmpOf path) = Missing \<or> view d (tmpOf path) \<in> genuine X)"

lemma saves_inv_mono:
  "saves_inv path fs X pcs d \<Longrightarrow> X \<subseteq> Y \<Longrightarrow> {pc\<in>qcs. midway pc} \<subseteq> pcs \<Longrightarrow> saves_inv path fs Y qcs d"
  unfolding saves_inv_def genuine_def by blast

lemma genuine_intros [simp]: "File Undecodable \<in> genuine X" "File (Encoded s) \<in> genuine X \<longleftrightarrow> s \<in> X"
  by (auto simp: genuine_def)

lemma saves_inv_step:
  assumes "save_step path s (pc, d) (pc', d')" and "saves_inv path fs X pcs d" and "s \<in> X" and "pc \<in> pcs"
  shows "saves_inv path fs X (insert pc' pcs) d'"
proof -
  have ok: "disk_ok d" "disk_ok d'" using assms disk_ok_save by (auto simp: saves_inv_def)
  have tmp: "midway pc \<Longrightarrow> view d (tmpOf path) = Missing \<or> view d (tmpOf path) \<in> genuine X"
    using assms(2,4) by (auto simp: saves_inv_def)
  have same: "d\<lparr>dk_data := (dk_data d)(i := dk_data d i)\<rparr> = d" for i by simp
  show ?thesis using assms(1)
    by (rule save_stepE)
      (use assms(2,3) ok tmp in \<open>auto simp: saves_inv_def view_data view_unlink view_rename view_create view_def split: option.splits\<close>)
qed

lemma saves_run_inv:
  assumes "(saves_step path)\<^sup>*\<^sup>* ([], d) (ss, d')" and "disk_ok d"
  shows "saves_inv path (view d) (fst ` set ss) (snd ` set ss) d'"
  using assms(1)
proof (induction "(ss, d')" arbitrary: ss d' rule: rtranclp_induct)
  case base
  then show ?case using assms(2) by (simp add: saves_inv_def)
next
  case (step y)
  obtain ss1 d1 where y: "y = (ss1, d1)" by (cases y)
  note inv = step(3) [OF y]
  from step(2) show ?case unfolding y
  proof cases
    case (begin_save s)
    then show ?thesis by (auto intro: saves_inv_mono [OF inv])
  next
    case (advance i s pc pc')
    have mem: "(s, pc) \<in> set ss1" using advance(2,3) by (metis nth_mem)
    then have "saves_inv path (view d) (fst ` set ss1) (insert pc' (snd ` set ss1)) d'"
      by (intro saves_inv_step [OF advance(4) inv]) force+
    moreover have "fst ` set ss = fst ` set ss1" unfolding advance(1)
      using advance(3) map_update [of fst ss1 i "(s, pc')"] list_update_id [of "map fst ss1" i] advance(2)
      by (metis (no_types, lifting) fst_conv list.set_map nth_map)
    moreover have "snd ` set ss \<subseteq> insert pc' (snd ` set ss1)" unfolding advance(1)
      using set_update_subset_insert [of ss1 i "(s, pc')"] by force
    ultimately show ?thesis by (auto elim!: saves_inv_mono [of _ _ _ "insert pc' (snd ` set ss1)"])
  qed
qed

definition loadable :: "string \<Rightarrow> filesystem \<Rightarrow> Snapshot set \<Rightarrow> (load_error + Snapshot option) set" where
  "loadable path fs X = {FileLoad path fs, Inr None} \<union> (\<lambda>s. Inr (Some s)) ` X"

lemma loadable_mono: "X \<subseteq> Y \<Longrightarrow> loadable path fs X \<subseteq> loadable path fs Y"
  unfolding loadable_def by blast

lemma saves_inv_load: "saves_inv path fs X pcs d \<Longrightarrow> FileLoad path (view d) \<in> loadable path fs X"
  by (force simp: saves_inv_def FileLoad_def genuine_def loadable_def)

text \<open>What several saves at once leave behind.  However their system calls interleave and fail, a
  load finds the snapshot that was there at first, one of those being saved, or none at all, never a
  mixture and never an error that was not there before.\<close>

theorem interleaved_saves_genuine:
  assumes "disk_ok d" and "(saves_step path)\<^sup>*\<^sup>* ([], d) (ss, d')"
  shows "FileLoad path (view d') \<in> {FileLoad path (view d), Inr None} \<union> (\<lambda>(s, _). Inr (Some s)) ` set ss"
  using saves_inv_load [OF saves_run_inv [OF assms(2,1)]] by (auto simp: loadable_def)

text \<open>None at all can happen although no system call fails and the snapshot was there before.  The
  first save has written its temporary file; the second opens and so empties it; the first renames it,
  and until the second has written, the snapshot file is empty.  The second save then fails, because
  the name of the temporary file is gone.\<close>

lemma save_first_second:
  "save_step path s (pc, d) (pc', d') \<Longrightarrow> (saves_step path)\<^sup>*\<^sup>* ([(s, pc'), y], d') z \<Longrightarrow> (saves_step path)\<^sup>*\<^sup>* ([(s, pc), y], d) z"
  "save_step path s (pc, d) (pc', d') \<Longrightarrow> (saves_step path)\<^sup>*\<^sup>* ([y, (s, pc')], d') z \<Longrightarrow> (saves_step path)\<^sup>*\<^sup>* ([y, (s, pc)], d) z"
  using saves_step.advance [of 0 "[(s, pc), y]" s pc path d pc' d'] saves_step.advance [of 1 "[y, (s, pc)]" s pc path d pc' d']
  by (auto intro: converse_rtranclp_into_rtranclp)

theorem concurrent_saves_not_atomic:
  fixes old s1 s2 :: Snapshot
  defines "d \<equiv> \<lparr>dk_entry = [''today.json'' \<mapsto> 0], dk_data = (\<lambda>_. Holds (Encoded old)), dk_next = 1\<rparr>"
  shows "\<exists>ss d' d''. (saves_step ''today.json'')\<^sup>*\<^sup>* ([], d) (ss, d') \<and> FileLoad ''today.json'' (view d') = Inr None \<and>
    (saves_step ''today.json'')\<^sup>*\<^sup>* (ss, d') ([(s1, Finished None), (s2, Finished (Some RenameFailed))], d'') \<and>
    view d'' ''today.json'' = File (Encoded s2)"
proof -
  let ?p = "''today.json''" and ?step = "saves_step ''today.json''"
  let ?m = "[''today.json'' \<mapsto> 0] :: string \<rightharpoonup> nat" and ?D = "\<lambda>_. Holds (Encoded old)"
  let ?dk = "\<lambda>m x. \<lparr>dk_entry = m, dk_data = ?D(1 := x), dk_next = 2\<rparr>"
  let ?open = "?m(tmpOf ?p \<mapsto> 1)" and ?moved = "?m(tmpOf ?p \<mapsto> 1, ?p \<mapsto> 1, tmpOf ?p := None)"
  have two: "?step\<^sup>*\<^sup>* ([], d) ([(s1, Opening), (s2, Opening)], d)"
    using saves_step.begin_save [of ?p "[]" d s1] saves_step.begin_save [of ?p "[(s1, Opening)]" d s2]
    by (simp add: converse_rtranclp_into_rtranclp)
  have a1: "save_step ?p s1 (Opening, d) (Writing 1, ?dk ?open Empty)"
    using save_step.open_new [of d ?p s1] by (simp add: d_def tmpOf_def numeral_2_eq_2)
  have a2: "save_step ?p s1 (Writing 1, ?dk ?open Empty) (Syncing, ?dk ?open (Holds (Encoded s1)))"
    using save_step.encode [of ?p s1 1 "?dk ?open Empty"] by simp
  have b1: "save_step ?p s2 (Opening, ?dk ?open (Holds (Encoded s1))) (Writing 1, ?dk ?open Empty)"
    using save_step.open_old [of "?dk ?open (Holds (Encoded s1))" ?p 1 s2] by simp
  have a5: "save_step ?p s1 (Renaming, ?dk ?open Empty) (Finished None, ?dk ?moved Empty)"
    using save_step.rename [of "?dk ?open Empty" ?p 1 s1] by simp
  have b2: "save_step ?p s2 (Writing 1, ?dk ?moved Empty) (Syncing, ?dk ?moved (Holds (Encoded s2)))"
    using save_step.encode [of ?p s2 1 "?dk ?moved Empty"] by simp
  have "?step\<^sup>*\<^sup>* ([(s1, Opening), (s2, Opening)], d) ([(s1, Finished None), (s2, Writing 1)], ?dk ?moved Empty)"
    by (rule save_first_second(1) [OF a1], rule save_first_second(1) [OF a2], rule save_first_second(1) [OF save_step.sync],
        rule save_first_second(1) [OF save_step.close], rule save_first_second(2) [OF b1], rule save_first_second(1) [OF a5], rule rtranclp.rtrancl_refl)
  moreover have "?step\<^sup>*\<^sup>* ([(s1, Finished None), (s2, Writing 1)], ?dk ?moved Empty)
      ([(s1, Finished None), (s2, Finished (Some RenameFailed))], ?dk ?moved (Holds (Encoded s2)))"
    by (rule save_first_second(2) [OF b2], rule save_first_second(2) [OF save_step.sync], rule save_first_second(2) [OF save_step.close],
        rule save_first_second(2) [OF save_step.rename_failed], rule save_first_second(2) [OF save_step.remove_failed], rule rtranclp.rtrancl_refl)
  ultimately show ?thesis using two
    by (intro exI conjI) (erule (1) rtranclp_trans, simp add: FileLoad_def view_def tmpOf_def, assumption, simp add: view_def tmpOf_def)
qed

end
