(* ===== verification/Live.thy ===== *)
theory Live
  imports Startup Snapshot_Saves
begin

text \<open>
  The running server: the scheduler's goroutines, the token watcher and any number of requests in
  flight, interleaved in any order.

  A request reads shared state several times on its way through \<open>server/app.go\<close>, \<open>auth/\<close>,
  \<open>server/routes/\<close> and \<open>merge/pipeline.go\<close>: the token store, the ready channel and \<open>AllSucceeded\<close>, the
  cache once per source for the payloads and once more for their headers, the snapshot file; at the
  end it may write that file.  Each of these is a step of its own (a \<open>Flight\<close> holds what has been
  read so far), so the scheduler, the watcher and other requests may run in between.  What is then
  answered is what the handlers of \<open>Routes\<close> compute from those readings.  A look at something a
  rejected request never gets to has no influence on its answer.
\<close>

section \<open>Levels of service\<close>

text \<open>What a client sees of the coordinator, as an abstract machine with three states that are only
  left upwards.\<close>

datatype serviceLevel = WarmingUp | FailedClosed | Open

fun levelRank :: "serviceLevel \<Rightarrow> nat" where
  "levelRank WarmingUp = 0"
| "levelRank FailedClosed = 1"
| "levelRank Open = 2"

lemma levelRank_eq_iff [simp]: "levelRank a = levelRank b \<longleftrightarrow> a = b"
  by (cases a; cases b) simp_all

instantiation serviceLevel :: linorder
begin

definition less_eq_serviceLevel :: "serviceLevel \<Rightarrow> serviceLevel \<Rightarrow> bool" where
  "less_eq_serviceLevel a b \<longleftrightarrow> levelRank a \<le> levelRank b"

definition less_serviceLevel :: "serviceLevel \<Rightarrow> serviceLevel \<Rightarrow> bool" where
  "less_serviceLevel a b \<longleftrightarrow> levelRank a < levelRank b"

instance
proof
  fix a b :: serviceLevel
  show "a \<le> b \<Longrightarrow> b \<le> a \<Longrightarrow> a = b" by (simp add: less_eq_serviceLevel_def)
qed (auto simp: less_eq_serviceLevel_def less_serviceLevel_def)

end

definition levelOf :: "Coordinator \<Rightarrow> serviceLevel" where
  "levelOf co = (if \<not> co_ready co then WarmingUp else if AllSucceeded co then Open else FailedClosed)"

section \<open>Requests in flight\<close>

record Flight =
  fl_req :: Request
  fl_auth :: "(tokens \<times> time) option"
  fl_gate :: "Coordinator list"
  fl_cache :: "string \<rightharpoonup> Coordinator"
  fl_headers :: "string \<rightharpoonup> Coordinator"
  fl_loaded :: "(load_error + Snapshot option) option"
  fl_out :: "(Response \<times> Snapshot option) option"
  fl_save :: savePc
  fl_done :: bool

definition NewFlight :: "Request \<Rightarrow> Flight" where
  "NewFlight r = \<lparr>fl_req = r, fl_auth = None, fl_gate = [], fl_cache = Map.empty, fl_headers = Map.empty,
     fl_loaded = None, fl_out = None, fl_save = Opening, fl_done = False\<rparr>"

record Live =
  lv_sys :: System
  lv_watch :: Watcher
  lv_disk :: Disk
  lv_flights :: "Flight list"

definition Launch :: "Server \<Rightarrow> Disk \<Rightarrow> Live" where
  "Launch srv d = \<lparr>lv_sys = srv_system srv, lv_watch = srv_watcher srv, lv_disk = d, lv_flights = []\<rparr>"

text \<open>The handlers run against a store that holds what was loaded and records what is to be saved.\<close>

definition recordingOps :: "load_error + Snapshot option \<Rightarrow> (Snapshot option) snapshotOps" where
  "recordingOps loaded = (\<lambda>_. loaded, \<lambda>new _. (new, None))"

definition flightApp :: "'st App \<Rightarrow> Flight \<Rightarrow> (Snapshot option) App" where
  "flightApp a fl = NewApp (ap_cfg a) (ap_sha256 a) (fst (the (fl_auth fl)))
     (WithSnapshotter (Some (recordingOps (the (fl_loaded fl)))) (ap_deps a)) (ap_encodeJSON a)"

definition flightLooks :: "looks \<Rightarrow> Flight \<Rightarrow> looks" where
  "flightLooks lk fl = lk\<lparr>lk_ready := fl_gate fl ! 0, lk_succeeded := fl_gate fl ! 1,
     lk_cache := (\<lambda>name. the (fl_cache fl name)), lk_headers := (\<lambda>name. the (fl_headers fl name))\<rparr>"

definition answer :: "'st App \<Rightarrow> (string \<Rightarrow> time) \<Rightarrow> looks \<Rightarrow> Flight \<Rightarrow> Response \<times> Snapshot option" where
  "answer a now lk fl =
     (case ServeHTTP (buildMux (flightApp a fl) (snd (the (fl_auth fl))) now (flightLooks lk fl)) (fl_req fl) None of
        (resp, _, new) \<Rightarrow> (resp, new))"

definition appRows :: "'st App \<Rightarrow> SubscriptionRow list" where
  "appRows a = p_subscriptions (sd_Pipeline (ap_deps a))"

definition allRead :: "'st App \<Rightarrow> (string \<rightharpoonup> Coordinator) \<Rightarrow> bool" where
  "allRead a m \<longleftrightarrow> list_all (\<lambda>row. m (row_Name row) \<noteq> None) (appRows a)"

definition snapshotPath :: "'st App \<Rightarrow> string" where
  "snapshotPath a = cfg_TodayZeroPath (ap_cfg a)"

text \<open>One step of one flight, with the disk after it.  The clock readings and the looks after the answer
  are chosen freely.  The handlers call \<open>Save\<close> while they compute the answer, which depends on its
  outcome only in the log, so the system calls of a save are made here between the computing of the
  answer and its end.\<close>

inductive flight_step :: "'st App \<Rightarrow> Live \<Rightarrow> Flight \<Rightarrow> Flight \<Rightarrow> Disk \<Rightarrow> bool" for a s where
  authenticate: "fl_auth fl = None \<Longrightarrow>
    flight_step a s fl (fl\<lparr>fl_auth := Some (w_store (lv_watch s), now)\<rparr>) (lv_disk s)"
| gate: "fl_auth fl \<noteq> None \<Longrightarrow> length (fl_gate fl) < 2 \<Longrightarrow>
    flight_step a s fl (fl\<lparr>fl_gate := fl_gate fl @ [sy_co (lv_sys s)]\<rparr>) (lv_disk s)"
| read_payload: "length (fl_gate fl) = 2 \<Longrightarrow> fl_headers fl = Map.empty \<Longrightarrow> fl_loaded fl = None \<Longrightarrow> fl_cache fl name = None \<Longrightarrow>
    flight_step a s fl (fl\<lparr>fl_cache := (fl_cache fl)(name \<mapsto> sy_co (lv_sys s))\<rparr>) (lv_disk s)"
| read_headers: "length (fl_gate fl) = 2 \<Longrightarrow> allRead a (fl_cache fl) \<Longrightarrow> fl_loaded fl = None \<Longrightarrow> fl_headers fl name = None \<Longrightarrow>
    flight_step a s fl (fl\<lparr>fl_headers := (fl_headers fl)(name \<mapsto> sy_co (lv_sys s))\<rparr>) (lv_disk s)"
| load: "length (fl_gate fl) = 2 \<Longrightarrow> allRead a (fl_cache fl) \<Longrightarrow> allRead a (fl_headers fl) \<Longrightarrow> fl_loaded fl = None \<Longrightarrow>
    flight_step a s fl (fl\<lparr>fl_loaded := Some (FileLoad (snapshotPath a) (view (lv_disk s)))\<rparr>) (lv_disk s)"
| compute: "fl_loaded fl \<noteq> None \<Longrightarrow> fl_out fl = None \<Longrightarrow>
    flight_step a s fl (fl\<lparr>fl_out := Some (answer a now lk fl)\<rparr>) (lv_disk s)"
| respond: "fl_out fl = Some (resp, None) \<Longrightarrow> \<not> fl_done fl \<Longrightarrow>
    flight_step a s fl (fl\<lparr>fl_done := True\<rparr>) (lv_disk s)"
| save: "fl_out fl = Some (resp, Some snap) \<Longrightarrow> save_step (snapshotPath a) snap (fl_save fl, lv_disk s) (pc, d) \<Longrightarrow>
    flight_step a s fl (fl\<lparr>fl_save := pc\<rparr>) d"
| respond_saved: "fl_out fl = Some (resp, Some snap) \<Longrightarrow> fl_save fl = Finished err \<Longrightarrow> \<not> fl_done fl \<Longrightarrow>
    flight_step a s fl (fl\<lparr>fl_done := True\<rparr>) (lv_disk s)"

inductive_cases flight_stepE: "flight_step a s fl fl' d"

inductive live_step ::
  "Server \<Rightarrow> (string \<Rightarrow> string + TokenRecord option list) \<Rightarrow> string \<Rightarrow> Live \<Rightarrow> Live \<Rightarrow> bool" for srv decode wantBase where
  schedule: "sched_step (srv_deps srv) (lv_sys s) b sys \<Longrightarrow> live_step srv decode wantBase s (s\<lparr>lv_sys := sys\<rparr>)"
| watch: "watch_step decode wantBase (lv_watch s) w \<Longrightarrow> live_step srv decode wantBase s (s\<lparr>lv_watch := w\<rparr>)"
| arrive: "live_step srv decode wantBase s (s\<lparr>lv_flights := lv_flights s @ [NewFlight r]\<rparr>)"
| fly: "i < length (lv_flights s) \<Longrightarrow> flight_step (srv_app srv) s (lv_flights s ! i) fl d \<Longrightarrow>
    live_step srv decode wantBase s (s\<lparr>lv_flights := (lv_flights s)[i := fl], lv_disk := d\<rparr>)"

text \<open>A run in which the watcher only makes steps that are permitted.\<close>

definition live_run ::
  "Server \<Rightarrow> (string \<Rightarrow> string + TokenRecord option list) \<Rightarrow> string \<Rightarrow> (Watcher \<Rightarrow> Watcher \<Rightarrow> bool) \<Rightarrow> Live \<Rightarrow> Live \<Rightarrow> bool" where
  "live_run srv decode wantBase permitted =
     (\<lambda>s s'. live_step srv decode wantBase s s' \<and> permitted (lv_watch s) (lv_watch s'))\<^sup>*\<^sup>*"

section \<open>Levels only rise\<close>

lemma sched_step_ready:
  assumes "sys_inv s" and "sched_step dp s b s'" and "co_ready (sy_co s)"
  shows "co_ready (sy_co s')"
  using assms(2)
proof cases
  case (thread i row pc co wg pc')
  then have "threadOk (sy_co s) (sy_cancelled s) (row, pc)" using assms(1) by (metis nth_mem sys_inv_def)
  then obtain sx where sx: "map_of (co_sources (sy_co s)) (row_Name row) = Some sx"
    "pcOk (maxAttempts (co_cfg (sy_co s))) (sy_cancelled s) pc (sx_bootstrap sx)" by (auto simp: threadOk_def)
  have "co_ready co = co_ready (sy_co s)" by (rule thread_step_own [OF thread(6) sx]) (auto simp: evolves_def)
  then show ?thesis using assms(3) by (simp add: thread(2))
qed (use assms(3) in \<open>simp_all add: signalReady_def\<close>)

lemma level_step:
  assumes "sys_inv s" and "sched_step dp s b s'"
  shows "levelOf (sy_co s) \<le> levelOf (sy_co s')"
proof -
  have "distinct (map fst (co_sources (sy_co s)))" using assms(1) by (simp add: sys_inv_def sourcesOk_def)
  then have "AllSucceeded (sy_co s) \<Longrightarrow> AllSucceeded (sy_co s')" using forward_AllSucceeded [OF forward_step [OF assms]] by blast
  then show ?thesis using sched_step_ready [OF assms] by (auto simp: levelOf_def less_eq_serviceLevel_def)
qed

lemma level_run:
  assumes "sys_inv s" and "sched_run dp s bs s'"
  shows "levelOf (sy_co s) \<le> levelOf (sy_co s') \<and> sys_inv s'"
  using assms(2)
proof (induction rule: sched_run.induct)
  case start
  then show ?case using assms(1) by simp
next
  case (step bs s1 b s2)
  then show ?case using level_step sys_inv_step order_trans by blast
qed

definition warmingResponse :: Response where
  "warmingResponse = \<lparr>rp_Status = 503, rp_Headers = [''Content-Type'' \<mapsto> ''application/json'', ''Retry-After'' \<mapsto> ''5''],
     rp_Body = ''{\"error\":\"warming_up\"}''\<rparr>"

definition failedResponse :: Response where
  "failedResponse = \<lparr>rp_Status = 503, rp_Headers = [''Content-Type'' \<mapsto> ''application/json''],
     rp_Body = ''{\"error\":\"bootstrap_failed\"}''\<rparr>"

lemma Subscription_gate:
  "fst (Subscription dp lk r st) =
     (if \<not> co_ready (lk_ready lk) then warmingResponse
      else if \<not> AllSucceeded (lk_succeeded lk) then failedResponse
      else fst (Subscription dp lk r st))"
  by (simp add: Subscription_def warmingResponse_def failedResponse_def)

lemma Subscription_open:
  "co_ready (lk_ready lk) \<Longrightarrow> AllSucceeded (lk_succeeded lk) \<Longrightarrow> rp_Status (fst (Subscription dp lk r st)) \<in> {200, 500}"
  by (auto simp: Subscription_def BuildLogged_split http_Error_def split: prod.splits sum.splits)

text \<open>C9: the server refines the machine of three levels.  Through every interleaving of the scheduler
  the level never falls; and whatever happens between the two looks of a handler, the subscription
  handler answers by the levels at those looks: 503 and come back while warming up, 503 for good
  reason when a source failed, and otherwise a document or an internal error, never a 503.  The
  health route reports 200 exactly at the open level.\<close>

theorem service_level_refined:
  assumes "sched_run dp (Start (NewCoordinator cache cfg rows)) bs s0"
    and "sched_run dp s0 bs1 s1" and "sched_run dp s1 bs2 s2"
    and "lk_ready lk = sy_co s1" and "lk_succeeded lk = sy_co s2"
  shows "levelOf (sy_co s0) \<le> levelOf (sy_co s1) \<and> levelOf (sy_co s1) \<le> levelOf (sy_co s2) \<and>
    (let resp = fst (Subscription sd lk r st) in
     if levelOf (sy_co s1) = WarmingUp then resp = warmingResponse
     else case levelOf (sy_co s2) of
        WarmingUp \<Rightarrow> False | FailedClosed \<Rightarrow> resp = failedResponse | Open \<Rightarrow> rp_Status resp \<in> {200, 500}) \<and>
    (rp_Status (fst (Health encodeJSON cvt pipeline now lk r' st')) = 200 \<longleftrightarrow>
      levelOf (sy_co s1) \<noteq> WarmingUp \<and> levelOf (sy_co s2) = Open)"
proof -
  note i0 = sys_inv_run [OF assms(1)]
  note r1 = level_run [OF i0 assms(2)]
  then have r2: "levelOf (sy_co s1) \<le> levelOf (sy_co s2)" using level_run [OF _ assms(3)] by blast
  have health: "rp_Status (fst (Health encodeJSON cvt pipeline now lk r' st')) = 200 \<longleftrightarrow>
      co_ready (lk_ready lk) \<and> AllSucceeded (lk_succeeded lk)"
    by (simp add: Health_def healthBody_def Let_def)
  have ready: "co_ready (sy_co s1) \<Longrightarrow> co_ready (sy_co s2)"
    using r2 by (auto simp: levelOf_def less_eq_serviceLevel_def split: if_splits)
  show ?thesis
  proof (cases "co_ready (sy_co s1)")
    case False
    then show ?thesis using r1 r2 health assms(4,5) Subscription_gate [of sd lk r st] by (simp add: levelOf_def)
  next
    case True
    then have "levelOf (sy_co s1) \<noteq> WarmingUp" "levelOf (sy_co s2) = (if AllSucceeded (sy_co s2) then Open else FailedClosed)"
      using ready by (simp_all add: levelOf_def)
    then show ?thesis
      using True r1 r2 health assms(4,5) Subscription_gate [of sd lk r st] Subscription_open [of lk sd r st]
      by (cases "AllSucceeded (sy_co s2)") simp_all
  qed
qed

section \<open>What a flight has read\<close>

text \<open>The order of the readings, and that an answer is computed from them.\<close>

definition flight_ok :: "'st App \<Rightarrow> Flight \<Rightarrow> bool" where
  "flight_ok a fl \<longleftrightarrow>
     length (fl_gate fl) \<le> 2 \<and> (fl_gate fl \<noteq> [] \<longrightarrow> fl_auth fl \<noteq> None) \<and>
     (fl_headers fl \<noteq> Map.empty \<longrightarrow> allRead a (fl_cache fl)) \<and>
     (fl_loaded fl \<noteq> None \<longrightarrow> length (fl_gate fl) = 2 \<and> allRead a (fl_cache fl) \<and> allRead a (fl_headers fl)) \<and>
     (\<forall>out. fl_out fl = Some out \<longrightarrow> fl_loaded fl \<noteq> None \<and> (\<exists>now lk. out = answer a now lk fl)) \<and>
     (fl_done fl \<longrightarrow> fl_out fl \<noteq> None)"

lemma answer_update [simp]:
  "answer a now lk (fl\<lparr>fl_out := x\<rparr>) = answer a now lk fl" "answer a now lk (fl\<lparr>fl_done := d\<rparr>) = answer a now lk fl"
  "answer a now lk (fl\<lparr>fl_save := pc\<rparr>) = answer a now lk fl"
  by (simp_all add: answer_def flightApp_def flightLooks_def)

lemma flight_ok_step: "flight_step a s fl fl' d \<Longrightarrow> flight_ok a fl \<Longrightarrow> flight_ok a fl'"
  by (induction rule: flight_step.induct) (auto simp: flight_ok_def allRead_def list_all_iff less_2_cases_iff)

lemma NewFlight_ok: "flight_ok a (NewFlight r)"
  by (simp add: flight_ok_def NewFlight_def)

text \<open>A flight is witnessed when the store it looked its token up in satisfies \<open>T\<close>, and every
  coordinator it looked at was that of a system satisfying \<open>S\<close>.\<close>

definition witnessed :: "(System \<Rightarrow> bool) \<Rightarrow> (tokens \<Rightarrow> bool) \<Rightarrow> Flight \<Rightarrow> bool" where
  "witnessed S T fl \<longleftrightarrow> (\<forall>store now. fl_auth fl = Some (store, now) \<longrightarrow> T store) \<and>
     (\<forall>co\<in>set (fl_gate fl) \<union> ran (fl_cache fl) \<union> ran (fl_headers fl). \<exists>s. S s \<and> co = sy_co s)"

lemma witnessed_step:
  assumes "flight_step a s fl fl' d" and "witnessed S T fl" and "S (lv_sys s)" and "T (w_store (lv_watch s))"
  shows "witnessed S T fl'"
  using assms by (induction rule: flight_step.induct) (auto simp: witnessed_def ran_def split: if_splits)

lemma witnessed_cache: "witnessed S T fl \<Longrightarrow> fl_cache fl name = Some co \<Longrightarrow> \<exists>s. S s \<and> co = sy_co s"
  unfolding witnessed_def by (blast intro: ranI)

text \<open>Properties of the scheduler and of the watcher that their steps keep, the watcher's perhaps
  only under permitted steps, are witnessed by every flight that arrives while they hold.\<close>

locale flight_monitor =
  fixes srv :: Server and decode :: "string \<Rightarrow> string + TokenRecord option list" and wantBase :: string
    and S :: "System \<Rightarrow> bool" and W :: "Watcher \<Rightarrow> bool" and T :: "tokens \<Rightarrow> bool"
    and permitted :: "Watcher \<Rightarrow> Watcher \<Rightarrow> bool"
  assumes S_step: "S s \<Longrightarrow> sched_step (srv_deps srv) s b s' \<Longrightarrow> S s'"
    and W_step: "W w \<Longrightarrow> watch_step decode wantBase w w' \<Longrightarrow> permitted w w' \<Longrightarrow> W w'"
    and W_store: "W w \<Longrightarrow> T (w_store w)"
begin

definition monitored :: "nat \<Rightarrow> Live \<Rightarrow> bool" where
  "monitored n s \<longleftrightarrow> S (lv_sys s) \<and> W (lv_watch s) \<and> n \<le> length (lv_flights s) \<and>
     (\<forall>i. n \<le> i \<longrightarrow> i < length (lv_flights s) \<longrightarrow>
        witnessed S T (lv_flights s ! i) \<and> flight_ok (srv_app srv) (lv_flights s ! i))"

lemma monitored_step:
  assumes "live_step srv decode wantBase s s'" and "permitted (lv_watch s) (lv_watch s')" and "monitored n s"
  shows "monitored n s'"
  using assms(1)
proof cases
  case (schedule b sys)
  then show ?thesis using assms(3) S_step by (auto simp: monitored_def)
next
  case (watch w)
  then show ?thesis using assms(2,3) W_step by (auto simp: monitored_def)
next
  case (arrive r)
  have "witnessed S T (NewFlight r)" by (simp add: witnessed_def NewFlight_def)
  then show ?thesis using arrive assms(3) NewFlight_ok [of "srv_app srv" r] by (auto simp: monitored_def nth_append less_Suc_eq)
next
  case (fly i fl d)
  have "witnessed S T fl \<and> flight_ok (srv_app srv) fl" if "n \<le> i"
    using that fly assms(3) witnessed_step [OF fly(3)] flight_ok_step [OF fly(3)] W_store by (auto simp: monitored_def)
  then show ?thesis using fly assms(3) by (auto simp: monitored_def nth_list_update)
qed

lemma monitored_run:
  assumes "live_run srv decode wantBase permitted s s'" and "S (lv_sys s)" and "W (lv_watch s)"
  shows "monitored (length (lv_flights s)) s'"
  using assms(1) unfolding live_run_def
proof (induction rule: rtranclp_induct)
  case base
  then show ?case using assms(2,3) by (simp add: monitored_def)
next
  case (step s1 s2)
  then show ?case using monitored_step by blast
qed

lemma flight_witnessed:
  assumes "live_run srv decode wantBase permitted s s'" and "S (lv_sys s)" and "W (lv_watch s)"
    and "length (lv_flights s) \<le> i" and "i < length (lv_flights s')"
  shows "witnessed S T (lv_flights s' ! i)" and "flight_ok (srv_app srv) (lv_flights s' ! i)"
  using monitored_run [OF assms(1-3)] assms(4,5) by (simp_all add: monitored_def)

end

section \<open>Every answer in a run of the server\<close>

definition reachable :: "Server \<Rightarrow> System \<Rightarrow> bool" where
  "reachable srv s \<longleftrightarrow> (\<exists>bs. sched_run (srv_deps srv) (srv_system srv) bs s)"

definition loadedFrom :: "(string \<Rightarrow> string + TokenRecord option list) \<Rightarrow> tokens \<Rightarrow> bool" where
  "loadedFrom decode store \<longleftrightarrow> (\<exists>file. LoadTokens decode file NewTokenStore = Returns (None, store))"

definition anyStep :: "Watcher \<Rightarrow> Watcher \<Rightarrow> bool" where
  "anyStep w w' \<longleftrightarrow> True"

lemma reachable_step: "reachable srv s \<Longrightarrow> sched_step (srv_deps srv) s b s' \<Longrightarrow> reachable srv s'"
  unfolding reachable_def by (blast intro: sched_run.step)

interpretation running: flight_monitor srv decode wantBase "reachable srv" "\<lambda>w. loadedFrom decode (w_store w)" "loadedFrom decode" anyStep
  by unfold_locales (auto simp: loadedFrom_def intro: reachable_step loaded_step)

lemma started_watcher:
  assumes "run w = Returns (Inr srv)"
  shows "srv_watcher srv = Watch (wd_watchedFile w) (ap_tokens (srv_app srv))"
    and "LoadTokens (wd_decodeTokens w) (wd_tokensFile w) NewTokenStore = Returns (None, ap_tokens (srv_app srv))"
proof -
  from assms have "srv_watcher srv = Watch (wd_watchedFile w) (ap_tokens (srv_app srv)) \<and>
      LoadTokens (wd_decodeTokens w) (wd_tokensFile w) NewTokenStore = Returns (None, ap_tokens (srv_app srv))"
    by (rule run_ok) (simp add: assemble_def NewApp_def Let_def)
  then show "srv_watcher srv = Watch (wd_watchedFile w) (ap_tokens (srv_app srv))"
    "LoadTokens (wd_decodeTokens w) (wd_tokensFile w) NewTokenStore = Returns (None, ap_tokens (srv_app srv))" by simp_all
qed

lemma started_sys_inv:
  assumes "run w = Returns (Inr srv)" and "reachable srv s"
  shows "sys_inv s"
  using assms(1)
proof (rule run_ok)
  fix cfg reads subs tokens own adapter
  assume srv: "srv = assemble w cfg subs tokens own adapter"
  obtain bs where "sched_run (srv_deps srv) (srv_system srv) bs s" using assms(2) unfolding reachable_def by blast
  then show ?thesis unfolding srv assemble_sel by (rule sys_inv_run)
qed

lemma reachable_start: "reachable srv (srv_system srv)"
  unfolding reachable_def by (blast intro: sched_run.start)

lemma flightApp_sel [simp]:
  "ap_cfg (flightApp a fl) = ap_cfg a" "ap_tokens (flightApp a fl) = fst (the (fl_auth fl))"
  "sd_unmarshal (ap_deps (flightApp a fl)) = sd_unmarshal (ap_deps a)" "sd_encode (ap_deps (flightApp a fl)) = sd_encode (ap_deps a)"
  "sd_Adapter (ap_deps (flightApp a fl)) = sd_Adapter (ap_deps a)" "sd_Pipeline (ap_deps (flightApp a fl)) = sd_Pipeline (ap_deps a)"
  by (simp_all add: flightApp_def NewApp_def)

lemma flightLooks_sel [simp]:
  "lk_ready (flightLooks lk fl) = fl_gate fl ! 0" "lk_succeeded (flightLooks lk fl) = fl_gate fl ! 1"
  "lk_cache (flightLooks lk fl) = (\<lambda>name. the (fl_cache fl name))"
  by (simp_all add: flightLooks_def)

text \<open>A computed answer is the handler's answer, and the readings it rests on are complete.\<close>

lemma flight_answer:
  assumes "flight_ok a fl" and "fl_out fl = Some (resp, new)"
  obtains store tm co1 co2 now lk logs where "fl_auth fl = Some (store, tm)" and "fl_gate fl = [co1, co2]"
    and "allRead a (fl_cache fl)"
    and "ServeHTTP (buildMux (flightApp a fl) tm now (flightLooks lk fl)) (fl_req fl) None = (resp, logs, new)"
proof -
  obtain now lk where out: "(resp, new) = answer a now lk fl" and ld: "fl_loaded fl \<noteq> None"
    using assms by (auto simp: flight_ok_def)
  have g: "length (fl_gate fl) = 2" "fl_auth fl \<noteq> None" "allRead a (fl_cache fl)"
    using assms(1) ld unfolding flight_ok_def by fastforce+
  obtain store tm where auth: "fl_auth fl = Some (store, tm)" using g(2) by auto
  obtain co1 co2 where gate: "fl_gate fl = [co1, co2]"
    using g(1) by (metis (no_types, opaque_lifting) One_nat_def Suc_1 length_0_conv length_Suc_conv)
  obtain logs where "ServeHTTP (buildMux (flightApp a fl) tm now (flightLooks lk fl)) (fl_req fl) None = (resp, logs, new)"
    using out auth by (auto simp: answer_def split: prod.splits)
  then show ?thesis using that auth gate g(3) by blast
qed

lemma Subscription_served:
  "Subscription dp lk r st = (resp, logs, st') \<Longrightarrow> rp_Status resp = 200 \<or> st' \<noteq> st \<Longrightarrow>
     co_ready (lk_ready lk) \<and> AllSucceeded (lk_succeeded lk)"
  by (auto simp: Subscription_def split: if_splits)

text \<open>C1: every answer of the running server outside the health route is accounted for.  The path prefix
  has none of the characters braces and percent.  In any interleaving of the scheduler, the token
  watcher and the requests in flight, a request to a path other than \<open>/health\<close> (which answers anyone)
  is answered 200, or has a snapshot saved, only if its token was live in the store the watcher had
  when it was looked up, a store loaded from some version of the token file, its user agent is
  allowed, and the coordinator was ready when it looked and, when it looked again, had no failed
  source.\<close>

theorem live_answers_authorised:
  assumes "run w = Returns (Inr srv)"
    and "list_all (\<lambda>c. c \<notin> {CHR ''{'', CHR ''}'', CHR ''%''}) (cfg_URLPathPrefix (ap_cfg (srv_app srv)))"
    and "live_run srv (wd_decodeTokens w) wantBase anyStep (Launch srv d) s" and "fl \<in> set (lv_flights s)"
    and "fl_out fl = Some (resp, new)" and "rq_Path (fl_req fl) \<noteq> ''/health''" and "rp_Status resp = 200 \<or> new \<noteq> None"
  shows "\<exists>store tm. fl_auth fl = Some (store, tm) \<and> loadedFrom (wd_decodeTokens w) store \<and>
    Lookup tm store (rq_Query (fl_req fl) ''token'') \<noteq> None \<and>
    agentAllowed (cfg_AllowedUserAgentPrefixes (ap_cfg (srv_app srv))) (fl_req fl) \<and>
    (\<exists>s1 s2. reachable srv s1 \<and> reachable srv s2 \<and> fl_gate fl = [sy_co s1, sy_co s2] \<and>
      co_ready (sy_co s1) \<and> AllSucceeded (sy_co s2))"
proof -
  let ?d = "wd_decodeTokens w" and ?a = "srv_app srv"
  obtain i where i: "i < length (lv_flights s)" "lv_flights s ! i = fl" using assms(4) by (metis in_set_conv_nth)
  have "loadedFrom ?d (w_store (lv_watch (Launch srv d)))"
    using started_watcher [OF assms(1)] by (auto simp: Launch_def Watch_def loadedFrom_def)
  then have wit: "witnessed (reachable srv) (loadedFrom ?d) fl" and ok: "flight_ok ?a fl"
    using running.flight_witnessed [OF assms(3), of i] i reachable_start by (auto simp: Launch_def)
  obtain store tm co1 co2 now lk logs where f: "fl_auth fl = Some (store, tm)" "fl_gate fl = [co1, co2]"
    and serve: "ServeHTTP (buildMux (flightApp ?a fl) tm now (flightLooks lk fl)) (fl_req fl) None = (resp, logs, new)"
    by (rule flight_answer [OF ok assms(5)])
  have p: "plainPrefix (cfg_URLPathPrefix (ap_cfg (flightApp ?a fl)))" using started_prefix [OF assms(1,2)] by simp
  note auth = served_authorised [OF p assms(6) serve assms(7)]
  then have sub: "Subscription (ap_deps (flightApp ?a fl)) (flightLooks lk fl) (liveRequest (flightApp ?a fl) tm (fl_req fl)) None = (resp, logs, new)"
    using serve serve_authorised [OF p assms(6)] by simp
  have "co_ready co1" "AllSucceeded co2" using Subscription_served [OF sub assms(7)] f by simp_all
  moreover have "\<exists>s1 s2. reachable srv s1 \<and> reachable srv s2 \<and> co1 = sy_co s1 \<and> co2 = sy_co s2" "loadedFrom ?d store"
    using wit f by (auto simp: witnessed_def)
  ultimately show ?thesis using auth f by (auto simp: authorised_def)
qed

section \<open>An open server serves\<close>

definition openSystem :: "Server \<Rightarrow> System \<Rightarrow> bool" where
  "openSystem srv s \<longleftrightarrow> reachable srv s \<and> sys_inv s \<and> levelOf (sy_co s) = Open"

lemma openSystem_step: "openSystem srv s \<Longrightarrow> sched_step (srv_deps srv) s b s' \<Longrightarrow> openSystem srv s'"
proof -
  assume o: "openSystem srv s" and st: "sched_step (srv_deps srv) s b s'"
  have "Open \<le> levelOf (sy_co s')" using level_step [OF _ st] o by (simp add: openSystem_def)
  then have "levelOf (sy_co s') = Open" by (cases "levelOf (sy_co s')") (simp_all add: less_eq_serviceLevel_def)
  then show ?thesis using o st reachable_step sys_inv_step unfolding openSystem_def by blast
qed

interpretation opened: flight_monitor srv decode wantBase "openSystem srv" "\<lambda>w. loadedFrom decode (w_store w)" "loadedFrom decode" anyStep
  by unfold_locales (auto simp: loadedFrom_def intro: openSystem_step loaded_step)

lemma live_run_trans:
  "live_run srv decode wantBase permitted s s1 \<Longrightarrow> live_run srv decode wantBase permitted s1 s2 \<Longrightarrow> live_run srv decode wantBase permitted s s2"
  unfolding live_run_def by (rule rtranclp_trans)

lemma open_flight_served:
  assumes "run w = Returns (Inr srv)"
    and "list_all (\<lambda>c. c \<notin> {CHR ''{'', CHR ''}'', CHR ''%''}) (cfg_URLPathPrefix (ap_cfg (srv_app srv)))"
    and "wd_template w = Inr tmpl"
    and "live_run srv (wd_decodeTokens w) wantBase anyStep (Launch srv d) s" and "levelOf (sy_co (lv_sys s)) = Open"
    and "live_run srv (wd_decodeTokens w) wantBase anyStep s s'"
    and "length (lv_flights s) \<le> i" and "i < length (lv_flights s')" and "fl = lv_flights s' ! i" and "fl_out fl = Some (resp, new)"
    and "authorised (srv_app srv\<lparr>ap_tokens := fst (the (fl_auth fl))\<rparr>) (snd (the (fl_auth fl))) (fl_req fl)"
    and "readMethod (fl_req fl)" and "rq_Path (fl_req fl) \<noteq> ''/health''"
    and "subscriptionPath (cfg_URLPathPrefix (ap_cfg (srv_app srv))) (rq_Path (fl_req fl))"
  shows "\<exists>merged.
    resp = (case Render (wd_unmarshal w) (wd_encode w) tmpl (Some merged) of
        Inl _ \<Rightarrow> http_Error ''internal server error'' 500
      | Inr rendered \<Rightarrow> \<lparr>rp_Status = 200, rp_Headers = rd_Headers rendered, rp_Body = rd_Body rendered\<rparr>) \<and>
    mset (mc_ContributingSources merged) =
      mset (map row_Name (filter (\<lambda>row. row_Enable row \<and> Get (co_cache (the (fl_cache fl (row_Name row)))) (row_Name row) \<noteq> None) (startRows srv)))"
proof -
  let ?d = "wd_decodeTokens w" and ?a = "srv_app srv"
  have "loadedFrom ?d (w_store (lv_watch (Launch srv d)))"
    using started_watcher [OF assms(1)] by (auto simp: Launch_def Watch_def loadedFrom_def)
  then have mon: "reachable srv (lv_sys s)" "loadedFrom ?d (w_store (lv_watch s))"
    using running.monitored_run [OF assms(4)] reachable_start by (auto simp: running.monitored_def Launch_def)
  then have "openSystem srv (lv_sys s)" using started_sys_inv [OF assms(1)] assms(5) by (simp add: openSystem_def)
  then have wit: "witnessed (openSystem srv) (loadedFrom ?d) fl" and ok: "flight_ok ?a fl"
    using opened.flight_witnessed [OF assms(6) _ mon(2) assms(7,8)] assms(9) by simp_all
  obtain store tm co1 co2 now lk logs where f: "fl_auth fl = Some (store, tm)" "fl_gate fl = [co1, co2]" "allRead ?a (fl_cache fl)"
    and serve: "ServeHTTP (buildMux (flightApp ?a fl) tm now (flightLooks lk fl)) (fl_req fl) None = (resp, logs, new)"
    by (rule flight_answer [OF ok assms(10)])
  obtain s1 s2 where "co1 = sy_co s1" "openSystem srv s1" "co2 = sy_co s2" "openSystem srv s2" using wit f(2) by (auto simp: witnessed_def)
  then have gate: "co_ready co1" "AllSucceeded co2" by (auto simp: openSystem_def levelOf_def split: if_splits)
  have cache: "cache_inv (wd_unmarshal w) (co_cache (the (fl_cache fl (row_Name row))))" if row: "row \<in> set (appRows ?a)" for row :: SubscriptionRow
  proof -
    obtain co where co: "fl_cache fl (row_Name row) = Some co" using f(3) row by (auto simp: allRead_def list_all_iff)
    obtain s0 where "openSystem srv s0" "co = sy_co s0" using witnessed_cache [OF wit co] by blast
    then show ?thesis using started_cache_inv [OF assms(1)] co by (auto simp: openSystem_def reachable_def)
  qed
  note t = started_template [OF assms(1,3)]
  have auth: "authorised (flightApp ?a fl) tm (fl_req fl)" using assms(11) f(1) by (simp add: authorised_def)
  let ?fa = "flightApp ?a fl" and ?lk = "flightLooks lk fl"
  have "\<exists>merged st'.
      Build (sd_ulower (ap_deps ?fa)) (sd_cvt (ap_deps ?fa)) (wd_unmarshal w) (readerAt (lk_cache ?lk)) (readerAt (lk_headers ?lk))
        (sd_snapshotter (ap_deps ?fa)) (sd_Pipeline (ap_deps ?a)) (lk_clk1 ?lk) (lk_clk2 ?lk) None = (Inr merged, st') \<and>
      fst (ServeHTTP (buildMux ?fa tm now ?lk) (fl_req fl) None) = (case Render (wd_unmarshal w) (wd_encode w) tmpl (Some merged) of
        Inl _ \<Rightarrow> http_Error ''internal server error'' 500
      | Inr rendered \<Rightarrow> \<lparr>rp_Status = 200, rp_Headers = rd_Headers rendered, rp_Body = rd_Body rendered\<rparr>)"
    using ready_server_answers [of ?fa ?lk "fl_req fl" tm None now] cache gate f(2) t
      started_prefix [OF assms(1,2)] auth assms(12-14) by (simp add: appRows_def)
  then obtain merged st' where r: "resp = (case Render (wd_unmarshal w) (wd_encode w) tmpl (Some merged) of
        Inl _ \<Rightarrow> http_Error ''internal server error'' 500
      | Inr rendered \<Rightarrow> \<lparr>rp_Status = 200, rp_Headers = rd_Headers rendered, rp_Body = rd_Body rendered\<rparr>)"
    and b: "Build (sd_ulower (ap_deps ?fa)) (sd_cvt (ap_deps ?fa)) (wd_unmarshal w) (readerAt (lk_cache ?lk)) (readerAt (lk_headers ?lk))
        (sd_snapshotter (ap_deps ?fa)) (sd_Pipeline (ap_deps ?a)) (lk_clk1 ?lk) (lk_clk2 ?lk) None = (Inr merged, st')"
    unfolding serve fst_conv by blast
  have "mset (mc_ContributingSources merged) =
      mset (map row_Name (filter (\<lambda>row. row_Enable row \<and> Get (co_cache (the (fl_cache fl (row_Name row)))) (row_Name row) \<noteq> None) (startRows srv)))"
    using Build_contributing [OF b] by (simp add: startRows_def readerAt_def)
  with r show ?thesis by blast
qed

text \<open>C2: once open, the server serves every client it should.  The path prefix has none of the characters
  braces and percent.  From a state of the running server in which the bootstrap is over and no
  source has failed, whatever the scheduler, the watcher and other requests do from then on, take a
  GET or HEAD request that arrives later on a subscription path with an allowed user agent and a
  token that is live in the store at its lookup.  When it is answered, the answer comes from a
  configuration built from the payloads it found in the cache, one contribution for every enabled
  source that had one: 200 with the rendering of that configuration, or a 500 when the template
  adapter cannot render it; never a 503, a 401 or a 404.\<close>

theorem live_open_serves:
  assumes "run w = Returns (Inr srv)"
    and "list_all (\<lambda>c. c \<notin> {CHR ''{'', CHR ''}'', CHR ''%''}) (cfg_URLPathPrefix (ap_cfg (srv_app srv)))"
    and "wd_template w = Inr tmpl"
    and "live_run srv (wd_decodeTokens w) wantBase anyStep (Launch srv d) s" and "levelOf (sy_co (lv_sys s)) = Open"
    and "live_run srv (wd_decodeTokens w) wantBase anyStep s s'"
    and "length (lv_flights s) \<le> i" and "i < length (lv_flights s')" and "fl = lv_flights s' ! i" and "fl_out fl = Some (resp, new)"
    and "authorised (srv_app srv\<lparr>ap_tokens := fst (the (fl_auth fl))\<rparr>) (snd (the (fl_auth fl))) (fl_req fl)"
    and "readMethod (fl_req fl)" and "rq_Path (fl_req fl) \<noteq> ''/health''"
    and "subscriptionPath (cfg_URLPathPrefix (ap_cfg (srv_app srv))) (rq_Path (fl_req fl))"
  shows "\<exists>merged.
    resp = (case Render (wd_unmarshal w) (wd_encode w) tmpl (Some merged) of
        Inl _ \<Rightarrow> http_Error ''internal server error'' 500
      | Inr rendered \<Rightarrow> \<lparr>rp_Status = 200, rp_Headers = rd_Headers rendered, rp_Body = rd_Body rendered\<rparr>) \<and>
    mset (mc_ContributingSources merged) =
      mset (map row_Name (filter (\<lambda>row. row_Enable row \<and> Get (co_cache (the (fl_cache fl (row_Name row)))) (row_Name row) \<noteq> None) (startRows srv)))"
  by (rule open_flight_served [OF assms])

section \<open>A revoked token is locked out\<close>

definition loneStep :: "Watcher \<Rightarrow> Watcher \<Rightarrow> bool" where
  "loneStep w w' \<longleftrightarrow> length (w_loads w') \<le> 1"

definition sameFile :: "Watcher \<Rightarrow> Watcher \<Rightarrow> bool" where
  "sameFile w w' \<longleftrightarrow> w_file w' = w_file w"

text \<open>The store is that of the file, and so is what every load under way has read.\<close>

definition settledOn ::
  "(string \<Rightarrow> string + TokenRecord option list) \<Rightarrow> string + string \<Rightarrow> tokens \<Rightarrow> Watcher \<Rightarrow> bool" where
  "settledOn decode file store w \<longleftrightarrow> LoadTokens decode file NewTokenStore = Returns (None, store) \<and>
     w_file w = file \<and> w_store w = store \<and> list_all (\<lambda>l. l \<in> {Started, HasRead file}) (w_loads w)"

lemma settledOn_step:
  assumes "settledOn decode file store w" and "watch_step decode wantBase w w'" and "sameFile w w'"
  shows "settledOn decode file store w'"
  using assms(2)
proof cases
  case (event ev q now)
  then have "w_file w' = w_file w" "w_store w' = w_store w" "w_loads w' = w_loads w"
    by (simp_all add: handleEvent_def triggerReload_def split: watch_event.splits)
  then show ?thesis using assms(1) by (simp add: settledOn_def)
next
  case (read i)
  then show ?thesis using assms(1) set_update_subset_insert [of "w_loads w" i "HasRead file"]
    by (auto simp: settledOn_def list_all_iff)
next
  case (swap i f)
  then have "f = file" using assms(1) nth_mem [of i "w_loads w"] by (auto simp: settledOn_def list_all_iff)
  moreover have "LoadTokens decode file store = Returns (None, store)"
    using assms(1) LoadTokens_again unfolding settledOn_def by blast
  ultimately have "w' = w\<lparr>w_loads := take i (w_loads w) @ drop (Suc i) (w_loads w)\<rparr>"
    using assms(1) swap(1) by (simp add: reload_def settledOn_def)
  then show ?thesis using assms(1) by (auto simp: settledOn_def list_all_iff dest: in_set_takeD in_set_dropD)
qed (use assms(1,3) in \<open>auto simp: settledOn_def sameFile_def\<close>)

interpretation lone: flight_monitor srv decode wantBase "\<lambda>_. True" "watch_inv decode wantBase" "\<lambda>_. True" loneStep
  by unfold_locales (auto simp: loneStep_def lone_step_def intro: watch_inv_step)

interpretation settled: flight_monitor srv decode wantBase "\<lambda>_. True" "settledOn decode file store" "\<lambda>s. s = store" sameFile
  by (unfold_locales; (blast intro: settledOn_step | simp add: settledOn_def))

lemma rejected:
  assumes "\<not> authorised a tm r"
  shows "\<exists>logs. subHandler a tm lk (r\<lparr>rq_Path := path\<rparr>) st =
     (if agentAllowed (cfg_AllowedUserAgentPrefixes (ap_cfg a)) r then statusOnly 401 else statusOnly 403, logs, st)"
proof -
  have same: "a\<lparr>ap_deps := ap_deps a\<rparr> = a" by (cases a) simp
  note rej = subHandler_rejected(1,2) [OF assms, of "ap_deps a" lk path st, unfolded same]
  show ?thesis by (rule exI [of _ "fst (snd (subHandler a tm lk (r\<lparr>rq_Path := path\<rparr>) st))"]) (simp add: prod_eq_iff rej)
qed

lemma serve_rejected:
  assumes "plainPrefix (cfg_URLPathPrefix (ap_cfg a))" and "rq_Path r \<noteq> ''/health''" and "\<not> authorised a tm r"
    and "ServeHTTP (buildMux a tm now lk) r st = (resp, logs, st1)"
  shows "st1 = st \<and> resp \<in> {statusOnly 401, statusOnly 403, NotFound, methodNotAllowed}"
  using assms(4) rejected [OF assms(3), of lk "drop (length (cfg_URLPathPrefix (ap_cfg a))) (rq_Path r)" st]
  unfolding serve_subscription [OF assms(1,2)] by (auto split: if_splits)

lemma Lookup_loaded:
  assumes "decode b = Inr recs" and "LoadTokens decode (Inr b) NewTokenStore = Returns (None, store)" and "Lookup tm store token = Some rec"
  shows "Some rec \<in> set recs \<and> tr_Token rec = token \<and> \<not> tr_Revoked rec \<and> \<not> expired tm rec"
proof -
  have "loadRecords recs [] = Returns (Inr store)"
    using assms(1,2) by (auto simp: LoadTokens_def NewTokenStore_def split: panicking.splits sum.splits)
  then have ok: "tokensOk recs" and st: "store = map (\<lambda>rec. (tr_Token (the rec), the rec)) recs" using loadRecords_iff by auto
  have l: "map_of store token = Some rec" "\<not> tr_Revoked rec" "\<not> expired tm rec" using assms(3) by (auto simp: Lookup_def split: option.splits if_splits)
  obtain x where x: "x \<in> set recs" "token = tr_Token (the x)" "rec = the x" using map_of_SomeD [OF l(1)] by (auto simp: st)
  moreover have "x \<noteq> None" using ok x(1) unfolding tokensOk_def by metis
  ultimately show ?thesis using l(2,3) by auto
qed


section \<open>Requests complete\<close>

definition unread :: "'st App \<Rightarrow> (string \<rightharpoonup> Coordinator) \<Rightarrow> nat" where
  "unread a m = length (filter (\<lambda>row. m (row_Name row) = None) (appRows a))"

definition pending :: "'st App \<Rightarrow> Flight \<Rightarrow> nat" where
  "pending a fl = (if fl_auth fl = None then 1 else 0) + (2 - length (fl_gate fl)) + unread a (fl_cache fl) + unread a (fl_headers fl) +
     (if fl_loaded fl = None then 1 else 0) + (if fl_out fl = None then 1 else 0) + stepsLeft (fl_save fl) + (if fl_done fl then 0 else 1)"

lemma unread_update:
  assumes "row \<in> set (appRows a)" and "m (row_Name row) = None"
  shows "unread a (m(row_Name row \<mapsto> co)) < unread a m"
proof -
  have "filter (\<lambda>r. (m(row_Name row \<mapsto> co)) (row_Name r) = None) (appRows a) =
      filter (\<lambda>r. row_Name r \<noteq> row_Name row) (filter (\<lambda>r. m (row_Name r) = None) (appRows a))"
    by (auto simp: filter_filter intro: filter_cong)
  moreover have "row \<in> set (filter (\<lambda>r. m (row_Name r) = None) (appRows a))" using assms by simp
  ultimately show ?thesis unfolding unread_def
    using length_filter_less [of row "filter (\<lambda>r. m (row_Name r) = None) (appRows a)" "\<lambda>r. row_Name r \<noteq> row_Name row"] by simp
qed

lemma not_allRead: "\<not> allRead a m \<Longrightarrow> \<exists>row\<in>set (appRows a). m (row_Name row) = None"
  by (auto simp: allRead_def list_all_iff)

text \<open>The flight \<open>fl\<close> has a step to one that is closer to its end.\<close>

definition progresses :: "'st App \<Rightarrow> Live \<Rightarrow> Flight \<Rightarrow> bool" where
  "progresses a s fl \<longleftrightarrow> (\<exists>fl' d. flight_step a s fl fl' d \<and> pending a fl' < pending a fl)"

lemma progressI:
  "flight_step a s fl fl' d \<Longrightarrow> pending a fl' < pending a fl \<Longrightarrow> progresses a s fl"
  unfolding progresses_def by blast

lemma flight_reads:
  assumes "length (fl_gate fl) = 2" and "fl_loaded fl = None" and hd: "fl_headers fl \<noteq> Map.empty \<longrightarrow> allRead a (fl_cache fl)"
  shows "progresses a s fl"
proof (cases "allRead a (fl_cache fl)")
  case False
  then obtain row where row: "row \<in> set (appRows a)" "fl_cache fl (row_Name row) = None" using not_allRead by blast
  have h: "fl_headers fl = Map.empty" using hd False by blast
  show ?thesis
    by (rule progressI [OF flight_step.read_payload [OF assms(1) h assms(2) row(2)]])
      (use unread_update [of row a "fl_cache fl" "sy_co (lv_sys s)"] row h in \<open>simp_all add: pending_def\<close>)
next
  case True
  show ?thesis
  proof (cases "allRead a (fl_headers fl)")
    case False
    then obtain row where row: "row \<in> set (appRows a)" "fl_headers fl (row_Name row) = None" using not_allRead by blast
    show ?thesis
      by (rule progressI [OF flight_step.read_headers [OF assms(1) True assms(2) row(2)]])
        (use unread_update [of row a "fl_headers fl" "sy_co (lv_sys s)"] row True in \<open>simp_all add: pending_def\<close>)
  next
    case full: True
    show ?thesis
      by (rule progressI [OF flight_step.load [OF assms(1) True full assms(2)]]) (use True assms(2) in \<open>simp_all add: pending_def\<close>)
  qed
qed

lemma flight_ends:
  assumes "fl_out fl = Some out" and "\<not> fl_done fl"
  shows "progresses a s fl"
proof -
  obtain resp new where out: "out = (resp, new)" by (cases out)
  show ?thesis
  proof (cases new)
    case None
    show ?thesis
      by (rule progressI [OF flight_step.respond [of fl resp]]) (use assms out None in \<open>simp_all add: pending_def\<close>)
  next
    case (Some snap)
    then have o: "fl_out fl = Some (resp, Some snap)" using assms(1) out by simp
    show ?thesis
    proof (cases "\<exists>e. fl_save fl = Finished e")
      case True
      then obtain e where "fl_save fl = Finished e" by blast
      from progressI [OF flight_step.respond_saved [OF o this assms(2)]] show ?thesis using assms(2) by (simp add: pending_def)
    next
      case False
      then obtain pc d where st: "save_step (snapshotPath a) snap (fl_save fl, lv_disk s) (pc, d)" using save_step_enabled by blast
      from progressI [OF flight_step.save [OF o st]] show ?thesis using save_step_less [OF st] by (simp add: pending_def)
    qed
  qed
qed

text \<open>A flight that is not done has a next step, whatever the rest of the server is doing.\<close>

lemma flight_enabled:
  assumes "flight_ok a fl" and "\<not> fl_done fl"
  shows "progresses a s fl"
proof (cases "fl_auth fl")
  case None
  show ?thesis by (rule progressI [OF flight_step.authenticate [OF None]]) (use None in \<open>simp_all add: pending_def\<close>)
next
  case (Some auth)
  have "length (fl_gate fl) < 2 \<or> length (fl_gate fl) = 2" using assms(1) by (auto simp: flight_ok_def)
  then consider (gate) "length (fl_gate fl) < 2" | (read) "length (fl_gate fl) = 2" "fl_loaded fl = None"
    | (compute) "fl_loaded fl \<noteq> None" "fl_out fl = None" | (respond) out where "fl_out fl = Some out"
    by (cases "fl_out fl"; cases "fl_loaded fl") auto
  then show ?thesis
  proof cases
    case gate
    have auth: "fl_auth fl \<noteq> None" using Some by simp
    show ?thesis by (rule progressI [OF flight_step.gate [OF auth gate]]) (use gate in \<open>simp_all add: pending_def\<close>)
  next
    case read
    then show ?thesis using assms(1) by (intro flight_reads) (simp_all add: flight_ok_def)
  next
    case compute
    show ?thesis by (rule progressI [OF flight_step.compute [OF compute]]) (use compute in \<open>simp_all add: pending_def\<close>)
  next
    case (respond out)
    then show ?thesis using assms(2) by (rule flight_ends)
  qed
qed

lemma flight_step_keeps:
  "flight_step a s fl fl' d \<Longrightarrow> fl_req fl' = fl_req fl \<and> (fl_auth fl \<noteq> None \<longrightarrow> fl_auth fl' = fl_auth fl)"
  by (induction rule: flight_step.induct) auto

lemma complete_flight:
  assumes "\<And>w. permitted w w" and "flight_ok (srv_app srv) (lv_flights s ! i)" and "i < length (lv_flights s)"
  shows "\<exists>s'. live_run srv decode wantBase permitted s s' \<and> lv_sys s' = lv_sys s \<and> lv_watch s' = lv_watch s \<and>
    length (lv_flights s') = length (lv_flights s) \<and> (\<forall>j. j \<noteq> i \<longrightarrow> lv_flights s' ! j = lv_flights s ! j) \<and>
    fl_req (lv_flights s' ! i) = fl_req (lv_flights s ! i) \<and>
    (fl_auth (lv_flights s ! i) \<noteq> None \<longrightarrow> fl_auth (lv_flights s' ! i) = fl_auth (lv_flights s ! i)) \<and>
    flight_ok (srv_app srv) (lv_flights s' ! i) \<and> fl_done (lv_flights s' ! i) \<and> fl_out (lv_flights s' ! i) \<noteq> None"
  using assms(2,3)
proof (induction "pending (srv_app srv) (lv_flights s ! i)" arbitrary: s rule: less_induct)
  case less
  let ?a = "srv_app srv" and ?run = "live_run srv decode wantBase permitted" and ?fl = "lv_flights s ! i"
  show ?case
  proof (cases "fl_done ?fl")
    case True
    then show ?thesis using less.prems by (intro exI [of _ s]) (auto simp: live_run_def flight_ok_def)
  next
    case False
    obtain fl d where fl: "flight_step ?a s ?fl fl d" "pending ?a fl < pending ?a ?fl"
      using flight_enabled [OF less.prems(1) False, of s] unfolding progresses_def by blast
    let ?s = "s\<lparr>lv_flights := (lv_flights s)[i := fl], lv_disk := d\<rparr>"
    have keeps: "fl_req fl = fl_req ?fl" "fl_auth ?fl \<noteq> None \<longrightarrow> fl_auth fl = fl_auth ?fl" using flight_step_keeps [OF fl(1)] by simp_all
    have at_i: "lv_flights ?s ! i = fl" using less.prems(2) by simp
    have step: "?run s ?s" using live_step.fly [OF less.prems(2) fl(1)] assms(1) by (auto simp: live_run_def)
    obtain s' where s': "?run ?s s'" "lv_sys s' = lv_sys s" "lv_watch s' = lv_watch s" "length (lv_flights s') = length (lv_flights s)"
      "\<forall>j. j \<noteq> i \<longrightarrow> lv_flights s' ! j = lv_flights s ! j"
      "fl_req (lv_flights s' ! i) = fl_req fl" "fl_auth fl \<noteq> None \<longrightarrow> fl_auth (lv_flights s' ! i) = fl_auth fl"
      "flight_ok ?a (lv_flights s' ! i)" "fl_done (lv_flights s' ! i)" "fl_out (lv_flights s' ! i) \<noteq> None"
      using less.hyps [of ?s] fl(2) flight_ok_step [OF fl(1) less.prems(1)] less.prems(2) at_i by auto
    have "fl_auth ?fl \<noteq> None \<longrightarrow> fl_auth (lv_flights s' ! i) = fl_auth ?fl" using keeps(2) s'(7) by metis
    then show ?thesis using live_run_trans [OF step s'(1)] s'(2-6,8-10) keeps(1) by (intro exI [of _ s']) simp
  qed
qed

section \<open>The snapshot file under concurrent requests\<close>

definition produced :: "Flight list \<Rightarrow> Snapshot set" where
  "produced fls = {snap. \<exists>fl\<in>set fls. \<exists>resp. fl_out fl = Some (resp, Some snap)}"

definition snapshots_inv :: "string \<Rightarrow> filesystem \<Rightarrow> Live \<Rightarrow> bool" where
  "snapshots_inv path fs s \<longleftrightarrow>
     saves_inv path fs (produced (lv_flights s)) (fl_save ` set (lv_flights s)) (lv_disk s) \<and>
     (\<forall>fl\<in>set (lv_flights s). \<forall>l. fl_loaded fl = Some l \<longrightarrow> l \<in> loadable path fs (produced (lv_flights s)))"

lemma produced_update:
  assumes "i < length fls" and "\<And>out. fl_out (fls ! i) = Some out \<Longrightarrow> fl_out fl = Some out"
  shows "produced fls \<subseteq> produced (fls[i := fl])"
proof
  fix snap
  assume "snap \<in> produced fls"
  then obtain j resp where j: "j < length fls" "fl_out (fls ! j) = Some (resp, Some snap)"
    by (auto simp: produced_def in_set_conv_nth)
  then have "fl_out (fls[i := fl] ! j) = Some (resp, Some snap)" using assms(2) by (cases "j = i") simp_all
  then show "snap \<in> produced (fls[i := fl])" using j(1) unfolding produced_def by (metis (mono_tags) length_list_update mem_Collect_eq nth_mem)
qed

lemma flight_step_out: "flight_step a s fl fl' d \<Longrightarrow> fl_out fl = Some out \<Longrightarrow> fl_out fl' = Some out"
  by (induction rule: flight_step.induct) auto

lemma flight_step_disk:
  assumes "flight_step a s fl fl' d" and "saves_inv (snapshotPath a) fs X pcs (lv_disk s)" and "fl_save fl \<in> pcs"
    and "\<And>resp snap. fl_out fl = Some (resp, Some snap) \<Longrightarrow> snap \<in> X"
  shows "saves_inv (snapshotPath a) fs X (insert (fl_save fl') pcs) d"
  using assms(1)
proof cases
  case (save resp snap pc)
  show ?thesis using saves_inv_step [OF save(3) assms(2) _ assms(3)] assms(4) [OF save(2)] save(1) by simp
qed (use assms(2,3) in \<open>simp_all add: insert_absorb\<close>)

lemma flight_step_loaded:
  "flight_step a s fl fl' d \<Longrightarrow> fl_loaded fl' = Some l \<Longrightarrow>
     fl_loaded fl = Some l \<or> l = FileLoad (snapshotPath a) (view (lv_disk s))"
  by (induction rule: flight_step.induct) auto

lemma snapshots_inv_fly:
  assumes "snapshots_inv (snapshotPath a) fs s" and "i < length (lv_flights s)" and "flight_step a s (lv_flights s ! i) fl d"
  shows "snapshots_inv (snapshotPath a) fs (s\<lparr>lv_flights := (lv_flights s)[i := fl], lv_disk := d\<rparr>)"
proof -
  let ?fls = "lv_flights s" and ?p = "snapshotPath a"
  let ?new = "?fls[i := fl]"
  have fl_in: "?fls ! i \<in> set ?fls" using assms(2) by simp
  have more: "produced ?fls \<subseteq> produced ?new" using produced_update [OF assms(2)] flight_step_out [OF assms(3)] by blast
  have inv: "saves_inv ?p fs (produced ?fls) (fl_save ` set ?fls) (lv_disk s)" using assms(1) by (simp add: snapshots_inv_def)
  have "saves_inv ?p fs (produced ?fls) (insert (fl_save fl) (fl_save ` set ?fls)) d"
    by (rule flight_step_disk [OF assms(3) inv]) (use fl_in in \<open>auto simp: produced_def\<close>)
  moreover have sub: "set ?new \<subseteq> insert fl (set ?fls)" by (rule set_update_subset_insert)
  ultimately have disk: "saves_inv ?p fs (produced ?new) (fl_save ` set ?new) d"
    using more by (auto elim!: saves_inv_mono)
  have old: "l \<in> loadable ?p fs (produced ?fls)" if "x \<in> set ?fls" "fl_loaded x = Some l" for x l
    using assms(1) that by (simp add: snapshots_inv_def)
  have "l \<in> loadable ?p fs (produced ?new)" if x: "x \<in> set ?new" "fl_loaded x = Some l" for x l
  proof -
    have "x \<in> set ?fls \<or> x = fl" using sub x(1) by blast
    then have "l \<in> loadable ?p fs (produced ?fls)"
      using old fl_in x(2) flight_step_loaded [OF assms(3)] saves_inv_load [OF inv] by metis
    then show ?thesis using loadable_mono [OF more] by blast
  qed
  then show ?thesis using disk by (simp add: snapshots_inv_def)
qed

lemma snapshots_inv_step:
  assumes "live_step srv decode wantBase s s'" and "snapshots_inv (snapshotPath (srv_app srv)) fs s"
  shows "snapshots_inv (snapshotPath (srv_app srv)) fs s'"
  using assms(1)
proof cases
  case (arrive r)
  have "produced (lv_flights s @ [NewFlight r]) = produced (lv_flights s)" by (auto simp: produced_def NewFlight_def)
  then show ?thesis using assms(2) arrive by (auto simp: snapshots_inv_def NewFlight_def elim!: saves_inv_mono)
next
  case (fly i fl d)
  then show ?thesis using snapshots_inv_fly [OF assms(2)] by simp
qed (use assms(2) in \<open>simp_all add: snapshots_inv_def\<close>)

text \<open>C13: the snapshot file holds nothing but snapshots.  However the requests in flight interleave their
  loads and saves, and whichever system calls of a save fail, what a request loads is what was in the
  file when the server started, a snapshot that some request captured, or nothing, and then it captures a
  new one; a mixture of two snapshots is never used.\<close>

theorem live_snapshots_genuine:
  assumes "disk_ok d" and "live_run srv decode wantBase permitted (Launch srv d) s"
    and "fl \<in> set (lv_flights s)" and "fl_loaded fl = Some l"
  shows "l \<in> {FileLoad (snapshotPath (srv_app srv)) (view d), Inr None} \<or>
    (\<exists>snap fl' resp. l = Inr (Some snap) \<and> fl' \<in> set (lv_flights s) \<and> fl_out fl' = Some (resp, Some snap))"
proof -
  have "snapshots_inv (snapshotPath (srv_app srv)) (view d) s"
    using assms(2) unfolding live_run_def
  proof (induction rule: rtranclp_induct)
    case base
    then show ?case using assms(1) by (simp add: snapshots_inv_def saves_inv_def Launch_def)
  next
    case (step s1 s2)
    then show ?case using snapshots_inv_step by blast
  qed
  then show ?thesis using assms(3,4) by (fastforce simp: snapshots_inv_def loadable_def produced_def)
qed

section \<open>A flight alone is a call of the handler\<close>

text \<open>What a recorded save does to the store it stands for.\<close>

definition replay :: "(Snapshot option \<Rightarrow> 'st \<Rightarrow> 'st \<times> save_error option) \<Rightarrow> Snapshot option \<Rightarrow> 'st \<Rightarrow> 'st" where
  "replay save new st = (case new of None \<Rightarrow> st | Some _ \<Rightarrow> fst (save new st))"

lemma serveTraffic_recording:
  "serveTraffic cvt (Some (load, save)) m c t loc st =
     (let (h, new) = serveTraffic cvt (Some (recordingOps (load st))) m c t loc None in (h, replay save new st))"
  by (auto simp: serveTraffic_ops recordingOps_def replay_def Let_def split: prod.split)

lemma Build_recording:
  "Build ulower cvt unmarshal get get' (Some (load, save)) p c1 c2 st =
     (let (r, new) = Build ulower cvt unmarshal get get' (Some (recordingOps (load st))) p c1 c2 None in (r, replay save new st))"
proof -
  have "Build ulower cvt unmarshal get get' ops p c1 c2 st =
    (case Build ulower cvt unmarshal get get' (None :: unit snapshotOps option) p c1 c2 () of
        (Inl e, _) \<Rightarrow> (Inl e, st)
      | (Inr mc, _) \<Rightarrow> (let (h, st) = serveTraffic cvt ops (userinfoOf get' (mc_ContributingSources mc)) c1 c2 (p_budgetLocation p) st
          in (Inr (mc\<lparr>mc_ServedTrafficHeader := h\<rparr>), st)))" for ops :: "'x snapshotOps option" and st
    by (simp add: Build_unfold serveTraffic_def Let_def split: sum.split prod.split)
  note split = this
  show ?thesis unfolding split [of _ st] split [of _ None] serveTraffic_recording [of cvt load save _ _ _ _ st]
    by (simp add: Let_def replay_def split: prod.split sum.split)
qed

definition recordingApp :: "load_error + Snapshot option \<Rightarrow> 'st App \<Rightarrow> (Snapshot option) App" where
  "recordingApp loaded a =
     NewApp (ap_cfg a) (ap_sha256 a) (ap_tokens a) (WithSnapshotter (Some (recordingOps loaded)) (ap_deps a)) (ap_encodeJSON a)"

lemma recordingApp_sel [simp]:
  "ap_cfg (recordingApp l a) = ap_cfg a" "ap_tokens (recordingApp l a) = ap_tokens a"
  "authorised (recordingApp l a) = authorised a" "liveRequest (recordingApp l a) = liveRequest a"
  "ap_deps (recordingApp l a) = WithSnapshotter (Some (recordingOps l)) (ap_deps a)"
  by (simp_all add: recordingApp_def NewApp_def authorised_def [abs_def] liveRequest_def [abs_def])

definition outcome :: "Response \<times> logLine list \<times> 'st \<Rightarrow> Response \<times> 'st" where
  "outcome = (\<lambda>(resp, _, st). (resp, st))"

lemma Subscription_recording:
  assumes "sd_snapshotter d = Some (load, save)"
  shows "outcome (Subscription d lk r st) =
     (case outcome (Subscription (WithSnapshotter (Some (recordingOps (load st))) d) lk r None) of (resp, new) \<Rightarrow> (resp, replay save new st))"
  by (simp add: Subscription_def outcome_def BuildLogged_split assms Build_recording [of _ _ _ _ _ load save _ _ _ st] replay_def Let_def
      split: prod.split sum.split)

text \<open>C18: a request alone is a call of the handler.  Whatever the readings, the response and the snapshot
  recorded for saving are those of the handlers run, from the token lookup to the save, on the file
  system the snapshot was loaded from: a flight differs from such a call only in that other requests
  may save between its load and its save.\<close>

theorem flight_alone:
  assumes "plainPrefix (cfg_URLPathPrefix (ap_cfg a))" and "rq_Path r \<noteq> ''/health''"
    and "sd_snapshotter (ap_deps a) = Some (FileLoad path, FileSave path fault)"
    and "fl_req fl = r" and "fl_auth fl = Some (ap_tokens a, tm)" and "fl_loaded fl = Some (FileLoad path fs)"
  shows "outcome (ServeHTTP (buildMux a tm now (flightLooks lk fl)) r fs) =
    (case answer a now lk fl of (resp, new) \<Rightarrow> (resp, replay (FileSave path fault) new fs))"
proof -
  let ?l = "FileLoad path fs" and ?lk = "flightLooks lk fl"
  let ?path = "drop (length (cfg_URLPathPrefix (ap_cfg a))) (rq_Path r)"
  have app: "flightApp a fl = recordingApp ?l a" using assms(5,6) by (simp add: flightApp_def recordingApp_def)
  have ans: "answer a now lk fl = outcome (ServeHTTP (buildMux (recordingApp ?l a) tm now ?lk) r None)"
    using assms(4,5) by (simp add: answer_def outcome_def app)
  show ?thesis
  proof (cases "authorised a tm r \<and> subscriptionPath (cfg_URLPathPrefix (ap_cfg a)) (rq_Path r) \<and> readMethod r")
    case True
    then have "ServeHTTP (buildMux a tm now ?lk) r st = Subscription (ap_deps a) ?lk (liveRequest a tm r) st" for st
      using serve_authorised [OF assms(1,2)] by blast
    moreover have "ServeHTTP (buildMux (recordingApp ?l a) tm now ?lk) r st =
        Subscription (WithSnapshotter (Some (recordingOps ?l)) (ap_deps a)) ?lk (liveRequest a tm r) st" for st
      using True serve_authorised [of "recordingApp ?l a" r tm] assms(1,2) by simp
    ultimately show ?thesis unfolding ans using Subscription_recording [OF assms(3)] by simp
  next
    case False
    have "\<not> authorised a tm r \<Longrightarrow> outcome (subHandler a tm ?lk (r\<lparr>rq_Path := ?path\<rparr>) fs) =
        (fst (subHandler (recordingApp ?l a) tm ?lk (r\<lparr>rq_Path := ?path\<rparr>) None), fs) \<and>
        snd (snd (subHandler (recordingApp ?l a) tm ?lk (r\<lparr>rq_Path := ?path\<rparr>) None)) = None"
      using rejected [of a tm r ?lk ?path fs] rejected [of "recordingApp ?l a" tm r ?lk ?path None]
      by (auto simp: outcome_def)
    then show ?thesis
      using False serve_subscription [OF assms(1,2)] serve_subscription [of "recordingApp ?l a" r tm] assms(1,2)
      unfolding ans by (auto simp: outcome_def replay_def split: prod.splits)
  qed
qed

end
