(* ===== verification/Lifecycle.thy ===== *)
theory Lifecycle
  imports Startup
begin

text \<open>
  \<open>App.Run\<close> and \<open>App.Address\<close> of \<open>internal/server/app.go\<close>, and the exit of \<open>cmd/server/main.go\<close>.

  \<open>Run\<close> has two goroutines: the listener, which calls \<open>ListenAndServe\<close> and reports its error on a
  channel with a buffer of one, and \<open>Run\<close> itself, which selects between the context and that
  channel and then shuts the server down.  They are the actors \<open>Listener\<close> and \<open>Runner\<close> of the step
  relation \<open>serve_step\<close>; the third, \<open>Outside\<close>, cancels the context, opens and finishes requests and
  lets the deadline of the shutdown pass.

  Of \<open>http.Server\<close> the model has what its documentation promises: \<open>ListenAndServe\<close> always returns an
  error, \<open>ErrServerClosed\<close> exactly after \<open>Shutdown\<close> has been called; \<open>Shutdown\<close> accepts no further
  requests, and returns when none is left (with the error of closing the listener, if any) or with the
  error of its context.
\<close>

section \<open>Definitions\<close>

datatype listenError = ErrServerClosed | ListenFailed string
datatype listener = Launched | Calling | Accepting | Returned listenError | Reported | Exited
datatype run_error = HTTPListen string | HTTPShutdown string
datatype runner = Selecting | Draining | Done "run_error option"
datatype actor = Listener | Runner | Outside

record Serving =
  sv_Addr :: string
  sv_port :: int
  sv_listener :: listener
  sv_listenErr :: "string list"
  sv_closed :: bool
  sv_cancelled :: bool
  sv_inShutdown :: bool
  sv_deadline :: bool
  sv_active :: nat
  sv_runner :: runner
  sv_log :: "logLine list"

definition JoinHostPort :: "string \<Rightarrow> string \<Rightarrow> string" where
  "JoinHostPort host port =
     (if IndexByte host CHR '':'' \<ge> 0 \<or> IndexByte host CHR ''%'' \<ge> 0 then ''['' @ host @ '']:'' @ port
      else host @ '':'' @ port)"

definition shutdownTimeout :: int where
  "shutdownTimeout = seconds 10"

text \<open>The patterns \<open>buildMux\<close> registers.\<close>

definition muxPatterns :: "'st App \<Rightarrow> string list" where
  "muxPatterns a =
     (let p = cfg_URLPathPrefix (ap_cfg a) in
      (if p \<noteq> [] then [''GET '' @ p, ''GET '' @ p @ ''/{$}''] else [''GET /{$}'']) @ [''GET /health''])"

text \<open>The state in which \<open>Run\<close> enters its select; it panics before that when two patterns of the mux
  match the same requests.\<close>

definition Run :: "'st App \<Rightarrow> Serving panicking" where
  "Run a =
     (let port = cfg_Port (ap_cfg a); addr = JoinHostPort [] (Itoa port) in
      if \<not> distinct (map patternPath (muxPatterns a)) then Panic
      else Returns \<lparr>sv_Addr = addr, sv_port = port, sv_listener = Launched, sv_listenErr = [], sv_closed = False,
        sv_cancelled = False, sv_inShutdown = False, sv_deadline = False, sv_active = 0, sv_runner = Selecting, sv_log = []\<rparr>)"

definition Address :: "Serving option \<Rightarrow> string" where
  "Address httpSrv = (case httpSrv of None \<Rightarrow> [] | Some s \<Rightarrow> sv_Addr s)"

text \<open>The steps of the three actors.  A send needs room in the buffer, a receive an element or a closed
  channel, and a select may take any of its branches that is ready.\<close>

inductive serve_step :: "actor \<Rightarrow> Serving \<Rightarrow> Serving \<Rightarrow> bool" where
  announce: "sv_listener s = Launched \<Longrightarrow>
    serve_step Listener s (s\<lparr>sv_listener := Calling,
      sv_log := sv_log s @ [(LevelInfo, ''server listening'', [(''port'', LInt (sv_port s))])]\<rparr>)"
| listen_ok: "sv_listener s = Calling \<Longrightarrow> \<not> sv_inShutdown s \<Longrightarrow> serve_step Listener s (s\<lparr>sv_listener := Accepting\<rparr>)"
| listen_fails: "sv_listener s \<in> {Calling, Accepting} \<Longrightarrow> \<not> sv_inShutdown s \<Longrightarrow>
    serve_step Listener s (s\<lparr>sv_listener := Returned (ListenFailed e)\<rparr>)"
| listen_closed: "sv_listener s \<in> {Calling, Accepting} \<Longrightarrow> sv_inShutdown s \<Longrightarrow>
    serve_step Listener s (s\<lparr>sv_listener := Returned ErrServerClosed\<rparr>)"
| report: "sv_listener s = Returned (ListenFailed e) \<Longrightarrow> length (sv_listenErr s) < 1 \<Longrightarrow>
    serve_step Listener s (s\<lparr>sv_listener := Reported, sv_listenErr := sv_listenErr s @ [e]\<rparr>)"
| silent: "sv_listener s = Returned ErrServerClosed \<Longrightarrow> serve_step Listener s (s\<lparr>sv_listener := Reported\<rparr>)"
| close_chan: "sv_listener s = Reported \<Longrightarrow> serve_step Listener s (s\<lparr>sv_listener := Exited, sv_closed := True\<rparr>)"
| ctx_done: "sv_runner s = Selecting \<Longrightarrow> sv_cancelled s \<Longrightarrow>
    serve_step Runner s (s\<lparr>sv_runner := Draining, sv_inShutdown := True,
      sv_log := sv_log s @ [(LevelInfo, ''shutdown signal received; draining HTTP server'', [])]\<rparr>)"
| received: "sv_runner s = Selecting \<Longrightarrow> sv_listenErr s = e # es \<Longrightarrow>
    serve_step Runner s (s\<lparr>sv_runner := Done (Some (HTTPListen e)), sv_listenErr := es\<rparr>)"
| received_closed: "sv_runner s = Selecting \<Longrightarrow> sv_listenErr s = [] \<Longrightarrow> sv_closed s \<Longrightarrow>
    serve_step Runner s (s\<lparr>sv_runner := Done None\<rparr>)"
| drained: "sv_runner s = Draining \<Longrightarrow> sv_active s = 0 \<Longrightarrow> serve_step Runner s (s\<lparr>sv_runner := Done None\<rparr>)"
| close_failed: "sv_runner s = Draining \<Longrightarrow> sv_active s = 0 \<Longrightarrow>
    serve_step Runner s (s\<lparr>sv_runner := Done (Some (HTTPShutdown e))\<rparr>)"
| timed_out: "sv_runner s = Draining \<Longrightarrow> sv_deadline s \<Longrightarrow>
    serve_step Runner s (s\<lparr>sv_runner := Done (Some (HTTPShutdown ''context deadline exceeded''))\<rparr>)"
| cancel: "serve_step Outside s (s\<lparr>sv_cancelled := True\<rparr>)"
| accept: "sv_listener s = Accepting \<Longrightarrow> \<not> sv_inShutdown s \<Longrightarrow> serve_step Outside s (s\<lparr>sv_active := sv_active s + 1\<rparr>)"
| finish: "sv_active s > 0 \<Longrightarrow> serve_step Outside s (s\<lparr>sv_active := sv_active s - 1\<rparr>)"
| deadline: "sv_runner s = Draining \<Longrightarrow> serve_step Outside s (s\<lparr>sv_deadline := True\<rparr>)"

inductive serve_run :: "Serving \<Rightarrow> actor list \<Rightarrow> Serving \<Rightarrow> bool" for s0 where
  idle: "serve_run s0 [] s0"
| move: "serve_run s0 as s \<Longrightarrow> serve_step a s s' \<Longrightarrow> serve_run s0 (as @ [a]) s'"

inductive_cases runner_stepE: "serve_step Runner s s'"
inductive_cases listener_stepE: "serve_step Listener s s'"
inductive_cases outside_stepE: "serve_step Outside s s'"

text \<open>What \<open>main\<close> does with the result of \<open>run\<close>: the exit code and what is written to standard error.\<close>

definition errorText :: "run_error \<Rightarrow> string" where
  "errorText e = (case e of HTTPListen m \<Rightarrow> ''http listen: '' @ m | HTTPShutdown m \<Rightarrow> ''http shutdown: '' @ m)"

definition main_exit :: "string option \<Rightarrow> int \<times> string" where
  "main_exit err = (case err of None \<Rightarrow> (0, []) | Some m \<Rightarrow> (1, ''fatal: '' @ m @ [CHR 0x0A]))"

section \<open>The channel and the shutdown\<close>

text \<open>The invariant of a run of \<open>Run\<close>: the error is sent at most once, to an empty buffer of an open
  channel, which is closed last; the server is shut down only by the runner after a cancellation.\<close>

definition serve_inv :: "Serving \<Rightarrow> bool" where
  "serve_inv s \<longleftrightarrow>
     (sv_closed s \<longleftrightarrow> sv_listener s = Exited) \<and>
     (sv_listener s \<notin> {Reported, Exited} \<longrightarrow> sv_listenErr s = []) \<and> length (sv_listenErr s) \<le> 1 \<and>
     (sv_inShutdown s \<longrightarrow> sv_cancelled s) \<and>
     (sv_listener s = Returned ErrServerClosed \<longrightarrow> sv_inShutdown s) \<and>
     (sv_runner s = Selecting \<longrightarrow> \<not> sv_inShutdown s) \<and> (sv_runner s = Draining \<longrightarrow> sv_inShutdown s) \<and>
     (sv_listener s \<in> {Reported, Exited} \<longrightarrow> sv_runner s = Selecting \<longrightarrow> sv_listenErr s \<noteq> []) \<and>
     (\<forall>e. sv_runner s = Done (Some (HTTPListen e)) \<longrightarrow> sv_listener s \<in> {Reported, Exited} \<and> sv_listenErr s = [] \<and> \<not> sv_inShutdown s) \<and>
     (sv_runner s = Done None \<longrightarrow> sv_inShutdown s \<and> sv_active s = 0) \<and>
     (\<forall>e. sv_runner s = Done (Some (HTTPShutdown e)) \<longrightarrow> sv_inShutdown s)"

lemma serve_inv_step: "serve_step a s s' \<Longrightarrow> serve_inv s \<Longrightarrow> serve_inv s'"
  by (induction rule: serve_step.induct) (auto simp: serve_inv_def)

lemma map_fst_buildMux: "map fst (buildMux a tokenNow now lk) = muxPatterns a"
  by (simp add: buildMux_def muxPatterns_def Let_def)

lemma registers_muxPatterns: "registers (buildMux a tokenNow now lk) \<longleftrightarrow> distinct (map patternPath (muxPatterns a))"
  unfolding registers_def map_fst_buildMux [of a tokenNow now lk, symmetric] by simp

lemma Run_initial:
  assumes "Run a = Returns s0"
  shows "serve_inv s0 \<and> sv_Addr s0 = '':'' @ Itoa (cfg_Port (ap_cfg a)) \<and> sv_listener s0 = Launched \<and> sv_runner s0 = Selecting"
  using assms by (auto simp: Run_def Let_def serve_inv_def JoinHostPort_def IndexByte_def split: if_splits)

lemma serve_run_inv: "serve_run s0 as s \<Longrightarrow> serve_inv s0 \<Longrightarrow> serve_inv s"
  by (induction rule: serve_run.induct) (auto intro: serve_inv_step)

lemma serve_run_Addr: "serve_run s0 as s \<Longrightarrow> sv_Addr s = sv_Addr s0"
proof (induction rule: serve_run.induct)
  case (move as s a s')
  from move(2) have "sv_Addr s' = sv_Addr s" by (induction rule: serve_step.induct) auto
  then show ?case using move.IH by simp
qed simp

fun listener_rank :: "listener \<Rightarrow> nat" where
  "listener_rank Launched = 5"
| "listener_rank Calling = 4"
| "listener_rank Accepting = 3"
| "listener_rank (Returned _) = 2"
| "listener_rank Reported = 1"
| "listener_rank Exited = 0"

fun runner_rank :: "runner \<Rightarrow> nat" where
  "runner_rank Selecting = 2"
| "runner_rank Draining = 1"
| "runner_rank (Done _) = 0"

text \<open>Each goroutine moves down its ranks, and nobody else moves it.\<close>

lemma serve_step_ranks:
  "serve_step a s s' \<Longrightarrow>
     listener_rank (sv_listener s') + (if a = Listener then 1 else 0) \<le> listener_rank (sv_listener s) \<and>
     runner_rank (sv_runner s') + (if a = Runner then 1 else 0) \<le> runner_rank (sv_runner s)"
  by (induction rule: serve_step.induct) auto

lemma serve_run_ranks:
  "serve_run s0 as s \<Longrightarrow>
     listener_rank (sv_listener s) + count_list as Listener \<le> listener_rank (sv_listener s0) \<and>
     runner_rank (sv_runner s) + count_list as Runner \<le> runner_rank (sv_runner s0)"
proof (induction rule: serve_run.induct)
  case idle
  then show ?case by simp
next
  case (move as s a s')
  from serve_step_ranks [OF move(2)] move.IH show ?case by (cases a) auto
qed

text \<open>The listener waits only for connections; it is never blocked by its channel.\<close>

lemma listener_enabled:
  assumes "serve_inv s" and "sv_listener s \<noteq> Exited" and "sv_listener s = Accepting \<longrightarrow> sv_inShutdown s"
  shows "\<exists>s'. serve_step Listener s s'"
proof (cases "sv_listener s")
  case (Returned e)
  then show ?thesis
    using assms(1) serve_step.report [of s] serve_step.silent [of s] by (cases e) (auto simp: serve_inv_def)
qed (use assms serve_step.announce serve_step.listen_closed serve_step.listen_ok serve_step.close_chan in \<open>blast+\<close>)

lemma runner_enabled:
  assumes "serve_inv s" and "sv_runner s = Selecting" and "sv_cancelled s \<or> sv_listener s \<in> {Reported, Exited}"
  shows "\<exists>s'. serve_step Runner s s'"
proof (cases "sv_cancelled s")
  case True
  then show ?thesis using serve_step.ctx_done [OF assms(2)] by blast
next
  case False
  then have "sv_listenErr s \<noteq> []" using assms by (auto simp: serve_inv_def)
  then obtain e es where "sv_listenErr s = e # es" by (cases "sv_listenErr s") auto
  then show ?thesis using serve_step.received [OF assms(2)] by blast
qed

text \<open>C36: when \<open>Run\<close> returns, its result says why.  It returns nil, and the process exits with code 0,
  only after the context was cancelled, with the server shut down and no request in flight; an error
  of the listener is returned only if no shutdown was begun; a shutdown error only after a
  cancellation.  The nil of the closed channel is never returned.  All the while \<open>Address\<close> is the
  configured port after a colon.\<close>

theorem Run_result:
  assumes "Run a = Returns s0" and "serve_run s0 as s" and "sv_runner s = Done r"
  shows "(case r of
       None \<Rightarrow> sv_cancelled s \<and> sv_inShutdown s \<and> sv_active s = 0
     | Some (HTTPListen _) \<Rightarrow> \<not> sv_inShutdown s \<and> sv_listener s \<in> {Reported, Exited}
     | Some (HTTPShutdown _) \<Rightarrow> sv_cancelled s \<and> sv_inShutdown s) \<and>
    (fst (main_exit (map_option errorText r)) = 0 \<longleftrightarrow> r = None) \<and>
    Address (Some s) = '':'' @ Itoa (cfg_Port (ap_cfg a))"
proof -
  note init = Run_initial [OF assms(1)]
  have "serve_inv s" using serve_run_inv [OF assms(2)] init by simp
  then have "case r of
       None \<Rightarrow> sv_cancelled s \<and> sv_inShutdown s \<and> sv_active s = 0
     | Some (HTTPListen _) \<Rightarrow> \<not> sv_inShutdown s \<and> sv_listener s \<in> {Reported, Exited}
     | Some (HTTPShutdown _) \<Rightarrow> sv_cancelled s \<and> sv_inShutdown s"
    using assms(3) by (auto simp: serve_inv_def split: option.splits run_error.splits)
  then show ?thesis
    using serve_run_Addr [OF assms(2)] init by (auto simp: Address_def main_exit_def split: option.splits)
qed

text \<open>C37: \<open>Run\<close> returns after a signal, and its goroutine does not leak.  In any run the two goroutines
  make at most five and two steps.  Once the context is cancelled, and until \<open>Run\<close> has returned, it can
  take its next step at once, or it is draining requests, and then it returns when they are finished or
  the deadline has passed.  The listener can always take its next step too, unless it is waiting for
  connections of a server that is not shut down: the buffer of its channel has room for its error
  whether or not \<open>Run\<close> still reads it.\<close>

theorem Run_returns:
  assumes "Run a = Returns s0" and "serve_run s0 as s"
  shows "count_list as Listener \<le> 5 \<and> count_list as Runner \<le> 2 \<and>
    (sv_cancelled s \<longrightarrow> (\<forall>r. sv_runner s \<noteq> Done r) \<longrightarrow>
      (\<exists>s'. serve_step Runner s s') \<or>
      sv_runner s = Draining \<and> sv_active s > 0 \<and>
        (\<exists>r. serve_step Runner (s\<lparr>sv_active := 0\<rparr>) (s\<lparr>sv_active := 0, sv_runner := Done r\<rparr>)) \<and>
        serve_step Outside s (s\<lparr>sv_deadline := True\<rparr>) \<and>
        (\<exists>r. serve_step Runner (s\<lparr>sv_deadline := True\<rparr>) (s\<lparr>sv_deadline := True, sv_runner := Done r\<rparr>))) \<and>
    (sv_listener s \<noteq> Exited \<longrightarrow> sv_listener s \<noteq> Accepting \<or> sv_inShutdown s \<longrightarrow> (\<exists>s'. serve_step Listener s s'))"
proof -
  note init = Run_initial [OF assms(1)]
  have inv: "serve_inv s" using serve_run_inv [OF assms(2)] init by simp
  have bounds: "count_list as Listener \<le> 5" "count_list as Runner \<le> 2"
    using serve_run_ranks [OF assms(2)] init by simp_all
  have runner: "(\<exists>s'. serve_step Runner s s') \<or>
      sv_runner s = Draining \<and> sv_active s > 0 \<and>
        (\<exists>r. serve_step Runner (s\<lparr>sv_active := 0\<rparr>) (s\<lparr>sv_active := 0, sv_runner := Done r\<rparr>)) \<and>
        serve_step Outside s (s\<lparr>sv_deadline := True\<rparr>) \<and>
        (\<exists>r. serve_step Runner (s\<lparr>sv_deadline := True\<rparr>) (s\<lparr>sv_deadline := True, sv_runner := Done r\<rparr>))"
    if c: "sv_cancelled s" and nd: "\<forall>r. sv_runner s \<noteq> Done r"
  proof (cases "sv_runner s")
    case Selecting
    then show ?thesis using runner_enabled [OF inv] c by blast
  next
    case Draining
    show ?thesis
    proof (cases "sv_active s = 0")
      case True
      then show ?thesis using serve_step.drained [OF Draining] by blast
    next
      case False
      moreover have "serve_step Runner (s\<lparr>sv_active := 0\<rparr>) (s\<lparr>sv_active := 0, sv_runner := Done None\<rparr>)"
        using serve_step.drained [of "s\<lparr>sv_active := 0\<rparr>"] Draining by simp
      moreover have "\<exists>r. serve_step Runner (s\<lparr>sv_deadline := True\<rparr>) (s\<lparr>sv_deadline := True, sv_runner := Done r\<rparr>)"
        using serve_step.timed_out [of "s\<lparr>sv_deadline := True\<rparr>"] Draining by auto
      ultimately show ?thesis using Draining serve_step.deadline [OF Draining] by blast
    qed
  next
    case (Done r)
    then show ?thesis using nd by blast
  qed
  show ?thesis using bounds runner listener_enabled [OF inv] by blast
qed

text \<open>A server that started opens its listener: the configured port is positive, and the mux can be
  built unless the prefix is that of the health route.\<close>

lemma started_server_runs:
  assumes "run w = Returns (Inr srv)" and "plainPrefix (cfg_URLPathPrefix (ap_cfg (srv_app srv)))"
    and "cfg_URLPathPrefix (ap_cfg (srv_app srv)) \<noteq> ''/health''"
  shows "\<exists>s0. Run (srv_app srv) = Returns s0 \<and> 0 < sv_port s0"
  using assms(1)
proof (rule run_ok)
  fix cfg reads subs tokens own adapter
  assume cfg: "LoadConfig (wd_ulower w) (wd_loadLocation w) (wd_env w) = Inr cfg" and srv: "srv = assemble w cfg subs tokens own adapter"
  have "0 < cfg_Port (ap_cfg (srv_app srv))" using LoadConfig_accepted [OF cfg] by (simp add: srv intsOk_def)
  moreover have "distinct (map patternPath (muxPatterns (srv_app srv)))"
    using buildMux_registers [OF assms(2)] assms(3) registers_muxPatterns [of "srv_app srv"] by blast
  ultimately show ?thesis by (simp add: Run_def Let_def)
qed

end
