(* ===== verification/Build_Report.thy ===== *)
theory Build_Report
  imports Served_Config
begin

text \<open>
  Rule sets through the whole build, and what the lines \<open>Build\<close> logs say about its result.

  A \<open>RULE-SET\<close> rule refers to an entry of \<open>rule-providers\<close>; the client refuses a configuration in
  which the entry is missing.  The build drops unbacked rules per source before the merge, retargets
  rules after it, and keeps the providers the final rules refer to.
\<close>

section \<open>Rules of the sources\<close>

lemma readSources_rules:
  "readSources unmarshal get rows so = Inr so' \<Longrightarrow> set (so_contributing so) \<subseteq> set (so_contributing so') \<and>
     (s \<notin> set (so_contributing so') \<longrightarrow> so_rules so' s = so_rules so s)"
proof (induction unmarshal get rows so rule: readSources.induct)
  case (1 unmarshal get so)
  then show ?case by simp
next
  case (2 unmarshal get row rows so)
  have "so_rules (readRoot name rt so) s = so_rules so s" if "s \<noteq> name" for name rt
    using that by (simp add: readRoot_def Let_def split: option.split)
  moreover have "so_contributing (readRoot name rt so) = so_contributing so @ [name]" for name rt
    by (rule readRoot_sel(1))
  ultimately show ?case using 2 by (auto split: option.splits sum.splits) metis
qed

lemma namespaceSource_rules:
  "so_rules (fst (namespaceSource name (so, ns))) = (so_rules so)(name := map (\<lambda>r. rewriteRuleTarget r name) (so_rules so name))"
  by (simp add: namespaceSource_def RewriteSource_def Let_def split: option.split prod.split)

lemma namespace_fold_rules:
  "so_rules so s = [] \<Longrightarrow> so_rules (fst (fold namespaceSource names (so, ns))) s = []"
proof (induction names arbitrary: so ns)
  case Nil
  then show ?case by simp
next
  case (Cons name names)
  obtain so1 ns1 where st: "namespaceSource name (so, ns) = (so1, ns1)" by (cases "namespaceSource name (so, ns)")
  have "so_rules so1 s = []" using Cons.prems namespaceSource_rules [of name so ns] by (auto simp: st)
  from Cons.IH [OF this] show ?case by (simp add: st)
qed

definition backed :: "string set \<Rightarrow> string \<Rightarrow> bool" where
  "backed keys r \<longleftrightarrow> (isRuleSetRule r \<longrightarrow> ruleSetProvider r \<in> keys)"

definition droppedOf :: "string set \<Rightarrow> string \<Rightarrow> string list \<Rightarrow> droppedRuleSetEvt list" where
  "droppedOf keys s rules =
     map (\<lambda>r. (s, \<lparr>drs_Provider = ruleSetProvider r, drs_Rule = r\<rparr>)) (filter (\<lambda>r. \<not> backed keys r) rules)"

lemma dropUnbacked_eq:
  "dropUnbacked ns s (so, evts) =
     (so\<lparr>so_rules := (so_rules so)(s := filter (backed (ruleProviderKeys (ns s))) (so_rules so s))\<rparr>,
      evts @ droppedOf (ruleProviderKeys (ns s)) s (so_rules so s))"
  using DropUnbacked_filter [of "so_rules so s" "ruleProviderKeys (ns s)"]
  by (auto simp: dropUnbacked_def droppedOf_def backed_def [abs_def] Let_def split: prod.split)

lemma dropUnbacked_fold_rules:
  "so_rules (fst (fold (dropUnbacked ns) names (so, evts))) s =
     (if s \<in> set names then filter (backed (ruleProviderKeys (ns s))) (so_rules so s) else so_rules so s)"
  by (induction names arbitrary: so evts) (auto simp: dropUnbacked_eq)

lemma dropUnbacked_fold_events:
  "distinct names \<Longrightarrow> snd (fold (dropUnbacked ns) names (so, evts)) =
     evts @ concat (map (\<lambda>s. droppedOf (ruleProviderKeys (ns s)) s (so_rules so s)) names)"
proof (induction names arbitrary: so evts)
  case Nil
  then show ?case by simp
next
  case (Cons s names)
  have same: "map (\<lambda>t. droppedOf (ruleProviderKeys (ns t)) t (if t = s then x else so_rules so t)) names =
      map (\<lambda>t. droppedOf (ruleProviderKeys (ns t)) t (so_rules so t)) names" for x
    using Cons.prems by (intro map_cong) auto
  show ?case using Cons.prems by (simp add: dropUnbacked_eq Cons.IH fun_upd_def same)
qed

lemma stages_rules_backed:
  assumes "buildStages ulower unmarshal get p = Some sg" and "r \<in> set (sg_sourceRules sg s)"
  shows "s \<in> set (sg_contributing sg) \<and> backed (ruleProviderKeys (sg_providers sg s)) r"
proof -
  let ?rows = "sortSourcesByPriority (p_subscriptions p)"
  obtain so where so: "readSources unmarshal get ?rows emptySources = Inr so"
    using assms(1) by (auto simp: buildStages_def Let_def split: sum.splits)
  let ?cs = "so_contributing so"
  obtain so1 ns sk where f: "fold namespaceSource ?cs (so, Map.empty, []) = (so1, ns, sk)"
    by (cases "fold namespaceSource ?cs (so, Map.empty, [])")
  have sg: "sg_contributing sg = ?cs" "sg_providers sg = ns"
      "sg_sourceRules sg = so_rules (fst (fold (dropUnbacked ns) ?cs (so1, [])))"
    using assms(1) by (auto simp: buildStages_def so f Let_def split: prod.splits)
  show ?thesis
  proof (cases "s \<in> set ?cs")
    case True
    then show ?thesis using assms(2) by (simp add: sg dropUnbacked_fold_rules)
  next
    case False
    then have "so_rules so s = []" using readSources_rules [OF so, of s] by (simp add: emptySources_def)
    from namespace_fold_rules [OF this, of ?cs "(Map.empty, [])"] have "so_rules so1 s = []" by (simp add: f)
    then show ?thesis using assms(2) False by (simp add: sg dropUnbacked_fold_rules)
  qed
qed

section \<open>Retargeting keeps the provider\<close>

lemma Split_retargetRule:
  assumes "CHR '','' \<notin> set fb"
  shows "Split (retargetRule removed fb r) CHR '','' =
     (let parts = Split r CHR '',''; i = targetIndex parts in
      if 2 \<le> length parts \<and> parts ! i \<in> removed then parts[i := fb] else parts)"
proof -
  let ?parts = "Split r CHR '',''"
  have "Split (Join (?parts[i := fb]) '','') CHR '','' = ?parts[i := fb]" for i
  proof (rule Split_Join)
    show "?parts[i := fb] \<noteq> []" by simp
    show "\<forall>q\<in>set (?parts[i := fb]). CHR '','' \<notin> set q"
      using assms set_update_subset_insert [of ?parts i fb] by auto
  qed
  then show ?thesis by (simp add: retargetRule_fields Let_def)
qed

text \<open>A rule has a target of its own when the field the retargeting looks at is not the provider.\<close>

definition ownTarget :: "string \<Rightarrow> bool" where
  "ownTarget r \<longleftrightarrow> 2 \<le> targetIndex (Split r CHR '','')"

lemma retarget_ruleset:
  assumes fb: "CHR '','' \<notin> set fb" "fb \<notin> knownRuleOptions"
    and r': "isRuleSetRule (retargetRule removed fb r)" "ownTarget (retargetRule removed fb r)"
  shows "isRuleSetRule r \<and> ruleSetProvider r = ruleSetProvider (retargetRule removed fb r)"
proof (cases "2 \<le> length (Split r CHR '','') \<and> Split r CHR '','' ! targetIndex (Split r CHR '','') \<in> removed")
  case True
  let ?parts = "Split r CHR '',''"
  have s: "Split (retargetRule removed fb r) CHR '','' = ?parts[targetIndex ?parts := fb]"
    using True by (simp add: Split_retargetRule [OF fb(1)] Let_def)
  then have "2 \<le> targetIndex ?parts" using r'(2) True fb(2) by (simp add: ownTarget_def targetIndex_update)
  then show ?thesis using r'(1) s True by (simp add: isRuleSetRule_def ruleSetProvider_def Let_def)
next
  case False
  then show ?thesis using r'(1) by (auto simp: retargetRule_fields Let_def)
qed

lemma set_mr_Rules:
  "set (mr_Rules (MergeUnifiedRules ups rows customs fb)) \<subseteq>
     {''MATCH,'' @ fb} \<union> (\<Union>row\<in>set rows. set (ups (row_Name row))) \<union> (\<Union>cs\<in>set customs. set (crs_Rules cs))"
proof -
  have "set (c_Rules c) \<subseteq> (\<Union>row\<in>set rows. set (ups (row_Name row))) \<union> (\<Union>cs\<in>set customs. set (crs_Rules cs))"
    if "c \<in> set (contributorsOf ups rows customs)" for c
    using that
    by (fastforce simp: contributorsOf_def upstreamContributor_def customContributor_def map_filter_def Let_def
        dest: in_set_takeD split: if_splits)
  then show ?thesis by (fastforce simp: MergeUnifiedRules_stream rule_stream_def Let_def)
qed

lemma served_rules_backed:
  assumes "Build ulower cvt unmarshal get get' ops p clk1 clk2 st = (Inr mc, st')"
    and fb: "CHR '','' \<notin> set (p_fallbackRuleTarget p)" "p_fallbackRuleTarget p \<notin> knownRuleOptions"
    and r: "r \<in> set (mc_Rules mc)" "isRuleSetRule r" "ownTarget r"
  shows "ruleSetProvider r \<in> ruleProviderKeys (mc_RuleProviders mc) \<or>
     (\<exists>cs\<in>set (p_customRules p). \<exists>r0\<in>set (crs_Rules cs). isRuleSetRule r0 \<and> ruleSetProvider r0 = ruleSetProvider r)"
proof -
  let ?fb = "p_fallbackRuleTarget p"
  obtain sg where sg: "buildStages ulower unmarshal get p = Some sg"
    and pr: "(mc_ProxyGroups mc, mc_Rules mc) =
       (case PruneEmptyProxyGroups (sg_groups sg) (mr_Rules (sg_rules sg)) (p_proxiesGroupName p) ?fb of (gs, rs, _) \<Rightarrow> (gs, rs))"
    and rp: "mc_RuleProviders mc = MergeRuleProviders (orderedNSRuleProviders (sg_contributing sg) (sg_providers sg))
       (ReferencedRuleProviders (mc_Rules mc))"
    using Build_stages [OF assms(1)] by blast
  obtain gs rs res where prune: "PruneEmptyProxyGroups (sg_groups sg) (mr_Rules (sg_rules sg)) (p_proxiesGroupName p) ?fb = (gs, rs, res)"
    by (cases "PruneEmptyProxyGroups (sg_groups sg) (mr_Rules (sg_rules sg)) (p_proxiesGroupName p) ?fb") auto
  have rules: "mc_Rules mc = map (retargetRule (set (pr_RemovedGroups res)) ?fb) (mr_Rules (sg_rules sg))"
    using pr Prune_closed [OF prune] by (simp add: prune)
  then obtain r0 where r0: "r0 \<in> set (mr_Rules (sg_rules sg))" "r = retargetRule (set (pr_RemovedGroups res)) ?fb r0"
    using r(1) by auto
  have set0: "isRuleSetRule r0" "ruleSetProvider r0 = ruleSetProvider r"
    using retarget_ruleset [OF fb] r(2,3) unfolding r0(2) by blast+
  obtain rows where "sg_rules sg = MergeUnifiedRules (sg_sourceRules sg) rows (p_customRules p) ?fb"
    using sg by (auto simp: buildStages_def Let_def split: sum.splits prod.splits)
  moreover have "\<not> isRuleSetRule (''MATCH,'' @ ?fb)"
    using fb(1) Split_eqI [of "[''MATCH'', ?fb]" "CHR '',''" "''MATCH,'' @ ?fb"] by (simp add: isRuleSetRule_def)
  ultimately consider s where "r0 \<in> set (sg_sourceRules sg s)" | cs where "cs \<in> set (p_customRules p)" "r0 \<in> set (crs_Rules cs)"
    using r0(1) set0(1) set_mr_Rules [of "sg_sourceRules sg" rows "p_customRules p" ?fb] by fastforce
  then show ?thesis
  proof cases
    case 1
    from stages_rules_backed [OF sg this] set0
    have s: "s \<in> set (sg_contributing sg)" "ruleSetProvider r \<in> ruleProviderKeys (sg_providers sg s)"
      by (simp_all add: backed_def)
    then obtain n where n: "sg_providers sg s = Some n" by (cases "sg_providers sg s") (auto simp: ruleProviderKeys_def)
    then have "n \<in> set (orderedNSRuleProviders (sg_contributing sg) (sg_providers sg))"
      using s(1) by (force simp: orderedNSRuleProviders_def map_filter_def)
    moreover have "ruleSetProvider r \<in> ReferencedRuleProviders (mc_Rules mc)"
      using r(1,2) by (auto simp: ReferencedRuleProviders_def)
    ultimately show ?thesis using s(2) n unfolding rp keys_MergeRuleProviders by auto
  next
    case 2
    with set0 show ?thesis by blast
  qed
qed

text \<open>C8: the served rule sets resolve.  For a fallback target without a comma and other than
  \<open>no-resolve\<close>, a build over parseable payloads returns, and every \<open>RULE-SET\<close> rule it serves that
  has a target after its provider refers to a provider in the served \<open>rule-providers\<close> block, however
  many rules were dropped, merged and retargeted on the way, unless the operator's custom rules name
  that provider in a \<open>RULE-SET\<close> rule of their own, which is served as it is written; and every
  provider in the block is used by a served rule.\<close>

theorem served_rulesets_backed:
  assumes "parseable unmarshal get (p_subscriptions p)"
    and "CHR '','' \<notin> set (p_fallbackRuleTarget p)" and "p_fallbackRuleTarget p \<notin> knownRuleOptions"
  shows "\<exists>mc st'. Build ulower cvt unmarshal get get' ops p clk1 clk2 st = (Inr mc, st') \<and>
     list_all (\<lambda>r. isRuleSetRule r \<longrightarrow> ownTarget r \<longrightarrow> ruleSetProvider r \<in> ruleProviderKeys (mc_RuleProviders mc) \<or>
       (\<exists>cs\<in>set (p_customRules p). \<exists>r0\<in>set (crs_Rules cs). isRuleSetRule r0 \<and> ruleSetProvider r0 = ruleSetProvider r))
       (mc_Rules mc) \<and>
     ruleProviderKeys (mc_RuleProviders mc) \<subseteq> ReferencedRuleProviders (mc_Rules mc)"
proof -
  obtain mc st' where b: "Build ulower cvt unmarshal get get' ops p clk1 clk2 st = (Inr mc, st')"
    using Build_total [of ulower cvt unmarshal get get' ops p clk1 clk2 st] assms(1) by blast
  obtain ns where "mc_RuleProviders mc = MergeRuleProviders ns (ReferencedRuleProviders (mc_Rules mc))"
    using Build_stages [OF b] by blast
  then have "ruleProviderKeys (mc_RuleProviders mc) \<subseteq> ReferencedRuleProviders (mc_Rules mc)"
    by (simp add: keys_MergeRuleProviders)
  with b served_rules_backed [OF b assms(2,3)] show ?thesis by (auto simp: list_all_iff)
qed

section \<open>The log accounts for the build\<close>

lemma fanoutTargetGroups_eq: "fanoutTargetGroups groups = length (targetGroupNames groups)"
proof -
  have "fold (\<lambda>g count. let name = getMappingField g ''name'' in
       if HasPrefix name ''_region_'' \<or> HasPrefix name ''_continent_'' \<or> HasPrefix name ''_lb_region_'' \<or>
          HasPrefix name ''_lb_continent_'' then count + 1 else count) groups n = n + length (targetGroupNames groups)" for n
    by (induction groups arbitrary: n) (simp_all add: targetGroupNames_def isFanoutTarget_def Let_def)
  then show ?thesis by (simp add: fanoutTargetGroups_def)
qed

lemma fanout_counts:
  "length (fst (AppendFanoutProxies owns groups pg)) =
     (length (filter (\<lambda>n. node_name n \<noteq> []) owns) - snd (AppendFanoutProxies owns groups pg)) * (1 + length (targetGroupNames groups))"
proof -
  have "length (filter fansOut owns) + length (filter (\<lambda>n. node_name n \<noteq> [] \<and> getMappingField n ''dialer-proxy'' \<noteq> []) owns)
     = length (filter (\<lambda>n. node_name n \<noteq> []) owns)"
    by (induction owns) (auto simp: fansOut_def)
  then have "length (filter (\<lambda>n. node_name n \<noteq> []) owns) - snd (AppendFanoutProxies owns groups pg) = length (filter fansOut owns)"
    by (simp add: AppendFanoutProxies_eq)
  moreover have "length (fst (AppendFanoutProxies owns groups pg)) = length (filter fansOut owns) * (1 + length (targetGroupNames groups))"
    unfolding AppendFanoutProxies_eq fst_conv by (rule map_concat_const_length) (simp add: fst_fanoutRoutes_length)
  ultimately show ?thesis by simp
qed

text \<open>The retargets reported are the rules that changed, each at its position.\<close>

lemma retargetLog_indices:
  "rt \<in> set (retargetLog removed fb k rules) \<Longrightarrow>
     \<exists>i<length rules. rt = \<lparr>rt_RuleIndex = k + i, rt_OldTarget = rt_OldTarget rt, rt_NewTarget = fb\<rparr> \<and>
       ruleTargetName (rules ! i) = Some (rt_OldTarget rt) \<and> rt_OldTarget rt \<in> removed"
proof (induction rules arbitrary: k)
  case Nil
  then show ?case by simp
next
  case (Cons rule rules)
  from Cons.prems consider
      t s e where "ruleTarget rule = Some (t, s, e)" "t \<in> removed" "rt = \<lparr>rt_RuleIndex = k, rt_OldTarget = t, rt_NewTarget = fb\<rparr>"
    | "rt \<in> set (retargetLog removed fb (k + 1) rules)"
    by (cases "ruleTarget rule") (auto split: if_splits)
  then show ?case
  proof cases
    case 1
    then show ?thesis by (intro exI [of _ 0]) (simp add: ruleTargetName_def)
  next
    case 2
    from Cons.IH [OF this] obtain i where "i < length rules"
      "rt = \<lparr>rt_RuleIndex = k + 1 + i, rt_OldTarget = rt_OldTarget rt, rt_NewTarget = fb\<rparr>"
      "ruleTargetName (rules ! i) = Some (rt_OldTarget rt)" "rt_OldTarget rt \<in> removed" by blast
    then show ?thesis by (intro exI [of _ "Suc i"]) simp
  qed
qed

lemma retargetLog_complete:
  "i < length rules \<Longrightarrow> ruleTargetName (rules ! i) = Some t \<Longrightarrow> t \<in> removed \<Longrightarrow>
     \<lparr>rt_RuleIndex = k + i, rt_OldTarget = t, rt_NewTarget = fb\<rparr> \<in> set (retargetLog removed fb k rules)"
proof (induction rules arbitrary: i k)
  case Nil
  then show ?case by simp
next
  case (Cons rule rules)
  show ?case
  proof (cases i)
    case 0
    then show ?thesis using Cons.prems by (auto simp: ruleTargetName_def)
  next
    case (Suc j)
    then show ?thesis using Cons.IH [of j "k + 1"] Cons.prems by simp
  qed
qed

lemma retargetLog_empty [simp]: "retargetLog {} fb k rules = []"
  by (induction rules arbitrary: k) (auto split: option.split)

lemma Prune_retargets:
  assumes "PruneEmptyProxyGroups groups rules pg fb = (groups', rules', res)"
  shows "pr_Retargets res = retargetLog (set (pr_RemovedGroups res)) fb 0 rules"
proof (cases "filter (emptyGroup groups pg fb) groups = []")
  case True
  then show ?thesis using assms by (auto simp: Prune_cases [OF refl])
next
  case False
  then have "set (map node_name (filter (emptyGroup groups pg fb) groups)) \<noteq> {}"
    by (simp only: set_empty map_is_Nil_conv not_False_eq_True)
  then show ?thesis using assms unfolding Prune_cases [OF refl, of groups rules pg fb] by (auto simp only: if_False PruneResult.simps Pair_inject)
qed

lemma retargetRule_changes:
  assumes "CHR '','' \<notin> set fb" and "fb \<notin> removed"
  shows "retargetRule removed fb r \<noteq> r \<longleftrightarrow> (\<exists>t\<in>removed. ruleTargetName r = Some t)"
proof (cases "2 \<le> length (Split r CHR '','') \<and> Split r CHR '','' ! targetIndex (Split r CHR '','') \<in> removed")
  case True
  let ?parts = "Split r CHR '',''"
  have "Split (retargetRule removed fb r) CHR '','' = ?parts[targetIndex ?parts := fb]"
    using True by (simp add: Split_retargetRule [OF assms(1)] Let_def)
  moreover have "?parts[targetIndex ?parts := fb] ! targetIndex ?parts \<noteq> ?parts ! targetIndex ?parts"
    using True assms(2) targetIndex_bounds [of ?parts] by auto
  ultimately have "retargetRule removed fb r \<noteq> r" by metis
  then show ?thesis using True by (auto simp: ruleTargetName_fields Let_def)
next
  case False
  then show ?thesis by (auto simp: retargetRule_fields ruleTargetName_fields Let_def split: if_splits)
qed

lemma retargets_reported:
  assumes "CHR '','' \<notin> set fb" and "fb \<notin> removed"
  shows "rt_RuleIndex ` set (retargetLog removed fb 0 rules) =
     {i. i < length rules \<and> map (retargetRule removed fb) rules ! i \<noteq> rules ! i}"
proof (intro equalityI subsetI)
  fix i assume "i \<in> rt_RuleIndex ` set (retargetLog removed fb 0 rules)"
  then obtain rt where rt: "rt \<in> set (retargetLog removed fb 0 rules)" "i = rt_RuleIndex rt" by blast
  from retargetLog_indices [OF rt(1)] obtain j where j: "j < length rules"
    "rt = \<lparr>rt_RuleIndex = j, rt_OldTarget = rt_OldTarget rt, rt_NewTarget = fb\<rparr>"
    "ruleTargetName (rules ! j) = Some (rt_OldTarget rt)" "rt_OldTarget rt \<in> removed" by auto
  have "i = j" using rt(2) j(2) by (metis RuleRetarget.select_convs(1))
  then show "i \<in> {i. i < length rules \<and> map (retargetRule removed fb) rules ! i \<noteq> rules ! i}"
    using j retargetRule_changes [OF assms, of "rules ! j"] by auto
next
  fix i assume i: "i \<in> {i. i < length rules \<and> map (retargetRule removed fb) rules ! i \<noteq> rules ! i}"
  then obtain t where "t \<in> removed" "ruleTargetName (rules ! i) = Some t" using retargetRule_changes [OF assms, of "rules ! i"] by auto
  then show "i \<in> rt_RuleIndex ` set (retargetLog removed fb 0 rules)"
    using retargetLog_complete [of i rules t removed 0 fb] i by (force simp: image_iff)
qed

definition cachedRules :: "unmarshaller \<Rightarrow> cacheReader \<Rightarrow> string \<Rightarrow> string list" where
  "cachedRules unmarshal get s = map nvalue (filter (\<lambda>n. nkind n = ScalarNode) (cachedList unmarshal get ''rules'' s))"

lemma readRoot_rules:
  "so_rules (readRoot name rt so) = (case findChildSequence (Some rt) ''rules'' of None \<Rightarrow> so_rules so
     | Some seq \<Rightarrow> (so_rules so)(name := map nvalue (filter (\<lambda>n. nkind n = ScalarNode) (content seq))))"
  by (simp add: readRoot_def Let_def split: option.split)

lemma readSources_rules_outside:
  "readSources unmarshal get rows so = Inr so' \<Longrightarrow> s \<notin> row_Name ` set rows \<Longrightarrow> so_rules so' s = so_rules so s"
  by (induction unmarshal get rows so rule: readSources.induct)
    (auto simp: readRoot_rules split: option.splits sum.splits)

lemma readSources_cachedRules:
  assumes "readSources unmarshal get rows so = Inr so'" and "distinct (map row_Name rows)"
    and "s \<in> row_Name ` set rows" and "so_rules so s = []"
  shows "so_rules so' s = cachedRules unmarshal get s"
  using assms
proof (induction unmarshal get rows so rule: readSources.induct)
  case (1 unmarshal get so)
  then show ?case by simp
next
  case (2 unmarshal get row rows so)
  have dist: "distinct (map row_Name rows)" "row_Name row \<notin> row_Name ` set rows" using 2(4) by auto
  show ?case
  proof (cases "get (row_Name row)")
    case None
    then have "cachedRules unmarshal get (row_Name row) = []"
      by (simp add: cachedRules_def cachedList_def cachedDoc_def findChildSequence_def)
    moreover have rest: "readSources unmarshal get rows so = Inr so'" using 2(3) None by simp
    ultimately show ?thesis
      using 2(1) [OF None rest dist(1)] 2(5,6) readSources_rules_outside [OF rest] dist(2) by (cases "s = row_Name row") auto
  next
    case (Some payload)
    with 2(3) obtain doc where doc: "fst (Parse unmarshal payload) = Inr doc" by (auto split: sum.splits)
    let ?so = "readRoot (row_Name row) (docRoot doc) so"
    have cd: "cachedDoc unmarshal get (row_Name row) = Some (docRoot doc)" using Some doc by (simp add: cachedDoc_def)
    have rest: "readSources unmarshal get rows ?so = Inr so'" using 2(3) Some doc by simp
    have other: "so_rules ?so s = so_rules so s" if "s \<noteq> row_Name row"
      using that by (simp add: readRoot_rules split: option.split)
    have this_row: "so_rules ?so s = cachedRules unmarshal get s" if "s = row_Name row"
      using that 2(6) cd by (simp add: readRoot_rules cachedRules_def cachedList_def split: option.split)
    show ?thesis
      using 2(2) [OF Some doc rest dist(1)] 2(5,6) readSources_rules_outside [OF rest] dist(2) other this_row
      by (cases "s = row_Name row") auto
  qed
qed

lemma namespace_fold_rules_eq:
  "distinct names \<Longrightarrow> so_rules (fst (fold namespaceSource names (so, ns))) s =
     (if s \<in> set names then map (\<lambda>r. rewriteRuleTarget r s) (so_rules so s) else so_rules so s)"
proof (induction names arbitrary: so ns)
  case Nil
  then show ?case by simp
next
  case (Cons name names)
  obtain so1 ns1 where st: "namespaceSource name (so, ns) = (so1, ns1)" by (cases "namespaceSource name (so, ns)")
  have "so_rules so1 = (so_rules so)(name := map (\<lambda>r. rewriteRuleTarget r name) (so_rules so name))"
    using namespaceSource_rules [of name so ns] by (simp add: st)
  with Cons.IH [of so1 ns1] Cons.prems show ?case by (auto simp: st)
qed

text \<open>The rules of a source after namespacing.\<close>

definition nsRules :: "unmarshaller \<Rightarrow> cacheReader \<Rightarrow> string \<Rightarrow> string list" where
  "nsRules unmarshal get s = map (\<lambda>r. rewriteRuleTarget r s) (cachedRules unmarshal get s)"

lemma stages_dropped:
  assumes "buildStages ulower unmarshal get p = Some sg" and "distinct (map row_Name (p_subscriptions p))"
  shows "sg_contributing sg = contributors get p"
    and "sg_dropped sg = concat (map (\<lambda>s. droppedOf (ruleProviderKeys (sg_providers sg s)) s (nsRules unmarshal get s)) (contributors get p))"
    and "s \<in> set (contributors get p) \<Longrightarrow>
      sg_sourceRules sg s = filter (backed (ruleProviderKeys (sg_providers sg s))) (nsRules unmarshal get s)"
proof -
  let ?rows = "sortSourcesByPriority (p_subscriptions p)" and ?cs = "contributors get p"
  obtain so where so: "readSources unmarshal get ?rows emptySources = Inr so"
    using assms(1) by (auto simp: buildStages_def Let_def split: sum.splits)
  have cs: "so_contributing so = ?cs"
    using readSources_contributing [OF so] by (simp add: contributors_def emptySources_def)
  have dist: "distinct (map row_Name ?rows)" using distinct_contributing [OF assms(2), of "\<lambda>_. True"] by simp
  have dcs: "distinct ?cs" unfolding contributors_def by (rule distinct_contributing [OF assms(2)])
  obtain so1 ns sk where f: "fold namespaceSource ?cs (so, Map.empty, []) = (so1, ns, sk)"
    by (cases "fold namespaceSource ?cs (so, Map.empty, [])")
  have rules: "so_rules so1 s = nsRules unmarshal get s" if "s \<in> set ?cs" for s
  proof -
    have "s \<in> row_Name ` set ?rows" using that by (auto simp: contributors_def)
    from readSources_cachedRules [OF so dist this] have "so_rules so s = cachedRules unmarshal get s" by (simp add: emptySources_def)
    then show ?thesis using namespace_fold_rules_eq [OF dcs, of so "(Map.empty, [])" s] that by (simp add: f nsRules_def)
  qed
  have sg: "sg_contributing sg = ?cs" "sg_providers sg = ns" "sg_dropped sg = snd (fold (dropUnbacked ns) ?cs (so1, []))"
      "sg_sourceRules sg = so_rules (fst (fold (dropUnbacked ns) ?cs (so1, [])))"
    using assms(1) by (auto simp: buildStages_def so f cs Let_def split: prod.splits)
  show "sg_contributing sg = ?cs" by (rule sg(1))
  show "sg_dropped sg = concat (map (\<lambda>s. droppedOf (ruleProviderKeys (sg_providers sg s)) s (nsRules unmarshal get s)) ?cs)"
    unfolding sg(2,3) dropUnbacked_fold_events [OF dcs] by (simp add: rules cong: map_cong)
  show "s \<in> set ?cs \<Longrightarrow>
      sg_sourceRules sg s = filter (backed (ruleProviderKeys (sg_providers sg s))) (nsRules unmarshal get s)"
    by (simp add: sg dropUnbacked_fold_rules rules)
qed

section \<open>Rule providers of the sources\<close>

definition cachedProviders :: "unmarshaller \<Rightarrow> cacheReader \<Rightarrow> string \<Rightarrow> (node \<times> node) list" where
  "cachedProviders unmarshal get s =
     (case findChildMapping (cachedDoc unmarshal get s) ''rule-providers'' of None \<Rightarrow> [] | Some m \<Rightarrow> pairs_of (content m))"

lemma readRoot_ruleProviders:
  "so_ruleProviders (readRoot name rt so) = (case findChildMapping (Some rt) ''rule-providers'' of
     None \<Rightarrow> so_ruleProviders so | Some m \<Rightarrow> (so_ruleProviders so)(name \<mapsto> m))"
  by (simp add: readRoot_def Let_def split: option.split)

lemma readSources_ruleProviders_outside:
  "readSources unmarshal get rows so = Inr so' \<Longrightarrow> s \<notin> row_Name ` set rows \<Longrightarrow> so_ruleProviders so' s = so_ruleProviders so s"
  by (induction unmarshal get rows so rule: readSources.induct)
    (auto simp: readRoot_ruleProviders split: option.splits sum.splits)

lemma readSources_ruleProviders:
  assumes "readSources unmarshal get rows so = Inr so'" and "distinct (map row_Name rows)"
    and "s \<in> row_Name ` set rows" and "so_ruleProviders so s = None"
  shows "so_ruleProviders so' s = findChildMapping (cachedDoc unmarshal get s) ''rule-providers''"
  using assms
proof (induction unmarshal get rows so rule: readSources.induct)
  case (1 unmarshal get so)
  then show ?case by simp
next
  case (2 unmarshal get row rows so)
  have dist: "distinct (map row_Name rows)" "row_Name row \<notin> row_Name ` set rows" using 2(4) by auto
  show ?case
  proof (cases "get (row_Name row)")
    case None
    then have "findChildMapping (cachedDoc unmarshal get (row_Name row)) ''rule-providers'' = None"
      by (simp add: cachedDoc_def findChildMapping_def)
    moreover have rest: "readSources unmarshal get rows so = Inr so'" using 2(3) None by simp
    ultimately show ?thesis
      using 2(1) [OF None rest dist(1)] 2(5,6) readSources_ruleProviders_outside [OF rest] dist(2) by (cases "s = row_Name row") auto
  next
    case (Some payload)
    with 2(3) obtain doc where doc: "fst (Parse unmarshal payload) = Inr doc" by (auto split: sum.splits)
    let ?so = "readRoot (row_Name row) (docRoot doc) so"
    have cd: "cachedDoc unmarshal get (row_Name row) = Some (docRoot doc)" using Some doc by (simp add: cachedDoc_def)
    have rest: "readSources unmarshal get rows ?so = Inr so'" using 2(3) Some doc by simp
    have other: "so_ruleProviders ?so s = so_ruleProviders so s" if "s \<noteq> row_Name row"
      using that by (simp add: readRoot_ruleProviders split: option.split)
    have this_row: "so_ruleProviders ?so s = findChildMapping (cachedDoc unmarshal get s) ''rule-providers''" if "s = row_Name row"
      using that 2(6) cd by (simp add: readRoot_ruleProviders split: option.split)
    show ?thesis
      using 2(2) [OF Some doc rest dist(1)] 2(5,6) readSources_ruleProviders_outside [OF rest] dist(2) other this_row
      by (cases "s = row_Name row") auto
  qed
qed

lemma namespaceSource_providers:
  "namespaceSource name (so, ns, sk) = (so1, ns1, sk1) \<Longrightarrow>
     so_ruleProviders so1 = so_ruleProviders so \<and>
     ns1 = (case so_ruleProviders so name of None \<Rightarrow> ns | Some raw \<Rightarrow> ns(name := fst (RewriteSourceRuleProviders name (Some raw)))) \<and>
     sk1 = sk @ (case so_ruleProviders so name of None \<Rightarrow> [] | Some raw \<Rightarrow> map (Pair name) (snd (RewriteSourceRuleProviders name (Some raw))))"
  by (auto simp: namespaceSource_def Let_def split: prod.splits option.splits)

lemma namespace_fold_providers:
  "distinct names \<Longrightarrow> fold namespaceSource names (so, ns, sk) = (so1, ns1, sk1) \<Longrightarrow>
     (\<forall>s. ns1 s = (if s \<in> set names \<and> so_ruleProviders so s \<noteq> None
        then fst (RewriteSourceRuleProviders s (so_ruleProviders so s)) else ns s)) \<and>
     sk1 = sk @ concat (map (\<lambda>s. map (Pair s) (snd (RewriteSourceRuleProviders s (so_ruleProviders so s)))) names)"
proof (induction names arbitrary: so ns sk)
  case Nil
  then show ?case by simp
next
  case (Cons name names)
  obtain so2 ns2 sk2 where st: "namespaceSource name (so, ns, sk) = (so2, ns2, sk2)" by (rule prod_cases3)
  have d: "distinct names" "name \<notin> set names" using Cons.prems(1) by auto
  have f: "fold namespaceSource names (so2, ns2, sk2) = (so1, ns1, sk1)" using Cons.prems(2) by (simp add: st)
  note step = namespaceSource_providers [OF st]
  have none: "RewriteSourceRuleProviders name None = (None, [])" by (simp add: RewriteSourceRuleProviders_def)
  show ?case using Cons.IH [OF d(1) f] step d(2) by (auto simp: none split: option.splits)
qed

lemma skipped_rewriteProviders:
  "snd (rewriteProviders s cs) = map (\<lambda>kv. nvalue (fst kv)) (filter (\<lambda>kv. nkind (snd kv) \<noteq> MappingNode) (pairs_of cs))"
  by (induction s cs rule: rewriteProviders.induct) (auto simp: Let_def split: prod.splits)

lemma findChildMapping_kind: "findChildMapping n k = Some m \<Longrightarrow> nkind m = MappingNode"
proof -
  have "findPair P k cs = Some m \<Longrightarrow> P m" for P cs by (induction P k cs rule: findPair.induct) (auto split: if_splits)
  then show "findChildMapping n k = Some m \<Longrightarrow> nkind m = MappingNode"
    by (fastforce simp: findChildMapping_def split: option.splits if_splits)
qed

lemma stages_providers:
  assumes "buildStages ulower unmarshal get p = Some sg" and "distinct (map row_Name (p_subscriptions p))"
  shows "s \<in> set (contributors get p) \<Longrightarrow> ruleProviderKeys (sg_providers sg s) =
      (\<lambda>kv. s @ ''_'' @ nvalue (fst kv)) ` {kv \<in> set (cachedProviders unmarshal get s). nkind (snd kv) = MappingNode}"
    and "sg_skipped sg = concat (map (\<lambda>s. map (\<lambda>kv. (s, nvalue (fst kv)))
      (filter (\<lambda>kv. nkind (snd kv) \<noteq> MappingNode) (cachedProviders unmarshal get s))) (contributors get p))"
proof -
  let ?rows = "sortSourcesByPriority (p_subscriptions p)" and ?cs = "contributors get p"
  obtain so where so: "readSources unmarshal get ?rows emptySources = Inr so"
    using assms(1) by (auto simp: buildStages_def Let_def split: sum.splits)
  have cs: "so_contributing so = ?cs"
    using readSources_contributing [OF so] by (simp add: contributors_def emptySources_def)
  have dist: "distinct (map row_Name ?rows)" using distinct_contributing [OF assms(2), of "\<lambda>_. True"] by simp
  have dcs: "distinct ?cs" unfolding contributors_def by (rule distinct_contributing [OF assms(2)])
  obtain so1 ns sk where f: "fold namespaceSource ?cs (so, Map.empty, []) = (so1, ns, sk)" by (rule prod_cases3)
  have sg: "sg_providers sg = ns" "sg_skipped sg = sk"
    using assms(1) by (auto simp: buildStages_def so f cs Let_def split: prod.splits)
  have rp: "so_ruleProviders so s = findChildMapping (cachedDoc unmarshal get s) ''rule-providers''" if "s \<in> set ?cs" for s
    using readSources_ruleProviders [OF so dist] that by (auto simp: contributors_def emptySources_def)
  note nf = namespace_fold_providers [OF dcs f]
  show "ruleProviderKeys (sg_providers sg s) =
      (\<lambda>kv. s @ ''_'' @ nvalue (fst kv)) ` {kv \<in> set (cachedProviders unmarshal get s). nkind (snd kv) = MappingNode}"
    if s: "s \<in> set ?cs"
  proof (cases "findChildMapping (cachedDoc unmarshal get s) ''rule-providers''")
    case None
    then show ?thesis using nf s rp [OF s] by (simp add: sg cachedProviders_def ruleProviderKeys_def)
  next
    case (Some m)
    then have "ns s = fst (RewriteSourceRuleProviders s (Some m))" using nf s rp [OF s] by simp
    then have "ruleProviderKeys (sg_providers sg s) =
        {s @ ''_'' @ nvalue k | k v. (k, v) \<in> set (pairs_of (content m)) \<and> nkind v = MappingNode}"
      using ruleProviderKeys_rewrite [OF findChildMapping_kind [OF Some], of s] by (simp add: sg)
    moreover have "cachedProviders unmarshal get s = pairs_of (content m)" by (simp add: cachedProviders_def Some)
    ultimately show ?thesis by force
  qed
  have "map (Pair s) (snd (RewriteSourceRuleProviders s (so_ruleProviders so s))) =
      map (\<lambda>kv. (s, nvalue (fst kv))) (filter (\<lambda>kv. nkind (snd kv) \<noteq> MappingNode) (cachedProviders unmarshal get s))"
    if s: "s \<in> set ?cs" for s
  proof (cases "findChildMapping (cachedDoc unmarshal get s) ''rule-providers''")
    case None
    then show ?thesis using rp [OF s] by (simp add: cachedProviders_def RewriteSourceRuleProviders_def)
  next
    case (Some m)
    then show ?thesis using rp [OF s] findChildMapping_kind [OF Some] skipped_rewriteProviders [of s "content m"]
      by (auto simp: cachedProviders_def RewriteSourceRuleProviders_def split: prod.splits)
  qed
  then show "sg_skipped sg = concat (map (\<lambda>s. map (\<lambda>kv. (s, nvalue (fst kv)))
      (filter (\<lambda>kv. nkind (snd kv) \<noteq> MappingNode) (cachedProviders unmarshal get s))) ?cs)"
    using nf by (simp add: sg cong: map_cong)
qed

section \<open>Names without a country\<close>

lemma stripSourcePrefix_prefixed:
  assumes "lower_name s"
  shows "stripSourcePrefix (s @ ''_'' @ x) = x"
proof -
  have "CHR ''_'' \<notin> set s" using lower_name_chars [OF assms] by blast
  then show ?thesis by (simp add: stripSourcePrefix_def IndexByte_append nat_add_distrib)
qed

text \<open>The names of the upstream proxies as their sources list them.\<close>

definition displayNames :: "unmarshaller \<Rightarrow> cacheReader \<Rightarrow> Pipeline \<Rightarrow> string set" where
  "displayNames unmarshal get p =
     (\<Union>s\<in>set (contributors get p). node_name ` set (cachedList unmarshal get ''proxies'' s))"

lemma upstream_display_names:
  assumes sg: "buildStages ulower unmarshal get p = Some sg" and ok: "inputsOk unmarshal get p"
  shows "stripSourcePrefix ` set (upstreamNames (upstreamOnly (sg_merged sg))) = displayNames unmarshal get p"
proof -
  let ?cs = "contributors get p"
  note m = merged_names [OF sg ok]
  have low: "lower_name s" if "s \<in> set ?cs" for s
    using ok contributors_sub [OF that] by (auto simp: inputsOk_def list_all_iff)
  have ns: "node_name (prefixName (s @ ''_'') n) = s @ ''_'' @ node_name n"
    if "s \<in> set ?cs" "n \<in> set (cachedList unmarshal get ''proxies'' s)" for s n
  proof -
    have "named_node n" using ok contributors_sub [OF that(1)] that(2) by (auto simp: inputsOk_def list_all_iff)
    then show ?thesis by (simp add: named_node_def)
  qed
  have "set (upstreamNames (upstreamOnly (sg_merged sg))) =
      {x \<in> node_name ` set (sg_merged sg). x \<noteq> [] \<and> \<not> HasPrefix x ''_''}"
    by (auto simp: upstreamNames_def upstreamOnly_def Let_def HasPrefix_def image_iff neq_Nil_conv)
  also have "\<dots> = (\<Union>s\<in>set ?cs. (\<lambda>n. s @ ''_'' @ node_name n) ` set (cachedList unmarshal get ''proxies'' s))"
  proof (intro equalityI subsetI)
    fix x assume "x \<in> {x \<in> node_name ` set (sg_merged sg). x \<noteq> [] \<and> \<not> HasPrefix x ''_''}"
    then obtain n where n: "n \<in> set (sg_merged sg)" "x = node_name n" "\<not> HasPrefix x ''_''" by auto
    have "n \<notin> set (sg_own sg)" using m(4) n by (auto simp: HasPrefix_iff)
    then obtain s n0 where "s \<in> set ?cs" "n0 \<in> set (cachedList unmarshal get ''proxies'' s)" "n = prefixName (s @ ''_'') n0"
      using n(1) m(2) by (auto simp: nsProxies_def)
    then show "x \<in> (\<Union>s\<in>set ?cs. (\<lambda>n. s @ ''_'' @ node_name n) ` set (cachedList unmarshal get ''proxies'' s))"
      using ns n(2) by blast
  next
    fix x assume "x \<in> (\<Union>s\<in>set ?cs. (\<lambda>n. s @ ''_'' @ node_name n) ` set (cachedList unmarshal get ''proxies'' s))"
    then obtain s n where sn: "s \<in> set ?cs" "n \<in> set (cachedList unmarshal get ''proxies'' s)" "x = s @ ''_'' @ node_name n" by auto
    have "prefixName (s @ ''_'') n \<in> set (sg_merged sg)" using sn(1,2) m(2) by (auto simp: nsProxies_def)
    moreover have "x = node_name (prefixName (s @ ''_'') n)" using ns [OF sn(1,2)] sn(3) by simp
    moreover have "s @ ''_'' @ y \<noteq> CHR ''_'' # z" for y z using low [OF sn(1)] by simp
    ultimately show "x \<in> {x \<in> node_name ` set (sg_merged sg). x \<noteq> [] \<and> \<not> HasPrefix x ''_''}"
      using sn(3) by (auto simp: HasPrefix_iff)
  qed
  finally have eq: "set (upstreamNames (upstreamOnly (sg_merged sg))) =
      (\<Union>s\<in>set ?cs. (\<lambda>n. s @ ''_'' @ node_name n) ` set (cachedList unmarshal get ''proxies'' s))" .
  have "stripSourcePrefix ` (\<lambda>n. s @ ''_'' @ node_name n) ` A = node_name ` A" if "s \<in> set ?cs" for s and A :: "node set"
    using stripSourcePrefix_prefixed [OF low [OF that]] by (simp add: image_image)
  then show ?thesis unfolding eq image_UN displayNames_def by (intro SUP_cong) simp_all
qed

lemma region_names:
  "fst (regionGroupsOf gs) = filter (\<lambda>nm. 8 < length nm \<and> take 8 nm = ''_region_'') (map node_name gs)"
proof -
  define f where "f = (\<lambda>g (names, members :: string \<Rightarrow> string list).
       let name = getMappingField g ''name'' in
       if length name > 8 \<and> take 8 name = ''_region_''
       then (names @ [name], members(name := mappingMembers g ''proxies'')) else (names, members))"
  have "fst (fold f gs (ns, ms)) = ns @ filter (\<lambda>nm. 8 < length nm \<and> take 8 nm = ''_region_'') (map node_name gs)" for ns ms
    by (induction gs arbitrary: ns ms) (auto simp: f_def Let_def)
  then show ?thesis by (simp add: regionGroupsOf_def f_def)
qed

lemma map_node_name_addToSelector:
  "\<forall>g\<in>set gs. named_node g \<Longrightarrow> map node_name (addToSelector pg names gs) = map node_name gs"
  by (simp add: addToSelector_def map_node_name_augmentGroup split: option.split)

lemma rolledUp_regions:
  assumes "\<forall>x\<in>set front. \<not> HasPrefix x ''_region_''"
  shows "set (rolledUp (filter (\<lambda>nm. 8 < length nm \<and> take 8 nm = ''_region_'')
     (front @ map node_name (regionSpec ulower ut lb ns)))) = codesOf ulower ns"
proof -
  have pre: "HasPrefix x ''_region_'' \<longleftrightarrow> take 8 x = ''_region_''" for x
    using HasPrefix_def [of x "''_region_''"] by (simp add: numeral_eq_Suc)
  have all: "set (rolledUp (filter (\<lambda>nm. 8 < length nm \<and> take 8 nm = ''_region_'') xs)) =
      {c. ''_region_'' @ c \<in> set xs \<and> c \<noteq> [] \<and> c \<noteq> ''UNKNOWN''}" for xs
  proof (intro equalityI subsetI)
    fix c assume "c \<in> set (rolledUp (filter (\<lambda>nm. 8 < length nm \<and> take 8 nm = ''_region_'') xs))"
    then obtain x where x: "x \<in> set xs" "8 < length x" "take 8 x = ''_region_''" "c = drop 8 x" "c \<noteq> ''UNKNOWN''"
      by (auto simp: rolledUp_def pre)
    have "''_region_'' @ c = x" using append_take_drop_id [of 8 x] x(3,4) by metis
    with x show "c \<in> {c. ''_region_'' @ c \<in> set xs \<and> c \<noteq> [] \<and> c \<noteq> ''UNKNOWN''}" by auto
  next
    fix c assume "c \<in> {c. ''_region_'' @ c \<in> set xs \<and> c \<noteq> [] \<and> c \<noteq> ''UNKNOWN''}"
    then show "c \<in> set (rolledUp (filter (\<lambda>nm. 8 < length nm \<and> take 8 nm = ''_region_'') xs))"
      by (auto simp: rolledUp_def pre image_iff intro!: bexI [of _ "''_region_'' @ c"])
  qed
  have "''_region_'' @ c \<in> set (map node_name (regionSpec ulower ut lb ns)) \<longleftrightarrow>
      c \<in> codesOf ulower ns \<or> c = ''UNKNOWN'' \<and> None \<in> set (map (countryOf ulower) ns)" for c
    unfolding regionSpec_names Let_def by auto
  moreover have "''_region_'' @ c \<notin> set front" for c using assms by (auto simp: HasPrefix_def)
  moreover have "c \<noteq> [] \<and> c \<noteq> ''UNKNOWN''" if "c \<in> codesOf ulower ns" for c
    using codesOf_pairs [OF that] by auto
  ultimately show ?thesis unfolding all set_append Un_iff by blast
qed

lemma group_lines:
  assumes sg: "buildStages ulower unmarshal get p = Some sg" and ok: "inputsOk unmarshal get p"
  shows "\<exists>fragments countries.
     snd (mergeGroupsLogged ulower p (sg_merged sg) (sg_groups0 sg)) =
       map (unmappedLine ''region-unmapped-indicator'' ''fragment'') fragments @
       map (unmappedLine ''continent-unmapped-country'' ''country_code'') countries \<and>
     distinct fragments \<and> set fragments = {x \<in> displayNames unmarshal get p. inferCountry ulower x = None} \<and>
     distinct countries \<and>
     set countries = {c. continentOf c = None \<and> (\<exists>x\<in>displayNames unmarshal get p. inferCountry ulower x = Some c)}"
proof -
  let ?ns = "upstreamNames (upstreamOnly (sg_merged sg))" and ?pg = "p_proxiesGroupName p"
  let ?em = "regionSpec ulower (p_urlTestParams p) (p_loadBalanceParams p) ?ns"
  define G1 where "G1 = AppendProxiesGroup (sg_groups0 sg) (selectorNames (sg_merged sg)) ?pg"
  define G2 where "G2 = addToSelector ?pg (map node_name ?em) (G1 @ ?em)"
  define fragments where "fragments = add_unseen {} [] (map stripSourcePrefix (filter (\<lambda>n. countryOf ulower n = None) ?ns))"
  define countries where "countries = add_unseen {} [] (filter (\<lambda>cc. continentOf cc = None) (rolledUp (fst (regionGroupsOf G2))))"
  have lines: "snd (mergeGroupsLogged ulower p (sg_merged sg) (sg_groups0 sg)) =
       map (unmappedLine ''region-unmapped-indicator'' ''fragment'') fragments @
       map (unmappedLine ''continent-unmapped-country'' ''country_code'') countries"
    by (simp add: mergeGroupsLogged_def AppendRegionGroups_eq AppendContinentGroups_eq Let_def split_beta
        fragments_def countries_def G2_def G1_def)
  have pg: "?pg \<noteq> []" "\<not> isFanoutTarget ?pg" using ok by (simp_all add: inputsOk_def)
  have n0: "\<forall>g\<in>set (sg_groups0 sg). named_node g" using groups0_named [OF sg ok] by blast
  note G1f = AppendProxiesGroup_facts [OF n0 pg(1), where ns = "selectorNames (sg_merged sg)", folded G1_def]
  have "\<forall>x\<in>set (map node_name G1). \<not> isFanoutTarget x"
    using G1f(3) pg(2) groups0_named [OF sg ok] by auto
  then have front: "\<forall>x\<in>set (map node_name G1). \<not> HasPrefix x ''_region_''" by (simp add: isFanoutTarget_def)
  have "map node_name G2 = map node_name G1 @ map node_name ?em"
    unfolding G2_def by (subst map_node_name_addToSelector) (use G1f(1) regionSpec_groups in auto)
  then have "set (rolledUp (fst (regionGroupsOf G2))) = codesOf ulower ?ns"
    unfolding region_names using rolledUp_regions [OF front] by simp
  moreover have "codesOf ulower ?ns = {c. \<exists>x\<in>stripSourcePrefix ` set ?ns. inferCountry ulower x = Some c}"
    by (simp add: codesOf_def countryOf_def image_iff eq_commute)
  ultimately have "set countries = {c. continentOf c = None \<and> (\<exists>x\<in>displayNames unmarshal get p. inferCountry ulower x = Some c)}"
    unfolding upstream_display_names [OF sg ok] by (auto simp: countries_def set_add_unseen)
  moreover have "set fragments = {x \<in> stripSourcePrefix ` set ?ns. inferCountry ulower x = None}"
    by (auto simp: fragments_def set_add_unseen countryOf_def)
  moreover have "distinct fragments" "distinct countries"
    by (simp_all add: fragments_def countries_def distinct_add_unseen)
  ultimately show ?thesis using lines unfolding upstream_display_names [OF sg ok] by blast
qed

section \<open>Retargets\<close>

lemma retargetLog_sorted: "sorted_wrt (<) (map rt_RuleIndex (retargetLog removed fb k rules))"
proof -
  have ge: "\<forall>rt\<in>set (retargetLog removed fb k rules). k \<le> rt_RuleIndex rt" for k rules
    by (induction rules arbitrary: k) (force split: option.split)+
  show ?thesis
  proof (induction rules arbitrary: k)
    case (Cons rule rules)
    then show ?case using ge [of "k + 1" rules] by (auto simp: Suc_le_eq split: option.split)
  qed simp
qed

lemma retargetLog_list:
  assumes "CHR '','' \<notin> set fb" and "fb \<notin> removed"
  shows "map rt_RuleIndex (retargetLog removed fb 0 rules) =
     filter (\<lambda>i. map (retargetRule removed fb) rules ! i \<noteq> rules ! i) [0..<length rules]"
proof (rule strict_sorted_equal)
  show "sorted_wrt (<) (filter (\<lambda>i. map (retargetRule removed fb) rules ! i \<noteq> rules ! i) [0..<length rules])"
    by (rule sorted_wrt_filter) simp
  show "sorted_wrt (<) (map rt_RuleIndex (retargetLog removed fb 0 rules))" by (rule retargetLog_sorted)
  show "set (map rt_RuleIndex (retargetLog removed fb 0 rules)) =
      set (filter (\<lambda>i. map (retargetRule removed fb) rules ! i \<noteq> rules ! i) [0..<length rules])"
    unfolding set_map retargets_reported [OF assms] by auto
qed

lemma retargetLog_entry:
  assumes "rt \<in> set (retargetLog removed fb 0 rules)" and fb: "CHR '','' \<notin> set fb"
  shows "rt_NewTarget rt = fb \<and> rt_OldTarget rt \<in> removed \<and>
     (let before = Split (rules ! rt_RuleIndex rt) CHR '',''; after = Split (map (retargetRule removed fb) rules ! rt_RuleIndex rt) CHR '',''
      in \<exists>j. 1 \<le> j \<and> j < length before \<and> before ! j = rt_OldTarget rt \<and> after = before[j := fb])"
proof -
  from retargetLog_indices [OF assms(1)] obtain i where i: "i < length rules"
    "rt = \<lparr>rt_RuleIndex = 0 + i, rt_OldTarget = rt_OldTarget rt, rt_NewTarget = fb\<rparr>"
    "ruleTargetName (rules ! i) = Some (rt_OldTarget rt)" "rt_OldTarget rt \<in> removed" by blast
  have ix: "rt_RuleIndex rt = i" "rt_NewTarget rt = fb" using i(2) by (metis RuleRetarget.select_convs(1,3) add_0)+
  let ?parts = "Split (rules ! i) CHR '',''"
  have p: "2 \<le> length ?parts" "?parts ! targetIndex ?parts = rt_OldTarget rt"
    using i(3) by (auto simp: ruleTargetName_fields Let_def split: if_splits)
  then show ?thesis using i(1,4) targetIndex_bounds [OF p(1)]
    by (auto simp: ix Let_def Split_retargetRule [OF fb] intro!: exI [of _ "targetIndex ?parts"])
qed

section \<open>The account\<close>

text \<open>The line of a failed save of the daily snapshot: it is there when the header says that the day
  rolled over and the save of the new snapshot reports an error.\<close>

definition savesFail :: "(rat \<Rightarrow> int) \<Rightarrow> 'st snapshotOps option \<Rightarrow> userinfos \<Rightarrow> time \<Rightarrow> time \<Rightarrow> location option \<Rightarrow> 'st \<Rightarrow> bool" where
  "savesFail cvt ops uis clk1 clk2 loc st \<longleftrightarrow> (\<exists>load save h new err st'. ops = Some (load, save) \<and>
     ComposeServedTrafficHeaderWithSpend cvt uis clk1 clk2 (case load st of Inl _ \<Rightarrow> None | Inr s \<Rightarrow> s) loc = (Some h, Some new) \<and>
     th_RolloverFired h \<and> save (Some new) st = (st', Some err))"

lemma traffic_lines:
  "snd (snd (serveTrafficLogged cvt ops uis clk1 clk2 loc st)) =
     (if savesFail cvt ops uis clk1 clk2 loc st
      then [eventLine LevelWarn ''dailyspend snapshot save failed'' ''dailyspend-save-failed'' []] else [])"
  by (auto simp: serveTrafficLogged_def savesFail_def Let_def split: option.splits prod.splits)

lemma fanout_skipped_own:
  assumes "buildStages ulower unmarshal get p = Some sg" and ok: "inputsOk unmarshal get p"
  shows "snd (AppendFanoutProxies (sg_own sg) (sg_groups sg) pg) =
     length (filter (\<lambda>n. getMappingField n ''dialer-proxy'' \<noteq> []) (p_ownProxies p))"
proof -
  have d: "distinct (map row_Name (p_subscriptions p))" using ok by (simp add: inputsOk_def)
  have own: "sg_own sg = map (prefixName ''_'') (p_ownProxies p)" using buildStages_sources [OF assms(1) d] by simp
  have n: "named_node n" if "n \<in> set (p_ownProxies p)" for n using ok that by (auto simp: inputsOk_def list_all_iff)
  have "getMappingField (prefixName ''_'' n) ''dialer-proxy'' = getMappingField n ''dialer-proxy''" for n
    by (simp add: prefixName_def yaml_get Let_def)
  moreover have "node_name (prefixName ''_'' n) \<noteq> []" if "n \<in> set (p_ownProxies p)" for n
    using n [OF that] by (simp add: named_node_def)
  ultimately show ?thesis
    by (simp add: AppendFanoutProxies_eq own filter_map o_def cong: filter_cong)
qed

lemma prune_account:
  assumes prune: "PruneEmptyProxyGroups groups rules pg fb = (groups', rules', res)" and "pg \<noteq> []" and c: "CHR '','' \<notin> set fb"
  shows "pr_RemovedGroups res = map node_name (filter (\<lambda>g. node_name g \<notin> {pg, fb} \<and> members_of g = []) groups)"
    and "map rt_RuleIndex (pr_Retargets res) = filter (\<lambda>i. rules' ! i \<noteq> rules ! i) [0..<length rules']"
    and "list_all (\<lambda>rt. rt_NewTarget rt = fb \<and> rt_OldTarget rt \<in> set (pr_RemovedGroups res) \<and>
      (let before = Split (rules ! rt_RuleIndex rt) CHR '',''; after = Split (rules' ! rt_RuleIndex rt) CHR '','' in
       \<exists>j. 1 \<le> j \<and> j < length before \<and> before ! j = rt_OldTarget rt \<and> after = before[j := fb])) (pr_Retargets res)"
proof -
  note closed = Prune_closed [OF prune]
  have fb: "fb \<notin> set (pr_RemovedGroups res)" using closed fallback_not_removed by metis
  have rules: "rules' = map (retargetRule (set (pr_RemovedGroups res)) fb) rules" using closed by simp
  show "pr_RemovedGroups res = map node_name (filter (\<lambda>g. node_name g \<notin> {pg, fb} \<and> members_of g = []) groups)"
    using closed assms(2) by (auto simp: emptyGroup_alt intro!: map_cong filter_cong)
  show "map rt_RuleIndex (pr_Retargets res) = filter (\<lambda>i. rules' ! i \<noteq> rules ! i) [0..<length rules']"
    using retargetLog_list [OF c fb, of rules] by (simp add: Prune_retargets [OF prune] rules)
  show "list_all (\<lambda>rt. rt_NewTarget rt = fb \<and> rt_OldTarget rt \<in> set (pr_RemovedGroups res) \<and>
      (let before = Split (rules ! rt_RuleIndex rt) CHR '',''; after = Split (rules' ! rt_RuleIndex rt) CHR '','' in
       \<exists>j. 1 \<le> j \<and> j < length before \<and> before ! j = rt_OldTarget rt \<and> after = before[j := fb])) (pr_Retargets res)"
    unfolding list_all_iff Prune_retargets [OF prune] rules using retargetLog_entry [OF _ c] by blast
qed

lemma fanout_account:
  assumes sg: "buildStages ulower unmarshal get p = Some sg" and ok: "inputsOk unmarshal get p"
  defines "fan \<equiv> AppendFanoutProxies (sg_own sg) (sg_groups sg) (p_proxiesGroupName p)"
    and "skipped \<equiv> length (filter (\<lambda>n. getMappingField n ''dialer-proxy'' \<noteq> []) (p_ownProxies p))"
  shows "length (sg_own sg) = length (p_ownProxies p)" and "snd fan = skipped"
    and "length (fst fan) = (length (p_ownProxies p) - skipped) * (1 + length (targetGroupNames (sg_groups sg)))"
    and "length (sg_merged sg @ fst fan) = length (p_ownProxies p) +
      (\<Sum>s\<leftarrow>contributors get p. length (cachedList unmarshal get ''proxies'' s)) + length (fst fan)"
proof -
  have d: "distinct (map row_Name (p_subscriptions p))" using ok by (simp add: inputsOk_def)
  show own: "length (sg_own sg) = length (p_ownProxies p)" using buildStages_sources [OF sg d] by simp
  show skipped: "snd fan = skipped" unfolding fan_def skipped_def by (rule fanout_skipped_own [OF sg ok])
  have "filter (\<lambda>n. node_name n \<noteq> []) (sg_own sg) = sg_own sg"
    using own_stage(1) [OF sg ok] by (auto simp: named_node_def filter_id_conv)
  then show "length (fst fan) = (length (p_ownProxies p) - skipped) * (1 + length (targetGroupNames (sg_groups sg)))"
    using fanout_counts [of "sg_own sg" "sg_groups sg" "p_proxiesGroupName p"] own skipped by (simp add: fan_def)
  show "length (sg_merged sg @ fst fan) = length (p_ownProxies p) +
      (\<Sum>s\<leftarrow>contributors get p. length (cachedList unmarshal get ''proxies'' s)) + length (fst fan)"
    using own merged_names(2) [OF sg ok] by (simp add: length_concat o_def nsProxies_def)
qed

text \<open>C40: the log accounts for the build.  Assume the payloads parse, their proxies and groups are named
  and no source lists a proxy name twice, the names reserved for generated groups are not taken and
  the fallback has no comma.  The log of a build is then, in this order: one line for every distinct
  proxy name as its source lists it that has no country, and one for every country of such a name
  that has no continent; the fan-out line, with the number of own proxies, of those with a dialer of
  their own, of target groups and of copies, which together with the upstream proxies add up to the
  served ones; the line of a failed snapshot save exactly when the day rolled over and the save
  failed; the removed groups, which are the empty ones other than the selector and the fallback, and
  the retargets, which are exactly the positions where the served rule differs from the merged one,
  each with the one field that was replaced and the fallback; and the dropped \<open>RULE-SET\<close> rules and
  malformed providers of every source.\<close>

theorem BuildLog_accounts:
  assumes "parseable unmarshal get (p_subscriptions p)" and "inputsOk unmarshal get p"
    and "CHR '','' \<notin> set (p_fallbackRuleTarget p)"
  shows "\<exists>mc st' sg fragments countries removed retargets.
     Build ulower cvt unmarshal get get' ops p clk1 clk2 st = (Inr mc, st') \<and> buildStages ulower unmarshal get p = Some sg \<and>
     (let own = length (p_ownProxies p);
          skipped = length (filter (\<lambda>n. getMappingField n ''dialer-proxy'' \<noteq> '''') (p_ownProxies p));
          targets = length (targetGroupNames (sg_groups sg));
          emitted = (own - skipped) * (1 + targets);
          names = displayNames unmarshal get p;
          merged = mr_Rules (sg_rules sg); served = mc_Rules mc; fb = p_fallbackRuleTarget p;
          backing = (\<lambda>s. (\<lambda>kv. s @ ''_'' @ nvalue (fst kv)) ` {kv \<in> set (cachedProviders unmarshal get s). nkind (snd kv) = MappingNode});
          dropped = concat (map (\<lambda>s. droppedOf (backing s) s (nsRules unmarshal get s)) (contributors get p));
          malformed = concat (map (\<lambda>s. map (\<lambda>kv. (s, nvalue (fst kv)))
            (filter (\<lambda>kv. nkind (snd kv) \<noteq> MappingNode) (cachedProviders unmarshal get s))) (contributors get p))
      in BuildLog ulower cvt unmarshal get get' ops p clk1 clk2 st =
           map (unmappedLine ''region-unmapped-indicator'' ''fragment'') fragments @
           map (unmappedLine ''continent-unmapped-country'' ''country_code'') countries @
           [fanoutLine own skipped targets emitted] @
           (if savesFail cvt ops (userinfoOf get' (contributors get p)) clk1 clk2 (p_budgetLocation p) st
            then [eventLine LevelWarn ''dailyspend snapshot save failed'' ''dailyspend-save-failed'' []] else []) @
           pruneLines \<lparr>pr_RemovedGroups = removed, pr_Retargets = retargets\<rparr> @
           rulesetLines (mc_RuleProviders mc) dropped malformed \<and>
         length (mc_Proxies mc) =
           own + (\<Sum>s\<leftarrow>contributors get p. length (cachedList unmarshal get ''proxies'' s)) + emitted \<and>
         distinct fragments \<and> set fragments = {x \<in> names. inferCountry ulower x = None} \<and>
         distinct countries \<and> set countries = {c. continentOf c = None \<and> (\<exists>x\<in>names. inferCountry ulower x = Some c)} \<and>
         removed = map node_name (filter (\<lambda>g. node_name g \<notin> {p_proxiesGroupName p, fb} \<and> members_of g = []) (sg_groups sg)) \<and>
         map rt_RuleIndex retargets = filter (\<lambda>i. served ! i \<noteq> merged ! i) [0..<length served] \<and>
         list_all (\<lambda>rt. rt_NewTarget rt = fb \<and> rt_OldTarget rt \<in> set removed \<and>
           (let before = Split (merged ! rt_RuleIndex rt) CHR '',''; after = Split (served ! rt_RuleIndex rt) CHR '','' in
            \<exists>j. 1 \<le> j \<and> j < length before \<and> before ! j = rt_OldTarget rt \<and> after = before[j := fb])) retargets)"
proof -
  let ?fb = "p_fallbackRuleTarget p" and ?pg = "p_proxiesGroupName p"
  obtain mc st' where b: "Build ulower cvt unmarshal get get' ops p clk1 clk2 st = (Inr mc, st')"
    using Build_total [of ulower cvt unmarshal get get' ops p clk1 clk2 st] assms(1) by blast
  obtain sg where sg: "buildStages ulower unmarshal get p = Some sg"
    and mc: "mc_Proxies mc = sg_merged sg @ fst (AppendFanoutProxies (sg_own sg) (sg_groups sg) ?pg)"
    and pr: "(mc_ProxyGroups mc, mc_Rules mc) =
       (case PruneEmptyProxyGroups (sg_groups sg) (mr_Rules (sg_rules sg)) ?pg ?fb of (gs, rs, _) \<Rightarrow> (gs, rs))"
    using Build_stages [OF b] by blast
  obtain gs rs res where prune: "PruneEmptyProxyGroups (sg_groups sg) (mr_Rules (sg_rules sg)) ?pg ?fb = (gs, rs, res)"
    by (rule prod_cases3)
  have d: "distinct (map row_Name (p_subscriptions p))" and pg: "?pg \<noteq> []" using assms(2) by (simp_all add: inputsOk_def)
  obtain fragments countries where lines: "snd (mergeGroupsLogged ulower p (sg_merged sg) (sg_groups0 sg)) =
       map (unmappedLine ''region-unmapped-indicator'' ''fragment'') fragments @
       map (unmappedLine ''continent-unmapped-country'' ''country_code'') countries"
    "distinct fragments" "set fragments = {x \<in> displayNames unmarshal get p. inferCountry ulower x = None}"
    "distinct countries"
    "set countries = {c. continentOf c = None \<and> (\<exists>x\<in>displayNames unmarshal get p. inferCountry ulower x = Some c)}"
    using group_lines [OF sg assms(2)] by blast
  have rules: "mc_Rules mc = rs" using pr by (simp add: prune)
  note fan = fanout_account [OF sg assms(2)] and account = prune_account [OF prune pg assms(3), folded rules]
  have dropped: "sg_dropped sg = concat (map (\<lambda>s. droppedOf ((\<lambda>kv. s @ ''_'' @ nvalue (fst kv)) `
      {kv \<in> set (cachedProviders unmarshal get s). nkind (snd kv) = MappingNode}) s (nsRules unmarshal get s)) (contributors get p))"
    unfolding stages_dropped(2) [OF sg d] by (simp add: stages_providers(1) [OF sg d] cong: map_cong)
  have "snd (snd (PruneEmptyProxyGroups (sg_groups sg) (mr_Rules (sg_rules sg)) ?pg ?fb)) =
      \<lparr>pr_RemovedGroups = pr_RemovedGroups res, pr_Retargets = pr_Retargets res\<rparr>" by (simp add: prune)
  note log = BuildLog_stages [OF b sg, unfolded this lines(1) append_assoc traffic_lines fan(1-3) fanoutTargetGroups_eq
      stages_dropped(1) [OF sg d] dropped stages_providers(2) [OF sg d]]
  show ?thesis
    unfolding Let_def
    by (rule exI [of _ mc], rule exI [of _ st'], rule exI [of _ sg], rule exI [of _ fragments], rule exI [of _ countries],
        rule exI [of _ "pr_RemovedGroups res"], rule exI [of _ "pr_Retargets res"])
      (intro conjI b sg lines(2-5) log fan(4) [unfolded fan(3), folded mc] account [unfolded Let_def])
qed

end
