(* ===== verification/Served_Document.thy ===== *)
theory Served_Document
  imports Served_Config Output
begin

text \<open>
  From the cached payloads to the document a client parses: what the passes of \<open>merge/\<close> keep of the
  entries, whatever they do with them, and what \<open>output/\<close> then serves.

  A property of entries that setting a field keeps is kept by every pass, because setting fields is all
  the passes do (\<open>entry_property\<close>).  That an entry is a mapping without duplicate keys is such a
  property; it is what makes the order of the fields, which the output adapter changes, irrelevant to a
  reader.
\<close>

section \<open>What the passes keep\<close>

locale entry_property =
  fixes P :: "node \<Rightarrow> bool"
  assumes P_field: "P n \<Longrightarrow> P (fst (setMappingField n k x))"
    and P_value: "P n \<Longrightarrow> P (setMappingValue n k v)"
    and P_fresh: "P (mkNode MappingNode [] t)"
begin

lemma P_members: "P n \<Longrightarrow> P (setMappingMembers n k ms)"
  by (simp add: setMappingMembers_def P_value)

lemma P_prefixName: "P n \<Longrightarrow> P (prefixName p n)"
  by (simp add: prefixName_def Let_def P_field)

lemma P_rewriteGroupMembers: "P g \<Longrightarrow> P (rewriteGroupMembers g s)" "P g \<Longrightarrow> P (rewriteOwnGroupMembers g A B)"
  by (simp_all add: rewriteGroupMembers_def rewriteOwnGroupMembers_def Let_def P_members)

lemma P_fold:
  assumes "\<And>x st. Q st \<Longrightarrow> x \<in> set xs \<Longrightarrow> Q (f x st)"
  shows "Q st \<Longrightarrow> Q (fold f xs st)"
  using assms by (induction xs arbitrary: st) auto

lemma P_MergeProxies:
  assumes "\<And>s. s \<in> set cs \<Longrightarrow> list_all P (perSource s)" and "list_all P own"
  shows "list_all P (fst (MergeProxies perSource cs own))"
proof -
  let ?Q = "\<lambda>st. list_all P (mp_merged st)"
  have own: "?Q (fold mergeOwnProxy own \<lparr>mp_merged = [], mp_used = {}, mp_firstSource = (\<lambda>_. []), mp_collisions = []\<rparr>)"
    by (rule P_fold [where Q = ?Q]) (use assms(2) in \<open>auto simp: mergeOwnProxy_def Let_def list_all_iff\<close>)
  have up: "?Q (mergeUpstreamProxy s n st)" if "?Q st" "P n" for s n st
    using that by (auto simp: mergeUpstreamProxy_def Let_def list_all_iff P_field)
  have src: "?Q (fold (mergeUpstreamProxy s) (perSource s) st)" if st: "?Q st" and s: "s \<in> set cs" for s st
    by (rule P_fold [where Q = ?Q, OF _ st], erule up) (use assms(1) [OF s] in \<open>simp add: list_all_iff\<close>)
  show ?thesis unfolding MergeProxies_def Let_def fst_conv by (rule P_fold [where Q = ?Q, OF _ own], erule (1) src)
qed

lemma P_addGroup: "list_all P (mg_merged st) \<Longrightarrow> P g \<Longrightarrow> list_all P (mg_merged (addGroup s g st))"
proof -
  assume m: "list_all P (mg_merged st)" and g: "P g"
  have "list_all P ((mg_merged st)[i := setMappingMembers (mg_merged st ! i) k ms])" for i k ms
    using m P_members by (cases "i < length (mg_merged st)") (auto simp: list_all_length nth_list_update)
  then show ?thesis using m g by (auto simp: addGroup_def Let_def split: option.split)
qed

lemma P_MergeProxyGroups:
  assumes "\<And>s. s \<in> set cs \<Longrightarrow> list_all P (perSource s)" and "list_all P own"
  shows "list_all P (fst (MergeProxyGroups perSource cs own))"
proof -
  let ?Q = "\<lambda>st. list_all P (mg_merged st)"
  have run: "?Q (fold (addGroup s) gs st)" if st: "?Q st" and gs: "list_all P gs" for s gs st
    by (rule P_fold [where Q = ?Q, OF _ st], erule P_addGroup) (use gs in \<open>simp add: list_all_iff\<close>)
  have own: "?Q (fold (addGroup ''own'') own \<lparr>mg_merged = [], mg_byName = Map.empty, mg_chosenSource = (\<lambda>_. []), mg_conflicts = []\<rparr>)"
    by (rule run) (simp_all add: assms(2))
  show ?thesis unfolding MergeProxyGroups_def Let_def fst_conv
    by (rule P_fold [where Q = ?Q, OF _ own], erule run, erule assms(1))
qed

lemma P_augmentGroup: "augmentGroup nm ns gs = Some gs' \<Longrightarrow> list_all P gs \<Longrightarrow> list_all P gs'"
  using augmentGroup_Some [of nm ns gs gs'] P_members by auto

lemma P_AppendProxiesGroup: "list_all P gs \<Longrightarrow> list_all P (AppendProxiesGroup gs ns nm)"
  by (auto simp: AppendProxiesGroup_def Let_def P_members P_value P_fresh P_augmentGroup split: option.split)

lemma P_regionPair: "list_all P (regionPair ut lb a b ms)"
  by (simp add: regionPair_def newURLTestGroup_def newLoadBalanceGroup_def Let_def P_members P_value P_fresh)

lemma P_addToSelector: "list_all P gs \<Longrightarrow> list_all P (addToSelector pg names gs)"
  by (auto simp: addToSelector_def P_augmentGroup split: option.split)

lemma P_generated:
  "list_all P gs \<Longrightarrow> list_all P (fst (AppendRegionGroups ulower gs ps pg ut lb))"
  "list_all P gs \<Longrightarrow> list_all P (fst (AppendContinentGroups gs rs ms pg ut lb))"
  unfolding AppendRegionGroups_def AppendContinentGroups_def Let_def fst_conv
  by (intro P_addToSelector; auto simp: list_all_iff P_regionPair [unfolded list_all_iff])+

lemma P_mergeGroups: "list_all P gs \<Longrightarrow> list_all P (mergeGroups ulower p ps gs)"
  by (simp add: mergeGroups_eq P_generated P_AppendProxiesGroup Let_def split: prod.split)

lemma P_fanout: "list_all P own \<Longrightarrow> list_all P (fst (AppendFanoutProxies own gs pg))"
  by (auto simp: AppendFanoutProxies_def fanoutLoop_eq fanoutCopy_def Let_def list_all_iff P_value)

lemma P_Prune: "list_all P gs \<Longrightarrow> list_all P (fst (PruneEmptyProxyGroups gs rs pg fb))"
  by (auto simp: PruneEmptyProxyGroups_def dropMembers_def Let_def list_all_iff P_members)

text \<open>What holds of every entry of the cached payloads and of the own proxies and groups holds of every
  entry that is served.\<close>

definition inputsHave :: "unmarshaller \<Rightarrow> cacheReader \<Rightarrow> Pipeline \<Rightarrow> bool" where
  "inputsHave unmarshal get p \<longleftrightarrow>
     list_all (\<lambda>r. list_all P (cachedList unmarshal get ''proxies'' (row_Name r)) \<and>
        list_all P (cachedList unmarshal get ''proxy-groups'' (row_Name r))) (p_subscriptions p) \<and>
     list_all P (p_ownProxies p) \<and> list_all P (p_ownGroups p)"

lemma served_have:
  assumes "Build ulower cvt unmarshal get get' ops p clk1 clk2 st = (Inr mc, st')"
    and "distinct (map row_Name (p_subscriptions p))" and "inputsHave unmarshal get p"
  shows "list_all P (mc_Proxies mc) \<and> list_all P (mc_ProxyGroups mc)"
proof -
  obtain sg where sg: "buildStages ulower unmarshal get p = Some sg"
    and mc: "mc_Proxies mc = sg_merged sg @ fst (AppendFanoutProxies (sg_own sg) (sg_groups sg) (p_proxiesGroupName p))"
    and gs: "(mc_ProxyGroups mc, mc_Rules mc) =
       (case PruneEmptyProxyGroups (sg_groups sg) (mr_Rules (sg_rules sg)) (p_proxiesGroupName p) (p_fallbackRuleTarget p)
        of (gs, rs, _) \<Rightarrow> (gs, rs))"
    using Build_stages [OF assms(1)] by blast
  note stage = buildStages_sources [OF sg assms(2)]
  have own: "list_all P (sg_own sg)" "list_all P (ownGroups' p)"
    using stage assms(3) by (auto simp: inputsHave_def ownGroups'_def RewriteOwn_def list_all_iff P_prefixName P_rewriteGroupMembers Let_def)
  have ns: "list_all P (nsProxies unmarshal get s)" "list_all P (nsGroups unmarshal get s)" if s: "s \<in> set (contributors get p)" for s
  proof -
    obtain r where "r \<in> set (p_subscriptions p)" "row_Name r = s" using contributors_sub [OF s] by blast
    then show "list_all P (nsProxies unmarshal get s)" "list_all P (nsGroups unmarshal get s)"
      using assms(3) by (auto simp: inputsHave_def nsProxies_def nsGroups_def list_all_iff P_prefixName P_rewriteGroupMembers)
  qed
  have "sg_merged sg = fst (MergeProxies (nsProxies unmarshal get) (contributors get p) (sg_own sg))"
    using stage by (metis fst_conv)
  then have "list_all P (sg_merged sg)" using P_MergeProxies ns(1) own(1) by simp
  moreover have "list_all P (sg_groups sg)" using stage P_MergeProxyGroups ns(2) own(2) by (simp add: P_mergeGroups)
  moreover have "mc_ProxyGroups mc =
      fst (PruneEmptyProxyGroups (sg_groups sg) (mr_Rules (sg_rules sg)) (p_proxiesGroupName p) (p_fallbackRuleTarget p))"
    using gs by (auto split: prod.splits)
  ultimately show ?thesis using own(1) by (simp add: mc P_fanout P_Prune)
qed

end

section \<open>Mappings without duplicate keys\<close>

definition uniqueKeys :: "node \<Rightarrow> bool" where
  "uniqueKeys n \<longleftrightarrow> is_mapping n \<and> distinct (fieldKeys n)"

lemma fieldKeys_updPair: "map pairKey (pairs_of (updPair k f cs)) = map pairKey (pairs_of cs)"
  by (induction k f cs rule: updPair.induct) auto

lemma findPair_None_iff: "findPair (\<lambda>_. True) k cs = None \<longleftrightarrow> k \<notin> pairKey ` set (pairs_of cs)"
  by (induction "\<lambda>_::node. True" k cs rule: findPair.induct) auto

lemma pairs_of_append: "even (length cs) \<Longrightarrow> pairs_of (cs @ ds) = pairs_of cs @ pairs_of ds"
  by (induction cs rule: pairs_of.induct) auto

interpretation unique: entry_property uniqueKeys
proof
  fix n k x v t
  assume n: "uniqueKeys n"
  have upd: "fieldKeys (Node h (updPair k f (content n))) = fieldKeys n" for h f by (simp add: fieldKeys_def fieldKeys_updPair)
  show "uniqueKeys (fst (setMappingField n k x))"
    using n by (auto simp: uniqueKeys_def setMappingField_def upd is_mapping_def split: option.split)
  show "uniqueKeys (setMappingValue n k v)"
  proof (cases "findPair (\<lambda>_. True) k (content n)")
    case None
    then have "k \<notin> set (fieldKeys n)" by (simp add: findPair_None_iff fieldKeys_def)
    moreover have "fieldKeys (Node (hdr n) (content n @ [mkNode ScalarNode k ''!!str'', v])) = fieldKeys n @ [k]"
      using n by (simp add: fieldKeys_def uniqueKeys_def is_mapping_def pairs_of_append)
    ultimately show ?thesis using n None by (simp add: uniqueKeys_def setMappingValue_def is_mapping_def)
  next
    case (Some w)
    then show ?thesis using n by (simp add: uniqueKeys_def setMappingValue_def upd is_mapping_def)
  qed
next
  show "uniqueKeys (mkNode MappingNode [] t)" for t by (simp add: uniqueKeys_def is_mapping_def fieldKeys_def)
qed

text \<open>Where keys are unique, entries with the same fields read the same.\<close>

lemma findPair_unpairs: "findPair Q k (unpairs (pairs_of cs)) = findPair Q k cs"
  by (induction cs rule: pairs_of.induct) auto

lemma findPair_map_of:
  assumes "distinct (map pairKey ps)"
  shows "findPair Q k (unpairs ps) = (case map_of (map (\<lambda>kv. (pairKey kv, snd kv)) ps) k of
    Some v \<Rightarrow> if Q v then Some v else None | None \<Rightarrow> None)"
proof -
  have none: "k \<notin> pairKey ` set ps \<Longrightarrow> findPair Q k (unpairs ps) = None" for ps
    by (induction ps rule: unpairs.induct) auto
  show ?thesis using assms
  proof (induction ps rule: unpairs.induct)
    case (2 key v r)
    then show ?case using none [of r] by auto
  qed simp
qed

lemma findPair_perm:
  assumes "mset (pairs_of cs) = mset (pairs_of ds)" and "distinct (map pairKey (pairs_of ds))"
  shows "findPair Q k cs = findPair Q k ds"
proof -
  let ?al = "\<lambda>ps. map (\<lambda>kv. (pairKey kv, snd kv)) ps"
  have d: "distinct (map pairKey (pairs_of cs))" using assms by (metis mset_eq_imp_distinct_iff mset_map)
  have "set (?al (pairs_of cs)) = set (?al (pairs_of ds))" using mset_eq_setD [OF assms(1)] by simp
  then have "map_of (?al (pairs_of cs)) = map_of (?al (pairs_of ds))"
    using d assms(2) by (subst map_of_inject_set) (simp_all add: comp_def)
  then show ?thesis
    using findPair_map_of [OF d, of Q k] findPair_map_of [OF assms(2), of Q k] by (simp add: findPair_unpairs)
qed

lemma plain_reads:
  "getMappingField (plain n) k = getMappingField n k" "mappingMembers (plain n) k = mappingMembers n k"
  "fieldKeys (plain n) = fieldKeys n"
proof -
  have "findPair (\<lambda>v. nkind v = ScalarNode) k (map plain cs) = map_option plain (findPair (\<lambda>v. nkind v = ScalarNode) k cs)" for cs
    by (induction cs rule: pairs_of.induct) auto
  then show "getMappingField (plain n) k = getMappingField n k"
    by (simp add: getMappingField_def split: option.split)
  have "getMappingNode (plain n) k = map_option plain (getMappingNode n k)" by (rule getMappingNode_map) simp_all
  then show "mappingMembers (plain n) k = mappingMembers n k"
    by (simp add: mappingMembers_def filter_map comp_def split: option.split)
  show "fieldKeys (plain n) = fieldKeys n" by (simp add: fieldKeys_def pairs_of_map comp_def)
qed

lemma sameFields_reads:
  assumes "sameFields m n" and "uniqueKeys n"
  shows "getMappingField m k = getMappingField n k" and "mappingMembers m k = mappingMembers n k"
proof -
  have kind: "nkind (plain m) = nkind (plain n)" using assms(1) by (simp add: sameFields_def)
  have find: "findPair Q k (content (plain m)) = findPair Q k (content (plain n))" for Q
    by (rule findPair_perm) (use assms plain_reads(3) [of n] in \<open>simp_all add: sameFields_def uniqueKeys_def fieldKeys_def\<close>)
  have "getMappingField (plain m) k = getMappingField (plain n) k" "mappingMembers (plain m) k = mappingMembers (plain n) k"
    using kind find by (simp_all only: getMappingField_def mappingMembers_def getMappingNode_def)
  then show "getMappingField m k = getMappingField n k" "mappingMembers m k = mappingMembers n k" by (simp_all only: plain_reads)
qed

section \<open>The served document\<close>

definition uniqueInputs :: "unmarshaller \<Rightarrow> cacheReader \<Rightarrow> Pipeline \<Rightarrow> bool" where
  "uniqueInputs unmarshal get p \<longleftrightarrow>
     list_all (\<lambda>r. list_all uniqueKeys (cachedList unmarshal get ''proxies'' (row_Name r)) \<and>
        list_all uniqueKeys (cachedList unmarshal get ''proxy-groups'' (row_Name r))) (p_subscriptions p) \<and>
     list_all uniqueKeys (p_ownProxies p) \<and> list_all uniqueKeys (p_ownGroups p)"

lemma list_all2_reads:
  assumes "list_all2 sameFields ms ns" and "list_all uniqueKeys ns"
  shows "map node_name ms = map node_name ns" and "map members_of ms = map members_of ns"
  using assms by (induction rule: list_all2_induct) (auto simp: sameFields_reads)

text \<open>C3: the document a client parses.  Assume the cached payloads parse, their proxies and groups are
  named and no source lists a proxy name twice, no entry has a key twice, no source is called \<open>via\<close>,
  the names reserved for generated groups are not taken, the fallback has no comma and the template is
  a mapping.  Then a build succeeds, and its rendering is the encoding of a document (or the encoder's
  error on that document) in which the proxies have pairwise distinct names, every member of every
  group is a built-in target, the name of a proxy or group of that same document, or a member that
  dangled in its own source already, and the last rule is the \<open>MATCH\<close> rule of the configured
  fallback: merging, pruning and the reordering of fields for the wire together lose none of it.\<close>

theorem served_document:
  assumes "parseable unmarshal get (p_subscriptions p)" and "inputsOk unmarshal get p"
    and "uniqueInputs unmarshal get p" and "''via'' \<notin> set (map row_Name (p_subscriptions p))"
    and "CHR '','' \<notin> set (p_fallbackRuleTarget p)"
    and "unmarshal tmpl = Inr doc" and "is_mapping (docRoot doc)"
  shows "\<exists>mc st' out. Build ulower cvt unmarshal get get' ops p clk1 clk2 st = (Inr mc, st') \<and>
    Render unmarshal encode tmpl (Some mc) = (case encode out of Inl e \<Rightarrow> Inl (EncodeFailed e)
      | Inr bytes \<Rightarrow> Inr \<lparr>rd_Body = unescapeSupplementaryPlane bytes, rd_Headers = renderHeaders mc\<rparr>) \<and>
    (let proxies = entries (docRoot out) ''proxies''; groups = entries (docRoot out) ''proxy-groups''; rules = ruleLines (docRoot out) in
     distinct (map node_name proxies) \<and>
     list_all (\<lambda>g. set (members_of g) \<subseteq> builtinTargets \<union> node_name ` set proxies \<union> node_name ` set groups \<union>
       danglingMembers unmarshal get p) groups \<and>
     rules \<noteq> [] \<and> last rules = ''MATCH,'' @ p_fallbackRuleTarget p)"
proof -
  obtain mc st' where b: "Build ulower cvt unmarshal get get' ops p clk1 clk2 st = (Inr mc, st')"
    using Build_total [of ulower cvt unmarshal get get' ops p clk1 clk2 st] assms(1) by blast
  have "distinct (map row_Name (p_subscriptions p))" using assms(2) by (simp add: inputsOk_def)
  then have u: "list_all uniqueKeys (mc_Proxies mc)" "list_all uniqueKeys (mc_ProxyGroups mc)"
    using unique.served_have [OF b] assms(3) by (simp_all add: unique.inputsHave_def uniqueInputs_def)
  then have m: "list_all is_mapping (mc_Proxies mc)" "list_all is_mapping (mc_ProxyGroups mc)"
    by (auto simp: list_all_iff uniqueKeys_def)
  define out where "out = renderDoc mc doc"
  have out: "ruleLines (docRoot out) = mc_Rules mc" "list_all2 sameFields (entries (docRoot out) ''proxies'') (mc_Proxies mc)"
    "list_all2 sameFields (entries (docRoot out) ''proxy-groups'') (mc_ProxyGroups mc)"
    using renderDoc_document [OF assms(7) m] unfolding out_def by blast+
  note ps = list_all2_reads [OF out(2) u(1)] and gs = list_all2_reads [OF out(3) u(2)]
  have names: "node_name ` set (entries (docRoot out) ''proxies'') = node_name ` set (mc_Proxies mc)"
    "node_name ` set (entries (docRoot out) ''proxy-groups'') = node_name ` set (mc_ProxyGroups mc)"
    using arg_cong [OF ps(1), of set] arg_cong [OF gs(1), of set] by simp_all
  obtain sg where sg: "buildStages ulower unmarshal get p = Some sg"
    "mc_Proxies mc = sg_merged sg @ fst (AppendFanoutProxies (sg_own sg) (sg_groups sg) (p_proxiesGroupName p))"
    using Build_stages [OF b] by blast
  have "distinct (map node_name (mc_Proxies mc))" unfolding sg(2) by (rule served_names_distinct [OF sg(1) assms(2,4)])
  then have "distinct (map node_name (entries (docRoot out) ''proxies''))" unfolding ps(1) .
  moreover have "set (members_of g) \<subseteq> builtinTargets \<union> node_name ` set (entries (docRoot out) ''proxies'') \<union>
      node_name ` set (entries (docRoot out) ''proxy-groups'') \<union> danglingMembers unmarshal get p"
    if g: "g \<in> set (entries (docRoot out) ''proxy-groups'')" for g
  proof -
    have "members_of g \<in> set (map members_of (mc_ProxyGroups mc))" using g unfolding gs(2) [symmetric] by simp
    then obtain g' where g': "g' \<in> set (mc_ProxyGroups mc)" "members_of g = members_of g'" by auto
    show ?thesis using served_members [OF b assms(2) g'(1)] unfolding names g'(2) by (simp only: Un_ac)
  qed
  ultimately show ?thesis
    using b Render_mapping [where unmarshal = unmarshal and tmpl = tmpl and doc = doc and encode = encode and merged = mc, OF assms(6,7), folded out_def] Build_rules_eq [OF b assms(5)]
    by (intro exI [of _ mc] exI [of _ st'] exI [of _ out]) (simp add: list_all_iff out(1))
qed

end
