(* ===== verification/Witnesses_Live.thy ===== *)
theory Witnesses_Live
  imports Witnesses_Startup Startup_Log Live Lifecycle Build_Report Served_Document
begin

text \<open>
  Concrete instances of the theorems about the running server: the sample server of
  \<open>Witnesses_Startup\<close> is launched, boots from its disk cache and answers a request in flight; it is
  shut down; its build is logged.
\<close>

section \<open>The report of a build\<close>

lemma sample_fallback: "p_fallbackRuleTarget samplePipeline = ''auto''" "p_customRules samplePipeline = []"
  by (simp_all add: samplePipeline_def NewPipeline_def)

theorem served_rulesets_backed_witness:
  "\<exists>mc st'. Build id (\<lambda>_. 0) sampleUnmarshal sampleGet sampleGet None samplePipeline 0 0 () = (Inr mc, st') \<and>
     ruleProviderKeys (mc_RuleProviders mc) \<subseteq> ReferencedRuleProviders (mc_Rules mc)"
  using served_rulesets_backed [OF sample_parseable, of id "\<lambda>_. 0" sampleGet None 0 0 "()"] sample_fallback
  by (auto simp: knownRuleOptions_def)

theorem BuildLog_accounts_witness:
  "\<exists>mc st' sg fragments.
     Build id (\<lambda>_. 0) sampleUnmarshal sampleGet sampleGet None samplePipeline 0 0 () = (Inr mc, st') \<and>
     buildStages id sampleUnmarshal sampleGet samplePipeline = Some sg \<and>
     length (mc_Proxies mc) = length (p_ownProxies samplePipeline) +
       (\<Sum>s\<leftarrow>contributors sampleGet samplePipeline. length (cachedList sampleUnmarshal sampleGet ''proxies'' s)) +
       (length (p_ownProxies samplePipeline) -
          length (filter (\<lambda>n. getMappingField n ''dialer-proxy'' \<noteq> '''') (p_ownProxies samplePipeline))) *
       (1 + length (targetGroupNames (sg_groups sg))) \<and>
     set fragments = {x \<in> displayNames sampleUnmarshal sampleGet samplePipeline. inferCountry id x = None}"
proof -
  have c: "CHR '','' \<notin> set (p_fallbackRuleTarget samplePipeline)" by (simp add: sample_fallback)
  from BuildLog_accounts [OF sample_parseable sample_inputsOk c, of id "\<lambda>_. 0" sampleGet None 0 0 "()"]
  show ?thesis unfolding Let_def by (elim exE conjE) (intro exI conjI)
qed

section \<open>The served document\<close>

lemma sample_uniqueInputs: "uniqueInputs sampleUnmarshal sampleGet samplePipeline"
  by (simp add: uniqueInputs_def samplePipeline_def NewPipeline_def uniqueKeys_def is_mapping_def fieldKeys_def sampleProxy_def sampleGroup_def)

theorem served_document_witness:
  "\<exists>mc st' out. Build id (\<lambda>_. 0) sampleUnmarshal sampleGet sampleGet None samplePipeline 0 0 () = (Inr mc, st') \<and>
     Render sampleUnmarshal sampleEncode ''template'' (Some mc) = (case sampleEncode out of Inl e \<Rightarrow> Inl (EncodeFailed e)
       | Inr bytes \<Rightarrow> Inr \<lparr>rd_Body = unescapeSupplementaryPlane bytes, rd_Headers = renderHeaders mc\<rparr>) \<and>
     distinct (map node_name (entries (docRoot out) ''proxies'')) \<and> last (ruleLines (docRoot out)) = ''MATCH,'' @ ''auto''"
proof -
  obtain doc where doc: "sampleUnmarshal ''template'' = Inr doc" "is_mapping (docRoot doc)"
    by (auto simp: sampleUnmarshal_def sampleDoc_def docRoot_def is_mapping_def)
  have f: "p_fallbackRuleTarget samplePipeline = ''auto''" "CHR '','' \<notin> set (p_fallbackRuleTarget samplePipeline)"
    "''via'' \<notin> set (map row_Name (p_subscriptions samplePipeline))"
    by (simp_all add: samplePipeline_def NewPipeline_def)
  from served_document [where encode = sampleEncode, OF sample_parseable sample_inputsOk sample_uniqueInputs f(3,2) doc,
      of id "\<lambda>_. 0" sampleGet None 0 0 "()"]
  show ?thesis unfolding Let_def f(1) by (elim exE conjE) (intro exI conjI)
qed

section \<open>The log of a start\<close>

definition otherToken :: "string \<Rightarrow> string" where
  "otherToken s = (if s = [] then [] else CHR ''x'' # s)"

theorem startup_keeps_tokens_secret_witness:
  "startupLog 5 True (sampleWorld\<lparr>wd_decodeTokens := renamedFile otherToken sampleDecode\<rparr>) = startupLog 5 True sampleWorld \<and>
   (\<exists>srv. run (sampleWorld\<lparr>wd_decodeTokens := renamedFile otherToken sampleDecode\<rparr>) = Returns (Inr srv) \<and>
     map fst (ap_tokens (srv_app srv)) = [''xs3cret'', ''xold''])"
proof -
  have d: "wd_decodeTokens sampleWorld = sampleDecode" by (simp add: sampleWorld_def)
  have i: "inj otherToken" "otherToken [] = []" by (auto simp: otherToken_def inj_def)
  have "map fst (renamedStore otherToken (ap_tokens (srv_app sampleServer))) = [''xs3cret'', ''xold'']"
    by (simp add: sampleServer_def sampleStore_def renamedStore_def otherToken_def)
  then show ?thesis
    using startup_keeps_tokens_secret [OF i refl, of 5 True sampleWorld] sample_started unfolding d by auto
qed

section \<open>Running and shutting down\<close>

lemma sample_runs: "\<exists>s0. Run (srv_app sampleServer) = Returns s0 \<and> sv_cancelled s0 = False \<and> sv_active s0 = 0"
proof -
  obtain s0 where "Run (srv_app sampleServer) = Returns s0"
    using started_server_runs [OF sample_started sample_request(3)] by (auto simp: sampleServer_sel)
  then show ?thesis by (auto simp: Run_def Let_def split: if_splits)
qed

lemma serve_shutdown:
  assumes "sv_listener s0 = Launched" and "sv_runner s0 = Selecting" and "\<not> sv_inShutdown s0" and "sv_active s0 = 0"
  shows "\<exists>s. serve_run s0 [Listener, Listener, Outside, Runner, Runner] s \<and> sv_runner s = Done None \<and>
    sv_listener s = Accepting"
proof -
  let ?s1 = "s0\<lparr>sv_listener := Calling, sv_log := sv_log s0 @ [(LevelInfo, ''server listening'', [(''port'', LInt (sv_port s0))])]\<rparr>"
  let ?s2 = "?s1\<lparr>sv_listener := Accepting\<rparr>"
  let ?s3 = "?s2\<lparr>sv_cancelled := True\<rparr>"
  let ?s4 = "?s3\<lparr>sv_runner := Draining, sv_inShutdown := True,
      sv_log := sv_log ?s3 @ [(LevelInfo, ''shutdown signal received; draining HTTP server'', [])]\<rparr>"
  let ?s5 = "?s4\<lparr>sv_runner := Done None\<rparr>"
  have 1: "serve_run s0 [Listener] ?s1" using serve_run.move [OF serve_run.idle serve_step.announce [OF assms(1)]] by simp
  have 2: "serve_run s0 [Listener, Listener] ?s2"
    using serve_run.move [OF 1 serve_step.listen_ok [of ?s1]] assms(3) by simp
  have 3: "serve_run s0 [Listener, Listener, Outside] ?s3"
    using serve_run.move [OF 2 serve_step.cancel] by simp
  have 4: "serve_run s0 [Listener, Listener, Outside, Runner] ?s4"
    using serve_run.move [OF 3 serve_step.ctx_done [of ?s3]] assms(2) by simp
  have 5: "serve_run s0 [Listener, Listener, Outside, Runner, Runner] ?s5"
    using serve_run.move [OF 4 serve_step.drained [of ?s4]] assms(4) by simp
  have "sv_runner ?s5 = Done None" "sv_listener ?s5 = Accepting" by simp_all
  with 5 show ?thesis by blast
qed

lemma sample_shutdown:
  "\<exists>s0 s. Run (srv_app sampleServer) = Returns s0 \<and> serve_run s0 [Listener, Listener, Outside, Runner, Runner] s \<and> sv_runner s = Done None \<and>
    sv_listener s = Accepting"
proof -
  obtain s0 where s0: "Run (srv_app sampleServer) = Returns s0" "sv_active s0 = 0" using sample_runs by blast
  note init = Run_initial [OF s0(1)]
  then have "\<not> sv_inShutdown s0" by (simp add: serve_inv_def)
  then show ?thesis using serve_shutdown [of s0] s0 init by blast
qed

theorem Run_result_witness:
  "\<exists>s0 as s. Run (srv_app sampleServer) = Returns s0 \<and> serve_run s0 as s \<and> sv_runner s = Done None \<and>
     sv_cancelled s \<and> sv_inShutdown s \<and> sv_active s = 0"
proof -
  obtain s0 s where s: "Run (srv_app sampleServer) = Returns s0" "serve_run s0 [Listener, Listener, Outside, Runner, Runner] s" "sv_runner s = Done None"
    "sv_listener s = Accepting" using sample_shutdown by blast
  show ?thesis using Run_result [OF s(1-3)] s by auto
qed

theorem Run_returns_witness:
  "\<exists>s0 s s'. Run (srv_app sampleServer) = Returns s0 \<and> serve_run s0 [Listener, Listener, Outside, Runner, Runner] s \<and> serve_step Listener s s'"
proof -
  obtain s0 s where s: "Run (srv_app sampleServer) = Returns s0" "serve_run s0 [Listener, Listener, Outside, Runner, Runner] s" "sv_runner s = Done None"
    "sv_listener s = Accepting" using sample_shutdown by blast
  have inv: "serve_inv s" using serve_run_inv [OF s(2)] Run_initial [OF s(1)] by simp
  show ?thesis using Run_returns [OF s(1,2)] s inv by (auto simp: serve_inv_def)
qed

section \<open>Requests in flight\<close>

definition sampleDisk :: Disk where
  "sampleDisk = \<lparr>dk_entry = Map.empty, dk_data = (\<lambda>_. Empty), dk_next = 0\<rparr>"

lemma sampleDisk_ok: "disk_ok sampleDisk"
  by (simp add: sampleDisk_def disk_ok_def)

definition launched :: Live where
  "launched = Launch sampleServer sampleDisk"

definition bootedLive :: Live where
  "bootedLive = launched\<lparr>lv_sys := bootedSystem sampleRow sampleStartCo\<rparr>"

lemma sample_watched:
  "wd_decodeTokens sampleWorld = sampleDecode" "wd_watchedFile sampleWorld = Inr ''json''" "wd_tokensFile sampleWorld = Inr ''json''"
  "lv_watch launched = Watch (Inr ''json'') sampleStore" "lv_flights launched = []"
  "lv_watch bootedLive = Watch (Inr ''json'') sampleStore" "lv_flights bootedLive = []"
  "lv_sys bootedLive = bootedSystem sampleRow sampleStartCo"
  by (simp_all add: sampleWorld_def launched_def bootedLive_def Launch_def sampleServer_def assemble_def Let_def)

lemma sched_live:
  assumes "sched_run (srv_deps srv) (lv_sys s) bs sys" and "\<And>w. permitted w w"
  shows "live_run srv decode wantBase permitted s (s\<lparr>lv_sys := sys\<rparr>)"
  using assms(1)
proof (induction rule: sched_run.induct)
  case start
  then show ?case by (simp add: live_run_def)
next
  case (step bs s1 b s2)
  have "live_step srv decode wantBase (s\<lparr>lv_sys := s1\<rparr>) (s\<lparr>lv_sys := s2\<rparr>)"
    using live_step.schedule [of srv "s\<lparr>lv_sys := s1\<rparr>" b s2] step(2) by simp
  then show ?case using step.IH assms(2) unfolding live_run_def by (auto intro: rtranclp.rtrancl_into_rtrancl)
qed

lemma sample_booted_live:
  assumes "\<And>w. permitted w w"
  shows "live_run sampleServer sampleDecode wantBase permitted launched bootedLive"
  unfolding bootedLive_def
  by (rule sched_live [OF _ assms]) (use sample_run_booted in \<open>simp add: launched_def Launch_def\<close>)

text \<open>A request that arrives at an idle server, is looked up at instant 5 and runs to its end.\<close>

lemma one_flight:
  assumes "\<And>w. permitted w w" and "lv_flights s = []"
  shows "\<exists>s' fl. live_run srv decode wantBase permitted s s' \<and> lv_flights s' = [fl] \<and> fl_req fl = r \<and>
    fl_auth fl = Some (w_store (lv_watch s), 5) \<and> fl_out fl \<noteq> None \<and> flight_ok (srv_app srv) fl"
proof -
  let ?f = "(NewFlight r)\<lparr>fl_auth := Some (w_store (lv_watch s), 5)\<rparr>"
  let ?s1 = "s\<lparr>lv_flights := [NewFlight r]\<rparr>" and ?s2 = "s\<lparr>lv_flights := [?f]\<rparr>"
  have auth: "flight_step (srv_app srv) ?s1 (NewFlight r) ?f (lv_disk s)"
    using flight_step.authenticate [of "NewFlight r" "srv_app srv" ?s1 5] by (simp add: NewFlight_def)
  have "live_step srv decode wantBase s ?s1" using live_step.arrive [of srv decode wantBase s r] assms(2) by simp
  moreover have "live_step srv decode wantBase ?s1 ?s2"
    using live_step.fly [of 0 ?s1 srv ?f "lv_disk s"] auth by simp
  moreover have "permitted (lv_watch s) (lv_watch ?s1)" "permitted (lv_watch ?s1) (lv_watch ?s2)" using assms(1) by simp_all
  ultimately have two: "live_run srv decode wantBase permitted s ?s2"
    unfolding live_run_def by (intro converse_rtranclp_into_rtranclp [OF _ r_into_rtranclp]) blast+
  have ok: "flight_ok (srv_app srv) (lv_flights ?s2 ! 0)" using flight_ok_step [OF auth NewFlight_ok] by simp
  obtain s' where s': "live_run srv decode wantBase permitted ?s2 s'" "length (lv_flights s') = 1"
    "fl_req (lv_flights s' ! 0) = r" "fl_auth (lv_flights s' ! 0) = Some (w_store (lv_watch s), 5)" "fl_out (lv_flights s' ! 0) \<noteq> None"
    "flight_ok (srv_app srv) (lv_flights s' ! 0)"
    using complete_flight [where permitted = permitted and decode = decode and wantBase = wantBase, OF assms(1) ok] by (auto simp: NewFlight_def)
  have "lv_flights s' = [lv_flights s' ! 0]" using s'(2) by (cases "lv_flights s'") auto
  then show ?thesis using live_run_trans [OF two s'(1)] s'(3-6) by metis
qed

lemma sample_flight:
  assumes "\<And>w. permitted w w" and "lv_flights s = []" and "w_store (lv_watch s) = sampleStore"
  obtains s' fl resp new where "live_run sampleServer sampleDecode wantBase permitted s s'" and "lv_flights s' = [fl]"
    and "fl_req fl = r" and "fl_auth fl = Some (sampleStore, 5)" and "fl_out fl = Some (resp, new)" and "fl_loaded fl \<noteq> None"
proof -
  obtain s' fl where s': "live_run sampleServer sampleDecode wantBase permitted s s'" "lv_flights s' = [fl]"
      "fl_req fl = r" "fl_auth fl = Some (sampleStore, 5)" "fl_out fl \<noteq> None" "flight_ok (srv_app sampleServer) fl"
    using one_flight [where permitted = permitted and srv = sampleServer and decode = sampleDecode and wantBase = wantBase and r = r, OF assms(1,2)] assms(3) by auto
  obtain resp new where "fl_out fl = Some (resp, new)" using s'(5) by auto
  moreover then have "fl_loaded fl \<noteq> None" using s'(6) by (auto simp: flight_ok_def)
  ultimately show thesis using that s' by blast
qed

lemma sample_store: "w_store (lv_watch launched) = sampleStore" "w_store (lv_watch bootedLive) = sampleStore"
  by (simp_all add: sample_watched Watch_def)

lemma sample_prefix: "list_all (\<lambda>c. c \<notin> {CHR ''{'', CHR ''}'', CHR ''%''}) (cfg_URLPathPrefix (ap_cfg (srv_app sampleServer)))"
  by (simp add: sampleServer_sel)

lemma anyStep_refl: "anyStep w w"
  by (simp add: anyStep_def)

lemma sample_level: "levelOf (sy_co (bootedSystem sampleRow sampleStartCo)) = Open"
  using sample_all by (simp add: levelOf_def)

lemma sample_boot_any: "live_run sampleServer (wd_decodeTokens sampleWorld) ''tokens.json'' anyStep (Launch sampleServer sampleDisk) bootedLive"
  using sample_booted_live [where permitted = anyStep, OF anyStep_refl] by (simp add: sample_watched launched_def)

lemma sample_facts:
  assumes "live_run sampleServer sampleDecode ''tokens.json'' anyStep bootedLive s'" and "lv_flights s' = [fl]"
    and "fl_auth fl = Some (sampleStore, 5)" and "fl_req fl = sampleRequest"
  shows "\<And>merged. rp_Status (case Render (wd_unmarshal sampleWorld) (wd_encode sampleWorld) ''template'' (Some merged) of
        Inl _ \<Rightarrow> http_Error ''internal server error'' 500
      | Inr rendered \<Rightarrow> \<lparr>rp_Status = 200, rp_Headers = rd_Headers rendered, rp_Body = rd_Body rendered\<rparr>) = 200"
    and "live_run sampleServer (wd_decodeTokens sampleWorld) ''tokens.json'' anyStep (Launch sampleServer sampleDisk) bootedLive"
    and "levelOf (sy_co (lv_sys bootedLive)) = Open"
    and "live_run sampleServer (wd_decodeTokens sampleWorld) ''tokens.json'' anyStep bootedLive s'"
    and "length (lv_flights bootedLive) \<le> 0" and "0 < length (lv_flights s')" and "fl = lv_flights s' ! 0"
    and "authorised (srv_app sampleServer\<lparr>ap_tokens := fst (the (fl_auth fl))\<rparr>) (snd (the (fl_auth fl))) (fl_req fl)"
proof -
  fix merged
  obtain doc where doc: "sampleUnmarshal ''template'' = Inr doc" by (simp add: sampleUnmarshal_def)
  obtain bytes where "wd_encode sampleWorld (renderDoc merged doc) = Inr bytes" using sample_world(3) by blast
  then show "rp_Status (case Render (wd_unmarshal sampleWorld) (wd_encode sampleWorld) ''template'' (Some merged) of
        Inl _ \<Rightarrow> http_Error ''internal server error'' 500
      | Inr rendered \<Rightarrow> \<lparr>rp_Status = 200, rp_Headers = rd_Headers rendered, rp_Body = rd_Body rendered\<rparr>) = 200"
    using doc sample_template [OF doc] by (simp add: Render_def sample_world(2))
next
  show "authorised (srv_app sampleServer\<lparr>ap_tokens := fst (the (fl_auth fl))\<rparr>) (snd (the (fl_auth fl))) (fl_req fl)"
    using sample_authorised unfolding assms by (simp add: authorised_def sampleServer_def)
qed (use assms sample_boot_any in \<open>simp_all add: sample_watched sample_level\<close>)

text \<open>The sample request in flight, from the booted server to its answer.\<close>

lemma sample_answered:
  obtains s' fl resp new where "live_run sampleServer sampleDecode ''tokens.json'' anyStep bootedLive s'" and "lv_flights s' = [fl]"
    and "fl_req fl = sampleRequest" and "fl_auth fl = Some (sampleStore, 5)" and "fl_out fl = Some (resp, new)" and "rp_Status resp = 200"
proof -
  obtain s' fl resp new where f: "live_run sampleServer sampleDecode ''tokens.json'' anyStep bootedLive s'" "lv_flights s' = [fl]"
      "fl_req fl = sampleRequest" "fl_auth fl = Some (sampleStore, 5)" "fl_out fl = Some (resp, new)"
    by (rule sample_flight [where permitted = anyStep and r = sampleRequest, OF anyStep_refl _ sample_store(2)]) (simp_all add: sample_watched)
  note facts = sample_facts [OF f(1,2,4,3)]
  have "rp_Status resp = 200"
    using open_flight_served [OF sample_started sample_prefix sample_world(1) facts(2-7) f(5) facts(8)] sample_request facts(1)
    unfolding f(3) by auto
  then show thesis using that f by blast
qed

theorem service_level_refined_witness:
  "levelOf (sy_co (Start sampleStartCo)) \<le> Open \<and>
   rp_Status (fst (Subscription (ap_deps (srv_app sampleServer)) sampleLooks sampleRequest (\<lambda>_. Missing))) \<in> {200, 500}"
proof -
  let ?s = "bootedSystem sampleRow sampleStartCo"
  have boot: "sched_run (srv_deps sampleServer) (Start sampleStartCo) [True, True, True, True] ?s" by (rule sample_booted)
  have start: "sched_run (srv_deps sampleServer) (Start sampleStartCo) [] (Start sampleStartCo)" by (rule sched_run.start)
  note co = sampleStartCo_def
  show ?thesis
    using service_level_refined [OF start [unfolded co] boot [unfolded co] sched_run.start sampleLooks_sel(1,2) [unfolded co], folded co,
        of "ap_deps (srv_app sampleServer)" sampleRequest "\<lambda>_. Missing" "\<lambda>_. None" "\<lambda>_. 0" samplePipeline "\<lambda>_. 0" sampleRequest "()"]
    by (simp add: sample_level Let_def)
qed

theorem live_answers_authorised_witness:
  "\<exists>s fl store tm. live_run sampleServer sampleDecode ''tokens.json'' anyStep (Launch sampleServer sampleDisk) s \<and> fl \<in> set (lv_flights s) \<and>
     fl_auth fl = Some (store, tm) \<and> Lookup tm store ''s3cret'' \<noteq> None"
proof -
  obtain s fl resp new where f: "live_run sampleServer sampleDecode ''tokens.json'' anyStep bootedLive s" "lv_flights s = [fl]"
      "fl_req fl = sampleRequest" "fl_out fl = Some (resp, new)" "rp_Status resp = 200"
    by (rule sample_answered)
  have run: "live_run sampleServer sampleDecode ''tokens.json'' anyStep (Launch sampleServer sampleDisk) s"
    using live_run_trans [OF sample_booted_live [where permitted = anyStep, OF anyStep_refl] f(1)] by (simp add: launched_def)
  have fl: "fl \<in> set (lv_flights s)" "rq_Path (fl_req fl) \<noteq> ''/health''" "rp_Status resp = 200 \<or> new \<noteq> None"
    using f sample_request(2) by simp_all
  have tok: "rq_Query (fl_req fl) ''token'' = ''s3cret''" by (simp add: f(3) sampleRequest_def)
  show ?thesis
    using live_answers_authorised [OF sample_started sample_prefix _ fl(1) f(4) fl(2,3), of "''tokens.json''" sampleDisk] run fl(1)
    unfolding sample_watched tok by blast
qed

theorem live_open_serves_witness:
  "\<exists>s fl resp new. live_run sampleServer sampleDecode ''tokens.json'' anyStep bootedLive s \<and> lv_flights s = [fl] \<and>
     fl_out fl = Some (resp, new) \<and> rp_Status resp = 200"
proof -
  obtain s' fl resp new where f: "live_run sampleServer sampleDecode ''tokens.json'' anyStep bootedLive s'" "lv_flights s' = [fl]"
      "fl_req fl = sampleRequest" "fl_auth fl = Some (sampleStore, 5)" "fl_out fl = Some (resp, new)"
    by (rule sample_answered)
  note facts = sample_facts [OF f(1,2,4,3)]
  show ?thesis
    using live_open_serves [OF sample_started sample_prefix sample_world(1) facts(2-7) f(5) facts(8)] sample_request facts(1) f
    unfolding f(3) by auto
qed


theorem live_snapshots_genuine_witness:
  "\<exists>s fl l. live_run sampleServer sampleDecode ''tokens.json'' anyStep (Launch sampleServer sampleDisk) s \<and> fl \<in> set (lv_flights s) \<and>
     fl_loaded fl = Some l \<and> (l = Inr None \<or> (\<exists>snap fl' resp. l = Inr (Some snap) \<and> fl' \<in> set (lv_flights s) \<and> fl_out fl' = Some (resp, Some snap)))"
proof -
  obtain s fl where f: "live_run sampleServer sampleDecode ''tokens.json'' anyStep launched s" "lv_flights s = [fl]" "fl_loaded fl \<noteq> None"
    by (rule sample_flight [where permitted = anyStep and r = sampleRequest, OF anyStep_refl _ sample_store(1)]) (simp_all add: sample_watched)
  obtain l where l: "fl_loaded fl = Some l" using f(3) by blast
  have run: "live_run sampleServer sampleDecode ''tokens.json'' anyStep (Launch sampleServer sampleDisk) s" using f(1) by (simp add: launched_def)
  have fl: "fl \<in> set (lv_flights s)" using f(2) by simp
  have "FileLoad path (view sampleDisk) = Inr None" for path by (simp add: FileLoad_def view_def sampleDisk_def)
  then show ?thesis using live_snapshots_genuine [OF sampleDisk_ok run fl l] run fl l by (intro exI [of _ s] exI [of _ fl] exI [of _ l]) auto
qed

theorem flight_alone_witness:
  "\<exists>fl. fl_req fl = sampleRequest \<and>
    outcome (ServeHTTP (buildMux (srv_app sampleServer) 5 (\<lambda>_. 0) (flightLooks sampleLooks fl)) sampleRequest (\<lambda>_. Missing)) =
    (case answer (srv_app sampleServer) (\<lambda>_. 0) sampleLooks fl of
       (resp, new) \<Rightarrow> (resp, replay (FileSave (snapshotPath (srv_app sampleServer)) None) new (\<lambda>_. Missing)))"
proof -
  let ?a = "srv_app sampleServer"
  let ?fl = "(NewFlight sampleRequest)\<lparr>fl_auth := Some (ap_tokens ?a, 5), fl_loaded := Some (FileLoad (snapshotPath ?a) (\<lambda>_. Missing))\<rparr>"
  have snap: "sd_snapshotter (ap_deps ?a) = Some (FileLoad (snapshotPath ?a), FileSave (snapshotPath ?a) None)"
    by (simp add: snapshotPath_def sampleServer_def assemble_def sampleWorld_def NewApp_def WithSnapshotter_def NewFileSnapshotter_def Let_def)
  have fl: "fl_req ?fl = sampleRequest" "fl_auth ?fl = Some (ap_tokens ?a, 5)" "fl_loaded ?fl = Some (FileLoad (snapshotPath ?a) (\<lambda>_. Missing))"
    by (simp_all add: NewFlight_def)
  show ?thesis using flight_alone [OF sample_request(3,2) snap fl, of "\<lambda>_. 0" sampleLooks] fl(1) by blast
qed

section \<open>Saves\<close>

definition sampleSnapshot :: Snapshot where
  "sampleSnapshot = \<lparr>sn_LocalDate = ''2024-01-01'', sn_SnapshotUnix = 1704067200, sn_AllowanceTodayBytes = 1000,
     sn_Baselines = [(''alpha'', 10)], sn_BaselineUploadRatios = [(''alpha'', 0)]\<rparr>"

lemma sample_save:
  "\<exists>d'. (save_step ''today.json'' s)\<^sup>*\<^sup>* (Opening, sampleDisk) (Finished None, d')"
proof -
  let ?p = "''today.json''" and ?dk = "\<lambda>x. \<lparr>dk_entry = [tmpOf ''today.json'' \<mapsto> 0], dk_data = (\<lambda>_. Empty)(0 := x), dk_next = 1\<rparr>"
  note next_step = converse_rtranclp_into_rtranclp [where r = "save_step ?p s"]
  have 1: "save_step ?p s (Opening, sampleDisk) (Writing 0, ?dk Empty)"
    using save_step.open_new [of sampleDisk ?p s] by (simp add: sampleDisk_def)
  have 2: "save_step ?p s (Writing 0, ?dk Empty) (Syncing, ?dk (Holds (Encoded s)))"
    using save_step.encode [of ?p s 0 "?dk Empty"] by simp
  have 3: "save_step ?p s (Renaming, ?dk (Holds (Encoded s)))
      (Finished None, (?dk (Holds (Encoded s)))\<lparr>dk_entry := [tmpOf ?p \<mapsto> 0](?p \<mapsto> 0, tmpOf ?p := None)\<rparr>)"
    using save_step.rename [of "?dk (Holds (Encoded s))" ?p 0 s] by simp
  show ?thesis
    by (rule exI, rule next_step [OF 1], rule next_step [OF 2], rule next_step [OF save_step.sync], rule next_step [OF save_step.close],
        rule next_step [OF 3], rule rtranclp.rtrancl_refl)
qed

theorem lone_save_atomic_witness:
  "\<exists>n d'. (save_step ''today.json'' sampleSnapshot ^^ n) (Opening, sampleDisk) (Finished None, d') \<and> n \<le> 6 \<and>
     view d' ''today.json'' = File (Encoded sampleSnapshot)"
proof -
  obtain d' where "(save_step ''today.json'' sampleSnapshot)\<^sup>*\<^sup>* (Opening, sampleDisk) (Finished None, d')" using sample_save by blast
  then obtain n where n: "(save_step ''today.json'' sampleSnapshot ^^ n) (Opening, sampleDisk) (Finished None, d')"
    using rtranclp_imp_relpowp by fast
  show ?thesis using lone_save_atomic [OF sampleDisk_ok n, of "''today.json''"] n by (auto simp: FileSave_elsewhere)
qed

end
