(* ===== verification/Clock.thy ===== *)
theory Clock
  imports Go_Time
begin

text \<open>
  \<open>internal/clock/clock.go\<close>: the interface \<open>Clock\<close> and its two implementations.

  A clock is read with \<open>Now\<close>; what the rest of the server may rely on is the locale \<open>clock\<close>: as long
  as the clock only moves by \<open>tick\<close>, readings do not decrease.  \<open>RealClock\<close> returns what the system
  reports, which elsewhere in the development is a reading chosen freely.  \<open>FakeClock\<close> holds its time
  under a lock, so each of its operations is one step, and goroutines that share it make their
  operations in some order.
\<close>

section \<open>The fake clock\<close>

record FakeClock =
  fc_now :: time

definition NewFakeClock :: "time \<Rightarrow> FakeClock" where
  "NewFakeClock t = \<lparr>fc_now = t\<rparr>"

definition Now :: "FakeClock \<Rightarrow> time" where
  "Now c = fc_now c"

definition Advance :: "int \<Rightarrow> FakeClock \<Rightarrow> FakeClock" where
  "Advance d c = c\<lparr>fc_now := fc_now c + d\<rparr>"

definition SetClock :: "time \<Rightarrow> FakeClock \<Rightarrow> FakeClock" where
  "SetClock t c = c\<lparr>fc_now := t\<rparr>"

section \<open>The real clock\<close>

text \<open>The system's time is an argument.\<close>

definition RealClockNow :: "time \<Rightarrow> time" where
  "RealClockNow system = system"

section \<open>Sharing a clock\<close>

datatype clockOp = ReadNow | AdvanceBy int | SetTo time

fun clockStep :: "clockOp \<Rightarrow> FakeClock \<times> time list \<Rightarrow> FakeClock \<times> time list" where
  "clockStep ReadNow (c, seen) = (c, seen @ [Now c])"
| "clockStep (AdvanceBy d) (c, seen) = (Advance d c, seen)"
| "clockStep (SetTo t) (c, seen) = (SetClock t c, seen)"

definition runClock :: "clockOp list \<Rightarrow> FakeClock \<Rightarrow> FakeClock \<times> time list" where
  "runClock ops c = fold clockStep ops (c, [])"

locale clock =
  fixes now :: "'s \<Rightarrow> time" and tick :: "'s \<Rightarrow> 's \<Rightarrow> bool"
  assumes tick_forward: "tick s s' \<Longrightarrow> now s \<le> now s'"
begin

lemma run_forward: "tick\<^sup>*\<^sup>* s s' \<Longrightarrow> now s \<le> now s'"
  by (induction rule: rtranclp_induct) (auto dest: tick_forward)

text \<open>Readings taken along a run are in order.\<close>

lemma readings_sorted:
  assumes "\<And>i. Suc i < length ss \<Longrightarrow> tick\<^sup>*\<^sup>* (ss ! i) (ss ! Suc i)"
  shows "sorted (map now ss)"
  using assms by (simp add: sorted_iff_nth_Suc run_forward)

end

fun forwardOp :: "clockOp \<Rightarrow> bool" where
  "forwardOp ReadNow = True"
| "forwardOp (AdvanceBy d) = (0 \<le> d)"
| "forwardOp (SetTo t) = False"

definition tickFake :: "FakeClock \<times> time list \<Rightarrow> FakeClock \<times> time list \<Rightarrow> bool" where
  "tickFake x y \<longleftrightarrow> (\<exists>oper. forwardOp oper \<and> y = clockStep oper x)"

interpretation fake: clock "Now \<circ> fst" tickFake
proof
  fix x y
  assume "tickFake x y"
  then obtain oper where "forwardOp oper" "y = clockStep oper x" by (auto simp: tickFake_def)
  then show "(Now \<circ> fst) x \<le> (Now \<circ> fst) y"
    by (cases x; cases oper) (simp_all add: Now_def Advance_def)
qed

fun shift :: "clockOp \<Rightarrow> int" where
  "shift (AdvanceBy d) = d"
| "shift _ = 0"

fun isSet :: "clockOp \<Rightarrow> bool" where
  "isSet (SetTo t) = True"
| "isSet _ = False"

lemma run_time:
  "list_all (\<lambda>oper. \<not> isSet oper) ops \<Longrightarrow> Now (fst (fold clockStep ops (c, seen))) = Now c + sum_list (map shift ops)"
proof (induction ops arbitrary: c seen)
  case (Cons oper ops)
  then show ?case by (cases oper) (simp_all add: Now_def Advance_def)
qed simp

text \<open>Goroutines that only read and advance a shared clock leave the same time behind in whatever order
  their operations come.\<close>

theorem fake_clock_shared:
  assumes "mset ops = mset ops'" and "list_all (\<lambda>oper. \<not> isSet oper) ops"
  shows "Now (fst (runClock ops c)) = Now (fst (runClock ops' c))"
proof -
  have "list_all (\<lambda>oper. \<not> isSet oper) ops'" using assms by (metis list_all_iff mset_eq_setD)
  moreover have "sum_list (map shift ops) = sum_list (map shift ops')"
    by (metis assms(1) mset_map sum_mset_sum_list)
  ultimately show ?thesis using assms(2) by (simp add: runClock_def run_time)
qed

text \<open>When it is only advanced forwards, readings are in order and lie between the first time and the last.\<close>

lemma readings_between:
  assumes "list_all forwardOp ops"
  shows "let (c', seen) = runClock ops c in sorted seen \<and> (\<forall>t\<in>set seen. Now c \<le> t \<and> t \<le> Now c')"
proof -
  have "sorted seen' \<and> (\<forall>t\<in>set seen'. Now c \<le> t \<and> t \<le> Now c') \<and> Now c1 \<le> Now c'"
    if "fold clockStep ops (c1, seen) = (c', seen')" "sorted seen" "\<forall>t\<in>set seen. Now c \<le> t \<and> t \<le> Now c1" "Now c \<le> Now c1"
      "list_all forwardOp ops" for c1 seen c' seen' ops
    using that
  proof (induction ops arbitrary: c1 seen)
    case (Cons oper ops)
    then show ?case
    proof (cases oper)
      case ReadNow
      then show ?thesis using Cons.prems by (intro Cons.IH [of c1 "seen @ [Now c1]"]) (auto simp: sorted_append)
    next
      case (AdvanceBy d)
      have le: "Now c1 \<le> Now (Advance d c1)" using Cons.prems(5) AdvanceBy by (simp add: Now_def Advance_def)
      have "sorted seen' \<and> (\<forall>t\<in>set seen'. Now c \<le> t \<and> t \<le> Now c') \<and> Now (Advance d c1) \<le> Now c'"
        using Cons.prems AdvanceBy le by (intro Cons.IH) auto
      then show ?thesis using le by auto
    qed simp
  qed auto
  from this [of ops c "[]"] show ?thesis using assms by (auto simp: runClock_def split: prod.split)
qed

end
