(* ===== verification/Spec2Isabelle.thy ===== *)
theory Spec2Isabelle
  imports Witnesses_Live Clock
begin

text \<open>
  \<^bold>\<open>The honkai rule server: a verification development.\<close>

  The server (\<open>src/\<close>) fetches several Mihomo/Clash subscriptions in the background, keeps the
  last good payload of each in a cache, and answers a client request with one merged
  configuration: own proxies, the proxies, groups and rules of every source under its own name
  prefix, groups generated per country and continent, own proxies fanned out over those groups,
  custom rules, and a traffic header derived from the sources' quotas.

  \<^bold>\<open>How the parts interact.\<close>  \<open>cmd/server/main.go\<close> (\<open>run\<close>) reads the environment
  (\<open>config/server.go\<close>) and the operator's files (\<open>config/subscriptions.go\<close>, \<open>config/tokens.go\<close>,
  \<open>config/own_proxies.go\<close>, \<open>customrules/\<close>), rehydrates the cache from disk (\<open>fetcher/cache.go\<close>) and
  starts the coordinator (\<open>fetcher/scheduler.go\<close>): one goroutine per enabled source that makes its
  bootstrap attempts and then refreshes on a ticker.  A refresh goes through the cache, which fetches
  (\<open>fetcher/http.go\<close>, \<open>fetcher/headers.go\<close>) when its entry is stale.  A request passes the mux and
  the two middlewares (\<open>server/app.go\<close>, \<open>auth/\<close>); the subscription handler (\<open>server/routes/\<close>) checks
  the coordinator, calls \<open>merge/pipeline.go\<close> (\<open>Build\<close>), which reads the cache and calls the passes of
  \<open>merge/\<close> in order (namespacing, dropping of unbacked \<open>RULE-SET\<close> rules, merge of proxies, groups
  and rules, selector, region and continent groups, fan-out, traffic header with the snapshot store
  of \<open>dailyspend/\<close>, pruning of empty groups, rule providers), and renders the result
  (\<open>output/subscription_mode.go\<close>).  Meanwhile the token file is watched and reloaded, and a signal
  ends \<open>App.Run\<close> through a graceful shutdown.

  \<^bold>\<open>Theories and sources.\<close>
  \<^item> \<open>Prelude\<close>: 64-bit integers, the string functions of Go, ordered unions, the locales
    \<open>slice_sorter\<close> and \<open>stable_sorter\<close> for \<open>sort.Slice\<close> and \<open>sort.SliceStable\<close>, and
    \<open>named_entries\<close> for renaming passes.
  \<^item> \<open>Yaml_Node\<close>: \<open>yaml.Node\<close> and \<open>merge/yamlutil.go\<close>.
  \<^item> \<open>Namespace\<close>, \<open>Merge_Proxies\<close>, \<open>Proxy_Groups\<close>, \<open>Merge_Rules\<close>, \<open>Ruleset\<close>, \<open>Prune\<close>,
    \<open>Fanout\<close>, \<open>Region_Table\<close>, \<open>Region\<close>, \<open>Traffic\<close>: the files of \<open>merge/\<close> with those names
    (\<open>namespace.go\<close>, \<open>proxies.go\<close>, \<open>proxy_groups.go\<close>, \<open>rules.go\<close>, \<open>ruleset.go\<close>, \<open>prune.go\<close>,
    \<open>fanout.go\<close>, \<open>region_table.go\<close>, \<open>region.go\<close>, \<open>traffic.go\<close>).
  \<^item> \<open>Go_Text\<close> (UTF-8, \<open>strings\<close>, \<open>strconv\<close>), \<open>Go_Float\<close> (float64 as rationals with explicit
    round-to-even), \<open>Go_Time\<close> (calendar and locations): what the sources use of Go's library.
  \<^item> \<open>Subscriptions\<close> (\<open>config/subscriptions.go\<close>), \<open>Custom_Rules\<close> (\<open>customrules/\<close>), \<open>Headers\<close>
    (\<open>fetcher/headers.go\<close>), \<open>Fetcher\<close> (\<open>fetcher/http.go\<close>), \<open>Daily_Spend\<close>
    (\<open>dailyspend/snapshot.go\<close>), \<open>Pipeline\<close> (\<open>merge/pipeline.go\<close>).
  \<^item> \<open>Output\<close> (\<open>output/subscription_mode.go\<close>), \<open>Cache\<close> (\<open>fetcher/cache.go\<close>), \<open>Scheduler\<close>
    (\<open>fetcher/scheduler.go\<close>: the methods as functions on the coordinator, the goroutines as threads
    of the step relations \<open>thread_step\<close> and \<open>sched_step\<close>), \<open>Token_Store\<close> (\<open>config/tokens.go\<close>, the
    watcher as \<open>watch_step\<close>), \<open>Auth\<close> (\<open>auth/\<close> and \<open>SanitizeToken\<close>), \<open>Server_Config\<close>
    (\<open>config/server.go\<close>), \<open>Own_Proxies\<close> (\<open>config/own_proxies.go\<close>), \<open>Routes\<close> (\<open>server/routes/\<close>,
    \<open>NewApp\<close> and \<open>buildMux\<close>), \<open>Startup\<close> and \<open>Startup_Log\<close> (\<open>cmd/server/main.go\<close>: \<open>run\<close> and the lines it
    logs), \<open>Logging\<close> (\<open>observability/logger.go\<close>), \<open>Clock\<close> (\<open>clock/clock.go\<close>).
  \<^item> \<open>Lifecycle\<close>: \<open>App.Run\<close> and its listener goroutine as the step relation \<open>serve_step\<close>, and \<open>main\<close>.
  \<^item> \<open>Snapshot_Saves\<close>: \<open>FileSnapshotter.Save\<close> system call by system call (\<open>save_step\<close>), on a disk with
    names and inodes, for one caller and for several at once.
  \<^item> \<open>Live\<close>: the running server, \<open>live_step\<close>: the scheduler of \<open>Scheduler\<close>, the watcher of
    \<open>Token_Store\<close> and any number of requests in flight, interleaved.  A flight makes each of its readings
    (token store, ready channel, \<open>AllSucceeded\<close>, the cache per source, the snapshot) and each system call
    of its save in a step of its own; its answer is what the handlers of \<open>Routes\<close> compute from them.
  \<^item> \<open>Served_Config\<close>, \<open>Build_Report\<close> and \<open>Served_Document\<close>: the component results carried through
    \<open>Build\<close>, to the merged configuration, to what is logged, and through \<open>Render\<close> to the document; \<open>Witnesses\<close>, \<open>Witnesses_Serving\<close>, \<open>Witnesses_Startup\<close> and
    \<open>Witnesses_Live\<close>: sample data, up to a running server with a request in flight, and instances of the
    theorems with hypotheses; this theory: properties of the whole build.

  \<^bold>\<open>Conventions.\<close>  Definitions keep the Go names.  A struct is a record, a Go error a value of an
  error datatype in a sum, a nil pointer \<open>None\<close>.  Strings are byte lists.  \<open>int64\<close> and \<open>int\<close> are
  integers with \<open>wrap64\<close> written where arithmetic can leave the range.  A Go map is a function
  when only read by key and an association list when iterated, its order standing for the
  iteration order, so a theorem about it holds for every order.  Loops are folds or structural
  recursion; the only loops that need a measure, such as \<open>trim_left\<close>, \<open>runes\<close> and \<open>replaceLoop\<close>,
  shorten their input, so no fuel is used anywhere.  The goroutines, which run for ever, are step
  relations; an operation under a mutex is one step, and the outcomes of network, disk and clock are
  chosen freely at each step, so a theorem about runs holds for every interleaving and every fault.
  \<open>Build\<close> reads the cache twice, for the payloads and for their headers, so it takes two readers.
  What is not under \<open>src/\<close> is a parameter: the
  YAML parser \<open>unmarshal\<close>, \<open>net/url\<close>, the CSV reader's records, the network exchange, the
  time-zone table, Unicode case mapping outside ASCII \<open>ulower\<close>, the conversion of an out-of-range
  float to \<open>int64\<close> \<open>cvt\<close>, JSON and the YAML encoder, SHA-256, file-system notifications.  The log lines
  of \<open>Auth\<close>, \<open>Routes\<close>, \<open>Pipeline\<close>, \<open>Startup_Log\<close> and \<open>Lifecycle\<close> are modelled, level, message and fields;
  those of the loaders, the cache, the scheduler and the token watcher are left out.

  \<^bold>\<open>What is shown.\<close>
  \<^item> The build: it returns exactly when the cached payloads parse (\<open>Build_fails_iff\<close>), and the rule
    slices are parallel and end with \<open>MATCH\<close> (\<open>Build_rules\<close>).  \<open>RULE-SET\<close> rules have their providers,
    those of the operator's custom rules apart (\<open>served_rulesets_backed\<close>).  Under \<open>inputsOk\<close>, served
    proxy names are distinct when no source is called \<open>via\<close> (\<open>served_proxy_names_distinct\<close>), and the
    members of served groups exist, except those in \<open>danglingMembers\<close>, which named nothing in
    their own source already (\<open>served_groups_closed\<close>).  So are names, members and the last rule in
    the document a client parses (\<open>served_document\<close>), and the log counts and names what is served
    (\<open>BuildLog_accounts\<close>).  \<open>inputsOk\<close> says that entries are named, that no source lists a proxy name
    twice and that names of generated groups are not taken; the loaders check it of rows and own
    entries, in part, but nothing checks it of an upstream payload, so it is a hypothesis.
  \<^item> The passes: each has its functional behaviour on every input (order, multiplicity, what is
    left alone) and the reference it implements: field-wise rule rewriting against byte offsets
    (\<open>retargetRule_exact\<close>), the partition of proxies into countries and the continent roll-up, the
    routes of the fan-out, the union of groups, the priority stream of rules.
  \<^item> Traffic: the interface \<open>snapshotter\<close> is a locale interpreted on the file store and the
    in-memory store; from it one allowance is served per local day
    (\<open>allowance_pinned_for_the_day\<close>), for requests one after the other, counters that are not negative
    and a save that succeeds.  One save at a time is atomic at
    every system call and makes at most six of them (\<open>lone_save_atomic\<close>); several at once never leave a mixture of snapshots
    (\<open>live_snapshots_genuine\<close>), but can leave the file empty for a while, since they share a temporary file
    (\<open>concurrent_saves_not_atomic\<close>).  The float split
    adds up, and the float day count is exact while an expiry lies less than \<open>2 ^ 36\<close> seconds
    (over two thousand years) ahead, the bound in \<open>plausible\<close>: up to it \<open>float64\<close> division by 86400
    cannot round to or across an integer.
  \<^item> Inputs: loaded rows are well-formed, schema errors are exact, header parsing inverts the
    emitted format, a fetch yields a payload exactly on a 2xx Clash document; what an accepted
    configuration guarantees (\<open>LoadConfig_wf\<close>) and that a refusal names its reason; which own-proxies
    files are accepted; loading tokens is all or nothing and lookups answer for the live ones
    (\<open>LoadTokens_lookup\<close>), and as long as its loads do not overlap the watcher never misses an edit (\<open>watcher_in_step\<close>; with overlapping loads it can,
    \<open>overlapping_loads_lose_edit\<close>).
  \<^item> Cache: the interface \<open>payload_store\<close> is a locale interpreted on the cache; a refresh on every
    branch (\<open>RefreshIfStale_spec\<close>), every cached payload is parsed (\<open>cached_payloads_parsed\<close>), a
    restart keeps the payloads (\<open>restart_keeps_payloads\<close>).
  \<^item> Scheduler: readiness only after the bootstrap unless the context is cancelled, a bound on the bootstrap steps of a run (each
    enabled source takes at most two steps per attempt and two more, and \<open>Start\<close> one to return), completion from
    every state, states that only move forward, the stale-on-error window, tickers that cannot
    panic while the intervals stay below the overflow of nanoseconds.
  \<^item> Output: the served document keeps the merged configuration (\<open>Render_document\<close>), fields are in
    wire order, escapes in double-quoted strings are undone, the headers parse back.
  \<^item> Serving: outside \<open>/health\<close> an unauthorised request learns nothing and changes nothing, the health route agrees with
    the subscription handler, a start gives no token away (\<open>startup_keeps_tokens_secret\<close>).
  \<^item> The running server, in every interleaving: the levels warming up, failed closed and open are only
    left upwards, and each answer is that of the levels at its looks (\<open>service_level_refined\<close>); outside
    \<open>/health\<close> a 200 needs a live token, an allowed user agent and an open coordinator
    (\<open>live_answers_authorised\<close>); the answer of an open server to an authorised request is the rendered
    configuration, or 500 when it cannot be rendered (\<open>live_open_serves\<close>); a
    token without a live record is locked out once the watcher has caught up
    (\<open>revoked_token_locked_out\<close>); and a request alone is a call of the handlers
    (\<open>flight_alone\<close>).  These follow from one locale, \<open>flight_monitor\<close>: what the steps of the scheduler
    and of the watcher keep is witnessed by every request that arrives while it holds.
  \<^item> The life cycle: the result of \<open>Run\<close> says why it returned (\<open>Run_result\<close>); its goroutines make at most
    five and two steps, and after a signal it is blocked by nothing but the requests it drains, for at
    most its deadline (\<open>Run_returns\<close>).

  \<^bold>\<open>Not modelled\<close>: \<open>net/http\<close> beyond what its documentation promises of \<open>ListenAndServe\<close> and
  \<open>Shutdown\<close>; \<open>ServeMux\<close> is modelled for the patterns the source registers, without wildcards in the
  configured prefix, and for clean request paths; signals are the cancellation of the context; the
  test helpers \<open>MapEnv\<close> and \<open>mustParseYAMLNode\<close>; the texts of errors that come from the operating
  system or a library.
\<close>

section \<open>The served configuration\<close>

text \<open>C4: every proxy of the served configuration can be addressed.  Assume the cached payloads parse,
  every proxy and group in them is named and no source lists a proxy name twice (the code does not
  check that of a payload), the own entries are what their loader accepts, no source is called
  \<open>via\<close>, the prefix of the fanned-out copies, and neither an own group nor the selector has a name
  reserved for generated groups.  Then a build returns; no collision is recorded (the namespace
  prefixes keep the sources apart), and the names of all served proxies (own, upstream and
  fanned-out) are pairwise distinct.\<close>

theorem served_proxy_names_distinct:
  assumes "parseable unmarshal get (p_subscriptions p)" and "inputsOk unmarshal get p"
    and "''via'' \<notin> set (map row_Name (p_subscriptions p))"
  shows "\<exists>mc st'. Build ulower cvt unmarshal get get' ops p clk1 clk2 st = (Inr mc, st') \<and>
     mc_Collisions mc = [] \<and> distinct (map node_name (mc_Proxies mc))"
proof -
  obtain mc st' where b: "Build ulower cvt unmarshal get get' ops p clk1 clk2 st = (Inr mc, st')"
    using Build_total [of ulower cvt unmarshal get get' ops p clk1 clk2 st] assms(1) by blast
  obtain sg where sg: "buildStages ulower unmarshal get p = Some sg"
    and mc: "mc_Collisions mc = sg_collisions sg"
      "mc_Proxies mc = sg_merged sg @ fst (AppendFanoutProxies (sg_own sg) (sg_groups sg) (p_proxiesGroupName p))"
    using Build_stages [OF b] by blast
  have "mc_Collisions mc = []" using mc(1) merged_names(1) [OF sg assms(2)] by simp
  moreover have "distinct (map node_name (mc_Proxies mc))"
    unfolding mc(2) by (rule served_names_distinct [OF sg assms(2,3)])
  ultimately show ?thesis using b by blast
qed

theorem served_proxy_names_distinct_witness:
  "\<exists>mc st'. Build id (\<lambda>_. 0) sampleUnmarshal sampleGet sampleGet None samplePipeline 0 0 () = (Inr mc, st') \<and>
     mc_Collisions mc = [] \<and> distinct (map node_name (mc_Proxies mc))"
  by (rule served_proxy_names_distinct [OF sample_parseable sample_inputsOk])
    (simp add: samplePipeline_def NewPipeline_def)

text \<open>C5: the build makes no reference dangle.  Assume the cached payloads parse, every proxy and group in
  them is named, no source lists a proxy name twice and the names reserved for generated groups are
  not taken.  Then after namespacing, merging, the generated groups, fan-out and pruning every member
  of every served group is a built-in target, a served proxy, a served group, or a member that
  already named nothing in its own source (or own file), under the name namespacing gave it; without
  such members in the inputs every served reference resolves.\<close>

theorem served_groups_closed:
  assumes "parseable unmarshal get (p_subscriptions p)" and "inputsOk unmarshal get p"
  shows "\<exists>mc st'. Build ulower cvt unmarshal get get' ops p clk1 clk2 st = (Inr mc, st') \<and>
     list_all (\<lambda>g. set (members_of g) \<subseteq> builtinTargets \<union> node_name ` set (mc_Proxies mc) \<union>
        node_name ` set (mc_ProxyGroups mc) \<union> danglingMembers unmarshal get p) (mc_ProxyGroups mc)"
proof -
  obtain mc st' where b: "Build ulower cvt unmarshal get get' ops p clk1 clk2 st = (Inr mc, st')"
    using Build_total [of ulower cvt unmarshal get get' ops p clk1 clk2 st] assms(1) by blast
  have "set (members_of g) \<subseteq> builtinTargets \<union> node_name ` set (mc_Proxies mc) \<union>
      node_name ` set (mc_ProxyGroups mc) \<union> danglingMembers unmarshal get p" if "g \<in> set (mc_ProxyGroups mc)" for g
    using served_members [OF b assms(2) that] by (simp only: Un_ac)
  with b show ?thesis unfolding list_all_iff by blast
qed

theorem served_groups_closed_witness:
  "\<exists>mc st'. Build id (\<lambda>_. 0) sampleUnmarshal sampleGet sampleGet None samplePipeline 0 0 () = (Inr mc, st') \<and>
     list_all (\<lambda>g. set (members_of g) \<subseteq>
        builtinTargets \<union> node_name ` set (mc_Proxies mc) \<union> node_name ` set (mc_ProxyGroups mc)) (mc_ProxyGroups mc)"
  using served_groups_closed [OF sample_parseable sample_inputsOk, of id "\<lambda>_. 0" sampleGet None 0 0 "()"]
  unfolding sample_danglingMembers Un_empty_right .

end
